(* ===== verification/Prelude.thy ===== *)
theory Prelude
  imports Main "HOL-Library.Word"
begin

unbundle bit_operations_syntax

text \<open>
  Shared ground of the development: the names of the machine integer types of the C sources,
  the type of a computation that may never give control back, the bounded polling loop that
  several drivers use, and the generic facts on bits, words and lists that the component
  theories share.

  Theorem collections:
  \<^item> \<open>trace_simps\<close>: the equations that compute the bus traffic of a driver call;
  \<^item> \<open>mask_simps\<close>: membership of a bit position in the constant masks of the sources.
\<close>

named_theorems trace_simps \<open>equations that compute the bus traffic of a driver call\<close>
named_theorems mask_simps \<open>bit positions of constant masks\<close>

section \<open>Machine integers\<close>

type_synonym u8 = "8 word"
type_synonym u16 = "16 word"
type_synonym u32 = "32 word"

section \<open>Computations that may hang\<close>

text \<open>
  \<open>None\<close> stands for a call that never returns: the firmware reports a fatal error by an
  endless loop (\<open>My_Error_Handler\<close>, \<open>Error_Handler\<close>), so everything after it is not executed.
\<close>

type_synonym 'a may_hang = "'a option"

section \<open>Sequences of steps\<close>

text \<open>Steps in order; the first one that hangs, hangs the sequence.\<close>

fun steps :: "('s \<Rightarrow> 's option) list \<Rightarrow> 's \<Rightarrow> 's option" where
  "steps [] s = Some s"
| "steps (f # fs) s = (case f s of None \<Rightarrow> None | Some s' \<Rightarrow> steps fs s')"

lemma steps_append:
  "steps (fs @ gs) s = (case steps fs s of None \<Rightarrow> None | Some s' \<Rightarrow> steps gs s')"
  by (induction fs arbitrary: s) (auto split: option.split)

lemma steps_upto_Suc:
  "steps (map f [0..<Suc m]) s = (case steps (map f [0..<m]) s of None \<Rightarrow> None | Some s' \<Rightarrow> f m s')"
  by (simp add: steps_append split: option.split)

section \<open>Bounded polling\<close>

text \<open>
  The loop \<^verbatim>\<open>do { if (probe()) return 1; loop--; } while (loop > 0); return 0;\<close> over an explicit
  state. The argument \<open>n\<close> is the number of further probes after the first one, so a loop counter
  initialised to 10 is \<open>n = 9\<close>: a \<open>do\<close> loop always probes at least once.
\<close>

fun poll :: "('s \<Rightarrow> bool \<times> 's) \<Rightarrow> nat \<Rightarrow> 's \<Rightarrow> u8 \<times> 's" where
  "poll probe n s =
     (case probe s of (ok, s') \<Rightarrow>
        if ok then (1, s')
        else (case n of 0 \<Rightarrow> (0, s') | Suc m \<Rightarrow> poll probe m s'))"

declare poll.simps [simp del]

text \<open>The state after \<open>k\<close> probes, whatever they answered, and the answer of probe number \<open>k\<close>.\<close>

fun probed :: "('s \<Rightarrow> bool \<times> 's) \<Rightarrow> nat \<Rightarrow> 's \<Rightarrow> 's" where
  "probed probe 0 s = s"
| "probed probe (Suc k) s = probed probe k (snd (probe s))"

definition answer :: "('s \<Rightarrow> bool \<times> 's) \<Rightarrow> 's \<Rightarrow> nat \<Rightarrow> bool" where
  "answer probe s k = fst (probe (probed probe k s))"

lemma answer_0 [simp]: "answer probe s 0 = fst (probe s)"
  by (simp add: answer_def)

lemma answer_Suc [simp]: "answer probe s (Suc k) = answer probe (snd (probe s)) k"
  by (simp add: answer_def)

text \<open>The loop stops at the first positive answer, and there are at most \<open>n + 1\<close> probes.\<close>

lemma poll_hit:
  assumes "answer probe s k" and "\<And>j. j < k \<Longrightarrow> \<not> answer probe s j" and "k \<le> n"
  shows "poll probe n s = (1, probed probe (Suc k) s)"
  using assms
proof (induction k arbitrary: n s)
  case 0
  then show ?case by (simp add: poll.simps[of probe n] case_prod_unfold)
next
  case (Suc k)
  from Suc.prems(3) obtain m where n: "n = Suc m" by (cases n) auto
  have miss: "\<not> fst (probe s)" using Suc.prems(2)[of 0] by simp
  have "poll probe m (snd (probe s)) = (1, probed probe (Suc k) (snd (probe s)))"
  proof (rule Suc.IH)
    show "answer probe (snd (probe s)) k" using Suc.prems(1) by simp
    show "\<not> answer probe (snd (probe s)) j" if "j < k" for j
      using Suc.prems(2)[of "Suc j"] that by simp
    show "k \<le> m" using Suc.prems(3) n by simp
  qed
  then show ?case using miss n by (simp add: poll.simps[of probe "Suc m"] case_prod_unfold)
qed

lemma poll_miss:
  assumes "\<And>j. j \<le> n \<Longrightarrow> \<not> answer probe s j"
  shows "poll probe n s = (0, probed probe (Suc n) s)"
  using assms
proof (induction n arbitrary: s)
  case 0
  from 0[of 0] show ?case by (simp add: poll.simps[of probe 0] case_prod_unfold)
next
  case (Suc n)
  have miss: "\<not> fst (probe s)" using Suc.prems[of 0] by simp
  have "poll probe n (snd (probe s)) = (0, probed probe (Suc n) (snd (probe s)))"
  proof (rule Suc.IH)
    show "\<not> answer probe (snd (probe s)) j" if "j \<le> n" for j
      using Suc.prems[of "Suc j"] that by simp
  qed
  then show ?case using miss by (simp add: poll.simps[of probe "Suc n"] case_prod_unfold)
qed

lemma poll_cases:
  obtains (hit) k where "k \<le> n" and "answer probe s k"
      and "\<And>j. j < k \<Longrightarrow> \<not> answer probe s j"
      and "poll probe n s = (1, probed probe (Suc k) s)"
  | (miss) "\<And>j. j \<le> n \<Longrightarrow> \<not> answer probe s j"
      and "poll probe n s = (0, probed probe (Suc n) s)"
proof (cases "\<exists>k\<le>n. answer probe s k")
  case True
  then obtain k0 where k0: "k0 \<le> n" "answer probe s k0" by blast
  define k where "k = (LEAST k. answer probe s k)"
  have a: "answer probe s k" unfolding k_def using k0(2) by (rule LeastI)
  have least: "\<not> answer probe s j" if "j < k" for j
    using that unfolding k_def by (rule not_less_Least)
  have "k \<le> k0" unfolding k_def using k0(2) by (rule Least_le)
  then have le: "k \<le> n" using k0(1) by simp
  show ?thesis by (rule hit[OF le a least poll_hit[OF a least le]])
next
  case False
  then have no: "\<not> answer probe s j" if "j \<le> n" for j using that by blast
  show ?thesis by (rule miss[OF no poll_miss[OF no]])
qed

text \<open>The loop as a search: the first positive answer among the first \<open>n + 1\<close> ones decides.\<close>

lemma poll_find:
  "poll probe n s =
     (case find (answer probe s) [0..<Suc n] of
        Some k \<Rightarrow> (1, probed probe (Suc k) s)
      | None \<Rightarrow> (0, probed probe (Suc n) s))"
proof (cases rule: poll_cases[of n probe s])
  case (hit k)
  have "find (answer probe s) [0..<Suc n] = Some k"
    unfolding find_Some_iff using hit(1-3)
    by (intro exI[of _ k]) (simp del: upt_Suc)
  then show ?thesis using hit(4) by simp
next
  case miss
  have "find (answer probe s) [0..<Suc n] = None"
    unfolding find_None_iff using miss(1) by (auto simp del: upt_Suc)
  then show ?thesis using miss(2) by simp
qed

section \<open>Bits and bytes\<close>

lemma unat_u32_less: "unat (w :: u32) < 2 ^ 32"
  using unsigned_less[of w, where ?'a = nat] by simp

lemma unat_pow2_u32: "k < 32 \<Longrightarrow> unat ((2 :: u32) ^ k) = 2 ^ k"
proof -
  assume k: "k < 32"
  have "unat ((2 :: u32) ^ k) = unat (of_nat (2 ^ k) :: u32)" by simp
  also have "\<dots> = 2 ^ k mod 2 ^ 32" by (simp only: unat_of_nat) simp
  also have "\<dots> = 2 ^ k" using k power_strict_increasing[of k 32 "2 :: nat"] by (intro mod_less) simp
  finally show ?thesis .
qed

lemma bit_u8_less: "bit (w :: u8) n \<Longrightarrow> n < 8"
  using bit_imp_le_length by fastforce

lemma bit_u16_less: "bit (w :: u16) n \<Longrightarrow> n < 16"
  using bit_imp_le_length by fastforce

lemma bit_u32_less: "bit (w :: u32) n \<Longrightarrow> n < 32"
  using bit_imp_le_length by fastforce

lemma bit_u8_ge: "8 \<le> n \<Longrightarrow> \<not> bit (w :: u8) n"
  using bit_u8_less by (metis not_less)

lemma word_eq_of_unat: "unat w = k \<Longrightarrow> w = of_nat k"
  by auto

lemma less_8_cases:
  "(n::nat) < 8 \<Longrightarrow> n = 0 \<or> n = 1 \<or> n = 2 \<or> n = 3 \<or> n = 4 \<or> n = 5 \<or> n = 6 \<or> n = 7"
  by linarith

text \<open>An 8-bit word is equal to another one if its eight bits are.\<close>

lemma u8_eqI:
  assumes "bit v 0 = bit w 0" "bit v 1 = bit w 1" "bit v 2 = bit w 2" "bit v 3 = bit w 3"
    and "bit v 4 = bit w 4" "bit v 5 = bit w 5" "bit v 6 = bit w 6" "bit v 7 = bit w 7"
  shows "(v :: u8) = w"
proof (rule bit_word_eqI)
  fix n assume "n < LENGTH(8)"
  then have "n < 8" by simp
  from less_8_cases[OF this] show "bit v n = bit w n" using assms by (elim disjE) simp_all
qed

lemma bit_int_3 [mask_simps]: "bit (3 :: int) n \<longleftrightarrow> n < 2"
proof -
  have "(3 :: int) = mask 2" by (simp add: mask_numeral)
  then show ?thesis by (metis bit_mask_iff possible_bit_int)
qed

lemma bit_int_255 [mask_simps]: "bit (255 :: int) n \<longleftrightarrow> n < 8"
proof -
  have "(255 :: int) = mask 8" by (simp add: mask_numeral)
  then show ?thesis by (metis bit_mask_iff possible_bit_int)
qed

lemma bit_int_8 [mask_simps]: "bit (8 :: int) n \<longleftrightarrow> n = 3"
proof -
  have "(8 :: int) = 2 ^ 3" by simp
  then have "bit (8 :: int) n \<longleftrightarrow> bit (2 ^ 3 :: int) n" by (simp only:)
  also have "\<dots> \<longleftrightarrow> n = 3" by (simp only: bit_exp_iff possible_bit_int) auto
  finally show ?thesis .
qed

lemma bit_int_224 [mask_simps]: "bit (224 :: int) n \<longleftrightarrow> 5 \<le> n \<and> n < 8"
proof -
  have "(224 :: int) = push_bit 5 (mask 3)" by (simp add: mask_numeral push_bit_eq_mult)
  then have "bit (224 :: int) n \<longleftrightarrow> bit (push_bit 5 (mask 3 :: int)) n" by (simp only:)
  also have "\<dots> \<longleftrightarrow> 5 \<le> n \<and> n < 8"
    by (simp only: bit_push_bit_iff_int bit_mask_iff possible_bit_int) auto
  finally show ?thesis .
qed

lemma less_pow2_bit:
  fixes w :: u32
  assumes "w < 2 ^ k" "k < 32" "bit w n"
  shows "n < k"
proof -
  have "unat w < 2 ^ k"
    using assms(1,2) by (simp add: word_less_nat_alt unat_pow2_u32)
  then have "take_bit k (unat w) = unat w" by (simp add: take_bit_nat_eq_self)
  moreover have "bit (unat w) n" using assms(3) by (simp add: bit_unsigned_iff)
  ultimately show ?thesis by (metis bit_take_bit_iff)
qed

section \<open>Positions in a ring\<close>

lemma mod_shift:
  assumes "(a :: nat) < c" "i < c"
  shows "(a + i) mod c = (if a + i < c then a + i else a + i - c)"
  using assms by (simp add: mod_if)

lemma mod_cap_inj:
  assumes "(a + i) mod c = (a + j) mod c" "i < c" "j < (c :: nat)"
  shows "i = j"
proof -
  have "(int a + int i) mod int c = (int a + int j) mod int c"
    using assms(1) by (metis of_nat_add of_nat_mod)
  then have "int c dvd int i - int j" by (simp add: mod_eq_dvd_iff)
  moreover have "\<bar>int i - int j\<bar> < int c" using assms(2,3) by linarith
  ultimately have "int i - int j = 0" using zdvd_not_zless[of "\<bar>int i - int j\<bar>" "int c"] by fastforce
  then show ?thesis by simp
qed

end
