(* ===== verification/Mcp2515.thy ===== *)
theory Mcp2515
  imports Prelude
begin

text \<open>
  The SPI driver of the MCP2515 CAN controller (\<^verbatim>\<open>CM4/Drivers/MCP2515/src/MCP2515.c\<close>).

  Every access of the driver to the controller is a call of \<open>HAL_SPI_Transmit\<close> or
  \<open>HAL_SPI_Receive\<close> on one SPI port. The state of the model is the sequence of these calls, oldest
  first. The chip at the other end of the wire and the SPI peripheral are the parameter of the
  model (\<open>spi_env\<close>): any function that says, from everything exchanged so far, which bytes the next
  transfer clocks in and whether the port reports itself ready. Nothing is assumed of it in the
  definitions, so a chip that answers garbage, and a receive that fails and leaves the buffer
  as it was, are covered. The chip select macros of the driver expand to nothing
  and leave no event.
\<close>

section \<open>The SPI port\<close>

datatype spi_op =
    SpiTx "u8 list"  \<comment> \<open>\<open>HAL_SPI_Transmit\<close> of these bytes\<close>
  | SpiRx "u8 list"  \<comment> \<open>\<open>HAL_SPI_Receive\<close> that delivered these bytes\<close>

type_synonym spi_trace = "spi_op list"

record spi_env =
  spi_ready :: "spi_trace \<Rightarrow> nat \<Rightarrow> bool"
  spi_miso :: "spi_trace \<Rightarrow> nat \<Rightarrow> u8"

text \<open>\<open>spi_ready env tr k\<close> is the answer of the \<open>k\<close>-th query of the port state after \<open>tr\<close>;
  \<open>spi_miso env tr i\<close> is byte number \<open>i\<close> of the transfer that follows \<open>tr\<close>.\<close>

definition SPI_Tx :: "u8 \<Rightarrow> spi_trace \<Rightarrow> spi_trace" where
  "SPI_Tx data tr = tr @ [SpiTx [data]]"

definition SPI_TxBuffer :: "u8 list \<Rightarrow> u8 \<Rightarrow> spi_trace \<Rightarrow> spi_trace option" where
  \<comment> \<open>\<open>None\<close>: the transfer reads past the end of the buffer\<close>
  "SPI_TxBuffer buffer len tr =
     (if unat len \<le> length buffer then Some (tr @ [SpiTx (take (unat len) buffer)]) else None)"

definition SPI_Rx :: "spi_env \<Rightarrow> spi_trace \<Rightarrow> u8 \<times> spi_trace" where
  "SPI_Rx env tr = (let retVal = spi_miso env tr 0 in (retVal, tr @ [SpiRx [retVal]]))"

definition SPI_RxBuffer :: "spi_env \<Rightarrow> u8 \<Rightarrow> spi_trace \<Rightarrow> u8 list \<times> spi_trace" where
  "SPI_RxBuffer env len tr =
     (let bytes = map (spi_miso env tr) [0..<unat len] in (bytes, tr @ [SpiRx bytes]))"

section \<open>Instructions and registers\<close>

definition MCP2515_RESET :: u8 where "MCP2515_RESET = 0xC0"
definition MCP2515_READ :: u8 where "MCP2515_READ = 0x03"
definition MCP2515_READ_RXB0SIDH :: u8 where "MCP2515_READ_RXB0SIDH = 0x90"
definition MCP2515_READ_RXB1SIDH :: u8 where "MCP2515_READ_RXB1SIDH = 0x94"
definition MCP2515_WRITE :: u8 where "MCP2515_WRITE = 0x02"
definition MCP2515_LOAD_TXB0SIDH :: u8 where "MCP2515_LOAD_TXB0SIDH = 0x40"
definition MCP2515_LOAD_TXB1SIDH :: u8 where "MCP2515_LOAD_TXB1SIDH = 0x42"
definition MCP2515_LOAD_TXB2SIDH :: u8 where "MCP2515_LOAD_TXB2SIDH = 0x44"
definition MCP2515_RTS_TX0 :: u8 where "MCP2515_RTS_TX0 = 0x81"
definition MCP2515_RTS_TX1 :: u8 where "MCP2515_RTS_TX1 = 0x82"
definition MCP2515_RTS_TX2 :: u8 where "MCP2515_RTS_TX2 = 0x84"
definition MCP2515_READ_STATUS :: u8 where "MCP2515_READ_STATUS = 0xA0"
definition MCP2515_RX_STATUS :: u8 where "MCP2515_RX_STATUS = 0xB0"
definition MCP2515_BIT_MOD :: u8 where "MCP2515_BIT_MOD = 0x05"

definition MCP2515_RXF0SIDH :: u8 where "MCP2515_RXF0SIDH = 0x00"
definition MCP2515_RXF0EID0 :: u8 where "MCP2515_RXF0EID0 = 0x03"
definition MCP2515_RXF1SIDH :: u8 where "MCP2515_RXF1SIDH = 0x04"
definition MCP2515_RXF1EID0 :: u8 where "MCP2515_RXF1EID0 = 0x07"
definition MCP2515_RXF2SIDH :: u8 where "MCP2515_RXF2SIDH = 0x08"
definition MCP2515_RXF2EID0 :: u8 where "MCP2515_RXF2EID0 = 0x0B"
definition MCP2515_CANSTAT :: u8 where "MCP2515_CANSTAT = 0x0E"
definition MCP2515_CANCTRL :: u8 where "MCP2515_CANCTRL = 0x0F"
definition MCP2515_RXF3SIDH :: u8 where "MCP2515_RXF3SIDH = 0x10"
definition MCP2515_RXF3EID0 :: u8 where "MCP2515_RXF3EID0 = 0x13"
definition MCP2515_RXF4SIDH :: u8 where "MCP2515_RXF4SIDH = 0x14"
definition MCP2515_RXF4EID0 :: u8 where "MCP2515_RXF4EID0 = 0x17"
definition MCP2515_RXF5SIDH :: u8 where "MCP2515_RXF5SIDH = 0x18"
definition MCP2515_RXF5EID0 :: u8 where "MCP2515_RXF5EID0 = 0x1B"
definition MCP2515_RXM0SIDH :: u8 where "MCP2515_RXM0SIDH = 0x20"
definition MCP2515_RXM0EID0 :: u8 where "MCP2515_RXM0EID0 = 0x23"
definition MCP2515_RXM1SIDH :: u8 where "MCP2515_RXM1SIDH = 0x24"
definition MCP2515_RXM1EID0 :: u8 where "MCP2515_RXM1EID0 = 0x27"
definition MCP2515_CNF3 :: u8 where "MCP2515_CNF3 = 0x28"
definition MCP2515_CNF2 :: u8 where "MCP2515_CNF2 = 0x29"
definition MCP2515_CNF1 :: u8 where "MCP2515_CNF1 = 0x2A"
definition MCP2515_CANINTE :: u8 where "MCP2515_CANINTE = 0x2B"
definition MCP2515_CANINTF :: u8 where "MCP2515_CANINTF = 0x2C"
definition MCP2515_EFLG :: u8 where "MCP2515_EFLG = 0x2D"
definition MCP2515_RXB0CTRL :: u8 where "MCP2515_RXB0CTRL = 0x60"
definition MCP2515_RXB1CTRL :: u8 where "MCP2515_RXB1CTRL = 0x70"

lemmas mcp2515_insn_defs =
  MCP2515_RESET_def MCP2515_READ_def MCP2515_READ_RXB0SIDH_def MCP2515_READ_RXB1SIDH_def
  MCP2515_WRITE_def MCP2515_LOAD_TXB0SIDH_def MCP2515_LOAD_TXB1SIDH_def
  MCP2515_LOAD_TXB2SIDH_def MCP2515_RTS_TX0_def MCP2515_RTS_TX1_def MCP2515_RTS_TX2_def
  MCP2515_READ_STATUS_def MCP2515_RX_STATUS_def MCP2515_BIT_MOD_def

lemmas mcp2515_reg_defs =
  MCP2515_RXF0SIDH_def MCP2515_RXF0EID0_def MCP2515_RXF1SIDH_def MCP2515_RXF1EID0_def
  MCP2515_RXF2SIDH_def MCP2515_RXF2EID0_def MCP2515_CANSTAT_def MCP2515_CANCTRL_def
  MCP2515_RXF3SIDH_def MCP2515_RXF3EID0_def MCP2515_RXF4SIDH_def MCP2515_RXF4EID0_def
  MCP2515_RXF5SIDH_def MCP2515_RXF5EID0_def MCP2515_RXM0SIDH_def MCP2515_RXM0EID0_def
  MCP2515_RXM1SIDH_def MCP2515_RXM1EID0_def MCP2515_CNF3_def MCP2515_CNF2_def
  MCP2515_CNF1_def MCP2515_CANINTE_def MCP2515_CANINTF_def MCP2515_EFLG_def
  MCP2515_RXB0CTRL_def MCP2515_RXB1CTRL_def

section \<open>Operations\<close>

definition MCP2515_Reset :: "spi_trace \<Rightarrow> spi_trace" where
  "MCP2515_Reset tr = SPI_Tx MCP2515_RESET tr"

definition MCP2515_ReadByte :: "spi_env \<Rightarrow> u8 \<Rightarrow> spi_trace \<Rightarrow> u8 \<times> spi_trace" where
  "MCP2515_ReadByte env address tr =
     SPI_Rx env (SPI_Tx address (SPI_Tx MCP2515_READ tr))"

definition MCP2515_ReadRxSequence ::
    "spi_env \<Rightarrow> u8 \<Rightarrow> u8 \<Rightarrow> spi_trace \<Rightarrow> u8 list \<times> spi_trace" where
  "MCP2515_ReadRxSequence env instruction len tr =
     SPI_RxBuffer env len (SPI_Tx instruction tr)"

definition MCP2515_WriteByte :: "u8 \<Rightarrow> u8 \<Rightarrow> spi_trace \<Rightarrow> spi_trace" where
  "MCP2515_WriteByte address data tr =
     SPI_Tx data (SPI_Tx address (SPI_Tx MCP2515_WRITE tr))"

definition MCP2515_WriteByteSequence ::
    "u8 \<Rightarrow> u8 \<Rightarrow> u8 list \<Rightarrow> spi_trace \<Rightarrow> spi_trace option" where
  "MCP2515_WriteByteSequence startAddress endAddress data tr =
     SPI_TxBuffer data (endAddress - startAddress + 1)
       (SPI_Tx startAddress (SPI_Tx MCP2515_WRITE tr))"

definition MCP2515_LoadTxSequence ::
    "u8 \<Rightarrow> u8 list \<Rightarrow> u8 \<Rightarrow> u8 list \<Rightarrow> spi_trace \<Rightarrow> spi_trace option" where
  "MCP2515_LoadTxSequence instruction idReg dlc data tr =
     (case SPI_TxBuffer idReg 4 (SPI_Tx instruction tr) of
        None \<Rightarrow> None
      | Some tr' \<Rightarrow> SPI_TxBuffer data dlc (SPI_Tx dlc tr'))"

definition MCP2515_LoadTxBuffer :: "u8 \<Rightarrow> u8 \<Rightarrow> spi_trace \<Rightarrow> spi_trace" where
  "MCP2515_LoadTxBuffer instruction data tr = SPI_Tx data (SPI_Tx instruction tr)"

definition MCP2515_RequestToSend :: "u8 \<Rightarrow> spi_trace \<Rightarrow> spi_trace" where
  "MCP2515_RequestToSend instruction tr = SPI_Tx instruction tr"

definition MCP2515_ReadStatus :: "spi_env \<Rightarrow> spi_trace \<Rightarrow> u8 \<times> spi_trace" where
  "MCP2515_ReadStatus env tr = SPI_Rx env (SPI_Tx MCP2515_READ_STATUS tr)"

definition MCP2515_GetRxStatus :: "spi_env \<Rightarrow> spi_trace \<Rightarrow> u8 \<times> spi_trace" where
  "MCP2515_GetRxStatus env tr = SPI_Rx env (SPI_Tx MCP2515_RX_STATUS tr)"

definition MCP2515_BitModify :: "u8 \<Rightarrow> u8 \<Rightarrow> u8 \<Rightarrow> spi_trace \<Rightarrow> spi_trace" where
  "MCP2515_BitModify address mask' data tr =
     SPI_Tx data (SPI_Tx mask' (SPI_Tx address (SPI_Tx MCP2515_BIT_MOD tr)))"

text \<open>The readiness poll of \<open>MCP2515_Initialize\<close> runs over the number of queries made so far.\<close>

definition MCP2515_Initialize :: "spi_env \<Rightarrow> spi_trace \<Rightarrow> u8" where
  "MCP2515_Initialize env tr = fst (poll (\<lambda>k. (spi_ready env tr k, Suc k)) 9 0)"

text \<open>One turn of the loops that wait for a mode change: read \<open>CANSTAT\<close>, compare its mode bits.\<close>

definition mode_probe :: "spi_env \<Rightarrow> u8 \<Rightarrow> spi_trace \<Rightarrow> bool \<times> spi_trace" where
  "mode_probe env mode tr =
     (case MCP2515_ReadByte env MCP2515_CANSTAT tr of (v, tr') \<Rightarrow> (v AND 0xE0 = mode, tr'))"

definition MCP2515_SetConfigMode :: "spi_env \<Rightarrow> spi_trace \<Rightarrow> u8 \<times> spi_trace" where
  "MCP2515_SetConfigMode env tr =
     poll (mode_probe env 0x80) 9 (MCP2515_WriteByte MCP2515_CANCTRL 0x80 tr)"

definition MCP2515_SetNormalMode :: "spi_env \<Rightarrow> spi_trace \<Rightarrow> u8 \<times> spi_trace" where
  "MCP2515_SetNormalMode env tr =
     poll (mode_probe env 0x00) 9 (MCP2515_WriteByte MCP2515_CANCTRL 0x00 tr)"

definition MCP2515_SetLoopbackMode :: "spi_env \<Rightarrow> spi_trace \<Rightarrow> u8 \<times> spi_trace" where
  "MCP2515_SetLoopbackMode env tr =
     poll (mode_probe env 0x40) 9 (MCP2515_WriteByte MCP2515_CANCTRL 0x40 tr)"

definition MCP2515_SetSleepMode :: "spi_env \<Rightarrow> spi_trace \<Rightarrow> u8 \<times> spi_trace" where
  "MCP2515_SetSleepMode env tr =
     poll (mode_probe env 0x20) 9 (MCP2515_WriteByte MCP2515_CANCTRL 0x20 tr)"

section \<open>The traffic of one call\<close>

lemma SPI_Rx_eq [trace_simps]:
  "SPI_Rx env tr = (spi_miso env tr 0, tr @ [SpiRx [spi_miso env tr 0]])"
  by (simp add: SPI_Rx_def Let_def)

lemma SPI_TxBuffer_fits [trace_simps]:
  "unat len \<le> length buffer \<Longrightarrow>
   SPI_TxBuffer buffer len tr = Some (tr @ [SpiTx (take (unat len) buffer)])"
  by (simp add: SPI_TxBuffer_def)

lemma SPI_TxBuffer_overread:
  "length buffer < unat len \<Longrightarrow> SPI_TxBuffer buffer len tr = None"
  by (simp add: SPI_TxBuffer_def)

lemma MCP2515_WriteByte_trace [trace_simps]:
  "MCP2515_WriteByte address data tr =
     tr @ [SpiTx [MCP2515_WRITE], SpiTx [address], SpiTx [data]]"
  by (simp add: MCP2515_WriteByte_def SPI_Tx_def)

lemma MCP2515_BitModify_trace [trace_simps]:
  "MCP2515_BitModify address mask' data tr =
     tr @ [SpiTx [MCP2515_BIT_MOD], SpiTx [address], SpiTx [mask'], SpiTx [data]]"
  by (simp add: MCP2515_BitModify_def SPI_Tx_def)

lemma MCP2515_WriteByteSequence_trace [trace_simps]:
  "unat (endAddress - startAddress + 1) \<le> length data \<Longrightarrow>
   MCP2515_WriteByteSequence startAddress endAddress data tr =
     Some (tr @ [SpiTx [MCP2515_WRITE], SpiTx [startAddress],
                 SpiTx (take (unat (endAddress - startAddress + 1)) data)])"
  by (simp add: MCP2515_WriteByteSequence_def SPI_Tx_def SPI_TxBuffer_fits)

text \<open>
  \<open>canstat_after env k tr\<close> is the traffic after \<open>k\<close> reads of \<open>CANSTAT\<close> that follow \<open>tr\<close>, and
  \<open>canstat env tr k\<close> the value that read number \<open>k\<close> of them delivers.
\<close>

definition canstat :: "spi_env \<Rightarrow> spi_trace \<Rightarrow> u8" where
  "canstat env tr = fst (MCP2515_ReadByte env MCP2515_CANSTAT tr)"

fun canstat_after :: "spi_env \<Rightarrow> nat \<Rightarrow> spi_trace \<Rightarrow> spi_trace" where
  "canstat_after env 0 tr = tr"
| "canstat_after env (Suc k) tr =
     canstat_after env k
       (tr @ [SpiTx [MCP2515_READ], SpiTx [MCP2515_CANSTAT], SpiRx [canstat env tr]])"

lemma mode_probe_eq:
  "mode_probe env mode tr =
     (canstat env tr AND 0xE0 = mode,
      tr @ [SpiTx [MCP2515_READ], SpiTx [MCP2515_CANSTAT], SpiRx [canstat env tr]])"
  by (simp add: mode_probe_def canstat_def MCP2515_ReadByte_def SPI_Rx_eq SPI_Tx_def)

lemma probed_mode_probe: "probed (mode_probe env mode) k tr = canstat_after env k tr"
  by (induction k arbitrary: tr) (simp_all add: mode_probe_eq)

lemma answer_mode_probe:
  "answer (mode_probe env mode) tr k = (canstat env (canstat_after env k tr) AND 0xE0 = mode)"
  by (simp add: answer_def probed_mode_probe mode_probe_eq)

lemma length_canstat_after: "length (canstat_after env k tr) = length tr + 3 * k"
  by (induction k arbitrary: tr) simp_all

lemma canstat_after_prefix: "\<exists>us. canstat_after env k tr = tr @ us"
proof (induction k arbitrary: tr)
  case (Suc k)
  obtain us where "canstat_after env (Suc k) tr =
      (tr @ [SpiTx [MCP2515_READ], SpiTx [MCP2515_CANSTAT], SpiRx [canstat env tr]]) @ us"
    using Suc.IH by (metis canstat_after.simps(2))
  then show ?case by simp
qed simp

text \<open>The contract of the four mode switches: write the request, then wait for the chip to show it.\<close>

definition mode_switch :: "spi_env \<Rightarrow> u8 \<Rightarrow> spi_trace \<Rightarrow> u8 \<times> spi_trace" where
  "mode_switch env mode tr =
     (let tr0 = tr @ [SpiTx [0x02], SpiTx [0x0F], SpiTx [mode]] in
      case find (\<lambda>k. canstat env (canstat_after env k tr0) AND 0xE0 = mode) [0..<10] of
        Some k \<Rightarrow> (1, canstat_after env (Suc k) tr0)
      | None \<Rightarrow> (0, canstat_after env 10 tr0))"

lemma poll_mode_switch:
  "poll (mode_probe env mode) 9 (MCP2515_WriteByte MCP2515_CANCTRL mode tr) =
     mode_switch env mode tr"
proof -
  have ten: "Suc 9 = 10" by simp
  show ?thesis
    unfolding poll_find mode_switch_def answer_mode_probe probed_mode_probe ten Let_def
    by (simp only: MCP2515_WriteByte_trace MCP2515_WRITE_def MCP2515_CANCTRL_def)
qed

text \<open>
  The four mode switches of the driver meet one contract: each writes its mode into
  \<open>CANCTRL\<close> once, reads \<open>CANSTAT\<close> until the mode bits show the request, at most ten times, and returns
  1 exactly if one of these reads showed it.
\<close>

theorem mode_switch_contract:
  "MCP2515_SetConfigMode env tr = mode_switch env 0x80 tr \<and>
   MCP2515_SetNormalMode env tr = mode_switch env 0x00 tr \<and>
   MCP2515_SetLoopbackMode env tr = mode_switch env 0x40 tr \<and>
   MCP2515_SetSleepMode env tr = mode_switch env 0x20 tr"
  unfolding MCP2515_SetConfigMode_def MCP2515_SetNormalMode_def
    MCP2515_SetLoopbackMode_def MCP2515_SetSleepMode_def poll_mode_switch
  by simp

lemma mode_switch_returns_01: "fst (mode_switch env mode tr) \<in> {0, 1}"
  by (simp add: mode_switch_def Let_def split: option.split)

lemma mode_switch_traffic:
  "\<exists>k us. 1 \<le> k \<and> k \<le> 10 \<and> length us = 3 * k \<and>
     snd (mode_switch env mode tr) = tr @ [SpiTx [0x02], SpiTx [0x0F], SpiTx [mode]] @ us"
proof -
  let ?tr0 = "tr @ [SpiTx [0x02], SpiTx [0x0F], SpiTx [mode]]"
  obtain k where k: "1 \<le> k" "k \<le> 10" "snd (mode_switch env mode tr) = canstat_after env k ?tr0"
  proof (cases "find (\<lambda>k. canstat env (canstat_after env k ?tr0) AND 0xE0 = mode) [0..<10]")
    case None
    then show ?thesis by (intro that[of 10]) (simp_all add: mode_switch_def)
  next
    case (Some k)
    then have "k < 10" by (auto simp: find_Some_iff)
    with Some show ?thesis by (intro that[of "Suc k"]) (simp_all add: mode_switch_def)
  qed
  obtain us where us: "canstat_after env k ?tr0 = ?tr0 @ us" using canstat_after_prefix by blast
  then have "length us = 3 * k" using length_canstat_after[of env k ?tr0] by simp
  then show ?thesis using k us by (intro exI[of _ k] exI[of _ us]) simp
qed

end
