(* ===== verification/Canspi.thy ===== *)
theory Canspi
  imports Mcp2515
begin

text \<open>
  The CAN message layer over the MCP2515 driver (\<^verbatim>\<open>CM4/Drivers/MCP2515/src/CANSPI.c\<close>): packing of
  CAN identifiers into the controller's registers and back, initialisation, transmission into
  the first free transmit buffer, reception, and the status queries.

  The module's global variables \<open>ctrlStatus\<close>, \<open>errorStatus\<close> and \<open>idReg\<close> and the traffic on the SPI
  port form the state record \<open>canspi\<close>. The bit fields of the status unions are read at the
  positions the compiler of the target gives them (least significant bit first).
\<close>

section \<open>Data\<close>

record id_reg_t =
  tempSIDH :: u8
  tempSIDL :: u8
  tempEID8 :: u8
  tempEID0 :: u8

record uCAN_MSG =
  idType :: u8
  can_id :: u32
  dlc :: u8
  data0 :: u8
  data1 :: u8
  data2 :: u8
  data3 :: u8
  data4 :: u8
  data5 :: u8
  data6 :: u8
  data7 :: u8

definition frame_data :: "uCAN_MSG \<Rightarrow> u8 list" where
  "frame_data m = [data0 m, data1 m, data2 m, data3 m, data4 m, data5 m, data6 m, data7 m]"

lemma length_frame_data [simp]: "length (frame_data m) = 8"
  by (simp add: frame_data_def)

definition dSTANDARD_CAN_MSG_ID_2_0B :: u8 where "dSTANDARD_CAN_MSG_ID_2_0B = 1"
definition dEXTENDED_CAN_MSG_ID_2_0B :: u8 where "dEXTENDED_CAN_MSG_ID_2_0B = 2"

text \<open>Bit fields of \<open>ctrl_status_t\<close>, \<open>ctrl_rx_status_t\<close> and \<open>ctrl_error_status_t\<close>.\<close>

definition RX0IF :: "u8 \<Rightarrow> bool" where "RX0IF st = bit st 0"
definition RX1IF :: "u8 \<Rightarrow> bool" where "RX1IF st = bit st 1"
definition TXB0REQ :: "u8 \<Rightarrow> bool" where "TXB0REQ st = bit st 2"
definition TXB1REQ :: "u8 \<Rightarrow> bool" where "TXB1REQ st = bit st 4"
definition TXB2REQ :: "u8 \<Rightarrow> bool" where "TXB2REQ st = bit st 6"

definition rx_msgType :: "u8 \<Rightarrow> u8" where "rx_msgType st = drop_bit 3 st AND 3"
definition rx_rxBuffer :: "u8 \<Rightarrow> u8" where "rx_rxBuffer st = drop_bit 6 st AND 3"

definition RXEP :: "u8 \<Rightarrow> bool" where "RXEP fl = bit fl 3"
definition TXEP :: "u8 \<Rightarrow> bool" where "TXEP fl = bit fl 4"
definition TXBO :: "u8 \<Rightarrow> bool" where "TXBO fl = bit fl 5"

definition MSG_IN_RXB0 :: u8 where "MSG_IN_RXB0 = 1"
definition MSG_IN_RXB1 :: u8 where "MSG_IN_RXB1 = 2"
definition MSG_IN_BOTH_BUFFERS :: u8 where "MSG_IN_BOTH_BUFFERS = 3"

record rx_reg_t =
  RXBnSIDH :: u8
  RXBnSIDL :: u8
  RXBnEID8 :: u8
  RXBnEID0 :: u8
  RXBnDLC :: u8
  RXBnD :: "u8 list"

definition rx_reg_of :: "u8 list \<Rightarrow> rx_reg_t" where
  "rx_reg_of a =
     \<lparr>RXBnSIDH = a ! 0, RXBnSIDL = a ! 1, RXBnEID8 = a ! 2, RXBnEID0 = a ! 3, RXBnDLC = a ! 4,
      RXBnD = [a ! 5, a ! 6, a ! 7, a ! 8, a ! 9, a ! 10, a ! 11, a ! 12]\<rparr>"

record canspi =
  ctrlStatus :: u8
  errorStatus :: u8
  idReg :: id_reg_t
  bus :: spi_trace

definition id_reg_bytes :: "id_reg_t \<Rightarrow> u8 list" where
  "id_reg_bytes r = [tempSIDH r, tempSIDL r, tempEID8 r, tempEID0 r]"

section \<open>Identifier conversion\<close>

definition convertReg2ExtendedCANid :: "u8 \<Rightarrow> u8 \<Rightarrow> u8 \<Rightarrow> u8 \<Rightarrow> u32" where
  "convertReg2ExtendedCANid tempRXBn_EIDH tempRXBn_EIDL tempRXBn_SIDH tempRXBn_SIDL =
     (let CAN_standardLo_ID_lo2bits = tempRXBn_SIDL AND 0x03;
          CAN_standardLo_ID_hi3bits = drop_bit 5 tempRXBn_SIDL;
          ConvertedID = push_bit 3 (ucast tempRXBn_SIDH :: u32);
          ConvertedID = ConvertedID + ucast CAN_standardLo_ID_hi3bits;
          ConvertedID = push_bit 2 ConvertedID;
          ConvertedID = ConvertedID + ucast CAN_standardLo_ID_lo2bits;
          ConvertedID = push_bit 8 ConvertedID;
          ConvertedID = ConvertedID + ucast tempRXBn_EIDH;
          ConvertedID = push_bit 8 ConvertedID;
          ConvertedID = ConvertedID + ucast tempRXBn_EIDL
      in ConvertedID)"

definition convertReg2StandardCANid :: "u8 \<Rightarrow> u8 \<Rightarrow> u32" where
  "convertReg2StandardCANid tempRXBn_SIDH tempRXBn_SIDL =
     (let ConvertedID = push_bit 3 (ucast tempRXBn_SIDH :: u32);
          ConvertedID = ConvertedID + ucast (drop_bit 5 tempRXBn_SIDL)
      in ConvertedID)"

definition convertCANid2Reg :: "u32 \<Rightarrow> u8 \<Rightarrow> id_reg_t \<Rightarrow> id_reg_t" where
  "convertCANid2Reg tempPassedInID canIdType passedIdReg =
     (if canIdType = dEXTENDED_CAN_MSG_ID_2_0B then
        (let r0 = passedIdReg\<lparr>tempEID0 := ucast (0xFF AND tempPassedInID)\<rparr>;
             id1 = drop_bit 8 tempPassedInID;
             r1 = r0\<lparr>tempEID8 := ucast (0xFF AND id1)\<rparr>;
             id2 = drop_bit 8 id1;
             wipSIDL = ucast (0x03 AND id2) :: u8;
             id3 = push_bit 3 id2;
             wipSIDL = ucast ((0xE0 AND id3) + ucast wipSIDL) :: u8;
             wipSIDL = wipSIDL + 0x08;
             r2 = r1\<lparr>tempSIDL := 0xEB AND wipSIDL\<rparr>;
             id4 = drop_bit 8 id3
         in r2\<lparr>tempSIDH := ucast (0xFF AND id4)\<rparr>)
      else
        (let r0 = passedIdReg\<lparr>tempEID8 := 0, tempEID0 := 0\<rparr>;
             id1 = push_bit 5 tempPassedInID;
             r1 = r0\<lparr>tempSIDL := ucast (0xFF AND id1)\<rparr>;
             id2 = drop_bit 8 id1
         in r1\<lparr>tempSIDH := ucast (0xFF AND id2)\<rparr>))"

section \<open>Initialisation, sleep\<close>

definition CANSPI_Sleep :: "spi_env \<Rightarrow> canspi \<Rightarrow> canspi" where
  "CANSPI_Sleep env s =
     (let tr = MCP2515_BitModify MCP2515_CANINTF 0x40 0x00 (bus s);
          tr = MCP2515_BitModify MCP2515_CANINTE 0x40 0x40 tr
      in s\<lparr>bus := snd (MCP2515_SetSleepMode env tr)\<rparr>)"




section \<open>Transmission and reception\<close>

definition CANSPI_load :: "u8 \<Rightarrow> u8 \<Rightarrow> uCAN_MSG \<Rightarrow> canspi \<Rightarrow> (u8 \<times> canspi) option" where
  "CANSPI_load load_insn rts_insn m s =
     (let r = convertCANid2Reg (can_id m) (idType m) (idReg s)
      in case MCP2515_LoadTxSequence load_insn (id_reg_bytes r) (dlc m) (frame_data m) (bus s) of
           None \<Rightarrow> None
         | Some tr \<Rightarrow> Some (1, s\<lparr>idReg := r, bus := MCP2515_RequestToSend rts_insn tr\<rparr>))"

definition CANSPI_Transmit :: "spi_env \<Rightarrow> uCAN_MSG \<Rightarrow> canspi \<Rightarrow> (u8 \<times> canspi) option" where
  "CANSPI_Transmit env tempCanMsg s =
     (let s = s\<lparr>idReg := \<lparr>tempSIDH = 0, tempSIDL = 0, tempEID8 = 0, tempEID0 = 0\<rparr>\<rparr>
      in case MCP2515_ReadStatus env (bus s) of (st, tr) \<Rightarrow>
        (let s = s\<lparr>ctrlStatus := st, bus := tr\<rparr>
         in if \<not> TXB0REQ st then CANSPI_load MCP2515_LOAD_TXB0SIDH MCP2515_RTS_TX0 tempCanMsg s
            else if \<not> TXB1REQ st then
              CANSPI_load MCP2515_LOAD_TXB1SIDH MCP2515_RTS_TX1 tempCanMsg s
            else if \<not> TXB2REQ st then
              CANSPI_load MCP2515_LOAD_TXB2SIDH MCP2515_RTS_TX2 tempCanMsg s
            else Some (0, s)))"

definition CANSPI_Receive ::
    "spi_env \<Rightarrow> uCAN_MSG \<Rightarrow> canspi \<Rightarrow> u8 \<times> uCAN_MSG \<times> canspi" where
  "CANSPI_Receive env tempCanMsg s =
     (case MCP2515_GetRxStatus env (bus s) of (rxStatus, tr) \<Rightarrow>
        if rx_rxBuffer rxStatus \<noteq> 0 then
          (case (if rx_rxBuffer rxStatus = MSG_IN_RXB0 \<or> rx_rxBuffer rxStatus = MSG_IN_BOTH_BUFFERS
                 then MCP2515_ReadRxSequence env MCP2515_READ_RXB0SIDH 13 tr
                 else MCP2515_ReadRxSequence env MCP2515_READ_RXB1SIDH 13 tr) of
             (bytes, tr) \<Rightarrow>
               (let rxReg = rx_reg_of bytes;
                    m = (if rx_msgType rxStatus = dEXTENDED_CAN_MSG_ID_2_0B
                         then tempCanMsg\<lparr>idType := dEXTENDED_CAN_MSG_ID_2_0B,
                                can_id := convertReg2ExtendedCANid (RXBnEID8 rxReg) (RXBnEID0 rxReg)
                                            (RXBnSIDH rxReg) (RXBnSIDL rxReg)\<rparr>
                         else tempCanMsg\<lparr>idType := dSTANDARD_CAN_MSG_ID_2_0B,
                                can_id := convertReg2StandardCANid (RXBnSIDH rxReg) (RXBnSIDL rxReg)\<rparr>)
                in (1, m\<lparr>dlc := RXBnDLC rxReg,
                         data0 := RXBnD rxReg ! 0, data1 := RXBnD rxReg ! 1,
                         data2 := RXBnD rxReg ! 2, data3 := RXBnD rxReg ! 3,
                         data4 := RXBnD rxReg ! 4, data5 := RXBnD rxReg ! 5,
                         data6 := RXBnD rxReg ! 6, data7 := RXBnD rxReg ! 7\<rparr>,
                    s\<lparr>bus := tr\<rparr>)))
        else (0, tempCanMsg, s\<lparr>bus := tr\<rparr>))"

section \<open>Status queries\<close>

definition CANSPI_messagesInBuffer :: "spi_env \<Rightarrow> canspi \<Rightarrow> u8 \<times> canspi" where
  "CANSPI_messagesInBuffer env s =
     (case MCP2515_ReadStatus env (bus s) of (st, tr) \<Rightarrow>
        (let messageCount = 0;
             messageCount = (if RX0IF st then messageCount + 1 else messageCount);
             messageCount = (if RX1IF st then messageCount + 1 else messageCount)
         in (messageCount, s\<lparr>ctrlStatus := st, bus := tr\<rparr>)))"

definition CANSPI_isBussOff :: "spi_env \<Rightarrow> canspi \<Rightarrow> u8 \<times> canspi" where
  "CANSPI_isBussOff env s =
     (case MCP2515_ReadByte env MCP2515_EFLG (bus s) of (fl, tr) \<Rightarrow>
        ((if TXBO fl then 1 else 0), s\<lparr>errorStatus := fl, bus := tr\<rparr>))"

definition CANSPI_isRxErrorPassive :: "spi_env \<Rightarrow> canspi \<Rightarrow> u8 \<times> canspi" where
  "CANSPI_isRxErrorPassive env s =
     (case MCP2515_ReadByte env MCP2515_EFLG (bus s) of (fl, tr) \<Rightarrow>
        ((if RXEP fl then 1 else 0), s\<lparr>errorStatus := fl, bus := tr\<rparr>))"

definition CANSPI_isTxErrorPassive :: "spi_env \<Rightarrow> canspi \<Rightarrow> u8 \<times> canspi" where
  "CANSPI_isTxErrorPassive env s =
     (case MCP2515_ReadByte env MCP2515_EFLG (bus s) of (fl, tr) \<Rightarrow>
        ((if TXEP fl then 1 else 0), s\<lparr>errorStatus := fl, bus := tr\<rparr>))"

section \<open>Identifiers: every valid identifier survives packing and unpacking\<close>

lemma ucast_FF_and: "(ucast ((0xFF :: u32) AND x) :: u8) = ucast x"
proof -
  have "(0xFF :: u32) AND x = take_bit 8 x" by (simp add: take_bit_eq_mask mask_numeral and.commute)
  then show ?thesis by (simp add: bit_eq_iff bit_unsigned_iff bit_take_bit_iff)
qed

text \<open>The register images of an extended and of a standard identifier, bit by bit.\<close>

lemma extended_SIDL_bits:
  fixes i :: u32
  defines "w0 \<equiv> ucast (0x03 AND drop_bit 16 i) :: u8"
  defines "w1 \<equiv> ucast ((0xE0 AND push_bit 3 (drop_bit 16 i)) + ucast w0) :: u8"
  shows "bit (0xEB AND (w1 + 0x08)) n \<longleftrightarrow>
           n = 3 \<or> (n < 2 \<and> bit i (n + 16)) \<or> (5 \<le> n \<and> n < 8 \<and> bit i (n + 13))"
proof -
  let ?h = "0xE0 AND push_bit 3 (drop_bit 16 i) :: u32"
  have "?h + ucast w0 = ?h OR ucast w0"
    unfolding w0_def by (rule disjunctive_add) (auto simp: bit_simps mask_simps)
  then have w1: "bit w1 n \<longleftrightarrow> (n < 2 \<and> bit i (n + 16)) \<or> (5 \<le> n \<and> n < 8 \<and> bit i (n + 13))" for n
    unfolding w1_def w0_def
    by (auto simp: bit_simps mask_simps add.commute)
  have b8: "bit (8 :: u8) n \<longleftrightarrow> n = 3" for n
    by (auto simp: bit_simps mask_simps)
  have sum: "w1 + 0x08 = w1 OR 0x08" by (rule disjunctive_add) (auto simp: w1 mask_simps)
  show ?thesis
  proof (cases "n < 8")
    case True
    from less_8_cases[OF True] show ?thesis
      unfolding sum by (elim disjE) (simp_all add: bit_and_iff bit_or_iff w1 b8)
  next
    case False
    then show ?thesis by (auto dest: bit_u8_less)
  qed
qed

lemma convertCANid2Reg_extended:
  fixes i :: u32 and r :: id_reg_t
  defines "r' \<equiv> convertCANid2Reg i dEXTENDED_CAN_MSG_ID_2_0B r"
  shows "tempEID0 r' = ucast i" "tempEID8 r' = ucast (drop_bit 8 i)"
    and "tempSIDH r' = ucast (drop_bit 21 i)"
    and "bit (tempSIDL r') n \<longleftrightarrow>
           n = 3 \<or> (n < 2 \<and> bit i (n + 16)) \<or> (5 \<le> n \<and> n < 8 \<and> bit i (n + 13))"
proof -
  have sh: "(ucast (drop_bit 8 (push_bit 3 (drop_bit 16 i))) :: u8) = ucast (drop_bit 21 i)"
    by (rule bit_word_eqI) (auto simp: bit_simps)
  show "tempEID0 r' = ucast i" "tempEID8 r' = ucast (drop_bit 8 i)"
    unfolding r'_def convertCANid2Reg_def by (simp_all add: Let_def ucast_FF_and)
  show "tempSIDH r' = ucast (drop_bit 21 i)"
    unfolding r'_def convertCANid2Reg_def by (simp add: Let_def ucast_FF_and sh)
  show "bit (tempSIDL r') n \<longleftrightarrow>
           n = 3 \<or> (n < 2 \<and> bit i (n + 16)) \<or> (5 \<le> n \<and> n < 8 \<and> bit i (n + 13))"
    unfolding r'_def convertCANid2Reg_def
    using extended_SIDL_bits[of i n] by (simp add: Let_def)
qed

lemma convertReg2ExtendedCANid_or:
  "convertReg2ExtendedCANid eidh eidl sidh sidl =
     push_bit 21 (ucast sidh) OR push_bit 18 (ucast (drop_bit 5 sidl))
       OR push_bit 16 (ucast (sidl AND 3)) OR push_bit 8 (ucast eidh) OR ucast eidl"
proof -
  let ?a = "push_bit 3 (ucast sidh :: u32) OR ucast (drop_bit 5 sidl)"
  let ?b = "push_bit 2 ?a OR ucast (sidl AND 3)"
  let ?c = "push_bit 8 ?b OR ucast eidh"
  have 1: "push_bit 3 (ucast sidh :: u32) + ucast (drop_bit 5 sidl) = ?a"
    by (rule disjunctive_add) (auto simp: bit_simps dest: bit_u8_less)
  have 2: "push_bit 2 ?a + ucast (sidl AND 3) = ?b"
    by (rule disjunctive_add) (auto simp: bit_simps mask_simps)
  have 3: "push_bit 8 ?b + ucast eidh = ?c"
    by (rule disjunctive_add) (auto simp: bit_simps dest: bit_u8_less)
  have 4: "push_bit 8 ?c + ucast eidl = push_bit 8 ?c OR ucast eidl"
    by (rule disjunctive_add) (auto simp: bit_simps dest: bit_u8_less)
  show ?thesis unfolding convertReg2ExtendedCANid_def Let_def 1 2 3 4
    by (simp add: push_bit_or or.assoc)
qed

lemma convertReg2StandardCANid_or:
  "convertReg2StandardCANid sidh sidl = push_bit 3 (ucast sidh) OR ucast (drop_bit 5 sidl)"
  unfolding convertReg2StandardCANid_def Let_def
  by (rule disjunctive_add) (auto simp: bit_simps dest: bit_u8_less)

lemma bit_convertReg2ExtendedCANid:
  "bit (convertReg2ExtendedCANid eidh eidl sidh sidl) n \<longleftrightarrow>
     (n < 8 \<and> bit eidl n) \<or> (8 \<le> n \<and> n < 16 \<and> bit eidh (n - 8)) \<or>
     (16 \<le> n \<and> n < 18 \<and> bit sidl (n - 16)) \<or> (18 \<le> n \<and> n < 21 \<and> bit sidl (n - 13)) \<or>
     (21 \<le> n \<and> n < 29 \<and> bit sidh (n - 21))"
proof -
  consider "n < 8" | "8 \<le> n" "n < 16" | "16 \<le> n" "n < 18" | "18 \<le> n" "n < 21"
    | "21 \<le> n" "n < 29" | "29 \<le> n" by linarith
  then show ?thesis
    unfolding convertReg2ExtendedCANid_or
    by cases (auto simp: bit_simps mask_simps bit_u8_ge)
qed

lemma bit_convertReg2StandardCANid:
  "bit (convertReg2StandardCANid sidh sidl) n \<longleftrightarrow>
     (n < 3 \<and> bit sidl (n + 5)) \<or> (3 \<le> n \<and> n < 11 \<and> bit sidh (n - 3))"
  unfolding convertReg2StandardCANid_or
  by (auto simp: bit_simps add.commute dest: bit_u8_less)

lemma extended_id_roundtrip_reg:
  assumes "i < 2 ^ 29"
  shows "convertReg2ExtendedCANid
      (tempEID8 (convertCANid2Reg i dEXTENDED_CAN_MSG_ID_2_0B r))
      (tempEID0 (convertCANid2Reg i dEXTENDED_CAN_MSG_ID_2_0B r))
      (tempSIDH (convertCANid2Reg i dEXTENDED_CAN_MSG_ID_2_0B r))
      (tempSIDL (convertCANid2Reg i dEXTENDED_CAN_MSG_ID_2_0B r)) = i"
    (is "convertReg2ExtendedCANid ?eid8 ?eid0 ?sidh ?sidl = i")
proof -
  have lim: "bit i n \<Longrightarrow> n < 29" for n using assms less_pow2_bit[of i 29 n] by simp
  show ?thesis
  proof (rule bit_word_eqI)
    fix n :: nat
    consider "n < 8" | "8 \<le> n" "n < 16" | "16 \<le> n" "n < 18" | "18 \<le> n" "n < 21"
      | "21 \<le> n" "n < 29" | "29 \<le> n" by linarith
    then show "bit (convertReg2ExtendedCANid ?eid8 ?eid0 ?sidh ?sidl) n = bit i n"
      unfolding bit_convertReg2ExtendedCANid convertCANid2Reg_extended
      using lim[of n] by cases (auto simp: bit_simps)
  qed
qed

text \<open>
  C33: an extended identifier of 29 bits that is packed into the transmit registers and unpacked
  from receive registers with the same contents is unchanged.
\<close>

theorem extended_id_roundtrip:
  assumes "i < 2 ^ 29"
  shows "(let r' = convertCANid2Reg i dEXTENDED_CAN_MSG_ID_2_0B r in
          convertReg2ExtendedCANid (tempEID8 r') (tempEID0 r') (tempSIDH r') (tempSIDL r')) = i"
  using assms unfolding Let_def by (rule extended_id_roundtrip_reg)

theorem extended_id_roundtrip_witness:
  "(0x1ABCDEF5 :: u32) < 2 ^ 29 \<and>
   (let r' = convertCANid2Reg 0x1ABCDEF5 dEXTENDED_CAN_MSG_ID_2_0B
               \<lparr>tempSIDH = 0, tempSIDL = 0, tempEID8 = 0, tempEID0 = 0\<rparr> in
    convertReg2ExtendedCANid (tempEID8 r') (tempEID0 r') (tempSIDH r') (tempSIDL r')) = 0x1ABCDEF5"
proof -
  have h: "(0x1ABCDEF5 :: u32) < 2 ^ 29" by simp
  show ?thesis using h extended_id_roundtrip[OF h] by blast
qed

lemma convertCANid2Reg_standard:
  fixes i :: u32 and r :: id_reg_t
  defines "r' \<equiv> convertCANid2Reg i dSTANDARD_CAN_MSG_ID_2_0B r"
  shows "tempEID0 r' = 0" "tempEID8 r' = 0"
    and "tempSIDL r' = ucast (push_bit 5 i)" "tempSIDH r' = ucast (drop_bit 8 (push_bit 5 i))"
  unfolding r'_def convertCANid2Reg_def
  by (simp_all add: Let_def ucast_FF_and dSTANDARD_CAN_MSG_ID_2_0B_def dEXTENDED_CAN_MSG_ID_2_0B_def)

lemma standard_id_roundtrip_reg:
  assumes "i < 2 ^ 11"
  shows "convertReg2StandardCANid
      (tempSIDH (convertCANid2Reg i dSTANDARD_CAN_MSG_ID_2_0B r))
      (tempSIDL (convertCANid2Reg i dSTANDARD_CAN_MSG_ID_2_0B r)) = i"
proof -
  have lim: "bit i n \<Longrightarrow> n < 11" for n using assms less_pow2_bit[of i 11 n] by simp
  show ?thesis
    unfolding convertCANid2Reg_standard
  proof (rule bit_word_eqI)
    fix n :: nat
    consider "n < 3" | "3 \<le> n" "n < 11" | "11 \<le> n" by linarith
    then show "bit (convertReg2StandardCANid (ucast (drop_bit 8 (push_bit 5 i)))
        (ucast (push_bit 5 i))) n = bit i n"
      unfolding bit_convertReg2StandardCANid using lim[of n] by cases (auto simp: bit_simps)
  qed
qed

text \<open>
  A standard identifier of 11 bits that is packed into the transmit registers and unpacked
  from receive registers with the same contents is unchanged, and the extended identifier
  registers are cleared.
\<close>

theorem standard_id_roundtrip:
  assumes "i < 2 ^ 11"
  shows "(let r' = convertCANid2Reg i dSTANDARD_CAN_MSG_ID_2_0B r in
          convertReg2StandardCANid (tempSIDH r') (tempSIDL r') = i \<and>
          tempEID8 r' = 0 \<and> tempEID0 r' = 0)"
  using assms by (simp add: Let_def standard_id_roundtrip_reg convertCANid2Reg_standard(1,2))

theorem standard_id_roundtrip_witness:
  "(0x7A5 :: u32) < 2 ^ 11 \<and>
   (let r' = convertCANid2Reg 0x7A5 dSTANDARD_CAN_MSG_ID_2_0B
               \<lparr>tempSIDH = 9, tempSIDL = 9, tempEID8 = 9, tempEID0 = 9\<rparr> in
    convertReg2StandardCANid (tempSIDH r') (tempSIDL r') = 0x7A5 \<and>
    tempEID8 r' = 0 \<and> tempEID0 r' = 0)"
proof -
  have h: "(0x7A5 :: u32) < 2 ^ 11" by simp
  show ?thesis using h standard_id_roundtrip[OF h] by blast
qed

section \<open>Transmission\<close>

text \<open>The transmit buffer the driver picks: the first of the three with no pending request.\<close>

definition free_txb :: "u8 \<Rightarrow> nat option" where
  "free_txb st = find (\<lambda>k. \<not> bit st (2 * k + 2)) [0, 1, 2]"

definition load_insn :: "nat \<Rightarrow> u8" where "load_insn k = [0x40, 0x42, 0x44] ! k"
definition rts_insn :: "nat \<Rightarrow> u8" where "rts_insn k = [0x81, 0x82, 0x84] ! k"

definition idreg0 :: id_reg_t where
  "idreg0 = \<lparr>tempSIDH = 0, tempSIDL = 0, tempEID8 = 0, tempEID0 = 0\<rparr>"

definition msg_id_reg :: "uCAN_MSG \<Rightarrow> id_reg_t" where
  "msg_id_reg m = convertCANid2Reg (can_id m) (idType m) idreg0"

lemma free_txb_eq:
  "free_txb st =
     (if \<not> bit st 2 then Some 0 else if \<not> bit st 4 then Some 1 else if \<not> bit st 6 then Some 2
      else None)"
proof -
  have "2 * 0 + 2 = (2 :: nat)" "2 * 1 + 2 = (4 :: nat)" "2 * 2 + 2 = (6 :: nat)" by simp_all
  then show ?thesis unfolding free_txb_def find.simps by (simp only:)
qed

lemma LoadTxSequence_fits:
  "unat n \<le> 8 \<Longrightarrow>
   MCP2515_LoadTxSequence insn (id_reg_bytes r) n (frame_data m) tr =
     Some (tr @ [SpiTx [insn], SpiTx (id_reg_bytes r), SpiTx [n], SpiTx (take (unat n) (frame_data m))])"
  by (simp add: MCP2515_LoadTxSequence_def SPI_Tx_def SPI_TxBuffer_fits id_reg_bytes_def)

lemma LoadTxSequence_overread:
  "8 < unat n \<Longrightarrow> MCP2515_LoadTxSequence insn (id_reg_bytes r) n (frame_data m) tr = None"
  by (simp add: MCP2515_LoadTxSequence_def SPI_TxBuffer_overread SPI_TxBuffer_fits id_reg_bytes_def)

lemma CANSPI_Transmit_eq:
  "CANSPI_Transmit env m s =
     (let tr = bus s @ [SpiTx [0xA0]]; st = spi_miso env tr 0;
          s' = s\<lparr>idReg := idreg0, ctrlStatus := st, bus := tr @ [SpiRx [st]]\<rparr>
      in case free_txb st of
           None \<Rightarrow> Some (0, s')
         | Some k \<Rightarrow> CANSPI_load (load_insn k) (rts_insn k) m s')"
  by (simp add: CANSPI_Transmit_def MCP2515_ReadStatus_def SPI_Rx_eq SPI_Tx_def Let_def free_txb_eq
      TXB0REQ_def TXB1REQ_def TXB2REQ_def load_insn_def rts_insn_def idreg0_def mcp2515_insn_defs)

text \<open>
  C10: a transmission of a frame of at most eight bytes asks the controller for its status once;
  if a transmit buffer is free, the first free one is loaded with the packed identifier, the
  length and exactly the frame's data bytes, its transmission is requested and 1 is returned;
  if all three are pending, nothing is written and 0 is returned.
\<close>

theorem transmit_first_free_buffer:
  assumes "unat (dlc m) \<le> 8"
  shows "CANSPI_Transmit env m s =
     (let tr = bus s @ [SpiTx [0xA0]]; st = spi_miso env tr 0;
          s' = s\<lparr>idReg := idreg0, ctrlStatus := st, bus := tr @ [SpiRx [st]]\<rparr>
      in case find (\<lambda>k. \<not> bit st (2 * k + 2)) [0, 1, 2] of
           None \<Rightarrow> Some (0, s')
         | Some k \<Rightarrow> Some (1, s'\<lparr>idReg := msg_id_reg m,
             bus := bus s' @ [SpiTx [[0x40, 0x42, 0x44] ! k], SpiTx (id_reg_bytes (msg_id_reg m)),
                       SpiTx [dlc m], SpiTx (take (unat (dlc m)) (frame_data m)),
                       SpiTx [[0x81, 0x82, 0x84] ! k]]\<rparr>))"
  using assms
  by (simp add: CANSPI_Transmit_eq CANSPI_load_def LoadTxSequence_fits Let_def msg_id_reg_def
      free_txb_def load_insn_def rts_insn_def MCP2515_RequestToSend_def SPI_Tx_def
      del: find.simps split: option.split)

definition example_msg :: uCAN_MSG where
  "example_msg = \<lparr>idType = 2, can_id = 0x1ABCDEF5, dlc = 3, data0 = 1, data1 = 2, data2 = 3,
     data3 = 0, data4 = 0, data5 = 0, data6 = 0, data7 = 0\<rparr>"

definition example_canspi :: canspi where
  "example_canspi = \<lparr>ctrlStatus = 0, errorStatus = 0, idReg = idreg0, bus = []\<rparr>"

text \<open>A chip whose status byte says that transmit buffer 0 is busy.\<close>

definition example_env :: spi_env where
  "example_env = \<lparr>spi_ready = (\<lambda>_ _. True), spi_miso = (\<lambda>_ _. 0x04)\<rparr>"

theorem transmit_first_free_buffer_witness:
  "unat (dlc example_msg) \<le> 8 \<and>
   map_option (\<lambda>(r, s). (r, drop 2 (bus s))) (CANSPI_Transmit example_env example_msg example_canspi) =
     Some (1, [SpiTx [0x42], SpiTx [0xD5, 0xE8, 0xDE, 0xF5], SpiTx [3], SpiTx [1, 2, 3], SpiTx [0x82]])"
proof -
  have h: "unat (dlc example_msg) \<le> 8" by (simp add: example_msg_def)
  have f: "find (\<lambda>k. \<not> bit (4 :: u8) (2 * k + 2)) [0, 1, 2] = Some 1" by simp
  have r: "id_reg_bytes (msg_id_reg example_msg) = [0xD5, 0xE8, 0xDE, 0xF5]"
    by (simp add: id_reg_bytes_def msg_id_reg_def example_msg_def convertCANid2Reg_def Let_def
        dEXTENDED_CAN_MSG_ID_2_0B_def)
  show ?thesis
    using h transmit_first_free_buffer[OF h, of example_env example_canspi]
    by (simp add: Let_def f r example_env_def example_canspi_def)
      (simp add: example_msg_def frame_data_def)
qed

text \<open>
  A frame whose length field exceeds eight makes the transmission read past the end of the
  frame's data as soon as a transmit buffer is free: the length is never checked.
\<close>

theorem transmit_length_unchecked:
  assumes "8 < unat (dlc m)" and "free_txb (spi_miso env (bus s @ [SpiTx [0xA0]]) 0) = Some k"
  shows "CANSPI_Transmit env m s = None"
  using assms by (simp add: CANSPI_Transmit_eq Let_def CANSPI_load_def LoadTxSequence_overread)

theorem transmit_length_unchecked_witness:
  "8 < unat (dlc (example_msg\<lparr>dlc := 0x48\<rparr>)) \<and>
   CANSPI_Transmit example_env (example_msg\<lparr>dlc := 0x48\<rparr>) example_canspi = None"
proof -
  have h: "8 < unat (dlc (example_msg\<lparr>dlc := 0x48\<rparr>))" by (simp add: example_msg_def)
  have f: "free_txb (spi_miso example_env (bus example_canspi @ [SpiTx [0xA0]]) 0) = Some 1"
    by (simp add: free_txb_def example_env_def)
  show ?thesis using h transmit_length_unchecked[OF h f] by blast
qed

section \<open>Reception\<close>

text \<open>The traffic up to the point where the receive buffer is read, and the bytes read.\<close>

definition rx_status_of :: "spi_env \<Rightarrow> canspi \<Rightarrow> u8" where
  "rx_status_of env s = spi_miso env (bus s @ [SpiTx [0xB0]]) 0"

definition rx_read_insn :: "u8 \<Rightarrow> u8" where
  "rx_read_insn st = (if rx_rxBuffer st = 2 then 0x94 else 0x90)"

definition rx_bytes_of :: "spi_env \<Rightarrow> canspi \<Rightarrow> u8 list" where
  "rx_bytes_of env s =
     (let st = rx_status_of env s
      in map (spi_miso env (bus s @ [SpiTx [0xB0], SpiRx [st], SpiTx [rx_read_insn st]])) [0..<13])"

lemma length_rx_bytes_of [simp]: "length (rx_bytes_of env s) = 13"
  by (simp add: rx_bytes_of_def Let_def)

lemma rx_rxBuffer_cases: "rx_rxBuffer st \<in> {0, 1, 2, 3}"
proof -
  have "rx_rxBuffer st \<le> 3" unfolding rx_rxBuffer_def by (rule word_and_le1)
  then have "unat (rx_rxBuffer st) \<le> 3" by (simp add: word_le_nat_alt)
  then have "unat (rx_rxBuffer st) = 0 \<or> unat (rx_rxBuffer st) = 1 \<or>
      unat (rx_rxBuffer st) = 2 \<or> unat (rx_rxBuffer st) = 3" by linarith
  then show ?thesis by (elim disjE) (drule word_eq_of_unat, simp)+
qed

definition decode_frame :: "u8 \<Rightarrow> u8 list \<Rightarrow> uCAN_MSG \<Rightarrow> uCAN_MSG" where
  "decode_frame st a m =
     (if rx_msgType st = 2
      then m\<lparr>idType := 2, can_id := convertReg2ExtendedCANid (a ! 2) (a ! 3) (a ! 0) (a ! 1)\<rparr>
      else m\<lparr>idType := 1, can_id := convertReg2StandardCANid (a ! 0) (a ! 1)\<rparr>)
     \<lparr>dlc := a ! 4, data0 := a ! 5, data1 := a ! 6, data2 := a ! 7, data3 := a ! 8,
      data4 := a ! 9, data5 := a ! 10, data6 := a ! 11, data7 := a ! 12\<rparr>"

lemma CANSPI_Receive_eq:
  "CANSPI_Receive env m s =
     (let st = rx_status_of env s; tr = bus s @ [SpiTx [0xB0], SpiRx [st]]
      in if rx_rxBuffer st = 0 then (0, m, s\<lparr>bus := tr\<rparr>)
         else (1, decode_frame st (rx_bytes_of env s) m,
               s\<lparr>bus := tr @ [SpiTx [rx_read_insn st], SpiRx (rx_bytes_of env s)]\<rparr>))"
proof -
  let ?st = "rx_status_of env s"
  let ?tr = "bus s @ [SpiTx [0xB0], SpiRx [?st]]"
  have st: "MCP2515_GetRxStatus env (bus s) = (?st, ?tr)"
    by (simp add: MCP2515_GetRxStatus_def SPI_Rx_eq SPI_Tx_def rx_status_of_def mcp2515_insn_defs)
  have rd: "MCP2515_ReadRxSequence env (rx_read_insn ?st) 13 ?tr =
      (rx_bytes_of env s, ?tr @ [SpiTx [rx_read_insn ?st], SpiRx (rx_bytes_of env s)])"
    by (simp add: MCP2515_ReadRxSequence_def SPI_RxBuffer_def SPI_Tx_def Let_def rx_bytes_of_def)
  have insn: "(if rx_rxBuffer ?st = MSG_IN_RXB0 \<or> rx_rxBuffer ?st = MSG_IN_BOTH_BUFFERS
      then MCP2515_ReadRxSequence env MCP2515_READ_RXB0SIDH 13 ?tr
      else MCP2515_ReadRxSequence env MCP2515_READ_RXB1SIDH 13 ?tr) =
      MCP2515_ReadRxSequence env (rx_read_insn ?st) 13 ?tr" if "rx_rxBuffer ?st \<noteq> 0"
    using that rx_rxBuffer_cases[of ?st]
    by (auto simp: rx_read_insn_def MSG_IN_RXB0_def MSG_IN_BOTH_BUFFERS_def mcp2515_insn_defs)
  show ?thesis
  proof (cases "rx_rxBuffer ?st = 0")
    case True
    then show ?thesis by (simp add: CANSPI_Receive_def st Let_def)
  next
    case False
    then show ?thesis
      by (simp add: CANSPI_Receive_def st insn rd Let_def decode_frame_def rx_reg_of_def
          dEXTENDED_CAN_MSG_ID_2_0B_def dSTANDARD_CAN_MSG_ID_2_0B_def)
  qed
qed

text \<open>The bytes a transmission puts into a transmit buffer, and the identifiers a frame may carry.\<close>

definition wire_bytes :: "uCAN_MSG \<Rightarrow> u8 list" where
  "wire_bytes m = id_reg_bytes (msg_id_reg m) @ [dlc m] @ take (unat (dlc m)) (frame_data m)"

definition valid_frame :: "uCAN_MSG \<Rightarrow> bool" where
  "valid_frame m \<longleftrightarrow>
     unat (dlc m) \<le> 8 \<and>
     (idType m = 1 \<and> can_id m < 2 ^ 11 \<or> idType m = 2 \<and> can_id m < 2 ^ 29)"

lemma take_frame_data_decode:
  assumes "length a = 13"
  shows "frame_data (decode_frame st a m0) = drop 5 a"
proof (rule nth_equalityI)
  show "length (frame_data (decode_frame st a m0)) = length (drop 5 a)" using assms by simp
  fix i assume "i < length (frame_data (decode_frame st a m0))"
  then have "i < 8" by simp
  from less_8_cases[OF this] show "frame_data (decode_frame st a m0) ! i = drop 5 a ! i"
    using assms by (elim disjE) (simp_all add: decode_frame_def frame_data_def)
qed

text \<open>Two frames that agree in kind, identifier, length and in the data bytes the length covers.\<close>

definition same_frame :: "uCAN_MSG \<Rightarrow> uCAN_MSG \<Rightarrow> bool" where
  "same_frame m m' \<longleftrightarrow>
     idType m' = idType m \<and> can_id m' = can_id m \<and> dlc m' = dlc m \<and>
     take (unat (dlc m)) (frame_data m') = take (unat (dlc m)) (frame_data m)"

lemma decode_wire_bytes:
  assumes "valid_frame m" and "rx_msgType st = (if idType m = 2 then 2 else 0)"
    and "a = wire_bytes m @ rest" and "length a = 13"
  shows "same_frame m (decode_frame st a m0)"
proof -
  let ?m' = "decode_frame st a m0"
  let ?r = "msg_id_reg m"
  have a: "a ! 0 = tempSIDH ?r" "a ! Suc 0 = tempSIDL ?r" "a ! 2 = tempEID8 ?r"
    "a ! 3 = tempEID0 ?r" "a ! 4 = dlc m"
    by (simp_all add: assms(3) wire_bytes_def id_reg_bytes_def)
  have d: "drop 5 a = take (unat (dlc m)) (frame_data m) @ rest"
    by (simp add: assms(3) wire_bytes_def id_reg_bytes_def)
  have len: "unat (dlc m) \<le> 8" using assms(1) by (simp add: valid_frame_def)
  have dl: "dlc ?m' = dlc m" by (simp add: decode_frame_def a)
  have ty: "idType ?m' = idType m \<and> can_id ?m' = can_id m"
  proof (cases "idType m = 2")
    case True
    then have "can_id m < 2 ^ 29" using assms(1) by (simp add: valid_frame_def)
    from extended_id_roundtrip_reg[OF this] True show ?thesis
      using assms(2) by (simp add: decode_frame_def a msg_id_reg_def dEXTENDED_CAN_MSG_ID_2_0B_def)
  next
    case False
    then have 1: "idType m = 1" and "can_id m < 2 ^ 11" using assms(1) by (auto simp: valid_frame_def)
    from standard_id_roundtrip_reg[OF this(2)] 1 show ?thesis
      using assms(2) by (simp add: decode_frame_def a msg_id_reg_def dSTANDARD_CAN_MSG_ID_2_0B_def)
  qed
  have "take (unat (dlc m)) (frame_data ?m') = take (unat (dlc m)) (frame_data m)"
    using len by (simp add: take_frame_data_decode assms(4) d)
  with dl ty show ?thesis by (simp add: same_frame_def)
qed

text \<open>
  C2: loop back. A valid frame that was transmitted and whose bytes come back in a receive buffer
  (followed by any bytes in the unused part of the buffer), with the frame type the controller
  reports for it, is received with the same identifier type, identifier, length and data.
\<close>

theorem loopback_roundtrip:
  assumes "valid_frame m"
    and "rx_rxBuffer (rx_status_of env s) \<noteq> 0"
    and "rx_msgType (rx_status_of env s) = (if idType m = 2 then 2 else 0)"
    and "rx_bytes_of env s = wire_bytes m @ rest"
  shows "\<exists>m' s'. CANSPI_Receive env m0 s = (1, m', s') \<and>
     idType m' = idType m \<and> can_id m' = can_id m \<and> dlc m' = dlc m \<and>
     take (unat (dlc m)) (frame_data m') = take (unat (dlc m)) (frame_data m)"
  using decode_wire_bytes[OF assms(1) assms(3) assms(4) length_rx_bytes_of, of m0] assms(2)
  by (simp add: CANSPI_Receive_eq Let_def same_frame_def)

text \<open>A chip that reports an extended data frame in buffer 0 and holds the bytes of the example frame.\<close>

definition loop_env :: spi_env where
  "loop_env = \<lparr>spi_ready = (\<lambda>_ _. True),
     spi_miso = (\<lambda>tr i. if last tr = SpiTx [0xB0] then 0x50
                       else [0xD5, 0xE8, 0xDE, 0xF5, 3, 1, 2, 3, 7, 7, 7, 7, 7] ! i)\<rparr>"

lemma example_wire: "wire_bytes example_msg = [0xD5, 0xE8, 0xDE, 0xF5, 3, 1, 2, 3]"
  by (simp add: wire_bytes_def id_reg_bytes_def msg_id_reg_def example_msg_def convertCANid2Reg_def
      Let_def dEXTENDED_CAN_MSG_ID_2_0B_def frame_data_def)

theorem loopback_roundtrip_witness:
  "valid_frame example_msg \<and>
   (\<exists>m' s'. CANSPI_Receive loop_env (example_msg\<lparr>can_id := 0, dlc := 0, data0 := 0\<rparr>) example_canspi =
        (1, m', s') \<and> idType m' = 2 \<and> can_id m' = 0x1ABCDEF5 \<and> dlc m' = 3 \<and>
        take 3 (frame_data m') = [1, 2, 3])"
proof -
  have st: "rx_status_of loop_env example_canspi = 0x50"
    by (simp add: rx_status_of_def loop_env_def)
  have v: "valid_frame example_msg" by (simp add: valid_frame_def example_msg_def)
  have b: "rx_rxBuffer (rx_status_of loop_env example_canspi) \<noteq> 0"
    by (simp add: st rx_rxBuffer_def)
  have t: "rx_msgType (rx_status_of loop_env example_canspi) = (if idType example_msg = 2 then 2 else 0)"
    by (simp add: st rx_msgType_def example_msg_def)
  have w: "rx_bytes_of loop_env example_canspi = wire_bytes example_msg @ [7, 7, 7, 7, 7]"
    by (simp add: rx_bytes_of_def Let_def st example_wire loop_env_def example_canspi_def
        rx_read_insn_def rx_rxBuffer_def upt_rec)
  from v loopback_roundtrip[OF v b t w, of "example_msg\<lparr>can_id := 0, dlc := 0, data0 := 0\<rparr>"]
  show ?thesis by (simp add: example_msg_def frame_data_def)
qed

subsection \<open>Reading what the two receive buffers hold\<close>

text \<open>
  What the data sheet says of the two receive buffers: the receive status has a flag for each
  buffer that holds a message and the type of the message that is read next, a \<open>READ RX BUFFER\<close>
  instruction gives the bytes of its buffer and marks it as empty. The traffic since a given point
  says which buffers are still full; traffic other than an instruction byte and its answer is not
  described.
\<close>

type_synonym held = "uCAN_MSG option \<times> uCAN_MSG option"

fun held_after :: "spi_trace \<Rightarrow> held \<Rightarrow> held option" where
  "held_after [] h = Some h"
| "held_after (SpiTx [c] # SpiRx ds # tr) (b0, b1) =
     held_after tr (if c = 0x90 then None else b0, if c = 0x94 then None else b1)"
| "held_after _ h = None"

definition held_frames :: "held \<Rightarrow> uCAN_MSG list" where
  "held_frames h = (case fst h of None \<Rightarrow> [] | Some m \<Rightarrow> [m]) @ (case snd h of None \<Rightarrow> [] | Some m \<Rightarrow> [m])"

definition held_status :: "held \<Rightarrow> u8" where
  "held_status h =
     (if fst h = None then 0 else 0x40) OR (if snd h = None then 0 else 0x80) OR
     (case held_frames h of m # _ \<Rightarrow> if idType m = 2 then 0x10 else 0 | [] \<Rightarrow> 0)"

definition gives_frame :: "spi_env \<Rightarrow> spi_trace \<Rightarrow> uCAN_MSG option \<Rightarrow> bool" where
  "gives_frame env tr b \<longleftrightarrow>
     (\<forall>m. b = Some m \<longrightarrow> (\<exists>rest. map (spi_miso env tr) [0..<13] = wire_bytes m @ rest))"

definition holds_frames :: "spi_env \<Rightarrow> spi_trace \<Rightarrow> held \<Rightarrow> bool" where
  "holds_frames env tr h \<longleftrightarrow>
     (\<forall>us b0 b1. held_after us h = Some (b0, b1) \<longrightarrow>
        spi_miso env (tr @ us @ [SpiTx [0xB0]]) 0 = held_status (b0, b1) \<and>
        gives_frame env (tr @ us @ [SpiTx [0x90]]) b0 \<and> gives_frame env (tr @ us @ [SpiTx [0x94]]) b1)"

fun receive_calls :: "spi_env \<Rightarrow> nat \<Rightarrow> uCAN_MSG \<Rightarrow> canspi \<Rightarrow> (u8 \<times> uCAN_MSG) list" where
  "receive_calls env 0 m s = []"
| "receive_calls env (Suc n) m s =
     (case CANSPI_Receive env m s of (r, m', s') \<Rightarrow> (r, m') # receive_calls env n m s')"

definition read_next :: "held \<Rightarrow> held" where
  "read_next h = (if fst h = None then (None, None) else (None, snd h))"

lemma held_frames_read_next: "held_frames (read_next h) = tl (held_frames h)"
  by (cases "fst h"; cases "snd h") (simp_all add: held_frames_def read_next_def)

lemma held_after_append:
  "held_after us h = Some h' \<Longrightarrow> held_after (us @ vs) h = held_after vs h'"
  by (induction us h rule: held_after.induct) simp_all

lemma holds_frames_later:
  assumes "holds_frames env tr h" and "held_after us h = Some h'"
  shows "holds_frames env (tr @ us) h'"
  unfolding holds_frames_def
proof (intro allI impI)
  fix vs b0 b1
  assume "held_after vs h' = Some (b0, b1)"
  with assms(2) have "held_after (us @ vs) h = Some (b0, b1)" by (simp add: held_after_append)
  from assms(1)[unfolded holds_frames_def, rule_format, OF this]
  show "spi_miso env ((tr @ us) @ vs @ [SpiTx [0xB0]]) 0 = held_status (b0, b1) \<and>
      gives_frame env ((tr @ us) @ vs @ [SpiTx [0x90]]) b0 \<and>
      gives_frame env ((tr @ us) @ vs @ [SpiTx [0x94]]) b1"
    by simp
qed

lemma held_status_fields:
  "rx_rxBuffer (held_status h) = 0 \<longleftrightarrow> held_frames h = []"
  "rx_read_insn (held_status h) = (if fst h = None \<and> snd h \<noteq> None then 0x94 else 0x90)"
  "held_frames h = m # ms \<Longrightarrow> rx_msgType (held_status h) = (if idType m = 2 then 2 else 0)"
  by (cases "fst h"; cases "snd h";
      simp add: held_status_def held_frames_def rx_rxBuffer_def rx_read_insn_def rx_msgType_def)+

lemma receive_empty:
  assumes "holds_frames env (bus s) h" and "held_frames h = []"
  shows "\<exists>s'. CANSPI_Receive env m0 s = (0, m0, s') \<and> holds_frames env (bus s') h"
proof -
  have st: "rx_status_of env s = held_status h"
    using assms(1) unfolding holds_frames_def rx_status_of_def
    by (metis append_Nil held_after.simps(1) surj_pair)
  have "holds_frames env (bus s @ [SpiTx [0xB0], SpiRx [held_status h]]) h"
    by (rule holds_frames_later[OF assms(1)]) (cases h, simp)
  then show ?thesis
    by (simp add: CANSPI_Receive_eq Let_def st held_status_fields assms(2))
qed

lemma receive_next:
  assumes "holds_frames env (bus s) h" and "held_frames h = m # ms" and "valid_frame m"
  shows "\<exists>m' s'. CANSPI_Receive env m0 s = (1, m', s') \<and> same_frame m m' \<and>
     holds_frames env (bus s') (read_next h)"
proof -
  let ?st = "held_status h"
  let ?us = "[SpiTx [0xB0], SpiRx [?st]]"
  let ?a = "rx_bytes_of env s"
  have st: "rx_status_of env s = ?st"
    using assms(1) unfolding holds_frames_def rx_status_of_def
    by (metis append_Nil held_after.simps(1) surj_pair)
  have asked: "held_after ?us h = Some (fst h, snd h)" by (cases h) simp
  then have "gives_frame env (bus s @ ?us @ [SpiTx [0x90]]) (fst h)"
    "gives_frame env (bus s @ ?us @ [SpiTx [0x94]]) (snd h)"
    using assms(1) unfolding holds_frames_def by blast+
  then obtain rest where a: "?a = wire_bytes m @ rest"
    using assms(2) unfolding rx_bytes_of_def Let_def st gives_frame_def
    by (cases "fst h"; cases "snd h") (auto simp: held_frames_def held_status_fields)
  have left: "holds_frames env (bus s @ ?us @ [SpiTx [rx_read_insn ?st], SpiRx ?a]) (read_next h)"
    by (rule holds_frames_later[OF assms(1)])
      (cases h; use assms(2) in \<open>auto simp: held_status_fields read_next_def held_frames_def
          split: option.splits\<close>)
  have "same_frame m (decode_frame ?st ?a m0)"
    by (rule decode_wire_bytes[OF assms(3) held_status_fields(3)[OF assms(2)] a length_rx_bytes_of])
  with left show ?thesis
    by (simp add: CANSPI_Receive_eq Let_def st held_status_fields assms(2))
qed

text \<open>
  C34: reading out the controller. When the two receive buffers hold any frames (none, one or two),
  successive receptions return them one by one, buffer 0 before buffer 1, each once and with the
  kind, identifier, length and data that were put in; every further call returns 0 and leaves the
  caller's frame as it was.
\<close>

theorem receive_drains_buffers:
  assumes "holds_frames env (bus s) h" and "list_all valid_frame (held_frames h)"
  shows "length (receive_calls env n m0 s) = n \<and>
     (\<forall>k < n. case receive_calls env n m0 s ! k of (r, m') \<Rightarrow>
        if k < length (held_frames h) then r = 1 \<and> same_frame (held_frames h ! k) m'
        else r = 0 \<and> m' = m0)"
  using assms
proof (induction n arbitrary: s h)
  case 0
  show ?case by simp
next
  case (Suc n)
  show ?case
  proof (cases "held_frames h")
    case Nil
    from receive_empty[OF Suc.prems(1) this, of m0]
    obtain s' where s': "CANSPI_Receive env m0 s = (0, m0, s')" "holds_frames env (bus s') h" by blast
    from Suc.IH[OF this(2) Suc.prems(2)] show ?thesis
      by (auto simp: s'(1) Nil nth_Cons split: nat.split prod.splits)
  next
    case (Cons m ms)
    then have "valid_frame m" using Suc.prems(2) by simp
    from receive_next[OF Suc.prems(1) Cons this, of m0] obtain m' s' where
      s': "CANSPI_Receive env m0 s = (1, m', s')" "same_frame m m'"
        "holds_frames env (bus s') (read_next h)" by blast
    have ms: "held_frames (read_next h) = ms" by (simp add: held_frames_read_next Cons)
    from Suc.IH[OF s'(3)] Suc.prems(2) show ?thesis
      by (auto simp: s'(1,2) ms Cons nth_Cons split: nat.split prod.splits)
  qed
qed

text \<open>A controller with an extended frame in buffer 0 and a standard one in buffer 1.\<close>

definition second_msg :: uCAN_MSG where
  "second_msg = \<lparr>idType = 1, can_id = 0x123, dlc = 1, data0 = 9, data1 = 0, data2 = 0,
     data3 = 0, data4 = 0, data5 = 0, data6 = 0, data7 = 0\<rparr>"

definition full_env :: spi_env where
  "full_env = \<lparr>spi_ready = (\<lambda>_ _. True),
     spi_miso = (\<lambda>tr i. if last tr = SpiTx [0xB0]
         then (case held_after (butlast tr) (Some example_msg, Some second_msg) of
                 None \<Rightarrow> 0 | Some h \<Rightarrow> held_status h)
         else if last tr = SpiTx [0x90] then (wire_bytes example_msg @ replicate 13 7) ! i
         else (wire_bytes second_msg @ replicate 13 7) ! i)\<rparr>"

theorem receive_drains_buffers_witness:
  "holds_frames full_env (bus example_canspi) (Some example_msg, Some second_msg) \<and>
   (\<exists>a b. receive_calls full_env 3 example_msg example_canspi = [(1, a), (1, b), (0, example_msg)] \<and>
      can_id a = 0x1ABCDEF5 \<and> take 3 (frame_data a) = [1, 2, 3] \<and>
      can_id b = 0x123 \<and> take 1 (frame_data b) = [9])"
proof -
  let ?h = "(Some example_msg, Some second_msg)"
  let ?r = "receive_calls full_env 3 example_msg example_canspi"
  have second: "wire_bytes second_msg = [0x24, 0x60, 0, 0, 1, 9]"
    by (simp add: wire_bytes_def id_reg_bytes_def msg_id_reg_def second_msg_def convertCANid2Reg_def
        Let_def dEXTENDED_CAN_MSG_ID_2_0B_def frame_data_def idreg0_def)
  have kept: "held_after us (b0, b1) = Some h \<Longrightarrow> fst h \<in> {b0, None} \<and> snd h \<in> {b1, None}"
    for us b0 b1 h
    by (induction us "(b0, b1)" arbitrary: b0 b1 rule: held_after.induct) (fastforce split: if_splits)+
  have upt: "[0..<13] = [0, 1, 2, 3, 4, 5, 6, 7, 8, 9, 10, 11, 12]" by (simp add: upt_rec)
  have h: "holds_frames full_env (bus example_canspi) ?h"
    unfolding holds_frames_def
  proof (intro allI impI conjI)
    fix us b0 b1
    assume u: "held_after us ?h = Some (b0, b1)"
    show "spi_miso full_env (bus example_canspi @ us @ [SpiTx [0xB0]]) 0 = held_status (b0, b1)"
      by (simp add: full_env_def example_canspi_def u)
    show "gives_frame full_env (bus example_canspi @ us @ [SpiTx [0x90]]) b0"
      using kept[OF u] by (auto simp: gives_frame_def full_env_def example_canspi_def example_wire upt)
    show "gives_frame full_env (bus example_canspi @ us @ [SpiTx [0x94]]) b1"
      using kept[OF u] by (auto simp: gives_frame_def full_env_def example_canspi_def second upt)
  qed
  have v: "list_all valid_frame (held_frames ?h)"
    by (simp add: held_frames_def valid_frame_def example_msg_def second_msg_def)
  have fs: "held_frames ?h = [example_msg, second_msg]" by (simp add: held_frames_def)
  note drained = receive_drains_buffers[OF h v, of 3 example_msg, unfolded fs]
  have r: "length ?r = 3" by (rule drained[THEN conjunct1])
  have k: "case ?r ! k of (r, m') \<Rightarrow> if k < length [example_msg, second_msg]
      then r = 1 \<and> same_frame ([example_msg, second_msg] ! k) m' else r = 0 \<and> m' = example_msg"
    if "k < 3" for k
    by (rule drained[THEN conjunct2, THEN spec, THEN mp, OF that])
  from r obtain x y z where xyz: "?r = [x, y, z]"
    by (auto simp: numeral_3_eq_3 length_Suc_conv)
  have ids: "can_id example_msg = 0x1ABCDEF5" "dlc example_msg = 3" "can_id second_msg = 0x123"
    "dlc second_msg = 1" "take 3 (frame_data example_msg) = [1, 2, 3]"
    "take 1 (frame_data second_msg) = [9]"
    by (simp_all add: example_msg_def second_msg_def frame_data_def)
  from k[of 0, unfolded xyz] have x: "x = (1, snd x)" "same_frame example_msg (snd x)"
    by (cases x; simp)+
  from k[of 1, unfolded xyz] have y: "y = (1, snd y)" "same_frame second_msg (snd y)"
    by (cases y; simp)+
  from k[of 2, unfolded xyz] have z: "z = (0, example_msg)" by (cases z; simp)
  have "?r = [(1, snd x), (1, snd y), (0, example_msg)]"
    unfolding xyz z using x(1) y(1) by (metis (no_types))
  moreover have "can_id (snd x) = 0x1ABCDEF5" "take 3 (frame_data (snd x)) = [1, 2, 3]"
    using x(2)[unfolded same_frame_def ids] by (auto simp: ids(5)[symmetric])
  moreover have "can_id (snd y) = 0x123" "take 1 (frame_data (snd y)) = [9]"
    using y(2)[unfolded same_frame_def ids] by (auto simp: ids(6)[symmetric])
  ultimately show ?thesis using h by blast
qed

text \<open>
  An extended remote frame (frame type 3 of the receive status) is handed to the caller as a
  standard frame: the receiver tests for type 2 only, so the low 18 bits of the identifier are lost.
\<close>

theorem extended_remote_frame_misread:
  assumes "rx_rxBuffer (rx_status_of env s) \<noteq> 0" and "rx_msgType (rx_status_of env s) = 3"
  shows "\<exists>m' s'. CANSPI_Receive env m0 s = (1, m', s') \<and> idType m' = dSTANDARD_CAN_MSG_ID_2_0B \<and>
     can_id m' = convertReg2StandardCANid (rx_bytes_of env s ! 0) (rx_bytes_of env s ! 1)"
  using assms
  by (simp add: CANSPI_Receive_eq Let_def decode_frame_def dSTANDARD_CAN_MSG_ID_2_0B_def)

definition remote_env :: spi_env where
  "remote_env = \<lparr>spi_ready = (\<lambda>_ _. True),
     spi_miso = (\<lambda>tr i. if last tr = SpiTx [0xB0] then 0x58
                       else [0xD5, 0xE8, 0xDE, 0xF5, 0x40, 0, 0, 0, 0, 0, 0, 0, 0] ! i)\<rparr>"

theorem extended_remote_frame_misread_witness:
  "\<exists>m' s'. CANSPI_Receive remote_env example_msg example_canspi = (1, m', s') \<and>
     idType m' = 1 \<and> can_id m' = 0x6AF"
proof -
  have st: "rx_status_of remote_env example_canspi = 0x58"
    by (simp add: rx_status_of_def remote_env_def)
  have b: "rx_rxBuffer (rx_status_of remote_env example_canspi) \<noteq> 0"
    by (simp add: st rx_rxBuffer_def)
  have t: "rx_msgType (rx_status_of remote_env example_canspi) = 3"
    by (simp add: st rx_msgType_def)
  have a: "rx_bytes_of remote_env example_canspi ! 0 = 0xD5"
    "rx_bytes_of remote_env example_canspi ! 1 = 0xE8"
    by (simp_all add: rx_bytes_of_def Let_def st remote_env_def example_canspi_def
        rx_read_insn_def rx_rxBuffer_def)
  from extended_remote_frame_misread[OF b t, of example_msg] show ?thesis
    unfolding a by (simp add: convertReg2StandardCANid_def Let_def dSTANDARD_CAN_MSG_ID_2_0B_def)
qed

section \<open>Initialisation\<close>





text \<open>
  Which frames the controller takes, by its data sheet. A frame arrives as the four bytes of the
  identifier registers: bit 3 of the second says that the frame is extended; for a standard frame
  the last two are its first two data bytes. A filter whose EXIDE bit (bit 3 of \<open>RXFnSIDL\<close>) is set
  applies to extended frames only, and a filter whose EXIDE bit is clear to standard frames only;
  the identifier bits that the mask selects have to agree with the filter's. A receive buffer takes
  a frame when its mode bits (\<open>RXM\<close>, bits 6 and 5 of \<open>RXBnCTRL\<close>) turn the filters off, or when
  they are clear and one of its filters matches; the other two settings are reserved. Buffer 0 has
  mask 0 with filters 0 and 1, buffer 1 has mask 1 with filters 2 to 5.
\<close>

definition id_field :: "nat \<Rightarrow> u8" where
  "id_field k = (if k = 1 then 0xE3 else 0xFF)"

definition filter_matches :: "(u8 \<rightharpoonup> u8) \<Rightarrow> u8 \<Rightarrow> u8 list \<Rightarrow> u8 \<Rightarrow> bool" where
  "filter_matches m rxm b rxf \<longleftrightarrow>
     map_option (\<lambda>y. bit y 3) (m (rxf + 1)) = Some (bit (b ! 1) 3) \<and>
     list_all (\<lambda>k. case (m (rxm + of_nat k), m (rxf + of_nat k)) of
        (Some x, Some y) \<Rightarrow> (b ! k XOR y) AND x AND id_field k = 0 | _ \<Rightarrow> False) [0, 1, 2, 3]"

definition buffer_takes :: "(u8 \<rightharpoonup> u8) \<Rightarrow> u8 \<Rightarrow> u8 \<Rightarrow> u8 list \<Rightarrow> u8 list \<Rightarrow> bool" where
  "buffer_takes m rxbctrl rxm rxfs b \<longleftrightarrow>
     (case m rxbctrl of
        None \<Rightarrow> False
      | Some c \<Rightarrow> c AND 0x60 = 0x60 \<or> c AND 0x60 = 0 \<and> list_ex (filter_matches m rxm b) rxfs)"




text \<open>
  With the EXIDE bit clear in every filter of a buffer, no extended frame is taken by it.
\<close>

lemma no_extended_without_EXIDE:
  assumes "m rxbctrl = Some c" and "c AND 0x60 = 0"
    and "\<And>f. f \<in> set rxfs \<Longrightarrow> map_option (\<lambda>y. bit y 3) (m (f + 1)) = Some False" and "bit (b ! 1) 3"
  shows "\<not> buffer_takes m rxbctrl rxm rxfs b"
proof
  assume "buffer_takes m rxbctrl rxm rxfs b"
  then obtain f where "f \<in> set rxfs" "filter_matches m rxm b f"
    using assms(1,2) by (auto simp: buffer_takes_def list_ex_iff)
  then show False using assms(3)[of f] assms(4) by (simp add: filter_matches_def)
qed











text \<open>
  The number of waiting messages is the number of receive buffers whose interrupt flag is set
  (so 0, 1 or 2), and each error query reports exactly its flag of the error register.
\<close>

theorem status_queries:
  "fst (CANSPI_messagesInBuffer env s) =
     of_nat (card {k. k < 2 \<and> bit (spi_miso env (bus s @ [SpiTx [0xA0]]) 0) k}) \<and>
   fst (CANSPI_isBussOff env s) = of_bool (bit (spi_miso env (bus s @ [SpiTx [3], SpiTx [0x2D]]) 0) 5) \<and>
   fst (CANSPI_isTxErrorPassive env s) = of_bool (bit (spi_miso env (bus s @ [SpiTx [3], SpiTx [0x2D]]) 0) 4) \<and>
   fst (CANSPI_isRxErrorPassive env s) = of_bool (bit (spi_miso env (bus s @ [SpiTx [3], SpiTx [0x2D]]) 0) 3)"
proof -
  have card: "card {k. k < 2 \<and> bit v k} = of_bool (bit v 0) + of_bool (bit v 1)" for v :: u8
  proof -
    have "{k. k < 2 \<and> bit v k} = (if bit v 0 then {0} else {}) \<union> (if bit v 1 then {1} else {})"
    proof (rule set_eqI)
      fix k
      show "k \<in> {k. k < 2 \<and> bit v k} \<longleftrightarrow>
          k \<in> (if bit v 0 then {0} else {}) \<union> (if bit v 1 then {1} else {})"
        by (cases "k = 0"; cases "k = 1") auto
    qed
    then show ?thesis by simp
  qed
  show ?thesis
    unfolding card
    by (simp add: CANSPI_messagesInBuffer_def CANSPI_isBussOff_def CANSPI_isTxErrorPassive_def
        CANSPI_isRxErrorPassive_def MCP2515_ReadStatus_def MCP2515_ReadByte_def SPI_Rx_eq SPI_Tx_def
        Let_def mcp2515_insn_defs mcp2515_reg_defs RX0IF_def RX1IF_def TXBO_def TXEP_def RXEP_def)
qed

end
