(* ===== verification/Hal_Gpio.thy ===== *)
theory Hal_Gpio
  imports Prelude
begin

text \<open>
  The GPIO driver of the HAL (\<^verbatim>\<open>Drivers/STM32MP1xx_HAL_Driver/Src/stm32mp1xx_hal_gpio.c\<close>), built for
  the Cortex-M4 (\<^verbatim>\<open>EXTI_CurrentCPU\<close> is \<open>EXTI_C2\<close>). The parameter checks of the source are compiled
  out (\<open>USE_FULL_ASSERT\<close> is not defined) and are not part of the functions.

  The registers are the state. The configuration registers are plain memory; the write-only
  registers \<open>BSRR\<close> and \<open>BRR\<close> act on \<open>ODR\<close>, and a pending register is cleared by writing ones to it,
  as the reference manual of the chip says.

  The theorems see the packed registers as one configuration per pin (\<open>pin_cfg\<close>) and one per
  interrupt line (\<open>line_cfg\<close>), and show that the loops of the driver update exactly the selected
  pins of one port.
\<close>

section \<open>Registers\<close>

datatype gpio_port = GPIOA | GPIOB | GPIOC | GPIOD | GPIOE | GPIOF | GPIOG | GPIOH | GPIOI | GPIOJ
  | GPIOK | GPIOZ

definition GPIO_GET_INDEX :: "gpio_port \<Rightarrow> u8" where
  "GPIO_GET_INDEX port =
     (case port of GPIOA \<Rightarrow> 0 | GPIOB \<Rightarrow> 1 | GPIOC \<Rightarrow> 2 | GPIOD \<Rightarrow> 3 | GPIOE \<Rightarrow> 4 | GPIOF \<Rightarrow> 5
      | GPIOG \<Rightarrow> 6 | GPIOH \<Rightarrow> 7 | GPIOI \<Rightarrow> 8 | GPIOJ \<Rightarrow> 9 | GPIOK \<Rightarrow> 10 | GPIOZ \<Rightarrow> 11)"

record gpio_regs =
  MODER :: u32
  OTYPER :: u32
  OSPEEDR :: u32
  PUPDR :: u32
  IDR :: u32
  ODR :: u32
  AFR :: "nat \<Rightarrow> u32"

record exti_regs =
  EXTICR :: "nat \<Rightarrow> u32"
  IMR1 :: u32
  EMR1 :: u32
  RTSR1 :: u32
  FTSR1 :: u32
  RPR1 :: u32
  FPR1 :: u32

record gpio_sys =
  gpio :: "gpio_port \<Rightarrow> gpio_regs"
  exti :: exti_regs

record GPIO_InitTypeDef =
  Pin :: u32
  Mode :: u32
  Pull :: u32
  Speed :: u32
  Alternate :: u32

definition GPIO_MODE :: u32 where "GPIO_MODE = 0x00000003"
definition EXTI_MODE :: u32 where "EXTI_MODE = 0x10000000"
definition GPIO_MODE_IT :: u32 where "GPIO_MODE_IT = 0x00010000"
definition GPIO_MODE_EVT :: u32 where "GPIO_MODE_EVT = 0x00020000"
definition RISING_EDGE :: u32 where "RISING_EDGE = 0x00100000"
definition FALLING_EDGE :: u32 where "FALLING_EDGE = 0x00200000"
definition GPIO_OUTPUT_TYPE :: u32 where "GPIO_OUTPUT_TYPE = 0x00000010"
definition GPIO_NUMBER :: nat where "GPIO_NUMBER = 16"

definition GPIO_MODE_INPUT :: u32 where "GPIO_MODE_INPUT = 0x00000000"
definition GPIO_MODE_OUTPUT_PP :: u32 where "GPIO_MODE_OUTPUT_PP = 0x00000001"
definition GPIO_MODE_OUTPUT_OD :: u32 where "GPIO_MODE_OUTPUT_OD = 0x00000011"
definition GPIO_MODE_AF_PP :: u32 where "GPIO_MODE_AF_PP = 0x00000002"
definition GPIO_MODE_AF_OD :: u32 where "GPIO_MODE_AF_OD = 0x00000012"
definition GPIO_MODE_ANALOG :: u32 where "GPIO_MODE_ANALOG = 0x00000003"
definition GPIO_MODE_IT_RISING :: u32 where "GPIO_MODE_IT_RISING = 0x10110000"
definition GPIO_MODE_IT_FALLING :: u32 where "GPIO_MODE_IT_FALLING = 0x10210000"

definition GPIO_SPEED_FREQ_LOW :: u32 where "GPIO_SPEED_FREQ_LOW = 0"
definition GPIO_SPEED_FREQ_HIGH :: u32 where "GPIO_SPEED_FREQ_HIGH = 2"
definition GPIO_SPEED_FREQ_VERY_HIGH :: u32 where "GPIO_SPEED_FREQ_VERY_HIGH = 3"
definition GPIO_NOPULL :: u32 where "GPIO_NOPULL = 0"
definition GPIO_PULLUP :: u32 where "GPIO_PULLUP = 1"

lemmas gpio_const_defs =
  GPIO_MODE_def EXTI_MODE_def GPIO_MODE_IT_def GPIO_MODE_EVT_def RISING_EDGE_def FALLING_EDGE_def
  GPIO_OUTPUT_TYPE_def GPIO_NUMBER_def GPIO_MODE_INPUT_def GPIO_MODE_OUTPUT_PP_def
  GPIO_MODE_OUTPUT_OD_def GPIO_MODE_AF_PP_def GPIO_MODE_AF_OD_def GPIO_MODE_ANALOG_def
  GPIO_MODE_IT_RISING_def GPIO_MODE_IT_FALLING_def GPIO_SPEED_FREQ_LOW_def
  GPIO_SPEED_FREQ_HIGH_def GPIO_SPEED_FREQ_VERY_HIGH_def GPIO_NOPULL_def GPIO_PULLUP_def

section \<open>Operations\<close>

text \<open>The recurring pair \<^verbatim>\<open>temp &= ~(m << sh); temp |= (v << sh);\<close>.\<close>

definition modify_field :: "u32 \<Rightarrow> nat \<Rightarrow> u32 \<Rightarrow> u32 \<Rightarrow> u32" where
  "modify_field m sh v temp = (temp AND NOT (push_bit sh m)) OR push_bit sh v"

text \<open>The recurring \<^verbatim>\<open>temp &= ~iocurrent; if (c) temp |= iocurrent;\<close>.\<close>

definition modify_line :: "u32 \<Rightarrow> bool \<Rightarrow> u32 \<Rightarrow> u32" where
  "modify_line iocurrent c temp =
     (let temp = temp AND NOT iocurrent in if c then temp OR iocurrent else temp)"

definition is_alternate :: "GPIO_InitTypeDef \<Rightarrow> bool" where
  "is_alternate cfg \<longleftrightarrow> Mode cfg = GPIO_MODE_AF_PP \<or> Mode cfg = GPIO_MODE_AF_OD"

definition is_driven :: "GPIO_InitTypeDef \<Rightarrow> bool" where
  "is_driven cfg \<longleftrightarrow> Mode cfg = GPIO_MODE_OUTPUT_PP \<or> Mode cfg = GPIO_MODE_AF_PP \<or>
     Mode cfg = GPIO_MODE_OUTPUT_OD \<or> Mode cfg = GPIO_MODE_AF_OD"

definition init_port_pin :: "GPIO_InitTypeDef \<Rightarrow> nat \<Rightarrow> gpio_regs \<Rightarrow> gpio_regs" where
  "init_port_pin cfg position r =
     (let r = (if is_alternate cfg
               then r\<lparr>AFR := (AFR r)(position div 8 :=
                        modify_field 0xF ((position mod 8) * 4) (Alternate cfg)
                          (AFR r (position div 8)))\<rparr>
               else r);
          r = r\<lparr>MODER := modify_field 3 (position * 2) (Mode cfg AND GPIO_MODE) (MODER r)\<rparr>;
          r = (if is_driven cfg
               then r\<lparr>OSPEEDR := modify_field 3 (position * 2) (Speed cfg) (OSPEEDR r),
                      OTYPER := modify_field 1 position
                        (drop_bit 4 (Mode cfg AND GPIO_OUTPUT_TYPE)) (OTYPER r)\<rparr>
               else r)
      in r\<lparr>PUPDR := modify_field 3 (position * 2) (Pull cfg) (PUPDR r)\<rparr>)"

definition init_exti_line ::
    "gpio_port \<Rightarrow> GPIO_InitTypeDef \<Rightarrow> nat \<Rightarrow> u32 \<Rightarrow> exti_regs \<Rightarrow> exti_regs" where
  "init_exti_line GPIOx cfg position iocurrent e =
     e\<lparr>EXTICR := (EXTICR e)(position div 4 :=
          modify_field 0xFF (8 * (position mod 4)) (ucast (GPIO_GET_INDEX GPIOx))
            (EXTICR e (position div 4))),
       IMR1 := modify_line iocurrent (Mode cfg AND GPIO_MODE_IT = GPIO_MODE_IT) (IMR1 e),
       EMR1 := modify_line iocurrent (Mode cfg AND GPIO_MODE_EVT = GPIO_MODE_EVT) (EMR1 e),
       RTSR1 := modify_line iocurrent (Mode cfg AND RISING_EDGE = RISING_EDGE) (RTSR1 e),
       FTSR1 := modify_line iocurrent (Mode cfg AND FALLING_EDGE = FALLING_EDGE) (FTSR1 e)\<rparr>"

definition init_position ::
    "gpio_port \<Rightarrow> GPIO_InitTypeDef \<Rightarrow> nat \<Rightarrow> gpio_sys \<Rightarrow> gpio_sys" where
  "init_position GPIOx cfg position s =
     (let ioposition = push_bit position (1 :: u32); iocurrent = Pin cfg AND ioposition
      in if iocurrent = ioposition
         then (let s = s\<lparr>gpio := (gpio s)(GPIOx := init_port_pin cfg position (gpio s GPIOx))\<rparr>
               in if Mode cfg AND EXTI_MODE = EXTI_MODE
                  then s\<lparr>exti := init_exti_line GPIOx cfg position iocurrent (exti s)\<rparr>
                  else s)
         else s)"

definition HAL_GPIO_Init :: "gpio_port \<Rightarrow> GPIO_InitTypeDef \<Rightarrow> gpio_sys \<Rightarrow> gpio_sys" where
  "HAL_GPIO_Init GPIOx cfg s = fold (init_position GPIOx cfg) [0..<GPIO_NUMBER] s"

definition deinit_port_pin :: "nat \<Rightarrow> gpio_regs \<Rightarrow> gpio_regs" where
  "deinit_port_pin position r =
     r\<lparr>MODER := MODER r OR push_bit (position * 2) 3,
       AFR := (AFR r)(position div 8 :=
         AFR r (position div 8) AND NOT (push_bit ((position mod 8) * 4) 0xF)),
       OSPEEDR := OSPEEDR r AND NOT (push_bit (position * 2) 3),
       OTYPER := OTYPER r AND NOT (push_bit position 1),
       PUPDR := PUPDR r AND NOT (push_bit (position * 2) 3)\<rparr>"

definition deinit_exti_line :: "gpio_port \<Rightarrow> nat \<Rightarrow> u32 \<Rightarrow> exti_regs \<Rightarrow> exti_regs" where
  "deinit_exti_line GPIOx position iocurrent e =
     (if EXTICR e (position div 4) AND push_bit (8 * (position mod 4)) 0xFF =
         push_bit (8 * (position mod 4)) (ucast (GPIO_GET_INDEX GPIOx))
      then e\<lparr>IMR1 := IMR1 e AND NOT iocurrent, EMR1 := EMR1 e AND NOT iocurrent,
             RTSR1 := RTSR1 e AND NOT iocurrent, FTSR1 := FTSR1 e AND NOT iocurrent,
             EXTICR := (EXTICR e)(position div 4 :=
               EXTICR e (position div 4) AND NOT (push_bit (8 * (position mod 4)) 0xFF))\<rparr>
      else e)"

definition deinit_position :: "gpio_port \<Rightarrow> u32 \<Rightarrow> nat \<Rightarrow> gpio_sys \<Rightarrow> gpio_sys" where
  "deinit_position GPIOx GPIO_Pin position s =
     (let ioposition = push_bit position (1 :: u32); iocurrent = GPIO_Pin AND ioposition
      in if iocurrent = ioposition
         then s\<lparr>exti := deinit_exti_line GPIOx position iocurrent (exti s),
                gpio := (gpio s)(GPIOx := deinit_port_pin position (gpio s GPIOx))\<rparr>
         else s)"

definition HAL_GPIO_DeInit :: "gpio_port \<Rightarrow> u32 \<Rightarrow> gpio_sys \<Rightarrow> gpio_sys" where
  "HAL_GPIO_DeInit GPIOx GPIO_Pin s = fold (deinit_position GPIOx GPIO_Pin) [0..<GPIO_NUMBER] s"

datatype GPIO_PinState = GPIO_PIN_RESET | GPIO_PIN_SET

definition HAL_GPIO_ReadPin :: "gpio_port \<Rightarrow> u16 \<Rightarrow> gpio_sys \<Rightarrow> GPIO_PinState" where
  "HAL_GPIO_ReadPin GPIOx GPIO_Pin s =
     (if IDR (gpio s GPIOx) AND ucast GPIO_Pin \<noteq> 0 then GPIO_PIN_SET else GPIO_PIN_RESET)"

text \<open>Writes of \<open>BSRR\<close> (low half sets, high half clears, setting wins) and of \<open>BRR\<close>.\<close>

definition write_BSRR :: "gpio_port \<Rightarrow> u32 \<Rightarrow> gpio_sys \<Rightarrow> gpio_sys" where
  "write_BSRR GPIOx v s = s\<lparr>gpio := (gpio s)(GPIOx := (gpio s GPIOx)
     \<lparr>ODR := (ODR (gpio s GPIOx) AND NOT (drop_bit 16 v)) OR take_bit 16 v\<rparr>)\<rparr>"

definition write_BRR :: "gpio_port \<Rightarrow> u32 \<Rightarrow> gpio_sys \<Rightarrow> gpio_sys" where
  "write_BRR GPIOx v s = s\<lparr>gpio := (gpio s)(GPIOx := (gpio s GPIOx)
     \<lparr>ODR := ODR (gpio s GPIOx) AND NOT (take_bit 16 v)\<rparr>)\<rparr>"

definition HAL_GPIO_WritePin :: "gpio_port \<Rightarrow> u16 \<Rightarrow> GPIO_PinState \<Rightarrow> gpio_sys \<Rightarrow> gpio_sys" where
  "HAL_GPIO_WritePin GPIOx GPIO_Pin PinState s =
     (if PinState \<noteq> GPIO_PIN_RESET then write_BSRR GPIOx (ucast GPIO_Pin) s
      else write_BSRR GPIOx (push_bit GPIO_NUMBER (ucast GPIO_Pin)) s)"

definition HAL_GPIO_TogglePin :: "gpio_port \<Rightarrow> u16 \<Rightarrow> gpio_sys \<Rightarrow> gpio_sys" where
  "HAL_GPIO_TogglePin GPIOx GPIO_Pin s =
     (if ODR (gpio s GPIOx) AND ucast GPIO_Pin \<noteq> 0 then write_BRR GPIOx (ucast GPIO_Pin) s
      else write_BSRR GPIOx (ucast GPIO_Pin) s)"

text \<open>The interrupt handler; the callbacks are empty, what is left is the order of the calls.\<close>

datatype exti_call = Rising_Callback u16 | Falling_Callback u16

definition HAL_GPIO_EXTI_IRQHandler :: "u16 \<Rightarrow> gpio_sys \<Rightarrow> exti_call list \<times> gpio_sys" where
  "HAL_GPIO_EXTI_IRQHandler GPIO_Pin s =
     (let (c1, s) = (if RPR1 (exti s) AND ucast GPIO_Pin \<noteq> 0
            then ([Rising_Callback GPIO_Pin],
                  s\<lparr>exti := (exti s)\<lparr>RPR1 := RPR1 (exti s) AND NOT (ucast GPIO_Pin)\<rparr>\<rparr>)
            else ([], s));
          (c2, s) = (if FPR1 (exti s) AND ucast GPIO_Pin \<noteq> 0
            then ([Falling_Callback GPIO_Pin],
                  s\<lparr>exti := (exti s)\<lparr>FPR1 := FPR1 (exti s) AND NOT (ucast GPIO_Pin)\<rparr>\<rparr>)
            else ([], s))
      in (c1 @ c2, s))"

section \<open>Registers as arrays of fields\<close>

text \<open>Field number \<open>p\<close> of a register that is divided into fields of \<open>k\<close> bits.\<close>

definition fld :: "nat \<Rightarrow> nat \<Rightarrow> u32 \<Rightarrow> u32" where
  "fld k p w = take_bit k (drop_bit (k * p) w)"

lemma bit_fld: "bit (fld k p w) n \<longleftrightarrow> n < k \<and> bit w (k * p + n)"
  by (simp add: fld_def bit_take_bit_iff bit_drop_bit_eq add.commute)

lemma field_index:
  assumes "n < k"
  shows "k * p \<le> k * q + n \<and> k * q + n < k * p + k \<longleftrightarrow> p = (q :: nat)"
proof
  assume a: "k * p \<le> k * q + n \<and> k * q + n < k * p + k"
  have "(k * q + n) div k = q" using assms by simp
  moreover have "(k * q + n) div k = p"
    using a assms by (metis add.commute div_nat_eqI mult.commute mult_Suc mult_Suc_right)
  ultimately show "p = q" by simp
qed (use assms in simp)

text \<open>Writing a value that fits changes one field and no other.\<close>

lemma fld_modify:
  assumes v: "take_bit k v = v" and p: "k * p + k \<le> 32" and q: "k * q + k \<le> 32"
  shows "fld k q (modify_field (mask k) (k * p) v w) = (if p = q then v else fld k q w)"
proof (rule bit_eqI)
  fix n
  have vb: "bit v i \<longleftrightarrow> i < k \<and> bit v i" for i using v by (metis bit_take_bit_iff)
  have "bit (fld k q (modify_field (mask k) (k * p) v w)) n \<longleftrightarrow>
      n < k \<and> (if p = q then bit v n else bit w (k * q + n))"
  proof (cases "n < k")
    case True
    have r: "k * p \<le> k * q + n \<and> k * q + n - k * p < k \<longleftrightarrow> p = q"
      using field_index[OF True, of p q] by auto
    have "bit v (k * q + n - k * p) \<longleftrightarrow> k * q + n - k * p < k \<and> bit v (k * q + n - k * p)" by (rule vb)
    then show ?thesis using True q r
      by (auto simp: bit_fld modify_field_def bit_and_iff bit_or_iff bit_not_iff bit_push_bit_iff bit_mask_iff)
  qed (simp add: bit_fld)
  then show "bit (fld k q (modify_field (mask k) (k * p) v w)) n =
      bit (if p = q then v else fld k q w) n"
    using vb by (auto simp: bit_fld)
qed

lemma fld_clear:
  assumes "k * p + k \<le> 32" "k * q + k \<le> 32"
  shows "fld k q (w AND NOT (push_bit (k * p) (mask k))) = (if p = q then 0 else fld k q w)"
  using fld_modify[of k 0 p q w] assms by (simp add: modify_field_def)

lemma fld_fill:
  assumes p: "k * p + k \<le> 32" and q: "k * q + k \<le> 32"
  shows "fld k q (w OR push_bit (k * p) (mask k)) = (if p = q then mask k else fld k q w)"
proof -
  have "w OR push_bit (k * p) (mask k) = modify_field (mask k) (k * p) (mask k) w"
    by (rule bit_word_eqI) (auto simp: modify_field_def bit_simps)
  then show ?thesis using fld_modify[of k "mask k" p q w] p q by simp
qed

lemma fld_eq_masked:
  assumes "k * p + k \<le> 32" "take_bit k v = v"
  shows "w AND push_bit (k * p) (mask k) = push_bit (k * p) v \<longleftrightarrow> fld k p w = v"
proof -
  have vb: "bit v i \<longleftrightarrow> i < k \<and> bit v i" for i using assms(2) by (metis bit_take_bit_iff)
  show ?thesis
  proof
    assume e: "w AND push_bit (k * p) (mask k) = push_bit (k * p) v"
    show "fld k p w = v"
    proof (rule bit_eqI)
      fix n
      have "bit (w AND push_bit (k * p) (mask k)) (k * p + n) = bit (push_bit (k * p) v) (k * p + n)"
        using e by simp
      then show "bit (fld k p w) n = bit v n"
        using vb[of n] assms(1) by (auto simp: bit_fld bit_simps)
    qed
  next
    assume e: "fld k p w = v"
    show "w AND push_bit (k * p) (mask k) = push_bit (k * p) v"
      unfolding e[symmetric] by (rule bit_word_eqI) (auto simp: bit_fld bit_simps)
  qed
qed

lemma bit_modify_line:
  "bit (modify_line (push_bit p 1) c w) q \<longleftrightarrow> (if p = q \<and> q < 32 then c else bit w q)"
  by (auto simp: modify_line_def Let_def bit_simps dest: bit_u32_less)

lemma selected_iff:
  assumes "p < 32"
  shows "(w :: u32) AND push_bit p 1 = push_bit p 1 \<longleftrightarrow> bit w p"
proof
  assume "w AND push_bit p 1 = push_bit p 1"
  then have "bit (w AND push_bit p 1) p = bit (push_bit p 1 :: u32) p" by simp
  then show "bit w p" using assms by (simp add: bit_simps)
next
  assume "bit w p"
  then show "w AND push_bit p 1 = push_bit p 1"
    by (intro bit_word_eqI) (auto simp: bit_simps)
qed

lemma selected_mask: "p < 32 \<Longrightarrow> bit (w :: u32) p \<Longrightarrow> w AND push_bit p 1 = push_bit p 1"
  by (simp only: selected_iff)

lemma masked_zero_iff:
  assumes "p < 32"
  shows "(w :: u32) AND push_bit p 1 = 0 \<longleftrightarrow> \<not> bit w p"
proof
  assume "w AND push_bit p 1 = 0"
  then have "\<not> bit (w AND push_bit p 1) p" by simp
  then show "\<not> bit w p" using assms by (simp add: bit_simps)
next
  assume "\<not> bit w p"
  then show "w AND push_bit p 1 = 0" by (intro bit_word_eqI) (auto simp: bit_simps)
qed

section \<open>Pins and lines\<close>

record pin_cfg =
  p_mode :: u32
  p_otype :: u32
  p_speed :: u32
  p_pull :: u32
  p_alternate :: u32

definition pin_of :: "gpio_regs \<Rightarrow> nat \<Rightarrow> pin_cfg" where
  "pin_of r p = \<lparr>p_mode = fld 2 p (MODER r), p_otype = fld 1 p (OTYPER r),
     p_speed = fld 2 p (OSPEEDR r), p_pull = fld 2 p (PUPDR r),
     p_alternate = fld 4 (p mod 8) (AFR r (p div 8))\<rparr>"

record line_cfg =
  l_port :: u32
  l_interrupt :: bool
  l_event :: bool
  l_rising :: bool
  l_falling :: bool

definition line_of :: "exti_regs \<Rightarrow> nat \<Rightarrow> line_cfg" where
  "line_of e p = \<lparr>l_port = fld 8 (p mod 4) (EXTICR e (p div 4)), l_interrupt = bit (IMR1 e) p,
     l_event = bit (EMR1 e) p, l_rising = bit (RTSR1 e) p, l_falling = bit (FTSR1 e) p\<rparr>"

text \<open>What a configuration request asks of one selected pin and of its interrupt line.\<close>

definition configure_pin :: "GPIO_InitTypeDef \<Rightarrow> pin_cfg \<Rightarrow> pin_cfg" where
  "configure_pin cfg c =
     c\<lparr>p_mode := Mode cfg AND 3, p_pull := Pull cfg,
       p_alternate := (if is_alternate cfg then Alternate cfg else p_alternate c),
       p_speed := (if is_driven cfg then Speed cfg else p_speed c),
       p_otype := (if is_driven cfg then of_bool (bit (Mode cfg) 4) else p_otype c)\<rparr>"

definition configure_line :: "gpio_port \<Rightarrow> GPIO_InitTypeDef \<Rightarrow> line_cfg \<Rightarrow> line_cfg" where
  "configure_line GPIOx cfg l =
     (if bit (Mode cfg) 28
      then \<lparr>l_port = ucast (GPIO_GET_INDEX GPIOx), l_interrupt = bit (Mode cfg) 16,
            l_event = bit (Mode cfg) 17, l_rising = bit (Mode cfg) 20, l_falling = bit (Mode cfg) 21\<rparr>
      else l)"

text \<open>The ranges that the (disabled) parameter checks of the driver ask for.\<close>

definition init_in_range :: "GPIO_InitTypeDef \<Rightarrow> bool" where
  "init_in_range cfg \<longleftrightarrow> Speed cfg < 4 \<and> Pull cfg < 4 \<and> Alternate cfg < 16"

lemma take_bit_small:
  fixes v :: u32
  assumes "v < 2 ^ k" "k < 32"
  shows "take_bit k v = v"
  by (rule bit_word_eqI) (use less_pow2_bit[OF assms] in \<open>auto simp: bit_take_bit_iff\<close>)

lemma index_less_16: "take_bit 8 (ucast (GPIO_GET_INDEX port) :: u32) = ucast (GPIO_GET_INDEX port)"
  by (rule bit_word_eqI) (auto simp: bit_simps dest: bit_u8_less)

lemma mode_bit_tests:
  "w AND EXTI_MODE = EXTI_MODE \<longleftrightarrow> bit w 28" "w AND GPIO_MODE_IT = GPIO_MODE_IT \<longleftrightarrow> bit w 16"
  "w AND GPIO_MODE_EVT = GPIO_MODE_EVT \<longleftrightarrow> bit w 17" "w AND RISING_EDGE = RISING_EDGE \<longleftrightarrow> bit w 20"
  "w AND FALLING_EDGE = FALLING_EDGE \<longleftrightarrow> bit w 21"
  using selected_iff[of 28 w] selected_iff[of 16 w] selected_iff[of 17 w] selected_iff[of 20 w]
    selected_iff[of 21 w]
  by (simp_all add: gpio_const_defs)

lemma output_type_bit: "drop_bit 4 (w AND GPIO_OUTPUT_TYPE) = (of_bool (bit w 4) :: u32)"
proof (rule bit_word_eqI)
  fix n assume "n < LENGTH(32)"
  have "bit GPIO_OUTPUT_TYPE m \<longleftrightarrow> m = 4" for m
    using bit_push_bit_iff[of 4 "1 :: u32" m] by (auto simp: gpio_const_defs bit_1_iff dest: bit_u32_less)
  then show "bit (drop_bit 4 (w AND GPIO_OUTPUT_TYPE)) n = bit (of_bool (bit w 4) :: u32) n"
    by (auto simp: bit_simps)
qed

text \<open>Number and position of the field of a pin inside an array of registers.\<close>

lemma div_mod_eq: "p div k = q div k \<and> p mod k = q mod k \<longleftrightarrow> p = (q :: nat)"
  by (metis div_mult_mod_eq)

lemma mask_words: "(mask 1 :: u32) = 1" "(mask 2 :: u32) = 3" "(mask 4 :: u32) = 0xF" "(mask 8 :: u32) = 0xFF"
  by (simp_all add: mask_numeral mask_Suc_0)

text \<open>The instances of \<open>fld_modify\<close>, \<open>fld_clear\<close> and \<open>fld_fill\<close> as the driver writes them.\<close>

lemma pin_field_2:
  assumes "p < 16" "q < 16"
  shows "take_bit 2 v = v \<Longrightarrow> fld 2 q (modify_field 3 (p * 2) v w) = (if p = q then v else fld 2 q w)"
    and "fld 2 q (w AND NOT (push_bit (p * 2) 3)) = (if p = q then 0 else fld 2 q w)"
    and "fld 2 q (w OR push_bit (p * 2) 3) = (if p = q then 3 else fld 2 q w)"
  using fld_modify[of 2 v p q w] fld_clear[of 2 p q w] fld_fill[of 2 p q w] assms
  by (simp_all add: mask_words mult.commute)

lemma pin_field_1:
  assumes "p < 16" "q < 16"
  shows "take_bit 1 v = v \<Longrightarrow> fld 1 q (modify_field 1 p v w) = (if p = q then v else fld 1 q w)"
    and "fld 1 q (w AND NOT (push_bit p 1)) = (if p = q then 0 else fld 1 q w)"
  using fld_modify[of 1 v p q w] fld_clear[of 1 p q w] assms
  by (simp_all add: mask_words)

lemma pin_field_4:
  assumes "p div 8 = q div 8"
  shows "take_bit 4 v = v \<Longrightarrow>
      fld 4 (q mod 8) (modify_field 0xF ((p mod 8) * 4) v w) = (if p = q then v else fld 4 (q mod 8) w)"
    and "fld 4 (q mod 8) (w AND NOT (push_bit ((p mod 8) * 4) 0xF)) =
      (if p = q then 0 else fld 4 (q mod 8) w)"
proof -
  have "p mod 8 = q mod 8 \<longleftrightarrow> p = q" using assms div_mod_eq[of p 8 q] by blast
  moreover have "4 * (p mod 8) + 4 \<le> 32" "4 * (q mod 8) + 4 \<le> 32" by simp_all
  ultimately show "take_bit 4 v = v \<Longrightarrow>
      fld 4 (q mod 8) (modify_field 0xF ((p mod 8) * 4) v w) = (if p = q then v else fld 4 (q mod 8) w)"
    and "fld 4 (q mod 8) (w AND NOT (push_bit ((p mod 8) * 4) 0xF)) =
      (if p = q then 0 else fld 4 (q mod 8) w)"
    using fld_modify[of 4 v "p mod 8" "q mod 8" w] fld_clear[of 4 "p mod 8" "q mod 8" w]
    by (simp_all add: mask_words mult.commute)
qed

lemma line_field_8:
  assumes "p div 4 = q div 4"
  shows "take_bit 8 v = v \<Longrightarrow>
      fld 8 (q mod 4) (modify_field 0xFF (8 * (p mod 4)) v w) = (if p = q then v else fld 8 (q mod 4) w)"
    and "fld 8 (q mod 4) (w AND NOT (push_bit (8 * (p mod 4)) 0xFF)) =
      (if p = q then 0 else fld 8 (q mod 4) w)"
proof -
  have "p mod 4 = q mod 4 \<longleftrightarrow> p = q" using assms div_mod_eq[of p 4 q] by blast
  moreover have "8 * (p mod 4) + 8 \<le> 32" "8 * (q mod 4) + 8 \<le> 32" by simp_all
  ultimately show "take_bit 8 v = v \<Longrightarrow>
      fld 8 (q mod 4) (modify_field 0xFF (8 * (p mod 4)) v w) = (if p = q then v else fld 8 (q mod 4) w)"
    and "fld 8 (q mod 4) (w AND NOT (push_bit (8 * (p mod 4)) 0xFF)) =
      (if p = q then 0 else fld 8 (q mod 4) w)"
    using fld_modify[of 8 v "p mod 4" "q mod 4" w] fld_clear[of 8 "p mod 4" "q mod 4" w]
    by (simp_all add: mask_words)
qed

section \<open>One position of the loops\<close>

lemma pin_of_init:
  assumes "p < 16" "q < 16" "init_in_range cfg"
  shows "pin_of (init_port_pin cfg p r) q = (if p = q then configure_pin cfg (pin_of r q) else pin_of r q)"
proof -
  have v: "take_bit 2 (Speed cfg) = Speed cfg" "take_bit 2 (Pull cfg) = Pull cfg"
      "take_bit 4 (Alternate cfg) = Alternate cfg" "take_bit 2 (Mode cfg AND 3) = Mode cfg AND 3"
      "take_bit 1 (of_bool (bit (Mode cfg) 4) :: u32) = of_bool (bit (Mode cfg) 4)"
    using assms(3) by (simp_all add: init_in_range_def take_bit_small flip: mask_words(2) take_bit_eq_mask)
  note fields = pin_field_2(1)[OF _ _ v(1)] pin_field_2(1)[OF _ _ v(2)]
    pin_field_2(1)[OF _ _ v(4)] pin_field_1(1)[OF _ _ v(5)] pin_field_4(1)[OF _ v(3)]
  show ?thesis
    using assms(1,2)
    by (cases "p = q"; cases "is_alternate cfg"; cases "is_driven cfg")
      (simp_all add: init_port_pin_def Let_def pin_of_def configure_pin_def output_type_bit GPIO_MODE_def
        fields del: One_nat_def drop_bit_and of_bool_eq)
qed

lemma line_of_init:
  assumes "p < 16" "q < 16" "bit (Mode cfg) 28"
  shows "line_of (init_exti_line GPIOx cfg p (push_bit p 1) e) q =
     (if p = q then configure_line GPIOx cfg (line_of e q) else line_of e q)"
  using assms
  by (auto simp: init_exti_line_def line_of_def configure_line_def line_field_8(1)[OF _ index_less_16]
      bit_modify_line mode_bit_tests simp del: push_bit_of_1)

lemma init_port_pin_odr [simp]: "ODR (init_port_pin cfg p r) = ODR r" "IDR (init_port_pin cfg p r) = IDR r"
  by (simp_all add: init_port_pin_def Let_def)

lemma pin_of_deinit:
  assumes "p < 16" "q < 16"
  shows "pin_of (deinit_port_pin p r) q =
     (if p = q then \<lparr>p_mode = 3, p_otype = 0, p_speed = 0, p_pull = 0, p_alternate = 0\<rparr> else pin_of r q)"
  using assms
  by (cases "p = q")
    (simp_all add: deinit_port_pin_def pin_of_def pin_field_2(2,3) pin_field_1(2) pin_field_4(2)
      del: One_nat_def push_bit_of_1)

definition release_line :: "gpio_port \<Rightarrow> line_cfg \<Rightarrow> line_cfg" where
  "release_line GPIOx l =
     (if l_port l = ucast (GPIO_GET_INDEX GPIOx)
      then \<lparr>l_port = 0, l_interrupt = False, l_event = False, l_rising = False, l_falling = False\<rparr>
      else l)"

lemma line_of_deinit:
  assumes "p < 16" "q < 16"
  shows "line_of (deinit_exti_line GPIOx p (push_bit p 1) e) q =
     (if p = q then release_line GPIOx (line_of e q) else line_of e q)"
proof -
  have owned: "EXTICR e (p div 4) AND push_bit (8 * (p mod 4)) 0xFF =
      push_bit (8 * (p mod 4)) (ucast (GPIO_GET_INDEX GPIOx)) \<longleftrightarrow>
      fld 8 (p mod 4) (EXTICR e (p div 4)) = ucast (GPIO_GET_INDEX GPIOx)" for p
    using fld_eq_masked[of 8 "p mod 4" "ucast (GPIO_GET_INDEX GPIOx)" "EXTICR e (p div 4)"]
    by (simp add: mask_words index_less_16)
  have clear: "bit (w AND NOT (push_bit p 1)) q \<longleftrightarrow> p \<noteq> q \<and> bit w q" for w :: u32 and p
    using assms(2) by (auto simp: bit_simps)
  show ?thesis
    using assms
    by (cases "p = q") (simp_all add: deinit_exti_line_def owned line_of_def release_line_def
        line_field_8(2) clear del: push_bit_of_1)
qed

section \<open>The loops over the sixteen positions\<close>

text \<open>
  Both loops of the driver visit the positions in ascending order, and a turn touches only the view
  of its own position. This is all that is needed to know the view of every position afterwards.
\<close>

locale per_position_loop =
  fixes n :: nat and turn :: "nat \<Rightarrow> 's \<Rightarrow> 's" and view :: "'s \<Rightarrow> nat \<Rightarrow> 'v"
    and sel :: "nat \<Rightarrow> bool" and upd :: "'v \<Rightarrow> 'v"
  assumes turn: "p < n \<Longrightarrow> q < n \<Longrightarrow>
    view (turn p s) q = (if p = q \<and> sel p then upd (view s q) else view s q)"
begin

lemma prefix_view:
  "m \<le> n \<Longrightarrow> q < n \<Longrightarrow>
   view (fold turn [0..<m] s) q = (if q < m \<and> sel q then upd (view s q) else view s q)"
proof (induction m)
  case (Suc m)
  have "view (fold turn [0..<Suc m] s) q = view (turn m (fold turn [0..<m] s)) q" by simp
  also have "\<dots> = (if m = q \<and> sel m then upd (view (fold turn [0..<m] s) q)
      else view (fold turn [0..<m] s) q)"
    using Suc.prems by (intro turn) simp_all
  also have "\<dots> = (if q < Suc m \<and> sel q then upd (view s q) else view s q)"
    using Suc by auto
  finally show ?case .
qed simp

lemma loop_view: "q < n \<Longrightarrow> view (fold turn [0..<n] s) q = (if sel q then upd (view s q) else view s q)"
  using prefix_view[of n q s] by simp

end

interpretation init_lines: per_position_loop 16 "init_position GPIOx cfg" "\<lambda>s. line_of (exti s)"
    "bit (Pin cfg)" "configure_line GPIOx cfg" for GPIOx cfg
proof
  fix p q :: nat and s
  assume "p < 16" "q < 16"
  then show "line_of (exti (init_position GPIOx cfg p s)) q =
      (if p = q \<and> bit (Pin cfg) p then configure_line GPIOx cfg (line_of (exti s) q)
       else line_of (exti s) q)"
    by (cases "bit (Pin cfg) p")
      (auto simp: init_position_def Let_def selected_iff selected_mask mode_bit_tests line_of_init
        configure_line_def[of GPIOx cfg] simp del: push_bit_of_1)
qed

interpretation deinit_pins: per_position_loop 16 "deinit_position GPIOx pins"
    "\<lambda>s. pin_of (gpio s GPIOx)" "bit pins"
    "\<lambda>_. \<lparr>p_mode = 3, p_otype = 0, p_speed = 0, p_pull = 0, p_alternate = 0\<rparr>" for GPIOx pins
  by unfold_locales
    (simp add: deinit_position_def Let_def selected_iff pin_of_deinit del: push_bit_of_1)

interpretation deinit_lines: per_position_loop 16 "deinit_position GPIOx pins"
    "\<lambda>s. line_of (exti s)" "bit pins" "release_line GPIOx" for GPIOx pins
proof
  fix p q :: nat and s
  assume "p < 16" "q < 16"
  then show "line_of (exti (deinit_position GPIOx pins p s)) q =
      (if p = q \<and> bit pins p then release_line GPIOx (line_of (exti s) q) else line_of (exti s) q)"
    by (cases "bit pins p")
      (simp_all add: deinit_position_def Let_def selected_iff selected_mask line_of_deinit
        del: push_bit_of_1)
qed

lemma init_pins:
  assumes "init_in_range cfg"
  shows "per_position_loop 16 (init_position GPIOx cfg) (\<lambda>s. pin_of (gpio s GPIOx)) (bit (Pin cfg))
    (configure_pin cfg)"
  by unfold_locales
    (simp add: init_position_def Let_def selected_iff pin_of_init assms del: push_bit_of_1)

lemma init_frame:
  "port \<noteq> GPIOx \<Longrightarrow> gpio (fold (init_position GPIOx cfg) ps s) port = gpio s port"
  "ODR (gpio (fold (init_position GPIOx cfg) ps s) port) = ODR (gpio s port)"
  by (induction ps arbitrary: s) (simp_all add: init_position_def Let_def)

lemma deinit_frame:
  "port \<noteq> GPIOx \<Longrightarrow> gpio (fold (deinit_position GPIOx pins) ps s) port = gpio s port"
  "ODR (gpio (fold (deinit_position GPIOx pins) ps s) port) = ODR (gpio s port)"
  by (induction ps arbitrary: s) (simp_all add: deinit_position_def deinit_port_pin_def Let_def)

section \<open>Correctness of the driver\<close>

text \<open>
  C6: with parameters in the ranges the driver documents, \<open>HAL_GPIO_Init\<close> gives every selected pin of
  the port its mode, pull, and (where the mode asks for them) speed, output type and alternate function,
  routes the interrupt line of every selected pin to the port with the requested edges in the
  interrupt modes, and leaves every other pin, port, line and all output levels as they were.
\<close>

theorem gpio_init_refines:
  assumes "init_in_range cfg" and "q < 16"
  shows "pin_of (gpio (HAL_GPIO_Init GPIOx cfg s) port) q =
       (if port = GPIOx \<and> bit (Pin cfg) q then configure_pin cfg (pin_of (gpio s port) q)
        else pin_of (gpio s port) q) \<and>
     line_of (exti (HAL_GPIO_Init GPIOx cfg s)) q =
       (if bit (Pin cfg) q then configure_line GPIOx cfg (line_of (exti s) q) else line_of (exti s) q) \<and>
     ODR (gpio (HAL_GPIO_Init GPIOx cfg s) port) = ODR (gpio s port)"
  using per_position_loop.loop_view[OF init_pins[OF assms(1)] assms(2)] init_lines.loop_view[OF assms(2)]
  by (cases "port = GPIOx") (simp_all add: HAL_GPIO_Init_def GPIO_NUMBER_def init_frame)

definition blank_gpio :: gpio_sys where
  "blank_gpio =
     \<lparr>gpio = (\<lambda>_. \<lparr>MODER = 0xFFFFFFFF, OTYPER = 0, OSPEEDR = 0, PUPDR = 0, IDR = 0, ODR = 0, AFR = (\<lambda>_. 0)\<rparr>),
      exti = \<lparr>EXTICR = (\<lambda>_. 0), IMR1 = 0, EMR1 = 0, RTSR1 = 0, FTSR1 = 0, RPR1 = 0, FPR1 = 0\<rparr>\<rparr>"

theorem gpio_init_refines_witness:
  "pin_of (gpio (HAL_GPIO_Init GPIOZ
      \<lparr>Pin = 0x20, Mode = GPIO_MODE_AF_OD, Pull = 0, Speed = 2, Alternate = 6\<rparr> blank_gpio) GPIOZ) 5 =
   \<lparr>p_mode = 2, p_otype = 1, p_speed = 2, p_pull = 0, p_alternate = 6\<rparr>"
proof -
  let ?cfg = "\<lparr>Pin = 0x20, Mode = GPIO_MODE_AF_OD, Pull = 0, Speed = 2, Alternate = 6\<rparr>"
  have r: "init_in_range ?cfg" by (simp add: init_in_range_def)
  have "bit (Pin ?cfg) 5" by simp
  with gpio_init_refines[OF r, of 5 GPIOZ blank_gpio GPIOZ] show ?thesis
    by (simp add: configure_pin_def pin_of_def is_alternate_def is_driven_def gpio_const_defs)
qed

text \<open>
  \<open>HAL_GPIO_DeInit\<close> puts every selected pin of the port into its reset configuration (analog, no
  pull), takes the interrupt lines of the selected pins away from the port if the port owned them, and
  leaves every other pin, port and line, and a line that another port owns, as they were.
\<close>

theorem gpio_deinit_refines:
  assumes "q < 16"
  shows "pin_of (gpio (HAL_GPIO_DeInit GPIOx pins s) port) q =
       (if port = GPIOx \<and> bit pins q
        then \<lparr>p_mode = 3, p_otype = 0, p_speed = 0, p_pull = 0, p_alternate = 0\<rparr>
        else pin_of (gpio s port) q) \<and>
     line_of (exti (HAL_GPIO_DeInit GPIOx pins s)) q =
       (if bit pins q then release_line GPIOx (line_of (exti s) q) else line_of (exti s) q)"
  using deinit_pins.loop_view[OF assms] deinit_lines.loop_view[OF assms]
  by (cases "port = GPIOx") (simp_all add: HAL_GPIO_DeInit_def GPIO_NUMBER_def deinit_frame)

theorem gpio_deinit_refines_witness:
  "line_of (exti (HAL_GPIO_DeInit GPIOA 0x1 (blank_gpio\<lparr>exti := (exti blank_gpio)\<lparr>IMR1 := 3\<rparr>\<rparr>))) 0 =
     \<lparr>l_port = 0, l_interrupt = False, l_event = False, l_rising = False, l_falling = False\<rparr>"
  using gpio_deinit_refines[of 0 GPIOA "0x1 :: u32" "blank_gpio\<lparr>exti := (exti blank_gpio)\<lparr>IMR1 := 3\<rparr>\<rparr>"]
  by (simp add: release_line_def line_of_def blank_gpio_def GPIO_GET_INDEX_def fld_def)

lemma bit_write_BSRR:
  "bit (ODR (gpio (write_BSRR GPIOx v s) port)) q \<longleftrightarrow>
     (if port = GPIOx then (bit (ODR (gpio s port)) q \<and> \<not> bit v (q + 16)) \<or> (q < 16 \<and> bit v q)
      else bit (ODR (gpio s port)) q)"
  by (auto simp: write_BSRR_def bit_simps add.commute dest: bit_u32_less)

lemma bit_write_BRR:
  "bit (ODR (gpio (write_BRR GPIOx v s) port)) q \<longleftrightarrow>
     bit (ODR (gpio s port)) q \<and> \<not> (port = GPIOx \<and> q < 16 \<and> bit v q)"
  by (auto simp: write_BRR_def bit_simps dest: bit_u32_less)

lemma bit_WritePin:
  "bit (ODR (gpio (HAL_GPIO_WritePin GPIOx pins st s) port)) q \<longleftrightarrow>
     (if port = GPIOx \<and> bit pins q then st = GPIO_PIN_SET else bit (ODR (gpio s port)) q)"
  by (cases st) (auto simp: HAL_GPIO_WritePin_def bit_write_BSRR GPIO_NUMBER_def bit_simps
      dest: bit_u16_less bit_u32_less)

lemma pin_of_WritePin [simp]:
  "pin_of (gpio (HAL_GPIO_WritePin GPIOx pins st s) port) q = pin_of (gpio s port) q"
  by (cases "port = GPIOx") (simp_all add: HAL_GPIO_WritePin_def write_BSRR_def pin_of_def)

lemma exti_WritePin [simp]: "exti (HAL_GPIO_WritePin GPIOx pins st s) = exti s"
  by (simp add: HAL_GPIO_WritePin_def write_BSRR_def)

lemma bit_TogglePin:
  "bit (ODR (gpio (HAL_GPIO_TogglePin GPIOx pins s) port)) q \<longleftrightarrow>
     (if port = GPIOx \<and> bit pins q then ODR (gpio s GPIOx) AND ucast pins = 0
      else bit (ODR (gpio s port)) q)"
  by (auto simp: HAL_GPIO_TogglePin_def bit_write_BSRR bit_write_BRR bit_simps
      dest: bit_u16_less bit_u32_less)

text \<open>
  \<open>HAL_GPIO_WritePin\<close> drives exactly the selected pins of one port to the requested level.
  \<open>HAL_GPIO_TogglePin\<close> drives all the selected pins to one common level: high if none of them was
  high before, low otherwise. For a single pin this is the negation of its level; for several pins
  in different states it is not a toggle, although the description of the function speaks of pins.
\<close>

theorem gpio_output_levels:
  "(bit (ODR (gpio (HAL_GPIO_WritePin GPIOx pins st s) port)) q \<longleftrightarrow>
     (if port = GPIOx \<and> bit pins q then st = GPIO_PIN_SET else bit (ODR (gpio s port)) q)) \<and>
   (bit (ODR (gpio (HAL_GPIO_TogglePin GPIOx pins s) port)) q \<longleftrightarrow>
     (if port = GPIOx \<and> bit pins q then \<not> (\<exists>k. bit pins k \<and> bit (ODR (gpio s GPIOx)) k)
      else bit (ODR (gpio s port)) q))"
proof -
  have "ODR (gpio s GPIOx) AND ucast pins = 0 \<longleftrightarrow> \<not> (\<exists>k. bit pins k \<and> bit (ODR (gpio s GPIOx)) k)"
    by (auto simp: bit_eq_iff bit_simps dest: bit_u32_less)
  then show ?thesis by (simp add: bit_WritePin bit_TogglePin)
qed

end
