(* ===== verification/Hsem_Lock.thy ===== *)
theory Hsem_Lock
  imports Hal_Gpio
begin

text \<open>
  Hardware semaphores and the lock on shared peripherals built on them: the HAL driver
  (\<^verbatim>\<open>Drivers/STM32MP1xx_HAL_Driver/Src/stm32mp1xx_hal_hsem.c\<close>, single core build: the constant
  \<open>HSEM_CR_COREID_CURRENT\<close> is the identity of the core it is compiled for) and
  \<^verbatim>\<open>CM4/Core/Src/lock_resource.c\<close>.

  The semaphore block is hardware shared by the Cortex-A7 and the Cortex-M4. Its state and the
  effect of an access by one core follow the reference manual of the chip: a read of \<open>RLR\<close> takes a free
  semaphore for the reader and returns the lock word of the owner; a write of \<open>R\<close> with the lock bit
  takes a free semaphore; a write of \<open>R\<close> without it frees the semaphore if core and process match.
\<close>

section \<open>The semaphore block\<close>

datatype core = CA7 | CM4

record hsem =
  sem_R :: "nat \<Rightarrow> u32"
  sem_KEY :: u32
  sem_IER :: u32
  sem_ISR :: u32

definition HSEM_LOCK :: u32 where "HSEM_LOCK = 0x80000000"

definition HSEM_CR_COREID_CURRENT :: "core \<Rightarrow> u32" where
  "HSEM_CR_COREID_CURRENT c = (case c of CA7 \<Rightarrow> 0x100 | CM4 \<Rightarrow> 0x200)"

definition HSEM_SEMID_MAX :: nat where "HSEM_SEMID_MAX = 31"

definition is_locked :: "u32 \<Rightarrow> bool" where "is_locked v \<longleftrightarrow> v AND HSEM_LOCK \<noteq> 0"

definition read_RLR :: "core \<Rightarrow> nat \<Rightarrow> hsem \<Rightarrow> u32 \<times> hsem" where
  "read_RLR c i h =
     (if is_locked (sem_R h i) then (sem_R h i, h)
      else (HSEM_CR_COREID_CURRENT c OR HSEM_LOCK,
            h\<lparr>sem_R := (sem_R h)(i := HSEM_CR_COREID_CURRENT c OR HSEM_LOCK)\<rparr>))"

definition write_R :: "nat \<Rightarrow> u32 \<Rightarrow> hsem \<Rightarrow> hsem" where
  "write_R i v h =
     (if is_locked v
      then (if is_locked (sem_R h i) then h else h\<lparr>sem_R := (sem_R h)(i := v)\<rparr>)
      else (if sem_R h i = v OR HSEM_LOCK then h\<lparr>sem_R := (sem_R h)(i := 0)\<rparr> else h))"

text \<open>A write of \<open>CR\<close> with the right key frees all semaphores of one core.\<close>

definition write_CR :: "u32 \<Rightarrow> u32 \<Rightarrow> hsem \<Rightarrow> hsem" where
  "write_CR key coreid h =
     (if key = sem_KEY h
      then h\<lparr>sem_R := (\<lambda>i. if sem_R h i AND 0xFF00 = push_bit 8 coreid then 0 else sem_R h i)\<rparr>
      else h)"

section \<open>HAL driver\<close>

datatype HAL_StatusTypeDef = HAL_OK | HAL_ERROR | HAL_BUSY | HAL_TIMEOUT

definition HAL_HSEM_Take :: "core \<Rightarrow> nat \<Rightarrow> u32 \<Rightarrow> hsem \<Rightarrow> HAL_StatusTypeDef \<times> hsem" where
  "HAL_HSEM_Take c SemID ProcessID h =
     (let v = ProcessID OR HSEM_CR_COREID_CURRENT c OR HSEM_LOCK;
          h = write_R SemID v h
      in if sem_R h SemID = v then (HAL_OK, h) else (HAL_ERROR, h))"

definition HAL_HSEM_FastTake :: "core \<Rightarrow> nat \<Rightarrow> hsem \<Rightarrow> HAL_StatusTypeDef \<times> hsem" where
  "HAL_HSEM_FastTake c SemID h =
     (case read_RLR c SemID h of (v, h) \<Rightarrow>
        if v = HSEM_CR_COREID_CURRENT c OR HSEM_LOCK then (HAL_OK, h) else (HAL_ERROR, h))"

definition HAL_HSEM_IsSemTaken :: "nat \<Rightarrow> hsem \<Rightarrow> u32" where
  "HAL_HSEM_IsSemTaken SemID h = (if sem_R h SemID AND HSEM_LOCK \<noteq> 0 then 1 else 0)"

definition HAL_HSEM_Release :: "core \<Rightarrow> nat \<Rightarrow> u32 \<Rightarrow> hsem \<Rightarrow> hsem" where
  "HAL_HSEM_Release c SemID ProcessID h = write_R SemID (ProcessID OR HSEM_CR_COREID_CURRENT c) h"

definition HAL_HSEM_ReleaseAll :: "u32 \<Rightarrow> u32 \<Rightarrow> hsem \<Rightarrow> hsem" where
  "HAL_HSEM_ReleaseAll Key CoreID h = write_CR Key CoreID h"

definition HAL_HSEM_SetClearKey :: "u32 \<Rightarrow> hsem \<Rightarrow> hsem" where
  "HAL_HSEM_SetClearKey Key h = h\<lparr>sem_KEY := take_bit 16 Key\<rparr>"

definition HAL_HSEM_GetClearKey :: "hsem \<Rightarrow> u32" where
  "HAL_HSEM_GetClearKey h = sem_KEY h"

definition HAL_HSEM_ActivateNotification :: "u32 \<Rightarrow> hsem \<Rightarrow> hsem" where
  "HAL_HSEM_ActivateNotification SemMask h = h\<lparr>sem_IER := sem_IER h OR SemMask\<rparr>"

definition HAL_HSEM_DeactivateNotification :: "u32 \<Rightarrow> hsem \<Rightarrow> hsem" where
  "HAL_HSEM_DeactivateNotification SemMask h = h\<lparr>sem_IER := sem_IER h AND NOT SemMask\<rparr>"

text \<open>The handler returns the mask it passes to \<open>HAL_HSEM_FreeCallback\<close>.\<close>

definition HAL_HSEM_IRQHandler :: "hsem \<Rightarrow> u32 \<times> hsem" where
  "HAL_HSEM_IRQHandler h =
     (let statusreg = sem_ISR h AND sem_IER h
      in (statusreg, h\<lparr>sem_IER := sem_IER h AND NOT statusreg, sem_ISR := sem_ISR h AND NOT statusreg\<rparr>))"

section \<open>The lock on shared peripherals\<close>

datatype periph = Gpio gpio_port | Exti | OtherPeriph

definition GET_HSEM_SEM_INDEX :: "periph \<Rightarrow> nat" where
  "GET_HSEM_SEM_INDEX p = (case p of Gpio _ \<Rightarrow> 0 | Exti \<Rightarrow> 1 | OtherPeriph \<Rightarrow> HSEM_SEMID_MAX + 1)"

datatype LockResource_Status_t =
  LOCK_RESOURCE_STATUS_OK | LOCK_RESOURCE_STATUS_ERROR | LOCK_RESOURCE_STATUS_TIMEOUT

text \<open>
  The surroundings of a lock attempt: \<open>tick k\<close> is the value of the \<open>k\<close>-th call of \<open>HAL_GetTick\<close>, and
  \<open>meanwhile k\<close> is what the other core does to the semaphores between attempt \<open>k - 1\<close> and attempt \<open>k\<close>.
\<close>

record lock_env =
  tick :: "nat \<Rightarrow> u32"
  meanwhile :: "nat \<Rightarrow> hsem \<Rightarrow> hsem"

text \<open>
  The busy loop. \<open>None\<close> is a call that does not return: \<open>Error_Handler\<close> disables the interrupts and
  loops for ever, and so does the lock if neither the semaphore nor the clock moves.
\<close>

partial_function (option) lock_loop ::
    "lock_env \<Rightarrow> nat \<Rightarrow> u32 \<Rightarrow> u32 \<Rightarrow> nat \<Rightarrow> hsem \<Rightarrow> hsem option" where
  "lock_loop env sem Timeout tickstart k h =
     (case HAL_HSEM_FastTake CM4 sem (meanwhile env k h) of (st, h) \<Rightarrow>
        if st = HAL_OK then Some h
        else if Timeout = 0 \<or> tick env (Suc k) - tickstart > Timeout then None
        else lock_loop env sem Timeout tickstart (Suc k) h)"

text \<open>
  A peripheral without a semaphore gives an index past the end of the register array; the access is
  outside the semaphore block and the model gives it no result.
\<close>

definition Periph_Lock ::
    "lock_env \<Rightarrow> periph \<Rightarrow> u32 \<Rightarrow> hsem \<Rightarrow> (LockResource_Status_t \<times> hsem) option" where
  "Periph_Lock env Peripheral Timeout h =
     (if GET_HSEM_SEM_INDEX Peripheral > HSEM_SEMID_MAX then None
      else (case lock_loop env (GET_HSEM_SEM_INDEX Peripheral) Timeout (tick env 0) 0 h of
              None \<Rightarrow> None
            | Some h \<Rightarrow> Some (LOCK_RESOURCE_STATUS_OK, h)))"

definition Periph_Unlock :: "periph \<Rightarrow> hsem \<Rightarrow> hsem option" where
  "Periph_Unlock Peripheral h =
     (if GET_HSEM_SEM_INDEX Peripheral > HSEM_SEMID_MAX then None
      else Some (HAL_HSEM_Release CM4 (GET_HSEM_SEM_INDEX Peripheral) 0 h))"

section \<open>Ownership\<close>

definition lock_word :: "core \<Rightarrow> u32" where
  "lock_word c = HSEM_CR_COREID_CURRENT c OR HSEM_LOCK"

definition owned_by :: "core \<Rightarrow> u32 \<Rightarrow> bool" where
  "owned_by c v \<longleftrightarrow> is_locked v \<and> v AND 0xFF00 = HSEM_CR_COREID_CURRENT c"

lemma small_pid_and:
  fixes pid :: u32
  assumes "pid < 256"
  shows "pid AND 0xFF00 = 0"
proof (rule bit_word_eqI)
  fix n assume "n < LENGTH(32)"
  have "(0xFF00 :: u32) = push_bit 8 (mask 8)" by (simp add: mask_numeral push_bit_eq_mult)
  then have "bit (0xFF00 :: u32) n \<longleftrightarrow> 8 \<le> n \<and> n - 8 < 8 \<and> n < 32"
    by (simp only: bit_push_bit_iff bit_mask_iff) auto
  moreover have "bit pid n \<Longrightarrow> n < 8" using less_pow2_bit[of pid 8 n] assms by simp
  ultimately show "bit (pid AND 0xFF00) n = bit (0 :: u32) n" by (auto simp: bit_and_iff)
qed

lemma owned_lock_word:
  assumes "pid < 256"
  shows "owned_by c (pid OR HSEM_CR_COREID_CURRENT c OR HSEM_LOCK)"
proof -
  have "(pid OR x) AND 0xFF00 = x AND 0xFF00" for x :: u32
    using small_pid_and[OF assms] by (simp add: bit.conj_disj_distrib2)
  moreover have "(v OR HSEM_LOCK) AND HSEM_LOCK = HSEM_LOCK" for v
    by (rule bit_word_eqI) (auto simp: bit_and_iff bit_or_iff)
  then have "is_locked (pid OR HSEM_CR_COREID_CURRENT c OR HSEM_LOCK)"
    unfolding is_locked_def or.assoc[symmetric] by (simp add: HSEM_LOCK_def)
  ultimately show ?thesis
    by (cases c) (simp_all add: owned_by_def or.assoc HSEM_CR_COREID_CURRENT_def HSEM_LOCK_def)
qed

lemma owned_lock_word_0 [simp]: "owned_by c (HSEM_CR_COREID_CURRENT c OR HSEM_LOCK)"
  using owned_lock_word[of 0 c] by simp

lemma is_locked_0 [simp]: "\<not> is_locked 0"
  by (simp add: is_locked_def)

lemma owned_by_locked: "owned_by c v \<Longrightarrow> is_locked v"
  by (simp add: owned_by_def)

lemma owned_by_unique: "owned_by c v \<Longrightarrow> owned_by c' v \<Longrightarrow> c = c'"
  by (cases c; cases c') (simp_all add: owned_by_def HSEM_CR_COREID_CURRENT_def)

text \<open>What the operations of one core do to the ownership of a semaphore.\<close>

lemma FastTake_cases:
  assumes "HAL_HSEM_FastTake c i h = (st, h')"
  shows "st = HAL_OK \<longleftrightarrow> \<not> is_locked (sem_R h i) \<or> sem_R h i = lock_word c"
    and "h' = (if is_locked (sem_R h i) then h else h\<lparr>sem_R := (sem_R h)(i := lock_word c)\<rparr>)"
  using assms by (auto simp: HAL_HSEM_FastTake_def read_RLR_def lock_word_def split: if_splits)

lemma FastTake_owned:
  assumes "HAL_HSEM_FastTake c i h = (st, h')"
  shows "st = HAL_OK \<Longrightarrow> owned_by c (sem_R h' i)"
    and "owned_by c' (sem_R h j) \<Longrightarrow> owned_by c' (sem_R h' j)"
  using FastTake_cases[OF assms] owned_lock_word_0[of c]
  by (auto simp: lock_word_def owned_by_locked split: if_splits)

lemma Take_owned:
  assumes "HAL_HSEM_Take c i pid h = (st, h')" and "pid < 256"
  shows "st = HAL_OK \<Longrightarrow> owned_by c (sem_R h' i)"
    and "owned_by c' (sem_R h j) \<Longrightarrow> owned_by c' (sem_R h' j)"
  using assms(1) owned_lock_word[OF assms(2), of c]
  by (auto simp: HAL_HSEM_Take_def write_R_def Let_def owned_by_locked split: if_splits)

lemma Release_owned:
  assumes "pid < 256" and "owned_by c' (sem_R h j)" and "c \<noteq> c' \<or> i \<noteq> j"
  shows "owned_by c' (sem_R (HAL_HSEM_Release c i pid h) j)"
proof -
  have word: "owned_by c (pid OR HSEM_CR_COREID_CURRENT c OR HSEM_LOCK)"
    by (rule owned_lock_word[OF assms(1)])
  consider (take) "is_locked (pid OR HSEM_CR_COREID_CURRENT c)"
    | (free) "\<not> is_locked (pid OR HSEM_CR_COREID_CURRENT c)" by blast
  then show ?thesis
  proof cases
    case take
    then show ?thesis using assms(2)
      by (auto simp: HAL_HSEM_Release_def write_R_def owned_by_def)
  next
    case free
    have "\<not> (i = j \<and> sem_R h i = pid OR HSEM_CR_COREID_CURRENT c OR HSEM_LOCK)"
      using assms(2,3) word owned_by_unique by (metis)
    with free show ?thesis using assms(2)
      by (auto simp: HAL_HSEM_Release_def write_R_def or.assoc)
  qed
qed

section \<open>Mutual exclusion between the cores\<close>

text \<open>
  The two cores run the driver in any order. \<open>inside c i\<close> records that core \<open>c\<close> was granted semaphore
  \<open>i\<close> and has not released it since.
\<close>

record lock_sys =
  ls_hsem :: hsem
  inside :: "core \<Rightarrow> nat \<Rightarrow> bool"

definition set_inside :: "core \<Rightarrow> nat \<Rightarrow> bool \<Rightarrow> lock_sys \<Rightarrow> lock_sys" where
  "set_inside c i b s = s\<lparr>inside := (inside s)(c := (inside s c)(i := b))\<rparr>"

inductive lock_step :: "lock_sys \<Rightarrow> lock_sys \<Rightarrow> bool" where
  fast_take: "HAL_HSEM_FastTake c i (ls_hsem s) = (st, h) \<Longrightarrow>
    lock_step s (if st = HAL_OK then set_inside c i True (s\<lparr>ls_hsem := h\<rparr>) else s\<lparr>ls_hsem := h\<rparr>)"
| take: "HAL_HSEM_Take c i pid (ls_hsem s) = (st, h) \<Longrightarrow> pid < 256 \<Longrightarrow>
    lock_step s (if st = HAL_OK then set_inside c i True (s\<lparr>ls_hsem := h\<rparr>) else s\<lparr>ls_hsem := h\<rparr>)"
| release: "pid < 256 \<Longrightarrow>
    lock_step s (set_inside c i False (s\<lparr>ls_hsem := HAL_HSEM_Release c i pid (ls_hsem s)\<rparr>))"

definition lock_inv :: "lock_sys \<Rightarrow> bool" where
  "lock_inv s \<longleftrightarrow> (\<forall>c i. inside s c i \<longrightarrow> owned_by c (sem_R (ls_hsem s) i))"

lemma lock_inv_step: "lock_step s s' \<Longrightarrow> lock_inv s \<Longrightarrow> lock_inv s'"
proof (induction rule: lock_step.induct)
  case (fast_take c i s st h)
  then show ?case
    using FastTake_owned[OF fast_take.hyps] by (auto simp: lock_inv_def set_inside_def)
next
  case (take c i pid s st h)
  then show ?case
    using Take_owned[OF take.hyps] by (auto simp: lock_inv_def set_inside_def)
next
  case (release pid s c i)
  then show ?case
    using Release_owned[OF release.hyps] by (auto simp: lock_inv_def set_inside_def)
qed

lemma lock_inv_reachable: "lock_step\<^sup>*\<^sup>* s s' \<Longrightarrow> lock_inv s \<Longrightarrow> lock_inv s'"
  by (induction rule: rtranclp_induct) (auto intro: lock_inv_step)

text \<open>
  C1: whatever the order in which the two cores take (in one or in two steps) and release hardware
  semaphores, starting with no core inside, a semaphore is never granted to both cores at once.
\<close>

theorem hsem_mutual_exclusion:
  assumes "lock_step\<^sup>*\<^sup>* s s'" and "\<And>c i. \<not> inside s c i"
  shows "\<not> (inside s' CA7 i \<and> inside s' CM4 i)"
proof -
  have "lock_inv s" using assms(2) by (simp add: lock_inv_def)
  then have "lock_inv s'" by (rule lock_inv_reachable[OF assms(1)])
  then show ?thesis using owned_by_unique[of CA7 _ CM4] unfolding lock_inv_def by blast
qed

definition free_sys :: lock_sys where
  "free_sys = \<lparr>ls_hsem = \<lparr>sem_R = (\<lambda>_. 0), sem_KEY = 0, sem_IER = 0, sem_ISR = 0\<rparr>, inside = (\<lambda>_ _. False)\<rparr>"

theorem hsem_mutual_exclusion_witness:
  "\<exists>s'. lock_step\<^sup>*\<^sup>* free_sys s' \<and> inside s' CM4 0 \<and> \<not> inside s' CA7 0"
proof -
  let ?h = "snd (HAL_HSEM_FastTake CM4 0 (ls_hsem free_sys))"
  let ?s = "set_inside CM4 0 True (free_sys\<lparr>ls_hsem := ?h\<rparr>)"
  have ok: "HAL_HSEM_FastTake CM4 0 (ls_hsem free_sys) = (HAL_OK, ?h)"
    by (simp add: HAL_HSEM_FastTake_def read_RLR_def free_sys_def)
  have "lock_step\<^sup>*\<^sup>* free_sys ?s" using lock_step.fast_take[OF ok] by auto
  moreover have "inside ?s CM4 0" by (simp add: set_inside_def)
  moreover have "\<not> (inside ?s CA7 0 \<and> inside ?s CM4 0)"
    using calculation(1) by (rule hsem_mutual_exclusion) (simp add: free_sys_def)
  ultimately show ?thesis by blast
qed

section \<open>When the lock is granted\<close>

text \<open>The semaphores as attempt number \<open>m\<close> of a lock call sees them, if the earlier ones failed.\<close>

fun seen :: "lock_env \<Rightarrow> nat \<Rightarrow> nat \<Rightarrow> hsem \<Rightarrow> hsem" where
  "seen env k 0 h = meanwhile env k h"
| "seen env k (Suc m) h = seen env (Suc k) m (meanwhile env k h)"

definition grantable :: "u32 \<Rightarrow> bool" where
  "grantable v \<longleftrightarrow> \<not> is_locked v \<or> v = lock_word CM4"

definition granted :: "nat \<Rightarrow> hsem \<Rightarrow> hsem" where
  "granted i h = h\<lparr>sem_R := (sem_R h)(i := lock_word CM4)\<rparr>"

definition in_time :: "lock_env \<Rightarrow> u32 \<Rightarrow> u32 \<Rightarrow> nat \<Rightarrow> bool" where
  "in_time env Timeout tickstart k \<longleftrightarrow> Timeout \<noteq> 0 \<and> tick env (Suc k) - tickstart \<le> Timeout"

lemma granted_idem: "sem_R h i = lock_word CM4 \<Longrightarrow> granted i h = h"
  by (cases h) (auto simp: granted_def fun_upd_idem)

lemma FastTake_CM4:
  "HAL_HSEM_FastTake CM4 i h = (if grantable (sem_R h i) then (HAL_OK, granted i h) else (HAL_ERROR, h))"
  using granted_idem[of h i]
  by (auto simp: HAL_HSEM_FastTake_def read_RLR_def grantable_def granted_def lock_word_def)

lemma lock_loop_unfold:
  "lock_loop env i T t0 k h =
     (if grantable (sem_R (meanwhile env k h) i) then Some (granted i (meanwhile env k h))
      else if in_time env T t0 k then lock_loop env i T t0 (Suc k) (meanwhile env k h) else None)"
  by (subst lock_loop.simps) (auto simp: FastTake_CM4 in_time_def)

lemma lock_loop_hit:
  "grantable (sem_R (seen env k m h) i) \<Longrightarrow>
   (\<And>j. j < m \<Longrightarrow> \<not> grantable (sem_R (seen env k j h) i) \<and> in_time env T t0 (k + j)) \<Longrightarrow>
   lock_loop env i T t0 k h = Some (granted i (seen env k m h))"
proof (induction m arbitrary: k h)
  case 0
  then show ?case by (simp add: lock_loop_unfold[of env i T t0 k h])
next
  case (Suc m)
  have first: "\<not> grantable (sem_R (meanwhile env k h) i)" "in_time env T t0 k"
    using Suc.prems(2)[of 0] by simp_all
  have "lock_loop env i T t0 (Suc k) (meanwhile env k h) =
      Some (granted i (seen env (Suc k) m (meanwhile env k h)))"
    using Suc.prems(1) Suc.prems(2)[of "Suc j" for j] by (intro Suc.IH) auto
  with first show ?case by (simp add: lock_loop_unfold[of env i T t0 k h])
qed

definition lock_outcome :: "lock_env \<Rightarrow> nat \<Rightarrow> u32 \<Rightarrow> u32 \<Rightarrow> nat \<Rightarrow> hsem \<Rightarrow> hsem \<Rightarrow> bool" where
  "lock_outcome env i T t0 k h h' \<longleftrightarrow>
     (\<exists>m. grantable (sem_R (seen env k m h) i) \<and> h' = granted i (seen env k m h) \<and>
       (\<forall>j<m. \<not> grantable (sem_R (seen env k j h) i) \<and> in_time env T t0 (k + j)))"

lemma lock_outcome_Suc:
  assumes "lock_outcome env i T t0 (Suc k) (meanwhile env k h) h'"
    and "\<not> grantable (sem_R (meanwhile env k h) i)" and "in_time env T t0 k"
  shows "lock_outcome env i T t0 k h h'"
proof -
  obtain m where m: "grantable (sem_R (seen env k (Suc m) h) i)" "h' = granted i (seen env k (Suc m) h)"
      "\<And>j. j < m \<Longrightarrow> \<not> grantable (sem_R (seen env k (Suc j) h) i) \<and> in_time env T t0 (k + Suc j)"
    using assms(1) unfolding lock_outcome_def by auto
  have "\<not> grantable (sem_R (seen env k j h) i) \<and> in_time env T t0 (k + j)" if "j < Suc m" for j
    using that m(3) assms(2,3) by (cases j) auto
  then show ?thesis using m(1,2) unfolding lock_outcome_def by blast
qed

lemma lock_loop_result: "lock_loop env i T t0 k h = Some h' \<Longrightarrow> lock_outcome env i T t0 k h h'"
proof (rule lock_loop.raw_induct[where P = lock_outcome], assumption?)
  fix rec env i T t0 k h h'
  assume IH: "\<And>env i T t0 k h h'. rec env i T t0 k h = Some h' \<Longrightarrow> lock_outcome env i T t0 k h h'"
    and r: "(case HAL_HSEM_FastTake CM4 i (meanwhile env k h) of (st, h) \<Rightarrow>
        if st = HAL_OK then Some h
        else if T = 0 \<or> T < tick env (Suc k) - t0 then None
        else rec env i T t0 (Suc k) h) = Some h'"
  show "lock_outcome env i T t0 k h h'"
  proof (cases "grantable (sem_R (meanwhile env k h) i)")
    case True
    then show ?thesis using r unfolding lock_outcome_def
      by (intro exI[of _ 0]) (simp add: FastTake_CM4)
  next
    case False
    then have it: "in_time env T t0 k" and rc: "rec env i T t0 (Suc k) (meanwhile env k h) = Some h'"
      using r by (auto simp: FastTake_CM4 in_time_def split: if_splits)
    show ?thesis by (rule lock_outcome_Suc[OF IH[OF rc] False it])
  qed
qed

text \<open>
  C17: \<open>Periph_Lock\<close> on a GPIO port returns exactly if some attempt finds the semaphore free, or held
  by the Cortex-M4 itself, and every earlier attempt failed while the timeout had not expired. It then
  returns the status \<open>OK\<close>, with the semaphore owned by the Cortex-M4. In every other case it does not
  return: the documented timeout status is never delivered, the error handler loops for ever instead.
\<close>

theorem periph_lock_iff:
  "Periph_Lock env (Gpio port) T h = Some (st, h') \<longleftrightarrow>
     st = LOCK_RESOURCE_STATUS_OK \<and>
     (\<exists>m. grantable (sem_R (seen env 0 m h) 0) \<and> h' = granted 0 (seen env 0 m h) \<and>
        (\<forall>j<m. \<not> grantable (sem_R (seen env 0 j h) 0) \<and> in_time env T (tick env 0) j))"
proof -
  have "lock_loop env 0 T (tick env 0) 0 h = Some h' \<longleftrightarrow>
      (\<exists>m. grantable (sem_R (seen env 0 m h) 0) \<and> h' = granted 0 (seen env 0 m h) \<and>
        (\<forall>j<m. \<not> grantable (sem_R (seen env 0 j h) 0) \<and> in_time env T (tick env 0) j))"
    (is "?l \<longleftrightarrow> ?r")
  proof
    assume ?l
    then show ?r using lock_loop_result[of env 0 T "tick env 0" 0 h h'] unfolding lock_outcome_def by simp
  next
    assume ?r
    then obtain m where m: "grantable (sem_R (seen env 0 m h) 0)" "h' = granted 0 (seen env 0 m h)"
        "\<And>j. j < m \<Longrightarrow> \<not> grantable (sem_R (seen env 0 j h) 0) \<and> in_time env T (tick env 0) (0 + j)"
      by auto
    show ?l unfolding m(2) by (rule lock_loop_hit[OF m(1) m(3)])
  qed
  then show ?thesis
    by (auto simp: Periph_Lock_def GET_HSEM_SEM_INDEX_def HSEM_SEMID_MAX_def split: option.split)
qed

theorem periph_lock_iff_witness:
  "\<exists>st h'. Periph_Lock \<lparr>tick = (\<lambda>k. of_nat k),
       meanwhile = (\<lambda>k h. if k = 2 then HAL_HSEM_Release CA7 0 0 h else h)\<rparr> (Gpio GPIOA) 100
     \<lparr>sem_R = (\<lambda>_. lock_word CA7), sem_KEY = 0, sem_IER = 0, sem_ISR = 0\<rparr> = Some (st, h') \<and>
     sem_R h' 0 = lock_word CM4 \<and> sem_R h' 1 = lock_word CA7"
proof -
  let ?env = "\<lparr>tick = (\<lambda>k. of_nat k), meanwhile = (\<lambda>k h. if k = 2 then HAL_HSEM_Release CA7 0 0 h else h)\<rparr>"
  let ?h = "\<lparr>sem_R = (\<lambda>_. lock_word CA7), sem_KEY = 0, sem_IER = 0, sem_ISR = 0\<rparr>"
  have seen2: "seen ?env 0 2 ?h = HAL_HSEM_Release CA7 0 0 ?h" by (simp add: numeral_2_eq_2)
  have free: "sem_R (HAL_HSEM_Release CA7 0 0 ?h) = (\<lambda>_. lock_word CA7)(0 := 0)"
    by (simp add: HAL_HSEM_Release_def write_R_def is_locked_def lock_word_def HSEM_LOCK_def
        HSEM_CR_COREID_CURRENT_def)
  have held: "\<not> grantable (lock_word CA7)"
    by (simp add: grantable_def lock_word_def is_locked_def HSEM_CR_COREID_CURRENT_def HSEM_LOCK_def)
  have early: "\<forall>j<2. \<not> grantable (sem_R (seen ?env 0 j ?h) 0) \<and> in_time ?env 100 (tick ?env 0) j"
    using held by (auto simp: less_2_cases_iff in_time_def)
  have "Periph_Lock ?env (Gpio GPIOA) 100 ?h = Some (LOCK_RESOURCE_STATUS_OK, granted 0 (seen ?env 0 2 ?h))"
    unfolding periph_lock_iff using early seen2 free
    by (intro conjI exI[of _ 2]) (auto simp: grantable_def)
  then show ?thesis by (simp add: seen2 granted_def free)
qed

text \<open>
  The lock does not count and does not tell the threads of the Cortex-M4 apart. While the
  Cortex-M4 holds the semaphore of a port, a second lock (of any port, by any thread of this core)
  is granted at once, and the first unlock then frees the semaphore for the other core.
\<close>

theorem nested_lock_granted:
  assumes "sem_R (meanwhile env 0 h) 0 = lock_word CM4"
  shows "Periph_Lock env (Gpio port) T h = Some (LOCK_RESOURCE_STATUS_OK, meanwhile env 0 h) \<and>
    (\<exists>h'. Periph_Unlock (Gpio port') (meanwhile env 0 h) = Some h' \<and> \<not> is_locked (sem_R h' 0))"
proof -
  have same: "granted 0 (meanwhile env 0 h) = meanwhile env 0 h"
    using assms by (rule granted_idem)
  have "lock_loop env 0 T (tick env 0) 0 h = Some (meanwhile env 0 h)"
    using assms same by (simp add: lock_loop_unfold[of env 0 T _ 0 h] grantable_def)
  moreover have "\<not> is_locked (HSEM_CR_COREID_CURRENT CM4)"
    by (simp add: is_locked_def HSEM_CR_COREID_CURRENT_def HSEM_LOCK_def)
  then have "sem_R (HAL_HSEM_Release CM4 0 0 (meanwhile env 0 h)) 0 = 0"
    using assms by (simp add: HAL_HSEM_Release_def write_R_def lock_word_def)
  ultimately show ?thesis
    by (simp add: Periph_Lock_def Periph_Unlock_def GET_HSEM_SEM_INDEX_def HSEM_SEMID_MAX_def)
qed

theorem nested_lock_granted_witness:
  "\<exists>h'. Periph_Unlock (Gpio GPIOB) \<lparr>sem_R = (\<lambda>_. lock_word CM4), sem_KEY = 0, sem_IER = 0, sem_ISR = 0\<rparr> =
      Some h' \<and> \<not> is_locked (sem_R h' 0)"
  using nested_lock_granted[of "\<lparr>tick = (\<lambda>_. 0), meanwhile = (\<lambda>_ h. h)\<rparr>"
      "\<lparr>sem_R = (\<lambda>_. lock_word CM4), sem_KEY = 0, sem_IER = 0, sem_ISR = 0\<rparr>"]
  by simp

end
