(* ===== verification/Bsp_Disco.thy ===== *)
theory Bsp_Disco
  imports Hsem_Lock
begin

text \<open>
  The board support functions for the LEDs and the push buttons
  (\<^verbatim>\<open>CM4/Drivers/BSP/STM32MP15xx_DISCO/stm32mp15xx_disco.c\<close>), over the GPIO driver and the lock on
  shared peripherals, with the part of the EXTI driver they use
  (\<^verbatim>\<open>Drivers/STM32MP1xx_HAL_Driver/Src/stm32mp1xx_hal_exti.c\<close>). The COM port functions are compiled
  out (\<open>USE_BSP_COM_FEATURE\<close> is 0).

  The state \<open>board\<close> holds the GPIO and EXTI registers, the semaphores, the clock gates, the interrupt
  controller and the button handles. The surroundings of the \<open>n\<close>-th lock call of a run are the
  element \<open>n\<close> of a sequence; \<open>None\<close> is a call that never returns.
\<close>

section \<open>State\<close>

datatype Led_TypeDef = LED6 | LED5 | LED7 | LED8

datatype Button_TypeDef = BUTTON_WAKEUP | BUTTON_USER | BUTTON_USER2

datatype ButtonMode_TypeDef = BUTTON_MODE_GPIO | BUTTON_MODE_EXTI

record EXTI_HandleTypeDef =
  ext_Line :: nat
  RisingCallback :: "Button_TypeDef option"
  FallingCallback :: "Button_TypeDef option"

record board =
  b_sys :: gpio_sys
  b_hsem :: hsem
  b_locks :: nat
  b_clk :: "gpio_port \<Rightarrow> bool"
  nvic_on :: "nat \<Rightarrow> bool"
  nvic_prio :: "nat \<Rightarrow> nat \<times> nat"
  hExtiButtonHandle :: "Button_TypeDef \<Rightarrow> EXTI_HandleTypeDef"

definition LED_PORT :: "Led_TypeDef \<Rightarrow> gpio_port" where
  "LED_PORT l = (case l of LED6 \<Rightarrow> GPIOA | LED5 \<Rightarrow> GPIOA | LED7 \<Rightarrow> GPIOH | LED8 \<Rightarrow> GPIOD)"

definition LED_PIN :: "Led_TypeDef \<Rightarrow> u32" where
  "LED_PIN l = (case l of LED6 \<Rightarrow> 0x2000 | LED5 \<Rightarrow> 0x4000 | LED7 \<Rightarrow> 0x0080 | LED8 \<Rightarrow> 0x0800)"

definition BUTTON_PORT :: "Button_TypeDef \<Rightarrow> gpio_port" where
  "BUTTON_PORT b = (case b of BUTTON_WAKEUP \<Rightarrow> GPIOA | BUTTON_USER \<Rightarrow> GPIOA | BUTTON_USER2 \<Rightarrow> GPIOA)"

definition BUTTON_PIN :: "Button_TypeDef \<Rightarrow> u16" where
  "BUTTON_PIN b = (case b of BUTTON_WAKEUP \<Rightarrow> 0x0001 | BUTTON_USER \<Rightarrow> 0x4000 | BUTTON_USER2 \<Rightarrow> 0x2000)"

definition BUTTON_IRQn :: "Button_TypeDef \<Rightarrow> nat" where
  "BUTTON_IRQn b = (case b of BUTTON_WAKEUP \<Rightarrow> 6 | BUTTON_USER \<Rightarrow> 121 | BUTTON_USER2 \<Rightarrow> 77)"

definition BUTTON_EXTI_LINE :: "Button_TypeDef \<Rightarrow> nat" where
  "BUTTON_EXTI_LINE b = (case b of BUTTON_WAKEUP \<Rightarrow> 0 | BUTTON_USER \<Rightarrow> 14 | BUTTON_USER2 \<Rightarrow> 13)"

definition BSP_BUTTON_IT_PRIORITY :: "Button_TypeDef \<Rightarrow> nat" where
  "BSP_BUTTON_IT_PRIORITY b = 0x0F"

lemmas board_consts = LED_PORT_def LED_PIN_def BUTTON_PORT_def BUTTON_PIN_def BUTTON_IRQn_def
  BUTTON_EXTI_LINE_def BSP_BUTTON_IT_PRIORITY_def

section \<open>Critical sections\<close>

definition LOCK_RESOURCE_TIMEOUT :: u32 where "LOCK_RESOURCE_TIMEOUT = 100"

definition BSP_ENTER_CRITICAL_SECTION ::
    "(nat \<Rightarrow> lock_env) \<Rightarrow> gpio_port \<Rightarrow> 'z board_scheme \<Rightarrow> 'z board_scheme option" where
  "BSP_ENTER_CRITICAL_SECTION le port b =
     (case Periph_Lock (le (b_locks b)) (Gpio port) LOCK_RESOURCE_TIMEOUT (b_hsem b) of
        None \<Rightarrow> None
      | Some (_, h) \<Rightarrow> Some (b\<lparr>b_hsem := h, b_locks := Suc (b_locks b)\<rparr>))"

definition BSP_EXIT_CRITICAL_SECTION ::
    "gpio_port \<Rightarrow> 'z board_scheme \<Rightarrow> 'z board_scheme option" where
  "BSP_EXIT_CRITICAL_SECTION port b =
     (case Periph_Unlock (Gpio port) (b_hsem b) of None \<Rightarrow> None | Some h \<Rightarrow> Some (b\<lparr>b_hsem := h\<rparr>))"

text \<open>A change of the GPIO and EXTI registers between entry and exit.\<close>

definition guarded ::
    "(nat \<Rightarrow> lock_env) \<Rightarrow> gpio_port \<Rightarrow> (gpio_sys \<Rightarrow> gpio_sys) \<Rightarrow> 'z board_scheme \<Rightarrow> 'z board_scheme option" where
  "guarded le port f b =
     (case BSP_ENTER_CRITICAL_SECTION le port b of
        None \<Rightarrow> None
      | Some b \<Rightarrow> BSP_EXIT_CRITICAL_SECTION port (b\<lparr>b_sys := f (b_sys b)\<rparr>))"

section \<open>LEDs\<close>

definition BSP_LED_On :: "Led_TypeDef \<Rightarrow> 'z board_scheme \<Rightarrow> int \<times> 'z board_scheme" where
  "BSP_LED_On Led b =
     (let b = (if Led = LED5 \<or> Led = LED6
               then b\<lparr>b_sys := HAL_GPIO_WritePin (LED_PORT Led) (ucast (LED_PIN Led)) GPIO_PIN_RESET (b_sys b)\<rparr>
               else if Led = LED7 \<or> Led = LED8
               then b\<lparr>b_sys := HAL_GPIO_WritePin (LED_PORT Led) (ucast (LED_PIN Led)) GPIO_PIN_SET (b_sys b)\<rparr>
               else b)
      in (0, b))"

definition BSP_LED_Off :: "Led_TypeDef \<Rightarrow> 'z board_scheme \<Rightarrow> int \<times> 'z board_scheme" where
  "BSP_LED_Off Led b =
     (let b = (if Led = LED5 \<or> Led = LED6
               then b\<lparr>b_sys := HAL_GPIO_WritePin (LED_PORT Led) (ucast (LED_PIN Led)) GPIO_PIN_SET (b_sys b)\<rparr>
               else if Led = LED7 \<or> Led = LED8
               then b\<lparr>b_sys := HAL_GPIO_WritePin (LED_PORT Led) (ucast (LED_PIN Led)) GPIO_PIN_RESET (b_sys b)\<rparr>
               else b)
      in (0, b))"

definition BSP_LED_Toggle :: "Led_TypeDef \<Rightarrow> 'z board_scheme \<Rightarrow> int \<times> 'z board_scheme" where
  "BSP_LED_Toggle Led b =
     (0, b\<lparr>b_sys := HAL_GPIO_TogglePin (LED_PORT Led) (ucast (LED_PIN Led)) (b_sys b)\<rparr>)"

definition BSP_LED_GetState :: "Led_TypeDef \<Rightarrow> 'z board_scheme \<Rightarrow> int" where
  "BSP_LED_GetState Led b =
     (if HAL_GPIO_ReadPin (LED_PORT Led) (ucast (LED_PIN Led)) (b_sys b) = GPIO_PIN_RESET then 1 else 0)"

text \<open>The field \<open>Alternate\<close> is not set by the source, and not read in these modes.\<close>

definition led_init_structure :: "Led_TypeDef \<Rightarrow> GPIO_InitTypeDef" where
  "led_init_structure Led = \<lparr>Pin = LED_PIN Led, Mode = GPIO_MODE_OUTPUT_PP, Pull = GPIO_PULLUP,
     Speed = GPIO_SPEED_FREQ_VERY_HIGH, Alternate = 0\<rparr>"

definition BSP_LED_Init ::
    "(nat \<Rightarrow> lock_env) \<Rightarrow> Led_TypeDef \<Rightarrow> 'z board_scheme \<Rightarrow> (int \<times> 'z board_scheme) option" where
  "BSP_LED_Init le Led b =
     (let b = b\<lparr>b_clk := (b_clk b)(LED_PORT Led := True)\<rparr>
      in case guarded le (LED_PORT Led) (HAL_GPIO_Init (LED_PORT Led) (led_init_structure Led)) b of
           None \<Rightarrow> None
         | Some b \<Rightarrow> Some (0, snd (BSP_LED_Off Led b)))"

definition BSP_LED_DeInit ::
    "(nat \<Rightarrow> lock_env) \<Rightarrow> Led_TypeDef \<Rightarrow> 'z board_scheme \<Rightarrow> (int \<times> 'z board_scheme) option" where
  "BSP_LED_DeInit le Led b =
     (case guarded le (LED_PORT Led) (HAL_GPIO_DeInit (LED_PORT Led) (LED_PIN Led)) (snd (BSP_LED_Off Led b)) of
        None \<Rightarrow> None
      | Some b \<Rightarrow> Some (0, b))"

section \<open>Buttons\<close>

definition HAL_NVIC_SetPriority :: "nat \<Rightarrow> nat \<Rightarrow> nat \<Rightarrow> 'z board_scheme \<Rightarrow> 'z board_scheme" where
  "HAL_NVIC_SetPriority irq pre sub b = b\<lparr>nvic_prio := (nvic_prio b)(irq := (pre, sub))\<rparr>"

definition HAL_NVIC_EnableIRQ :: "nat \<Rightarrow> 'z board_scheme \<Rightarrow> 'z board_scheme" where
  "HAL_NVIC_EnableIRQ irq b = b\<lparr>nvic_on := (nvic_on b)(irq := True)\<rparr>"

definition HAL_NVIC_DisableIRQ :: "nat \<Rightarrow> 'z board_scheme \<Rightarrow> 'z board_scheme" where
  "HAL_NVIC_DisableIRQ irq b = b\<lparr>nvic_on := (nvic_on b)(irq := False)\<rparr>"

definition HAL_EXTI_GetHandle :: "nat \<Rightarrow> EXTI_HandleTypeDef \<Rightarrow> HAL_StatusTypeDef \<times> EXTI_HandleTypeDef" where
  "HAL_EXTI_GetHandle ExtiLine hexti = (HAL_OK, hexti\<lparr>ext_Line := ExtiLine\<rparr>)"

datatype EXTI_CallbackIDTypeDef = HAL_EXTI_COMMON_CB_ID | HAL_EXTI_RISING_CB_ID | HAL_EXTI_FALLING_CB_ID

definition HAL_EXTI_RegisterCallback ::
    "EXTI_CallbackIDTypeDef \<Rightarrow> Button_TypeDef \<Rightarrow> EXTI_HandleTypeDef \<Rightarrow> HAL_StatusTypeDef \<times> EXTI_HandleTypeDef" where
  "HAL_EXTI_RegisterCallback CallbackID cb hexti =
     (case CallbackID of
        HAL_EXTI_COMMON_CB_ID \<Rightarrow> (HAL_OK, hexti\<lparr>RisingCallback := Some cb, FallingCallback := Some cb\<rparr>)
      | HAL_EXTI_RISING_CB_ID \<Rightarrow> (HAL_OK, hexti\<lparr>RisingCallback := Some cb\<rparr>)
      | HAL_EXTI_FALLING_CB_ID \<Rightarrow> (HAL_OK, hexti\<lparr>FallingCallback := Some cb\<rparr>))"

text \<open>The interrupt handler of a line of the first register bank; it returns the callbacks it makes.\<close>

definition HAL_EXTI_IRQHandler ::
    "EXTI_HandleTypeDef \<Rightarrow> exti_regs \<Rightarrow> Button_TypeDef list \<times> exti_regs" where
  "HAL_EXTI_IRQHandler hexti e =
     (let maskline = push_bit (ext_Line hexti) (1 :: u32);
          (c1, e) = (if RPR1 e AND maskline \<noteq> 0
             then ((case RisingCallback hexti of None \<Rightarrow> [] | Some c \<Rightarrow> [c]), e\<lparr>RPR1 := RPR1 e AND NOT maskline\<rparr>)
             else ([], e));
          (c2, e) = (if FPR1 e AND maskline \<noteq> 0
             then ((case FallingCallback hexti of None \<Rightarrow> [] | Some c \<Rightarrow> [c]), e\<lparr>FPR1 := FPR1 e AND NOT maskline\<rparr>)
             else ([], e))
      in (c1 @ c2, e))"

definition pb_init_structure :: "Button_TypeDef \<Rightarrow> ButtonMode_TypeDef \<Rightarrow> GPIO_InitTypeDef" where
  "pb_init_structure Button ButtonMode =
     (if ButtonMode = BUTTON_MODE_GPIO
      then \<lparr>Pin = ucast (BUTTON_PIN Button), Mode = GPIO_MODE_INPUT, Pull = GPIO_PULLUP,
            Speed = GPIO_SPEED_FREQ_HIGH, Alternate = 0\<rparr>
      else \<lparr>Pin = ucast (BUTTON_PIN Button), Mode = GPIO_MODE_IT_RISING, Pull = GPIO_NOPULL,
            Speed = GPIO_SPEED_FREQ_HIGH, Alternate = 0\<rparr>)"

definition BSP_PB_Init ::
    "(nat \<Rightarrow> lock_env) \<Rightarrow> Button_TypeDef \<Rightarrow> ButtonMode_TypeDef \<Rightarrow> 'z board_scheme \<Rightarrow> (int \<times> 'z board_scheme) option" where
  "BSP_PB_Init le Button ButtonMode b =
     (let b = b\<lparr>b_clk := (b_clk b)(BUTTON_PORT Button := True)\<rparr>
      in case guarded le (BUTTON_PORT Button)
            (HAL_GPIO_Init (BUTTON_PORT Button) (pb_init_structure Button ButtonMode)) b of
           None \<Rightarrow> None
         | Some b \<Rightarrow>
             if ButtonMode = BUTTON_MODE_GPIO then Some (0, b)
             else (let status = 0;
                       (st, hx) = HAL_EXTI_GetHandle (BUTTON_EXTI_LINE Button) (hExtiButtonHandle b Button);
                       status = (if st \<noteq> HAL_OK then -4 else status);
                       (st, hx) = HAL_EXTI_RegisterCallback HAL_EXTI_RISING_CB_ID Button hx;
                       status = (if st \<noteq> HAL_OK then -4 else status);
                       b = b\<lparr>hExtiButtonHandle := (hExtiButtonHandle b)(Button := hx)\<rparr>;
                       b = HAL_NVIC_SetPriority (BUTTON_IRQn Button) (BSP_BUTTON_IT_PRIORITY Button) 0 b;
                       b = HAL_NVIC_EnableIRQ (BUTTON_IRQn Button) b
                   in Some (status, b)))"

definition BSP_PB_DeInit ::
    "(nat \<Rightarrow> lock_env) \<Rightarrow> Button_TypeDef \<Rightarrow> 'z board_scheme \<Rightarrow> (int \<times> 'z board_scheme) option" where
  "BSP_PB_DeInit le Button b =
     (let b = b\<lparr>b_clk := (b_clk b)(BUTTON_PORT Button := False)\<rparr>;
          b = HAL_NVIC_DisableIRQ (BUTTON_IRQn Button) b
      in case guarded le (BUTTON_PORT Button)
            (HAL_GPIO_DeInit (BUTTON_PORT Button) (ucast (BUTTON_PIN Button))) b of
           None \<Rightarrow> None
         | Some b \<Rightarrow> Some (0, b))"

definition BSP_PB_GetState :: "Button_TypeDef \<Rightarrow> 'z board_scheme \<Rightarrow> u32" where
  "BSP_PB_GetState Button b =
     (case HAL_GPIO_ReadPin (BUTTON_PORT Button) (BUTTON_PIN Button) (b_sys b) of
        GPIO_PIN_RESET \<Rightarrow> 0 | GPIO_PIN_SET \<Rightarrow> 1)"

text \<open>The three interrupt entry points; the result lists the calls of \<open>BSP_PB_Callback\<close>.\<close>

definition pb_irq :: "Button_TypeDef \<Rightarrow> 'z board_scheme \<Rightarrow> Button_TypeDef list \<times> 'z board_scheme" where
  "pb_irq Button b =
     (case HAL_EXTI_IRQHandler (hExtiButtonHandle b Button) (exti (b_sys b)) of
        (cs, e) \<Rightarrow> (cs, b\<lparr>b_sys := (b_sys b)\<lparr>exti := e\<rparr>\<rparr>))"

definition BSP_PB_WAKEUP_EXTI_LINE_0_IRQHandler ::
    "'z board_scheme \<Rightarrow> Button_TypeDef list \<times> 'z board_scheme" where
  "BSP_PB_WAKEUP_EXTI_LINE_0_IRQHandler b = pb_irq BUTTON_WAKEUP b"

definition BSP_PB_USER_EXTI_LINE_14_IRQHandler ::
    "'z board_scheme \<Rightarrow> Button_TypeDef list \<times> 'z board_scheme" where
  "BSP_PB_USER_EXTI_LINE_14_IRQHandler b = pb_irq BUTTON_USER b"

definition BSP_PB_USER2_EXTI_LINE_13_IRQHandler ::
    "'z board_scheme \<Rightarrow> Button_TypeDef list \<times> 'z board_scheme" where
  "BSP_PB_USER2_EXTI_LINE_13_IRQHandler b = pb_irq BUTTON_USER2 b"

section \<open>What a critical section guarantees\<close>

text \<open>
  The contract between the lock and its users: entry, if it comes back, gives the section to this
  core and leaves the guarded data alone; exit always comes back and gives the section up.
\<close>

locale critical_section =
  fixes enter :: "'p \<Rightarrow> 's \<Rightarrow> 's option" and leave :: "'p \<Rightarrow> 's \<Rightarrow> 's option"
    and held :: "'s \<Rightarrow> bool" and rest :: "'s \<Rightarrow> 'v"
  assumes enter_held: "enter p s = Some s' \<Longrightarrow> held s' \<and> rest s' = rest s"
    and leave_returns: "held s \<Longrightarrow> \<exists>s'. leave p s = Some s' \<and> \<not> held s' \<and> rest s' = rest s"
begin

lemma section_result:
  assumes "(case enter p s of None \<Rightarrow> None | Some t \<Rightarrow> leave p' (f t)) = Some s'"
    and "\<And>t. held t \<Longrightarrow> held (f t)" and "\<And>t. rest (f t) = g (rest t)"
  shows "\<not> held s' \<and> rest s' = g (rest s)"
proof -
  obtain t where t: "enter p s = Some t" "leave p' (f t) = Some s'"
    using assms(1) by (auto split: option.splits)
  then have "held (f t)" "rest (f t) = g (rest s)" using enter_held[OF t(1)] assms(2,3) by auto
  then show ?thesis using leave_returns[of "f t" p'] t(2) by auto
qed

lemma section_returns:
  assumes "enter p s = Some t" and "\<And>t. held t \<Longrightarrow> held (f t)"
  shows "\<exists>s'. (case enter p s of None \<Rightarrow> None | Some t \<Rightarrow> leave p' (f t)) = Some s'"
  using leave_returns[of "f t" p'] enter_held[OF assms(1)] assms by auto

end

definition gpio_locked :: "'z board_scheme \<Rightarrow> bool" where
  "gpio_locked b \<longleftrightarrow> sem_R (b_hsem b) 0 = lock_word CM4"

text \<open>Everything of the board that the lock does not own.\<close>

definition board_rest :: "'z board_scheme \<Rightarrow> 'z board_scheme" where
  "board_rest b = b\<lparr>b_hsem := undefined, b_locks := 0\<rparr>"

lemma not_locked_CM4_id: "\<not> is_locked (HSEM_CR_COREID_CURRENT CM4)"
  by (simp add: is_locked_def HSEM_CR_COREID_CURRENT_def HSEM_LOCK_def)

lemma Periph_Lock_owner:
  assumes "Periph_Lock env (Gpio port) T h = Some (st, h')"
  shows "sem_R h' 0 = lock_word CM4"
proof -
  obtain h1 where "lock_loop env 0 T (tick env 0) 0 h = Some h1" "h' = h1"
    using assms by (auto simp: Periph_Lock_def GET_HSEM_SEM_INDEX_def split: if_splits option.splits)
  then show ?thesis using lock_loop_result[of env 0 T "tick env 0" 0 h h1]
    by (auto simp: lock_outcome_def granted_def)
qed

interpretation bsp_cs: critical_section "BSP_ENTER_CRITICAL_SECTION le" BSP_EXIT_CRITICAL_SECTION
    gpio_locked board_rest for le
proof
  fix p and s s' :: "'z board_scheme"
  assume "BSP_ENTER_CRITICAL_SECTION le p s = Some s'"
  then show "gpio_locked s' \<and> board_rest s' = board_rest s"
    using Periph_Lock_owner
    by (auto simp: BSP_ENTER_CRITICAL_SECTION_def gpio_locked_def board_rest_def split: option.splits)
next
  fix p and s :: "'z board_scheme"
  assume held: "gpio_locked s"
  then have "sem_R (HAL_HSEM_Release CM4 0 0 (b_hsem s)) 0 = 0"
    using not_locked_CM4_id by (simp add: gpio_locked_def HAL_HSEM_Release_def write_R_def lock_word_def)
  moreover have "lock_word CM4 \<noteq> 0"
    by (simp add: lock_word_def HSEM_CR_COREID_CURRENT_def HSEM_LOCK_def)
  ultimately show "\<exists>s'. BSP_EXIT_CRITICAL_SECTION p s = Some s' \<and> \<not> gpio_locked s' \<and> board_rest s' = board_rest s"
    by (simp add: BSP_EXIT_CRITICAL_SECTION_def Periph_Unlock_def GET_HSEM_SEM_INDEX_def
        HSEM_SEMID_MAX_def gpio_locked_def board_rest_def)
qed

lemma board_rest_eq:
  assumes "board_rest b' = board_rest (b\<lparr>b_sys := s\<rparr>)"
  shows "b_sys b' = s" "b_clk b' = b_clk b" "nvic_on b' = nvic_on b" "nvic_prio b' = nvic_prio b"
    "hExtiButtonHandle b' = hExtiButtonHandle b"
proof -
  have "b_sys (board_rest b') = s" "b_clk (board_rest b') = b_clk b" "nvic_on (board_rest b') = nvic_on b"
    "nvic_prio (board_rest b') = nvic_prio b" "hExtiButtonHandle (board_rest b') = hExtiButtonHandle b"
    unfolding assms by (simp_all add: board_rest_def)
  then show "b_sys b' = s" "b_clk b' = b_clk b" "nvic_on b' = nvic_on b" "nvic_prio b' = nvic_prio b"
    "hExtiButtonHandle b' = hExtiButtonHandle b"
    by (simp_all add: board_rest_def)
qed

text \<open>A guarded change, if it comes back, made exactly the change and gave the lock up.\<close>

lemma guarded_rest:
  assumes "guarded le port f b = Some b'"
  shows "\<not> gpio_locked b' \<and> board_rest b' = board_rest (b\<lparr>b_sys := f (b_sys b)\<rparr>)"
proof -
  define g where "g = (\<lambda>r :: 'a board_scheme. r\<lparr>b_sys := f (b_sys r)\<rparr>)"
  have "\<not> gpio_locked b' \<and> board_rest b' = g (board_rest b)"
    using assms unfolding guarded_def g_def
    by (rule bsp_cs.section_result) (simp_all add: gpio_locked_def board_rest_def)
  then show ?thesis by (simp add: g_def board_rest_def)
qed

lemmas guarded_facts = guarded_rest[THEN conjunct1] guarded_rest[THEN conjunct2, THEN board_rest_eq(1)]
  guarded_rest[THEN conjunct2, THEN board_rest_eq(2)] guarded_rest[THEN conjunct2, THEN board_rest_eq(3)]
  guarded_rest[THEN conjunct2, THEN board_rest_eq(4)] guarded_rest[THEN conjunct2, THEN board_rest_eq(5)]

section \<open>LEDs: correctness\<close>

definition led_pos :: "Led_TypeDef \<Rightarrow> nat" where
  "led_pos l = (case l of LED6 \<Rightarrow> 13 | LED5 \<Rightarrow> 14 | LED7 \<Rightarrow> 7 | LED8 \<Rightarrow> 11)"

text \<open>LED5 and LED6 shine when their pin is low, LED7 and LED8 when it is high.\<close>

definition lit :: "Led_TypeDef \<Rightarrow> 'z board_scheme \<Rightarrow> bool" where
  "lit l b \<longleftrightarrow> bit (ODR (gpio (b_sys b) (LED_PORT l))) (led_pos l) = (l = LED7 \<or> l = LED8)"

lemma pow2_bit_u32: "k < 32 \<Longrightarrow> bit ((2 :: u32) ^ k) q \<longleftrightarrow> q = k"
  by (auto simp: bit_exp_iff)

lemma led_pin_bit: "bit (LED_PIN l) q \<longleftrightarrow> q = led_pos l"
  using pow2_bit_u32[of 13 q] pow2_bit_u32[of 14 q] pow2_bit_u32[of 7 q] pow2_bit_u32[of 11 q]
  by (cases l) (simp_all add: LED_PIN_def led_pos_def)

lemma led_pos_less: "led_pos l < 16"
  by (cases l) (simp_all add: led_pos_def)

lemma led_pin16_bit: "bit (ucast (LED_PIN l) :: u16) q \<longleftrightarrow> q = led_pos l"
  using led_pos_less[of l] by (auto simp: bit_simps led_pin_bit)

lemma led_masked_zero: "(w :: u32) AND ucast (ucast (LED_PIN l) :: u16) = 0 \<longleftrightarrow> \<not> bit w (led_pos l)"
proof -
  have "(ucast (ucast (LED_PIN l) :: u16) :: u32) = push_bit (led_pos l) 1"
    by (cases l) (simp_all add: LED_PIN_def led_pos_def)
  then show ?thesis using masked_zero_iff[of "led_pos l" w] led_pos_less[of l] by simp
qed

lemma led_separate: "LED_PORT l' = LED_PORT l \<and> led_pos l' = led_pos l \<longleftrightarrow> l' = l"
  by (cases l; cases l') (simp_all add: LED_PORT_def led_pos_def)

lemma led_on_levels: "b_sys (snd (BSP_LED_On l b)) =
    HAL_GPIO_WritePin (LED_PORT l) (ucast (LED_PIN l))
      (if l = LED7 \<or> l = LED8 then GPIO_PIN_SET else GPIO_PIN_RESET) (b_sys b)"
  by (cases l) (simp_all add: BSP_LED_On_def)

lemma led_off_levels: "b_sys (snd (BSP_LED_Off l b)) =
    HAL_GPIO_WritePin (LED_PORT l) (ucast (LED_PIN l))
      (if l = LED7 \<or> l = LED8 then GPIO_PIN_RESET else GPIO_PIN_SET) (b_sys b)"
  by (cases l) (simp_all add: BSP_LED_Off_def)

text \<open>
  Switching an LED on lights it, switching it off darkens it and toggling it changes its state,
  for all four LEDs and their two polarities, and none of the three changes another LED.
\<close>

theorem led_switching:
  "(lit l' (snd (BSP_LED_On l b)) \<longleftrightarrow> l' = l \<or> lit l' b) \<and>
   (lit l' (snd (BSP_LED_Off l b)) \<longleftrightarrow> l' \<noteq> l \<and> lit l' b) \<and>
   (lit l' (snd (BSP_LED_Toggle l b)) \<longleftrightarrow> (if l' = l then \<not> lit l' b else lit l' b))"
proof -
  have sel: "LED_PORT l' = LED_PORT l \<and> bit (ucast (LED_PIN l) :: u16) (led_pos l') \<longleftrightarrow> l' = l"
    using led_separate[of l' l] by (auto simp: led_pin16_bit)
  have "lit l' (snd (BSP_LED_On l b)) \<longleftrightarrow> l' = l \<or> lit l' b"
    unfolding lit_def led_on_levels bit_WritePin sel by auto
  moreover have "lit l' (snd (BSP_LED_Off l b)) \<longleftrightarrow> l' \<noteq> l \<and> lit l' b"
    unfolding lit_def led_off_levels bit_WritePin sel by auto
  moreover have "lit l' (snd (BSP_LED_Toggle l b)) \<longleftrightarrow> (if l' = l then \<not> lit l' b else lit l' b)"
    unfolding lit_def BSP_LED_Toggle_def by (auto simp: bit_TogglePin sel led_masked_zero)
  ultimately show ?thesis by blast
qed

text \<open>
  When the initialisation of an LED comes back, its pin is a push-pull output of very high speed
  with pull-up, its clock is on, the LED is dark, the lock on the GPIO ports is given up, and no other
  pin of the board changed its configuration.
\<close>

theorem led_init_result:
  assumes "BSP_LED_Init le l b = Some (r, b')"
  shows "r = 0 \<and> \<not> lit l b' \<and> \<not> gpio_locked b' \<and> b_clk b' (LED_PORT l) \<and>
    pin_of (gpio (b_sys b') (LED_PORT l)) (led_pos l) =
      (pin_of (gpio (b_sys b) (LED_PORT l)) (led_pos l))
        \<lparr>p_mode := 1, p_otype := 0, p_speed := 3, p_pull := 1\<rparr> \<and>
    (\<forall>port q. q < 16 \<and> \<not> (port = LED_PORT l \<and> q = led_pos l) \<longrightarrow>
       pin_of (gpio (b_sys b') port) q = pin_of (gpio (b_sys b) port) q)"
proof -
  let ?b0 = "b\<lparr>b_clk := (b_clk b)(LED_PORT l := True)\<rparr>"
  let ?f = "HAL_GPIO_Init (LED_PORT l) (led_init_structure l)"
  obtain b1 where b1: "guarded le (LED_PORT l) ?f ?b0 = Some b1" "r = 0" "b' = snd (BSP_LED_Off l b1)"
    using assms by (auto simp: BSP_LED_Init_def Let_def split: option.splits)
  note facts = guarded_facts[OF b1(1)]
  have range: "init_in_range (led_init_structure l)"
    by (simp add: init_in_range_def led_init_structure_def gpio_const_defs)
  have off: "pin_of (gpio (b_sys b') port) q = pin_of (gpio (b_sys b1) port) q" for port q
    unfolding b1(3) led_off_levels by (rule pin_of_WritePin)
  have pins: "pin_of (gpio (b_sys b1) port) q =
      (if port = LED_PORT l \<and> q = led_pos l then
         configure_pin (led_init_structure l) (pin_of (gpio (b_sys b) port) q)
       else pin_of (gpio (b_sys b) port) q)" if "q < 16" for port q
    using per_position_loop.loop_view[OF init_pins[OF range] that, of "LED_PORT l" "b_sys b"] facts(2)
    by (cases "port = LED_PORT l")
      (simp_all add: HAL_GPIO_Init_def GPIO_NUMBER_def init_frame led_init_structure_def led_pin_bit)
  have cfg: "configure_pin (led_init_structure l) c =
      c\<lparr>p_mode := 1, p_otype := 0, p_speed := 3, p_pull := 1\<rparr>" for c
    by (simp add: configure_pin_def led_init_structure_def is_alternate_def is_driven_def gpio_const_defs)
  have "\<not> lit l b'"
    by (auto simp: b1(3) lit_def led_off_levels bit_WritePin led_pin16_bit)
  moreover have "\<not> gpio_locked b'" "b_clk b' (LED_PORT l)"
    using facts(1,3) by (cases l; simp add: b1(3) BSP_LED_Off_def gpio_locked_def)+
  ultimately show ?thesis using b1(2) pins led_pos_less[of l] by (simp add: off cfg)
qed

definition blank_board :: board where
  "blank_board = \<lparr>b_sys = blank_gpio, b_hsem = ls_hsem free_sys, b_locks = 0, b_clk = (\<lambda>_. False),
     nvic_on = (\<lambda>_. False), nvic_prio = (\<lambda>_. (0, 0)),
     hExtiButtonHandle = (\<lambda>_. \<lparr>ext_Line = 0, RisingCallback = None, FallingCallback = None\<rparr>)\<rparr>"

definition quiet :: "nat \<Rightarrow> lock_env" where
  "quiet n = \<lparr>tick = (\<lambda>_. 0), meanwhile = (\<lambda>_ h. h)\<rparr>"

lemma enter_free:
  assumes "sem_R (b_hsem b) 0 = 0"
  shows "BSP_ENTER_CRITICAL_SECTION quiet port b =
     Some (b\<lparr>b_hsem := granted 0 (b_hsem b), b_locks := Suc (b_locks b)\<rparr>)"
  using assms
  by (simp add: BSP_ENTER_CRITICAL_SECTION_def Periph_Lock_def GET_HSEM_SEM_INDEX_def HSEM_SEMID_MAX_def
      quiet_def lock_loop_unfold[of _ 0 _ _ 0] grantable_def)

lemma guarded_quiet:
  assumes "sem_R (b_hsem b) 0 = 0"
  shows "\<exists>b'. guarded quiet port f b = Some b'"
  unfolding guarded_def
  by (rule bsp_cs.section_returns[OF enter_free[OF assms]]) (simp add: gpio_locked_def)

theorem led_init_result_witness:
  "\<exists>b'. BSP_LED_Init quiet LED7 blank_board = Some (0, b') \<and> \<not> lit LED7 b' \<and> \<not> gpio_locked b'"
proof -
  have "sem_R (b_hsem (blank_board\<lparr>b_clk := c\<rparr>)) 0 = 0" for c
    by (simp add: blank_board_def free_sys_def)
  then obtain b' where "BSP_LED_Init quiet LED7 blank_board = Some (0, b')"
    unfolding BSP_LED_Init_def Let_def by (metis guarded_quiet option.simps(5))
  with led_init_result[OF this] show ?thesis by blast
qed

text \<open>
  \<open>BSP_LED_GetState\<close> reports 1 for a low pin. For LED5 and LED6 this is the state of the LED; for
  LED7 and LED8, which are driven the other way round, it is the opposite of what the description
  (0 means off, 1 means on) says. The input register is taken to show the output level of the pin.
\<close>

theorem led_get_state:
  assumes "bit (IDR (gpio (b_sys b) (LED_PORT l))) (led_pos l) =
           bit (ODR (gpio (b_sys b) (LED_PORT l))) (led_pos l)"
  shows "BSP_LED_GetState l b = (if l = LED5 \<or> l = LED6 then of_bool (lit l b) else of_bool (\<not> lit l b))"
  using assms by (cases l) (auto simp: BSP_LED_GetState_def HAL_GPIO_ReadPin_def lit_def led_masked_zero)

theorem led_get_state_witness: "BSP_LED_GetState LED7 blank_board = 1 \<and> \<not> lit LED7 blank_board"
  using led_get_state[of blank_board LED7] by (simp add: blank_board_def blank_gpio_def lit_def)

section \<open>Buttons: correctness\<close>

lemma button_pin_bit: "bit (ucast (BUTTON_PIN B) :: u32) q \<longleftrightarrow> q = BUTTON_EXTI_LINE B"
  using pow2_bit_u32[of 0 q] pow2_bit_u32[of 14 q] pow2_bit_u32[of 13 q]
  by (cases B) (simp_all add: BUTTON_PIN_def BUTTON_EXTI_LINE_def)

lemma button_line_less: "BUTTON_EXTI_LINE B < 16"
  by (cases B) (simp_all add: BUTTON_EXTI_LINE_def)

lemma EXTI_IRQHandler_calls:
  assumes "ext_Line hexti < 32" and "FallingCallback hexti = None" and "RisingCallback hexti = Some c"
  shows "fst (HAL_EXTI_IRQHandler hexti e) = (if bit (RPR1 e) (ext_Line hexti) then [c] else [])"
    and "\<not> bit (RPR1 (snd (HAL_EXTI_IRQHandler hexti e))) (ext_Line hexti)"
  using assms
  by (simp_all add: HAL_EXTI_IRQHandler_def Let_def case_prod_unfold masked_zero_iff bit_simps
      del: push_bit_of_1)

text \<open>
  When the initialisation of a button in interrupt mode comes back, the interrupt line of its pin
  is routed to its port for rising edges, its interrupt is enabled at priority 15, and from then on
  the handler of the line makes exactly one callback for this button if a rising edge is pending,
  none otherwise, and clears the pending edge.
\<close>

theorem button_interrupt:
  assumes "BSP_PB_Init le B BUTTON_MODE_EXTI b = Some (r, b')"
    and "FallingCallback (hExtiButtonHandle b B) = None"
  shows "r = 0 \<and> \<not> gpio_locked b' \<and>
    line_of (exti (b_sys b')) (BUTTON_EXTI_LINE B) =
      \<lparr>l_port = 0, l_interrupt = True, l_event = False, l_rising = True, l_falling = False\<rparr> \<and>
    nvic_on b' (BUTTON_IRQn B) \<and> nvic_prio b' (BUTTON_IRQn B) = (15, 0) \<and>
    (\<forall>t :: board. hExtiButtonHandle t B = hExtiButtonHandle b' B \<longrightarrow>
       fst (pb_irq B t) = (if bit (RPR1 (exti (b_sys t))) (BUTTON_EXTI_LINE B) then [B] else []) \<and>
       \<not> bit (RPR1 (exti (b_sys (snd (pb_irq B t))))) (BUTTON_EXTI_LINE B))"
proof -
  let ?b0 = "b\<lparr>b_clk := (b_clk b)(BUTTON_PORT B := True)\<rparr>"
  let ?cfg = "pb_init_structure B BUTTON_MODE_EXTI"
  obtain b1 where b1: "guarded le (BUTTON_PORT B) (HAL_GPIO_Init (BUTTON_PORT B) ?cfg) ?b0 = Some b1"
    using assms(1) by (auto simp: BSP_PB_Init_def Let_def split: option.splits)
  note facts = guarded_facts[OF b1]
  have res: "r = 0" "b_sys b' = b_sys b1" "b_hsem b' = b_hsem b1" "nvic_on b' (BUTTON_IRQn B)"
      "nvic_prio b' (BUTTON_IRQn B) = (15, 0)"
      "hExtiButtonHandle b' B = \<lparr>ext_Line = BUTTON_EXTI_LINE B, RisingCallback = Some B, FallingCallback = None\<rparr>"
    using assms b1 facts(6)
    by (auto simp: BSP_PB_Init_def Let_def HAL_EXTI_GetHandle_def HAL_EXTI_RegisterCallback_def
        HAL_NVIC_SetPriority_def HAL_NVIC_EnableIRQ_def BSP_BUTTON_IT_PRIORITY_def)
  have sel: "bit (Pin ?cfg) (BUTTON_EXTI_LINE B)"
    by (simp add: pb_init_structure_def button_pin_bit)
  have line: "line_of (exti (b_sys b1)) (BUTTON_EXTI_LINE B) =
      \<lparr>l_port = 0, l_interrupt = True, l_event = False, l_rising = True, l_falling = False\<rparr>"
    using init_lines.loop_view[OF button_line_less[of B], of "BUTTON_PORT B" ?cfg "b_sys b"] sel facts(2)
    by (simp add: HAL_GPIO_Init_def GPIO_NUMBER_def configure_line_def pb_init_structure_def
        gpio_const_defs BUTTON_PORT_def GPIO_GET_INDEX_def split: Button_TypeDef.split)
  have irq: "fst (pb_irq B t) = (if bit (RPR1 (exti (b_sys t))) (BUTTON_EXTI_LINE B) then [B] else []) \<and>
      \<not> bit (RPR1 (exti (b_sys (snd (pb_irq B t))))) (BUTTON_EXTI_LINE B)"
    if "hExtiButtonHandle t B = hExtiButtonHandle b' B" for t :: board
    using EXTI_IRQHandler_calls[of "hExtiButtonHandle t B" B "exti (b_sys t)"] that res(6)
      button_line_less[of B]
    by (simp add: pb_irq_def case_prod_unfold)
  show ?thesis using res facts(1) line irq by (simp add: gpio_locked_def)
qed

theorem button_interrupt_witness:
  "\<exists>b'. BSP_PB_Init quiet BUTTON_USER BUTTON_MODE_EXTI blank_board = Some (0, b') \<and>
     fst (pb_irq BUTTON_USER (b'\<lparr>b_sys := (b_sys b')\<lparr>exti := (exti (b_sys b'))\<lparr>RPR1 := 0x4000\<rparr>\<rparr>\<rparr>)) = [BUTTON_USER]"
proof -
  have "sem_R (b_hsem (blank_board\<lparr>b_clk := c\<rparr>)) 0 = 0" for c
    by (simp add: blank_board_def free_sys_def)
  then obtain b1 where "guarded quiet (BUTTON_PORT BUTTON_USER) (HAL_GPIO_Init (BUTTON_PORT BUTTON_USER)
      (pb_init_structure BUTTON_USER BUTTON_MODE_EXTI))
      (blank_board\<lparr>b_clk := (b_clk blank_board)(BUTTON_PORT BUTTON_USER := True)\<rparr>) = Some b1"
    using guarded_quiet by blast
  then obtain r b' where r: "BSP_PB_Init quiet BUTTON_USER BUTTON_MODE_EXTI blank_board = Some (r, b')"
    by (simp add: BSP_PB_Init_def Let_def case_prod_unfold)
  have f: "FallingCallback (hExtiButtonHandle blank_board BUTTON_USER) = None"
    by (simp add: blank_board_def)
  let ?t = "b'\<lparr>b_sys := (b_sys b')\<lparr>exti := (exti (b_sys b'))\<lparr>RPR1 := 0x4000\<rparr>\<rparr>\<rparr>"
  have "bit (RPR1 (exti (b_sys ?t))) (BUTTON_EXTI_LINE BUTTON_USER)"
    by (simp add: BUTTON_EXTI_LINE_def)
  then show ?thesis using button_interrupt[OF r f] r by simp
qed

end
