(* ===== verification/I2c_Bus.thy ===== *)
theory I2c_Bus
  imports Bsp_Disco
begin

text \<open>
  The I2C4 bus functions of the board support package
  (\<^verbatim>\<open>CM4/Drivers/BSP/STM32MP15xx_DISCO/stm32mp15xx_disco_bus.c\<close>, built without registered callbacks:
  \<open>USE_HAL_I2C_REGISTER_CALLBACKS\<close> is 0).

  The I2C driver of the HAL with the peripheral, the wire and the devices on it is the parameter
  \<open>i2c_hal\<close>: functions on a state of any type that give the status and the bytes of every call. Nothing
  is assumed of them here.
\<close>

record i2c_init =
  Timing :: u32
  OwnAddress1 :: u32
  AddressingMode :: u32
  DualAddressMode :: u32
  OwnAddress2 :: u32
  OwnAddress2Masks :: u32
  GeneralCallMode :: u32
  NoStretchMode :: u32

record 'd i2c_hal =
  HAL_I2C_Init :: "i2c_init \<Rightarrow> 'd \<Rightarrow> HAL_StatusTypeDef \<times> 'd"
  HAL_I2C_DeInit :: "'d \<Rightarrow> HAL_StatusTypeDef \<times> 'd"
  HAL_I2C_is_reset :: "'d \<Rightarrow> bool"
  HAL_I2C_Mem_Write :: "u16 \<Rightarrow> u16 \<Rightarrow> u16 \<Rightarrow> u8 list \<Rightarrow> u32 \<Rightarrow> 'd \<Rightarrow> HAL_StatusTypeDef \<times> 'd"
  HAL_I2C_Mem_Read :: "u16 \<Rightarrow> u16 \<Rightarrow> u16 \<Rightarrow> nat \<Rightarrow> u32 \<Rightarrow> 'd \<Rightarrow> (HAL_StatusTypeDef \<times> (nat \<Rightarrow> u8)) \<times> 'd"
  HAL_I2C_IsDeviceReady :: "u16 \<Rightarrow> u32 \<Rightarrow> u32 \<Rightarrow> 'd \<Rightarrow> HAL_StatusTypeDef \<times> 'd"

text \<open>The board with its I2C4 controller: the controller's state, its clock and clock source. The reset
  pulse that the set-up gives to the peripheral leaves nothing behind in this state.\<close>

record 'd i2c_board = board +
  i2c_dev :: 'd
  i2c_clk :: bool
  i2c_clk_source_HSI :: bool

definition BSP_ERROR_NONE :: int where "BSP_ERROR_NONE = 0"
definition BSP_ERROR_BUSY :: int where "BSP_ERROR_BUSY = -3"
definition BSP_ERROR_PERIPH_FAILURE :: int where "BSP_ERROR_PERIPH_FAILURE = -4"
definition BSP_ERROR_BUS_FAILURE :: int where "BSP_ERROR_BUS_FAILURE = -8"

lemmas bsp_error_defs = BSP_ERROR_NONE_def BSP_ERROR_BUSY_def BSP_ERROR_PERIPH_FAILURE_def
  BSP_ERROR_BUS_FAILURE_def

definition STPMU1_I2C_ADDRESS :: u16 where "STPMU1_I2C_ADDRESS = push_bit 1 (0x33 AND 0x7F)"
definition I2C_MEMADD_SIZE_8BIT :: u16 where "I2C_MEMADD_SIZE_8BIT = 1"
definition I2C_MEMADD_SIZE_16BIT :: u16 where "I2C_MEMADD_SIZE_16BIT = 2"

section \<open>Register access\<close>

definition I2C4_WriteReg :: "'d i2c_hal \<Rightarrow> u16 \<Rightarrow> u16 \<Rightarrow> u16 \<Rightarrow> u8 list \<Rightarrow> 'd \<Rightarrow> int \<times> 'd" where
  "I2C4_WriteReg hal DevAddr Reg MemAddSize pData d =
     (case HAL_I2C_Mem_Write hal DevAddr Reg MemAddSize pData 10000 d of (st, d) \<Rightarrow>
        (if st = HAL_OK then BSP_ERROR_NONE else BSP_ERROR_BUS_FAILURE, d))"

definition I2C4_ReadReg :: "'d i2c_hal \<Rightarrow> u16 \<Rightarrow> u16 \<Rightarrow> u16 \<Rightarrow> nat \<Rightarrow> 'd \<Rightarrow> (int \<times> u8 list) \<times> 'd" where
  "I2C4_ReadReg hal DevAddr Reg MemAddSize Length d =
     (case HAL_I2C_Mem_Read hal DevAddr Reg MemAddSize Length 10000 d of ((st, bytes), d) \<Rightarrow>
        ((if st = HAL_OK then BSP_ERROR_NONE else BSP_ERROR_BUS_FAILURE, map bytes [0..<Length]), d))"

definition BSP_I2C4_WriteReg :: "'d i2c_hal \<Rightarrow> u16 \<Rightarrow> u16 \<Rightarrow> u8 list \<Rightarrow> 'd \<Rightarrow> int \<times> 'd" where
  "BSP_I2C4_WriteReg hal DevAddr Reg pData d = I2C4_WriteReg hal DevAddr Reg I2C_MEMADD_SIZE_8BIT pData d"

definition BSP_I2C4_ReadReg :: "'d i2c_hal \<Rightarrow> u16 \<Rightarrow> u16 \<Rightarrow> nat \<Rightarrow> 'd \<Rightarrow> (int \<times> u8 list) \<times> 'd" where
  "BSP_I2C4_ReadReg hal DevAddr Reg Length d = I2C4_ReadReg hal DevAddr Reg I2C_MEMADD_SIZE_8BIT Length d"

definition BSP_I2C4_WriteReg16 :: "'d i2c_hal \<Rightarrow> u16 \<Rightarrow> u16 \<Rightarrow> u8 list \<Rightarrow> 'd \<Rightarrow> int \<times> 'd" where
  "BSP_I2C4_WriteReg16 hal DevAddr Reg pData d = I2C4_WriteReg hal DevAddr Reg I2C_MEMADD_SIZE_16BIT pData d"

definition BSP_I2C4_ReadReg16 :: "'d i2c_hal \<Rightarrow> u16 \<Rightarrow> u16 \<Rightarrow> nat \<Rightarrow> 'd \<Rightarrow> (int \<times> u8 list) \<times> 'd" where
  "BSP_I2C4_ReadReg16 hal DevAddr Reg Length d = I2C4_ReadReg hal DevAddr Reg I2C_MEMADD_SIZE_16BIT Length d"

definition BSP_I2C4_IsReady :: "'d i2c_hal \<Rightarrow> u16 \<Rightarrow> u32 \<Rightarrow> 'd \<Rightarrow> int \<times> 'd" where
  "BSP_I2C4_IsReady hal DevAddr Trials d =
     (case HAL_I2C_IsDeviceReady hal DevAddr Trials 1000 d of (st, d) \<Rightarrow>
        (if st \<noteq> HAL_OK then BSP_ERROR_BUSY else BSP_ERROR_NONE, d))"

section \<open>Set-up and tear-down\<close>

definition MX_I2C4_Init :: "'d i2c_hal \<Rightarrow> 'd \<Rightarrow> HAL_StatusTypeDef \<times> 'd" where
  "MX_I2C4_Init hal d =
     HAL_I2C_Init hal \<lparr>Timing = 0x10805E89, OwnAddress1 = ucast STPMU1_I2C_ADDRESS, AddressingMode = 1,
       DualAddressMode = 0, OwnAddress2 = 0, OwnAddress2Masks = 0, GeneralCallMode = 0, NoStretchMode = 0\<rparr> d"

definition i2c4_pin_structure :: "u32 \<Rightarrow> GPIO_InitTypeDef" where
  "i2c4_pin_structure pin = \<lparr>Pin = pin, Mode = GPIO_MODE_AF_OD, Pull = GPIO_NOPULL,
     Speed = GPIO_SPEED_FREQ_HIGH, Alternate = 6\<rparr>"

definition I2C4_MspInit :: "(nat \<Rightarrow> lock_env) \<Rightarrow> 'd i2c_board \<Rightarrow> 'd i2c_board option" where
  "I2C4_MspInit le b =
     (let b = b\<lparr>b_clk := (b_clk b)(GPIOZ := True)\<rparr>
      in case guarded le GPIOZ (HAL_GPIO_Init GPIOZ (i2c4_pin_structure 0x10)) b of
           None \<Rightarrow> None
         | Some b \<Rightarrow>
        (case guarded le GPIOZ (HAL_GPIO_Init GPIOZ (i2c4_pin_structure 0x20)) b of
           None \<Rightarrow> None
         | Some b \<Rightarrow>
             (let b = b\<lparr>i2c_clk := True, i2c_clk_source_HSI := True\<rparr>;
                  b = HAL_NVIC_EnableIRQ 96 (HAL_NVIC_SetPriority 96 0 1 b);
                  b = HAL_NVIC_EnableIRQ 95 (HAL_NVIC_SetPriority 95 0 2 b)
              in Some b)))"

definition I2C4_MspDeInit :: "(nat \<Rightarrow> lock_env) \<Rightarrow> 'd i2c_board \<Rightarrow> 'd i2c_board option" where
  "I2C4_MspDeInit le b =
     (case guarded le GPIOZ (HAL_GPIO_DeInit GPIOZ (0x10 OR 0x20)) b of
        None \<Rightarrow> None
      | Some b \<Rightarrow>
          (let b = b\<lparr>b_clk := (b_clk b)(GPIOZ := False), i2c_clk := False\<rparr>
           in Some (HAL_NVIC_DisableIRQ 95 (HAL_NVIC_DisableIRQ 96 b))))"

definition BSP_I2C4_Init ::
    "'d i2c_hal \<Rightarrow> (nat \<Rightarrow> lock_env) \<Rightarrow> 'd i2c_board \<Rightarrow> (int \<times> 'd i2c_board) option" where
  "BSP_I2C4_Init hal le b =
     (if HAL_I2C_is_reset hal (i2c_dev b)
      then (case I2C4_MspInit le b of
              None \<Rightarrow> None
            | Some b \<Rightarrow>
                (case MX_I2C4_Init hal (i2c_dev b) of (st, d) \<Rightarrow>
                   Some (if st \<noteq> HAL_OK then BSP_ERROR_BUS_FAILURE else BSP_ERROR_NONE, b\<lparr>i2c_dev := d\<rparr>)))
      else Some (BSP_ERROR_NONE, b))"

definition BSP_I2C4_DeInit ::
    "'d i2c_hal \<Rightarrow> (nat \<Rightarrow> lock_env) \<Rightarrow> 'd i2c_board \<Rightarrow> (int \<times> 'd i2c_board) option" where
  "BSP_I2C4_DeInit hal le b =
     (case I2C4_MspDeInit le b of
        None \<Rightarrow> None
      | Some b \<Rightarrow>
          (case HAL_I2C_DeInit hal (i2c_dev b) of (st, d) \<Rightarrow>
             Some (if st \<noteq> HAL_OK then BSP_ERROR_PERIPH_FAILURE else BSP_ERROR_NONE, b\<lparr>i2c_dev := d\<rparr>)))"

end
