(* ===== verification/Pmic_Tables.thy ===== *)
theory Pmic_Tables
  imports Prelude
begin

text \<open>
  The constant data of the power management driver
  (\<^verbatim>\<open>CM4/Drivers/BSP/STM32MP15xx_DISCO/stm32mp15xx_disco_stpmic1.c\<close> and its header): register addresses of the
  STPMIC1 chip, the table of voltages of every regulator in millivolts, and the table of regulators.
\<close>

section \<open>Voltage tables\<close>

definition buck1_voltage_table :: "u16 list" where
  "buck1_voltage_table =
    [600, 625, 650, 675, 700, 725, 750, 775, 800, 825, 850, 875, 900, 925, 950, 975, 1000,
     1025, 1050, 1075, 1100, 1125, 1150, 1175, 1200, 1225, 1250, 1275, 1300, 1325, 1350,
     1350]"

definition buck2_voltage_table :: "u16 list" where
  "buck2_voltage_table =
    [1000, 1000, 1000, 1000, 1000, 1000, 1000, 1000, 1000, 1000, 1000, 1000, 1000, 1000,
     1000, 1000, 1000, 1000, 1050, 1050, 1100, 1100, 1150, 1150, 1200, 1200, 1250, 1250,
     1300, 1300, 1350, 1350, 1400, 1400, 1450, 1450, 1500]"

definition buck3_voltage_table :: "u16 list" where
  "buck3_voltage_table =
    [1000, 1000, 1000, 1000, 1000, 1000, 1000, 1000, 1000, 1000, 1000, 1000, 1000, 1000,
     1000, 1000, 1000, 1000, 1000, 1000, 1100, 1100, 1100, 1100, 1200, 1200, 1200, 1200,
     1300, 1300, 1300, 1300, 1400, 1400, 1400, 1400, 1500, 1600, 1700, 1800, 1900, 2000,
     2100, 2200, 2300, 2400, 2500, 2600, 2700, 2800, 2900, 3000, 3100, 3200, 3300, 3400]"

definition buck4_voltage_table :: "u16 list" where
  "buck4_voltage_table =
    [600, 625, 650, 675, 700, 725, 750, 775, 800, 825, 850, 875, 900, 925, 950, 975, 1000,
     1025, 1050, 1075, 1100, 1125, 1150, 1175, 1200, 1225, 1250, 1275, 1300, 1300, 1350,
     1350, 1400, 1400, 1450, 1450, 1500, 1600, 1700, 1800, 1900, 2000, 2100, 2200, 2300,
     2400, 2500, 2600, 2700, 2800, 2900, 3000, 3100, 3200, 3300, 3400, 3500, 3600, 3700,
     3800, 3900]"

definition ldo1_voltage_table :: "u16 list" where
  "ldo1_voltage_table =
    [1700, 1700, 1700, 1700, 1700, 1700, 1700, 1700, 1700, 1800, 1900, 2000, 2100, 2200,
     2300, 2400, 2500, 2600, 2700, 2800, 2900, 3000, 3100, 3200, 3300]"

definition ldo2_voltage_table :: "u16 list" where
  "ldo2_voltage_table =
    [1700, 1700, 1700, 1700, 1700, 1700, 1700, 1700, 1700, 1800, 1900, 2000, 2100, 2200,
     2300, 2400, 2500, 2600, 2700, 2800, 2900, 3000, 3100, 3200, 3300]"

definition ldo3_voltage_table :: "u16 list" where
  "ldo3_voltage_table =
    [1700, 1700, 1700, 1700, 1700, 1700, 1700, 1700, 1700, 1800, 1900, 2000, 2100, 2200,
     2300, 2400, 2500, 2600, 2700, 2800, 2900, 3000, 3100, 3200, 3300, 3300, 3300, 3300,
     3300, 3300, 3300, 0xFFFF]"

definition ldo5_voltage_table :: "u16 list" where
  "ldo5_voltage_table =
    [1700, 1700, 1700, 1700, 1700, 1700, 1700, 1700, 1700, 1800, 1900, 2000, 2100, 2200,
     2300, 2400, 2500, 2600, 2700, 2800, 2900, 3000, 3100, 3200, 3300, 3400, 3500, 3600,
     3700, 3800, 3900]"

definition ldo6_voltage_table :: "u16 list" where
  "ldo6_voltage_table =
    [900, 1000, 1100, 1200, 1300, 1400, 1500, 1600, 1700, 1800, 1900, 2000, 2100, 2200,
     2300, 2400, 2500, 2600, 2700, 2800, 2900, 3000, 3100, 3200, 3300]"

definition ldo4_voltage_table :: "u16 list" where
  "ldo4_voltage_table =
    [3300]"

definition vref_ddr_voltage_table :: "u16 list" where
  "vref_ddr_voltage_table =
    [3300]"

section \<open>Register addresses\<close>

definition VERSION_STATUS_REG :: u8 where "VERSION_STATUS_REG = 0x6"
definition MAIN_CONTROL_REG :: u8 where "MAIN_CONTROL_REG = 0x10"
definition BUCK_PULL_DOWN_REG :: u8 where "BUCK_PULL_DOWN_REG = 0x12"
definition LDO14_PULL_DOWN_REG :: u8 where "LDO14_PULL_DOWN_REG = 0x13"
definition LDO56_PULL_DOWN_REG :: u8 where "LDO56_PULL_DOWN_REG = 0x14"
definition VIN_CONTROL_REG :: u8 where "VIN_CONTROL_REG = 0x15"
definition MASK_RANK_BUCK_REG :: u8 where "MASK_RANK_BUCK_REG = 0x17"
definition MASK_RESET_BUCK_REG :: u8 where "MASK_RESET_BUCK_REG = 0x18"
definition MASK_RANK_LDO_REG :: u8 where "MASK_RANK_LDO_REG = 0x19"
definition MASK_RESET_LDO_REG :: u8 where "MASK_RESET_LDO_REG = 0x1A"
definition WATCHDOG_CONTROL_REG :: u8 where "WATCHDOG_CONTROL_REG = 0x1B"
definition BUCK_ICC_TURNOFF_REG :: u8 where "BUCK_ICC_TURNOFF_REG = 0x1D"
definition LDO_ICC_TURNOFF_REG :: u8 where "LDO_ICC_TURNOFF_REG = 0x1E"
definition BUCK1_CONTROL_REG :: u8 where "BUCK1_CONTROL_REG = 0x20"
definition BUCK2_CONTROL_REG :: u8 where "BUCK2_CONTROL_REG = 0x21"
definition BUCK3_CONTROL_REG :: u8 where "BUCK3_CONTROL_REG = 0x22"
definition BUCK4_CONTROL_REG :: u8 where "BUCK4_CONTROL_REG = 0x23"
definition VREF_DDR_CONTROL_REG :: u8 where "VREF_DDR_CONTROL_REG = 0x24"
definition LDO1_CONTROL_REG :: u8 where "LDO1_CONTROL_REG = 0x25"
definition LDO2_CONTROL_REG :: u8 where "LDO2_CONTROL_REG = 0x26"
definition LDO3_CONTROL_REG :: u8 where "LDO3_CONTROL_REG = 0x27"
definition LDO4_CONTROL_REG :: u8 where "LDO4_CONTROL_REG = 0x28"
definition LDO5_CONTROL_REG :: u8 where "LDO5_CONTROL_REG = 0x29"
definition LDO6_CONTROL_REG :: u8 where "LDO6_CONTROL_REG = 0x2A"
definition BUCK1_PWRCTRL_REG :: u8 where "BUCK1_PWRCTRL_REG = 0x30"
definition BUCK2_PWRCTRL_REG :: u8 where "BUCK2_PWRCTRL_REG = 0x31"
definition BUCK3_PWRCTRL_REG :: u8 where "BUCK3_PWRCTRL_REG = 0x32"
definition BUCK4_PWRCTRL_REG :: u8 where "BUCK4_PWRCTRL_REG = 0x33"
definition VREF_DDR_PWRCTRL_REG :: u8 where "VREF_DDR_PWRCTRL_REG = 0x34"
definition LDO1_PWRCTRL_REG :: u8 where "LDO1_PWRCTRL_REG = 0x35"
definition LDO2_PWRCTRL_REG :: u8 where "LDO2_PWRCTRL_REG = 0x36"
definition LDO3_PWRCTRL_REG :: u8 where "LDO3_PWRCTRL_REG = 0x37"
definition LDO4_PWRCTRL_REG :: u8 where "LDO4_PWRCTRL_REG = 0x38"
definition LDO5_PWRCTRL_REG :: u8 where "LDO5_PWRCTRL_REG = 0x39"
definition LDO6_PWRCTRL_REG :: u8 where "LDO6_PWRCTRL_REG = 0x3A"
definition USB_CONTROL_REG :: u8 where "USB_CONTROL_REG = 0x40"
definition ITLATCH1_REG :: u8 where "ITLATCH1_REG = 0x50"
definition ITCLEARLATCH1_REG :: u8 where "ITCLEARLATCH1_REG = 0x70"
definition ITMASK1_REG :: u8 where "ITMASK1_REG = 0x80"
definition ITSETMASK1_REG :: u8 where "ITSETMASK1_REG = 0x90"
definition ITCLEARMASK1_REG :: u8 where "ITCLEARMASK1_REG = 0xA0"

lemmas pmic_reg_defs =
  VERSION_STATUS_REG_def MAIN_CONTROL_REG_def BUCK_PULL_DOWN_REG_def LDO14_PULL_DOWN_REG_def
  LDO56_PULL_DOWN_REG_def VIN_CONTROL_REG_def MASK_RANK_BUCK_REG_def MASK_RESET_BUCK_REG_def
  MASK_RANK_LDO_REG_def MASK_RESET_LDO_REG_def WATCHDOG_CONTROL_REG_def BUCK_ICC_TURNOFF_REG_def
  LDO_ICC_TURNOFF_REG_def BUCK1_CONTROL_REG_def BUCK2_CONTROL_REG_def BUCK3_CONTROL_REG_def
  BUCK4_CONTROL_REG_def VREF_DDR_CONTROL_REG_def LDO1_CONTROL_REG_def LDO2_CONTROL_REG_def
  LDO3_CONTROL_REG_def LDO4_CONTROL_REG_def LDO5_CONTROL_REG_def LDO6_CONTROL_REG_def
  BUCK1_PWRCTRL_REG_def BUCK2_PWRCTRL_REG_def BUCK3_PWRCTRL_REG_def BUCK4_PWRCTRL_REG_def
  VREF_DDR_PWRCTRL_REG_def LDO1_PWRCTRL_REG_def LDO2_PWRCTRL_REG_def LDO3_PWRCTRL_REG_def
  LDO4_PWRCTRL_REG_def LDO5_PWRCTRL_REG_def LDO6_PWRCTRL_REG_def USB_CONTROL_REG_def
  ITLATCH1_REG_def ITCLEARLATCH1_REG_def ITMASK1_REG_def ITSETMASK1_REG_def ITCLEARMASK1_REG_def

section \<open>Regulators\<close>

datatype PMIC_RegulId_TypeDef = STPMU1_BUCK1 | STPMU1_BUCK2 | STPMU1_BUCK3 | STPMU1_BUCK4
  | STPMU1_LDO1 | STPMU1_LDO2 | STPMU1_LDO3 | STPMU1_LDO4 | STPMU1_LDO5 | STPMU1_LDO6 | STPMU1_VREFDDR

record regul_struct =
  regul_id :: PMIC_RegulId_TypeDef
  voltage_table :: "u16 list"
  voltage_table_size :: u8
  control_reg :: u8
  low_power_reg :: u8
  rank :: u8
  nvm_info :: u8

text \<open>The start-up ranks, read from the image of the chip's non-volatile memory.\<close>

definition NVM_SECTOR3_REGISTER_1 :: u8 where "NVM_SECTOR3_REGISTER_1 = 0x92"
definition NVM_SECTOR3_REGISTER_2 :: u8 where "NVM_SECTOR3_REGISTER_2 = 0xC0"
definition NVM_SECTOR3_REGISTER_3 :: u8 where "NVM_SECTOR3_REGISTER_3 = 0x02"

definition OTP_RANK_BUCK4 :: u8 where "OTP_RANK_BUCK4 = drop_bit 6 (NVM_SECTOR3_REGISTER_1 AND 0xC0)"
definition OTP_RANK_BUCK3 :: u8 where "OTP_RANK_BUCK3 = drop_bit 4 (NVM_SECTOR3_REGISTER_1 AND 0x30)"
definition OTP_RANK_BUCK2 :: u8 where "OTP_RANK_BUCK2 = drop_bit 2 (NVM_SECTOR3_REGISTER_1 AND 0x0C)"
definition OTP_RANK_BUCK1 :: u8 where "OTP_RANK_BUCK1 = NVM_SECTOR3_REGISTER_1 AND 0x03"
definition OTP_RANK_LDO4 :: u8 where "OTP_RANK_LDO4 = drop_bit 6 (NVM_SECTOR3_REGISTER_2 AND 0xC0)"
definition OTP_RANK_LDO3 :: u8 where "OTP_RANK_LDO3 = drop_bit 4 (NVM_SECTOR3_REGISTER_2 AND 0x30)"
definition OTP_RANK_LDO2 :: u8 where "OTP_RANK_LDO2 = drop_bit 2 (NVM_SECTOR3_REGISTER_2 AND 0x0C)"
definition OTP_RANK_LDO1 :: u8 where "OTP_RANK_LDO1 = NVM_SECTOR3_REGISTER_2 AND 0x03"
definition OTP_RANK_VREFDDR :: u8 where "OTP_RANK_VREFDDR = drop_bit 4 (NVM_SECTOR3_REGISTER_3 AND 0x30)"
definition OTP_RANK_LDO6 :: u8 where "OTP_RANK_LDO6 = drop_bit 2 (NVM_SECTOR3_REGISTER_3 AND 0x0C)"
definition OTP_RANK_LDO5 :: u8 where "OTP_RANK_LDO5 = NVM_SECTOR3_REGISTER_3 AND 0x03"

definition regulators_table :: "regul_struct list" where
  "regulators_table = [
     \<lparr>regul_id = STPMU1_BUCK1, voltage_table = buck1_voltage_table,
       voltage_table_size = of_nat (length buck1_voltage_table),
       control_reg = BUCK1_CONTROL_REG, low_power_reg = BUCK1_PWRCTRL_REG, rank = OTP_RANK_BUCK1, nvm_info = 0\<rparr>,
     \<lparr>regul_id = STPMU1_BUCK2, voltage_table = buck2_voltage_table,
       voltage_table_size = of_nat (length buck2_voltage_table),
       control_reg = BUCK2_CONTROL_REG, low_power_reg = BUCK2_PWRCTRL_REG, rank = OTP_RANK_BUCK2, nvm_info = 0\<rparr>,
     \<lparr>regul_id = STPMU1_BUCK3, voltage_table = buck3_voltage_table,
       voltage_table_size = of_nat (length buck3_voltage_table),
       control_reg = BUCK3_CONTROL_REG, low_power_reg = BUCK3_PWRCTRL_REG, rank = OTP_RANK_BUCK3, nvm_info = 0\<rparr>,
     \<lparr>regul_id = STPMU1_BUCK4, voltage_table = buck4_voltage_table,
       voltage_table_size = of_nat (length buck4_voltage_table),
       control_reg = BUCK4_CONTROL_REG, low_power_reg = BUCK4_PWRCTRL_REG, rank = OTP_RANK_BUCK4, nvm_info = 0\<rparr>,
     \<lparr>regul_id = STPMU1_LDO1, voltage_table = ldo1_voltage_table,
       voltage_table_size = of_nat (length ldo1_voltage_table),
       control_reg = LDO1_CONTROL_REG, low_power_reg = LDO1_PWRCTRL_REG, rank = OTP_RANK_LDO1, nvm_info = 0\<rparr>,
     \<lparr>regul_id = STPMU1_LDO2, voltage_table = ldo2_voltage_table,
       voltage_table_size = of_nat (length ldo2_voltage_table),
       control_reg = LDO2_CONTROL_REG, low_power_reg = LDO2_PWRCTRL_REG, rank = OTP_RANK_LDO2, nvm_info = 0\<rparr>,
     \<lparr>regul_id = STPMU1_LDO3, voltage_table = ldo3_voltage_table,
       voltage_table_size = of_nat (length ldo3_voltage_table),
       control_reg = LDO3_CONTROL_REG, low_power_reg = LDO3_PWRCTRL_REG, rank = OTP_RANK_LDO3, nvm_info = 0\<rparr>,
     \<lparr>regul_id = STPMU1_LDO4, voltage_table = ldo4_voltage_table,
       voltage_table_size = of_nat (length ldo4_voltage_table),
       control_reg = LDO4_CONTROL_REG, low_power_reg = LDO4_PWRCTRL_REG, rank = OTP_RANK_LDO4, nvm_info = 0\<rparr>,
     \<lparr>regul_id = STPMU1_LDO5, voltage_table = ldo5_voltage_table,
       voltage_table_size = of_nat (length ldo5_voltage_table),
       control_reg = LDO5_CONTROL_REG, low_power_reg = LDO5_PWRCTRL_REG, rank = OTP_RANK_LDO5, nvm_info = 0\<rparr>,
     \<lparr>regul_id = STPMU1_LDO6, voltage_table = ldo6_voltage_table,
       voltage_table_size = of_nat (length ldo6_voltage_table),
       control_reg = LDO6_CONTROL_REG, low_power_reg = LDO6_PWRCTRL_REG, rank = OTP_RANK_LDO6, nvm_info = 0\<rparr>,
     \<lparr>regul_id = STPMU1_VREFDDR, voltage_table = vref_ddr_voltage_table,
       voltage_table_size = of_nat (length vref_ddr_voltage_table),
       control_reg = VREF_DDR_CONTROL_REG, low_power_reg = VREF_DDR_PWRCTRL_REG, rank = OTP_RANK_VREFDDR, nvm_info = 0\<rparr>]"

lemmas voltage_table_defs =
  buck1_voltage_table_def buck2_voltage_table_def buck3_voltage_table_def
  buck4_voltage_table_def ldo1_voltage_table_def ldo2_voltage_table_def ldo3_voltage_table_def
  ldo5_voltage_table_def ldo6_voltage_table_def ldo4_voltage_table_def
  vref_ddr_voltage_table_def

lemmas otp_rank_defs = OTP_RANK_BUCK1_def OTP_RANK_BUCK2_def OTP_RANK_BUCK3_def OTP_RANK_BUCK4_def
  OTP_RANK_LDO1_def OTP_RANK_LDO2_def OTP_RANK_LDO3_def OTP_RANK_LDO4_def OTP_RANK_LDO5_def
  OTP_RANK_LDO6_def OTP_RANK_VREFDDR_def

end
