(* ===== verification/Pmic.thy ===== *)
theory Pmic
  imports I2c_Bus Pmic_Tables
begin

text \<open>
  The driver of the STPMIC1 power management chip
  (\<^verbatim>\<open>CM4/Drivers/BSP/STM32MP15xx_DISCO/stm32mp15xx_disco_stpmic1.c\<close>): register access with read-back,
  regulators, interrupts, and the configuration of the board's supplies.

  Every function works on the state of the I2C controller and the chip behind it (see \<open>I2c_Bus\<close>);
  \<open>None\<close> is \<open>My_Error_Handler\<close>, which blinks for ever. The interrupt handler returns the interrupt
  numbers it passes to the callback, in order.
\<close>

section \<open>Register access\<close>

definition STPMU1_Register_Read :: "'d i2c_hal \<Rightarrow> u8 \<Rightarrow> 'd \<Rightarrow> (u8 \<times> 'd) option" where
  "STPMU1_Register_Read hal register_id d =
     (case BSP_I2C4_ReadReg hal STPMU1_I2C_ADDRESS (ucast register_id) 1 d of ((status, Value), d) \<Rightarrow>
        if status \<noteq> BSP_ERROR_NONE then None else Some (Value ! 0, d))"

definition STPMU1_Register_Write :: "'d i2c_hal \<Rightarrow> u8 \<Rightarrow> u8 \<Rightarrow> 'd \<Rightarrow> 'd option" where
  "STPMU1_Register_Write hal register_id value d =
     (case BSP_I2C4_WriteReg hal STPMU1_I2C_ADDRESS (ucast register_id) [value] d of (status, d) \<Rightarrow>
        if status \<noteq> BSP_ERROR_NONE then None
        else if register_id \<noteq> WATCHDOG_CONTROL_REG \<and> register_id \<le> 0x40
        then (case STPMU1_Register_Read hal register_id d of
                None \<Rightarrow> None
              | Some (readval, d) \<Rightarrow> if readval \<noteq> value then None else Some d)
        else Some d)"

definition STPMU1_Register_Update :: "'d i2c_hal \<Rightarrow> u8 \<Rightarrow> u8 \<Rightarrow> u8 \<Rightarrow> 'd \<Rightarrow> 'd option" where
  "STPMU1_Register_Update hal register_id value mask' d =
     (case STPMU1_Register_Read hal register_id d of
        None \<Rightarrow> None
      | Some (initial_value, d) \<Rightarrow>
          (let initial_value = initial_value AND NOT mask';
               initial_value = initial_value OR (value AND mask')
           in STPMU1_Register_Write hal register_id initial_value d))"

section \<open>Regulators\<close>

text \<open>The loops over the tables; \<open>None\<close> when the loop runs out and calls the error handler.\<close>

definition STPMU1_Get_Regulator_Data :: "PMIC_RegulId_TypeDef \<Rightarrow> regul_struct option" where
  "STPMU1_Get_Regulator_Data rid = find (\<lambda>r. rid = regul_id r) regulators_table"

function find_index :: "u16 list \<Rightarrow> u16 \<Rightarrow> nat \<Rightarrow> nat \<Rightarrow> nat option" where
  "find_index table milivolts n i =
     (if i < n then if table ! i = milivolts then Some i else find_index table milivolts n (Suc i)
      else None)"
  by pat_completeness auto
termination by (relation "measure (\<lambda>(table, milivolts, n, i). n - i)") auto

declare find_index.simps [simp del]

definition STPMU1_Voltage_Find_Index :: "PMIC_RegulId_TypeDef \<Rightarrow> u16 \<Rightarrow> u8 option" where
  "STPMU1_Voltage_Find_Index rid milivolts =
     (case STPMU1_Get_Regulator_Data rid of
        None \<Rightarrow> None
      | Some regul \<Rightarrow>
          map_option of_nat (find_index (voltage_table regul) milivolts (unat (voltage_table_size regul)) 0))"

definition STPMU1_Regulator_Enable :: "'d i2c_hal \<Rightarrow> PMIC_RegulId_TypeDef \<Rightarrow> 'd \<Rightarrow> 'd option" where
  "STPMU1_Regulator_Enable hal rid d =
     (case STPMU1_Get_Regulator_Data rid of
        None \<Rightarrow> None
      | Some regul \<Rightarrow> STPMU1_Register_Update hal (control_reg regul) 1 1 d)"

definition STPMU1_Regulator_Disable :: "'d i2c_hal \<Rightarrow> PMIC_RegulId_TypeDef \<Rightarrow> 'd \<Rightarrow> 'd option" where
  "STPMU1_Regulator_Disable hal rid d =
     (case STPMU1_Get_Regulator_Data rid of
        None \<Rightarrow> None
      | Some regul \<Rightarrow> STPMU1_Register_Update hal (control_reg regul) 0 1 d)"

definition STPMU1_Is_Regulator_Enabled :: "'d i2c_hal \<Rightarrow> PMIC_RegulId_TypeDef \<Rightarrow> 'd \<Rightarrow> (u8 \<times> 'd) option" where
  "STPMU1_Is_Regulator_Enabled hal rid d =
     (case STPMU1_Get_Regulator_Data rid of
        None \<Rightarrow> None
      | Some regul \<Rightarrow>
          (case STPMU1_Register_Read hal (control_reg regul) d of
             None \<Rightarrow> None
           | Some (val, d) \<Rightarrow> Some (val AND 0x1, d)))"

definition STPMU1_Regulator_Voltage_Set ::
    "'d i2c_hal \<Rightarrow> PMIC_RegulId_TypeDef \<Rightarrow> u16 \<Rightarrow> 'd \<Rightarrow> 'd option" where
  "STPMU1_Regulator_Voltage_Set hal rid milivolts d =
     (case STPMU1_Voltage_Find_Index rid milivolts of
        None \<Rightarrow> None
      | Some voltage_index \<Rightarrow>
          (case STPMU1_Get_Regulator_Data rid of
             None \<Rightarrow> None
           | Some regul \<Rightarrow> STPMU1_Register_Update hal (control_reg regul) (push_bit 2 voltage_index) 0xFC d))"

definition STPMU1_Sw_Reset :: "'d i2c_hal \<Rightarrow> 'd \<Rightarrow> 'd option" where
  "STPMU1_Sw_Reset hal d = STPMU1_Register_Update hal MAIN_CONTROL_REG 1 1 d"

section \<open>Interrupts\<close>

definition IRQ_NR :: nat where "IRQ_NR = 32"
definition IT_PONKEY_R :: nat where "IT_PONKEY_R = 6"
definition IT_PONKEY_F :: nat where "IT_PONKEY_F = 7"
definition STM32_PMIC_NUM_IRQ_REGS :: nat where "STM32_PMIC_NUM_IRQ_REGS = 4"

definition STPMU1_Enable_Interrupt :: "'d i2c_hal \<Rightarrow> nat \<Rightarrow> 'd \<Rightarrow> 'd option" where
  "STPMU1_Enable_Interrupt hal IRQn d =
     (if IRQn \<ge> IRQ_NR then Some d
      else (let irq_reg = of_nat (IRQn div 8) :: u8; irq_reg_value = push_bit (7 - IRQn mod 8) (1 :: u8)
            in steps [STPMU1_Register_Write hal (ITCLEARLATCH1_REG + irq_reg) irq_reg_value,
                      STPMU1_Register_Write hal (ITCLEARMASK1_REG + irq_reg) irq_reg_value] d))"

definition STPMU1_Disable_Interrupt :: "'d i2c_hal \<Rightarrow> nat \<Rightarrow> 'd \<Rightarrow> 'd option" where
  "STPMU1_Disable_Interrupt hal IRQn d =
     (if IRQn \<ge> IRQ_NR then Some d
      else (let irq_reg = of_nat (IRQn div 8) :: u8; irq_reg_value = push_bit (7 - IRQn mod 8) (1 :: u8)
            in steps [STPMU1_Register_Write hal (ITCLEARLATCH1_REG + irq_reg) irq_reg_value,
                      STPMU1_Register_Write hal (ITSETMASK1_REG + irq_reg) irq_reg_value] d))"

text \<open>The events of one interrupt register, in the order of the inner loop.\<close>

definition irq_calls :: "nat \<Rightarrow> u8 \<Rightarrow> nat list" where
  "irq_calls irq_reg latch_events =
     map (\<lambda>i. irq_reg * 8 + (7 - i)) (filter (\<lambda>i. latch_events AND push_bit i 1 \<noteq> 0) [0..<8])"

definition irq_register :: "'d i2c_hal \<Rightarrow> nat \<Rightarrow> nat list \<times> 'd \<Rightarrow> (nat list \<times> 'd) option" where
  "irq_register hal irq_reg s =
     (case s of (calls, d) \<Rightarrow>
        (case STPMU1_Register_Read hal (ITMASK1_REG + of_nat irq_reg) d of
           None \<Rightarrow> None
         | Some (mask', d) \<Rightarrow>
        (case STPMU1_Register_Read hal (ITLATCH1_REG + of_nat irq_reg) d of
           None \<Rightarrow> None
         | Some (latch, d) \<Rightarrow>
             (let latch_events = latch AND NOT mask'
              in case STPMU1_Register_Write hal (ITCLEARLATCH1_REG + of_nat irq_reg) latch_events d of
                   None \<Rightarrow> None
                 | Some d \<Rightarrow> Some (calls @ irq_calls irq_reg latch_events, d)))))"

definition STPMU1_IrqHandler :: "'d i2c_hal \<Rightarrow> 'd \<Rightarrow> (nat list \<times> 'd) option" where
  "STPMU1_IrqHandler hal d = steps (map (irq_register hal) [0..<STM32_PMIC_NUM_IRQ_REGS]) ([], d)"

text \<open>What the default callback prints.\<close>

fun decimal :: "nat \<Rightarrow> string" where
  "decimal n = (if n < 10 then [char_of (48 + n)] else decimal (n div 10) @ [char_of (48 + n mod 10)])"

definition BSP_PMIC_INTn_Callback :: "nat \<Rightarrow> string" where
  "BSP_PMIC_INTn_Callback IRQn =
     (if IRQn = 7 then ''IT_PONKEY_F''
      else if IRQn = 6 then ''IT_PONKEY_R''
      else if IRQn = 5 then ''IT_WAKEUP_F''
      else if IRQn = 4 then ''IT_WAKEUP_R''
      else if IRQn = 3 then ''IT_VBUS_OTG_F''
      else if IRQn = 1 then ''IT_SWOUT_F''
      else if IRQn = 30 then ''IT_TWARN_R''
      else if IRQn = 31 then ''IT_TWARN_F''
      else decimal IRQn) @ '' Interrupt received'' @ [char_of (10 :: nat), char_of (13 :: nat)]"

definition BSP_PMIC_INTn_IRQHandler ::
    "'d i2c_hal \<Rightarrow> 'd i2c_board \<Rightarrow> (string \<times> 'd i2c_board) option" where
  "BSP_PMIC_INTn_IRQHandler hal b =
     (let b = b\<lparr>b_sys := snd (HAL_GPIO_EXTI_IRQHandler 0x0001 (b_sys b))\<rparr>
      in case STPMU1_IrqHandler hal (i2c_dev b) of
           None \<Rightarrow> None
         | Some (calls, d) \<Rightarrow> Some (concat (map BSP_PMIC_INTn_Callback calls), b\<lparr>i2c_dev := d\<rparr>))"

section \<open>Set-up of the driver\<close>

definition pmic_int_structure :: GPIO_InitTypeDef where
  "pmic_int_structure = \<lparr>Pin = 0x0001, Mode = GPIO_MODE_IT_FALLING, Pull = GPIO_PULLUP,
     Speed = GPIO_SPEED_FREQ_HIGH, Alternate = 0\<rparr>"

definition BSP_PMIC_MspInit ::
    "'d i2c_hal \<Rightarrow> (nat \<Rightarrow> lock_env) \<Rightarrow> 'd i2c_board \<Rightarrow> (int \<times> 'd i2c_board) option" where
  "BSP_PMIC_MspInit hal le b =
     (case BSP_I2C4_Init hal le b of
        None \<Rightarrow> None
      | Some (_, b) \<Rightarrow>
          (let b = b\<lparr>b_clk := (b_clk b)(GPIOA := True)\<rparr>
           in case guarded le GPIOA (HAL_GPIO_Init GPIOA pmic_int_structure) b of
                None \<Rightarrow> None
              | Some b \<Rightarrow> Some (BSP_ERROR_NONE, HAL_NVIC_EnableIRQ 6 (HAL_NVIC_SetPriority 6 3 0 b))))"

definition BSP_PMIC_MspDeInit ::
    "'d i2c_hal \<Rightarrow> (nat \<Rightarrow> lock_env) \<Rightarrow> 'd i2c_board \<Rightarrow> (int \<times> 'd i2c_board) option" where
  "BSP_PMIC_MspDeInit hal le b =
     (case BSP_I2C4_DeInit hal le b of
        None \<Rightarrow> None
      | Some (status, b) \<Rightarrow>
          (let b = b\<lparr>b_clk := (b_clk b)(GPIOA := False)\<rparr>;
               b = HAL_NVIC_DisableIRQ 6 b
           in case guarded le GPIOA (HAL_GPIO_DeInit GPIOA 0x0001) b of
                None \<Rightarrow> None
              | Some b \<Rightarrow> Some (status, b)))"

definition BSP_PMIC_Is_Device_Ready :: "'d i2c_hal \<Rightarrow> 'd \<Rightarrow> int \<times> 'd" where
  "BSP_PMIC_Is_Device_Ready hal d =
     (case BSP_I2C4_IsReady hal STPMU1_I2C_ADDRESS 1 d of (st, d) \<Rightarrow>
        (if st \<noteq> BSP_ERROR_NONE then BSP_ERROR_BUSY else BSP_ERROR_NONE, d))"

definition BSP_PMIC_Init ::
    "'d i2c_hal \<Rightarrow> (nat \<Rightarrow> lock_env) \<Rightarrow> 'd i2c_board \<Rightarrow> (int \<times> 'd i2c_board) option" where
  "BSP_PMIC_Init hal le b =
     (case BSP_PMIC_MspInit hal le b of
        None \<Rightarrow> None
      | Some (_, b) \<Rightarrow>
     (case BSP_PMIC_Is_Device_Ready hal (i2c_dev b) of (status, d) \<Rightarrow>
        if status \<noteq> BSP_ERROR_NONE then Some (status, b\<lparr>i2c_dev := d\<rparr>)
        else
     (case STPMU1_Register_Read hal VERSION_STATUS_REG d of
        None \<Rightarrow> None
      | Some (version, d) \<Rightarrow>
        if version \<noteq> 0x00 then Some (BSP_ERROR_BUS_FAILURE, b\<lparr>i2c_dev := d\<rparr>)
        else
     (case steps ([STPMU1_Enable_Interrupt hal IT_PONKEY_R, STPMU1_Enable_Interrupt hal IT_PONKEY_F] @
                  map (STPMU1_Enable_Interrupt hal) [0..<IRQ_NR]) d of
        None \<Rightarrow> None
      | Some d \<Rightarrow> Some (BSP_ERROR_NONE, b\<lparr>i2c_dev := d\<rparr>)))))"

definition BSP_PMIC_DeInit ::
    "'d i2c_hal \<Rightarrow> (nat \<Rightarrow> lock_env) \<Rightarrow> 'd i2c_board \<Rightarrow> (int \<times> 'd i2c_board) option" where
  "BSP_PMIC_DeInit hal le b =
     (if HAL_I2C_is_reset hal (i2c_dev b) then Some (BSP_ERROR_NONE, b)
      else (case BSP_PMIC_MspDeInit hal le b of
              None \<Rightarrow> None
            | Some (_, b) \<Rightarrow> Some (BSP_ERROR_NONE, b)))"

section \<open>Configuration of the supplies\<close>



definition BSP_PMIC_SwitchOff :: "'d i2c_hal \<Rightarrow> 'd \<Rightarrow> (int \<times> 'd) option" where
  "BSP_PMIC_SwitchOff hal d =
     (case STPMU1_Register_Write hal MAIN_CONTROL_REG 0x01 d of
        None \<Rightarrow> None
      | Some d \<Rightarrow> Some (BSP_ERROR_NONE, d))"

section \<open>The chip\<close>

text \<open>
  What the data sheet of the STPMIC1 says of its registers, as far as the driver relies on it: the
  control registers hold what was written; an event sets a bit of a latch register; a one written
  to a clear-latch, set-mask or clear-mask register clears a latch bit, sets or clears a mask bit.
  \<open>c_events\<close> is not a register: it lists the events that have occurred so far, in their order.
\<close>

record pmic_chip =
  c_regs :: "u8 \<Rightarrow> u8"
  c_latch :: "u8 \<Rightarrow> u8"
  c_mask :: "u8 \<Rightarrow> u8"
  c_events :: "nat list"

text \<open>Event \<open>n\<close> of the chip: latched, and masked.\<close>

definition latched :: "pmic_chip \<Rightarrow> nat \<Rightarrow> bool" where
  "latched c n \<longleftrightarrow> bit (c_latch c (of_nat (n div 8))) (7 - n mod 8)"

definition masked :: "pmic_chip \<Rightarrow> nat \<Rightarrow> bool" where
  "masked c n \<longleftrightarrow> bit (c_mask c (of_nat (n div 8))) (7 - n mod 8)"

definition chip_read :: "u8 \<Rightarrow> pmic_chip \<Rightarrow> u8" where
  "chip_read a c =
     (if a \<in> {0x50, 0x51, 0x52, 0x53} then c_latch c (a - 0x50)
      else if a \<in> {0x80, 0x81, 0x82, 0x83} then c_mask c (a - 0x80)
      else c_regs c a)"

definition chip_write :: "u8 \<Rightarrow> u8 \<Rightarrow> pmic_chip \<Rightarrow> pmic_chip" where
  "chip_write a v c =
     (if a \<in> {0x70, 0x71, 0x72, 0x73}
      then c\<lparr>c_latch := (c_latch c)(a - 0x70 := c_latch c (a - 0x70) AND NOT v)\<rparr>
      else if a \<in> {0x90, 0x91, 0x92, 0x93}
      then c\<lparr>c_mask := (c_mask c)(a - 0x90 := c_mask c (a - 0x90) OR v)\<rparr>
      else if a \<in> {0xA0, 0xA1, 0xA2, 0xA3}
      then c\<lparr>c_mask := (c_mask c)(a - 0xA0 := c_mask c (a - 0xA0) AND NOT v)\<rparr>
      else c\<lparr>c_regs := (c_regs c)(a := v)\<rparr>)"

text \<open>
  Between two accesses nothing changes by itself, except that events may occur: exactly the latch
  bits of the events that occurred are set.
\<close>

definition arrive :: "nat set \<Rightarrow> pmic_chip \<Rightarrow> pmic_chip \<Rightarrow> bool" where
  "arrive A c c' \<longleftrightarrow> c_regs c' = c_regs c \<and> c_mask c' = c_mask c \<and>
     (\<forall>n < 32. latched c' n \<longleftrightarrow> latched c n \<or> n \<in> A)"

definition evolves :: "pmic_chip \<Rightarrow> pmic_chip \<Rightarrow> bool" where
  "evolves c c' \<longleftrightarrow> (\<exists>new. c_events c' = c_events c @ new \<and> arrive (set new) c c')"

text \<open>
  The hypothesis of the theorems below: the I2C driver reaches, at the chip's address, a chip that
  follows the data sheet; \<open>view\<close> reads the chip's registers off the state of the bus.
\<close>

definition pmic_conforms_by ::
    "(pmic_chip \<Rightarrow> pmic_chip \<Rightarrow> bool) \<Rightarrow> 'd i2c_hal \<Rightarrow> ('d \<Rightarrow> pmic_chip) \<Rightarrow> bool" where
  "pmic_conforms_by R hal view \<longleftrightarrow>
     (\<forall>d a. \<exists>bytes d'. HAL_I2C_Mem_Read hal STPMU1_I2C_ADDRESS (ucast (a :: u8)) 1 1 10000 d =
         ((HAL_OK, bytes), d') \<and> bytes 0 = chip_read a (view d) \<and> R (view d) (view d')) \<and>
     (\<forall>d a v. \<exists>d'. HAL_I2C_Mem_Write hal STPMU1_I2C_ADDRESS (ucast (a :: u8)) 1 [v] 10000 d =
         (HAL_OK, d') \<and> R (chip_write a v (view d)) (view d'))"

definition pmic_conforms :: "'d i2c_hal \<Rightarrow> ('d \<Rightarrow> pmic_chip) \<Rightarrow> bool" where
  "pmic_conforms hal view \<longleftrightarrow> pmic_conforms_by evolves hal view"

text \<open>The same chip while no event occurs.\<close>

definition pmic_quiet :: "'d i2c_hal \<Rightarrow> ('d \<Rightarrow> pmic_chip) \<Rightarrow> bool" where
  "pmic_quiet hal view \<longleftrightarrow> pmic_conforms_by (=) hal view"

lemma evolves_refl [simp]: "evolves c c"
  by (simp add: evolves_def arrive_def)

lemma arrive_trans: "arrive A a b \<Longrightarrow> arrive B b c \<Longrightarrow> arrive (A \<union> B) a c"
  by (auto simp: arrive_def)

lemma evolves_trans: "evolves a b \<Longrightarrow> evolves b c \<Longrightarrow> evolves a c"
  unfolding evolves_def
proof (elim exE conjE)
  fix n1 n2
  assume "c_events b = c_events a @ n1" "arrive (set n1) a b" "c_events c = c_events b @ n2"
    "arrive (set n2) b c"
  then show "\<exists>new. c_events c = c_events a @ new \<and> arrive (set new) a c"
    by (intro exI[of _ "n1 @ n2"]) (simp add: arrive_trans)
qed

lemma evolves_same: "evolves a b \<Longrightarrow> c_regs b = c_regs a \<and> c_mask b = c_mask a"
  by (auto simp: evolves_def arrive_def)

definition chip_order :: "(pmic_chip \<Rightarrow> pmic_chip \<Rightarrow> bool) \<Rightarrow> bool" where
  "chip_order R \<longleftrightarrow> (\<forall>a b c. R a b \<longrightarrow> R b c \<longrightarrow> R a c) \<and>
     (\<forall>a b. R a b \<longrightarrow> c_regs b = c_regs a \<and> c_mask b = c_mask a)"

lemma chip_orders [simp]: "chip_order evolves" "chip_order (=)"
proof -
  show "chip_order evolves"
    unfolding chip_order_def by (intro conjI allI impI; (erule (1) evolves_trans | simp add: evolves_same))
  show "chip_order (=)" by (simp add: chip_order_def)
qed

lemma Register_Read_by:
  assumes "pmic_conforms_by R hal view"
  shows "\<exists>d'. STPMU1_Register_Read hal a d = Some (chip_read a (view d), d') \<and> R (view d) (view d')"
proof -
  obtain bytes d' where "HAL_I2C_Mem_Read hal STPMU1_I2C_ADDRESS (ucast a) 1 1 10000 d = ((HAL_OK, bytes), d')"
      "bytes 0 = chip_read a (view d)" "R (view d) (view d')"
    using assms unfolding pmic_conforms_by_def by blast
  then show ?thesis
    by (simp add: STPMU1_Register_Read_def BSP_I2C4_ReadReg_def I2C4_ReadReg_def I2C_MEMADD_SIZE_8BIT_def)
qed

lemma ctrl_address:
  assumes "(a :: u8) \<le> 0x40"
  shows "a \<notin> {0x50, 0x51, 0x52, 0x53}" "a \<notin> {0x80, 0x81, 0x82, 0x83}" "a \<notin> {0x70, 0x71, 0x72, 0x73}"
    "a \<notin> {0x90, 0x91, 0x92, 0x93}" "a \<notin> {0xA0, 0xA1, 0xA2, 0xA3}"
  using assms by (auto simp: word_le_nat_alt)

text \<open>A write reaches the chip, and the read-back of a control register finds what was written.\<close>

lemma Register_Write_by:
  assumes "pmic_conforms_by R hal view" "chip_order R"
  shows "\<exists>d'. STPMU1_Register_Write hal a v d = Some d' \<and> R (chip_write a v (view d)) (view d')"
proof -
  obtain d1 where d1: "HAL_I2C_Mem_Write hal STPMU1_I2C_ADDRESS (ucast a) 1 [v] 10000 d = (HAL_OK, d1)"
      "R (chip_write a v (view d)) (view d1)"
    using assms unfolding pmic_conforms_by_def by blast
  obtain d2 where d2: "STPMU1_Register_Read hal a d1 = Some (chip_read a (view d1), d2)" "R (view d1) (view d2)"
    using Register_Read_by[OF assms(1)] by blast
  have w: "BSP_I2C4_WriteReg hal STPMU1_I2C_ADDRESS (ucast a) [v] d = (BSP_ERROR_NONE, d1)"
    using d1(1) by (simp add: BSP_I2C4_WriteReg_def I2C4_WriteReg_def I2C_MEMADD_SIZE_8BIT_def)
  show ?thesis
  proof (cases "a \<le> 0x40")
    case True
    have "c_regs (view d1) = c_regs (chip_write a v (view d))" "R (chip_write a v (view d)) (view d2)"
      using assms(2) d1(2) d2(2) unfolding chip_order_def by blast+
    moreover from this have "chip_read a (view d1) = v"
      using ctrl_address[OF True] by (simp add: chip_read_def chip_write_def)
    ultimately show ?thesis using w d2 d1(2) by (auto simp: STPMU1_Register_Write_def)
  next
    case False
    then show ?thesis using w d1(2) by (auto simp: STPMU1_Register_Write_def)
  qed
qed

lemma Register_Read_ok:
  assumes "pmic_conforms hal view"
  shows "\<exists>d'. STPMU1_Register_Read hal a d = Some (chip_read a (view d), d') \<and> evolves (view d) (view d')"
  using assms unfolding pmic_conforms_def by (rule Register_Read_by)

lemma Register_Write_ok:
  assumes "pmic_conforms hal view"
  shows "\<exists>d'. STPMU1_Register_Write hal a v d = Some d' \<and> evolves (chip_write a v (view d)) (view d')"
  using assms unfolding pmic_conforms_def
  by (rule Register_Write_by) simp

section \<open>Steps on control registers\<close>

text \<open>
  \<open>runs view f g\<close>: on a conforming chip the step \<open>f\<close> comes back and acts on the control registers as \<open>g\<close>
  does, touching no interrupt mask.
\<close>

definition runs :: "('d \<Rightarrow> pmic_chip) \<Rightarrow> ('d \<Rightarrow> 'd option) \<Rightarrow> ((u8 \<Rightarrow> u8) \<Rightarrow> (u8 \<Rightarrow> u8)) \<Rightarrow> bool" where
  "runs view f g \<longleftrightarrow> (\<forall>d. \<exists>d'. f d = Some d' \<and> c_regs (view d') = g (c_regs (view d)) \<and>
     c_mask (view d') = c_mask (view d))"


definition ctrl_reg :: "u8 \<Rightarrow> bool" where "ctrl_reg a \<longleftrightarrow> a \<le> 0x40"

lemma ctrl_not_irq:
  assumes "ctrl_reg a"
  shows "chip_read a c = c_regs c a" "chip_write a v c = c\<lparr>c_regs := (c_regs c)(a := v)\<rparr>"
  using ctrl_address[of a] assms by (auto simp: ctrl_reg_def chip_read_def chip_write_def)

definition put_reg :: "u8 \<Rightarrow> u8 \<Rightarrow> (u8 \<Rightarrow> u8) \<Rightarrow> (u8 \<Rightarrow> u8)" where
  "put_reg a v r = r(a := v)"

definition mod_reg :: "u8 \<Rightarrow> u8 \<Rightarrow> u8 \<Rightarrow> (u8 \<Rightarrow> u8) \<Rightarrow> (u8 \<Rightarrow> u8)" where
  "mod_reg a v m r = r(a := (r a AND NOT m) OR (v AND m))"

lemma runs_write:
  assumes "pmic_conforms hal view" "ctrl_reg a"
  shows "runs view (STPMU1_Register_Write hal a v) (put_reg a v)"
  unfolding runs_def put_reg_def
proof
  fix d
  show "\<exists>d'. STPMU1_Register_Write hal a v d = Some d' \<and> c_regs (view d') = (c_regs (view d))(a := v) \<and>
      c_mask (view d') = c_mask (view d)"
    using Register_Write_ok[OF assms(1), of a v d] ctrl_not_irq(2)[OF assms(2), of v "view d"]
    by (auto dest: evolves_same)
qed

lemma runs_update:
  assumes "pmic_conforms hal view" "ctrl_reg a"
  shows "runs view (STPMU1_Register_Update hal a v m) (mod_reg a v m)"
  unfolding runs_def
proof
  fix d
  obtain d1 where d1: "STPMU1_Register_Read hal a d = Some (c_regs (view d) a, d1)" "evolves (view d) (view d1)"
    using Register_Read_ok[OF assms(1), of a d] ctrl_not_irq(1)[OF assms(2)] by auto
  let ?v = "(c_regs (view d) a AND NOT m) OR (v AND m)"
  obtain d2 where d2: "STPMU1_Register_Write hal a ?v d1 = Some d2"
      "c_regs (view d2) = (c_regs (view d1))(a := ?v)" "c_mask (view d2) = c_mask (view d1)"
    using runs_write[OF assms, of ?v] unfolding runs_def put_reg_def by blast
  show "\<exists>d'. STPMU1_Register_Update hal a v m d = Some d' \<and>
      c_regs (view d') = mod_reg a v m (c_regs (view d)) \<and> c_mask (view d') = c_mask (view d)"
    using d1 d2 evolves_same[OF d1(2)] by (simp add: STPMU1_Register_Update_def mod_reg_def)
qed

section \<open>The regulator table\<close>

definition regul_of :: "PMIC_RegulId_TypeDef \<Rightarrow> regul_struct" where
  "regul_of rid = the (STPMU1_Get_Regulator_Data rid)"

lemma Get_Regulator_Data_some: "STPMU1_Get_Regulator_Data rid = Some (regul_of rid)"
  by (cases rid) (simp_all add: STPMU1_Get_Regulator_Data_def regul_of_def regulators_table_def)

lemma regul_control_reg:
  "control_reg (regul_of rid) =
     (case rid of STPMU1_BUCK1 \<Rightarrow> 0x20 | STPMU1_BUCK2 \<Rightarrow> 0x21 | STPMU1_BUCK3 \<Rightarrow> 0x22 | STPMU1_BUCK4 \<Rightarrow> 0x23
      | STPMU1_LDO1 \<Rightarrow> 0x25 | STPMU1_LDO2 \<Rightarrow> 0x26 | STPMU1_LDO3 \<Rightarrow> 0x27 | STPMU1_LDO4 \<Rightarrow> 0x28
      | STPMU1_LDO5 \<Rightarrow> 0x29 | STPMU1_LDO6 \<Rightarrow> 0x2A | STPMU1_VREFDDR \<Rightarrow> 0x24)"
  by (cases rid)
    (simp_all add: STPMU1_Get_Regulator_Data_def regul_of_def regulators_table_def pmic_reg_defs)

lemma regul_ctrl: "ctrl_reg (control_reg (regul_of rid))"
  by (cases rid) (simp_all add: regul_control_reg ctrl_reg_def)

lemma regul_table_size:
  "unat (voltage_table_size (regul_of rid)) = length (voltage_table (regul_of rid)) \<and>
   length (voltage_table (regul_of rid)) \<le> 64"
  by (cases rid)
    (simp_all add: STPMU1_Get_Regulator_Data_def regul_of_def regulators_table_def voltage_table_defs)

lemma find_index_find: "find_index t mv n i = find (\<lambda>j. t ! j = mv) [i..<n]"
  by (induction t mv n i rule: find_index.induct)
    (subst find_index.simps, simp add: upt_conv_Cons)

lemma Voltage_Find_Index_Some:
  assumes "STPMU1_Voltage_Find_Index rid mv = Some k"
  shows "unat k < 64" "unat k < length (voltage_table (regul_of rid))"
    "voltage_table (regul_of rid) ! unat k = mv"
    "\<And>j. j < unat k \<Longrightarrow> voltage_table (regul_of rid) ! j \<noteq> mv"
proof -
  let ?t = "voltage_table (regul_of rid)"
  obtain i where i: "find (\<lambda>j. ?t ! j = mv) [0..<length ?t] = Some i" "k = of_nat i"
    using assms regul_table_size[of rid]
    by (auto simp: STPMU1_Voltage_Find_Index_def Get_Regulator_Data_some find_index_find)
  then have f: "i < length ?t" "?t ! i = mv" "\<And>j. j < i \<Longrightarrow> ?t ! j \<noteq> mv"
    by (auto simp: find_Some_iff)
  have "i < 64" using f(1) regul_table_size[of rid] by linarith
  then have "unat k = i" using i(2) by (simp add: unat_of_nat)
  then show "unat k < 64" "unat k < length ?t" "?t ! unat k = mv" "\<And>j. j < unat k \<Longrightarrow> ?t ! j \<noteq> mv"
    using f \<open>i < 64\<close> by simp_all
qed

lemma Voltage_Find_Index_None:
  "STPMU1_Voltage_Find_Index rid mv = None \<longleftrightarrow> mv \<notin> set (voltage_table (regul_of rid))"
  using regul_table_size[of rid]
  by (auto simp: STPMU1_Voltage_Find_Index_def Get_Regulator_Data_some find_index_find find_None_iff
      in_set_conv_nth)

text \<open>The fields of a control register: bit 0 enables, bits 2 to 7 select the voltage.\<close>

lemma bit_FC: "bit (0xFC :: u8) n \<longleftrightarrow> 2 \<le> n \<and> n < 8"
proof -
  have "(0xFC :: u8) = push_bit 2 (mask 6)" by (simp add: mask_numeral push_bit_eq_mult)
  then show ?thesis by (simp only: bit_push_bit_iff bit_mask_iff) auto
qed

lemma bit_small_u8: "unat (k :: u8) < 2 ^ m \<Longrightarrow> bit k n \<Longrightarrow> n < m"
proof -
  assume "unat k < 2 ^ m" "bit k n"
  then have "take_bit m (unat k) = unat k" "bit (unat k) n"
    by (simp_all add: take_bit_nat_eq_self bit_unsigned_iff)
  then show ?thesis by (metis bit_take_bit_iff)
qed

lemma voltage_field:
  fixes k old :: u8
  assumes "unat k < 64"
  defines "w \<equiv> (old AND NOT 0xFC) OR (push_bit 2 k AND 0xFC)"
  shows "drop_bit 2 w = k" "w AND 3 = old AND 3"
proof -
  have k: "bit k n \<Longrightarrow> n < 6" for n using bit_small_u8[of k 6 n] assms(1) by simp
  have w: "bit w n \<longleftrightarrow> n < 8 \<and> (if n < 2 then bit old n else bit k (n - 2))" for n
    unfolding w_def bit_and_iff bit_or_iff bit_not_iff bit_push_bit_iff bit_FC
    by (auto dest: bit_u8_less)
  show "drop_bit 2 w = k"
    by (rule bit_word_eqI) (auto simp: bit_drop_bit_eq w dest: k)
  show "w AND 3 = old AND 3"
    by (rule bit_word_eqI) (auto simp: bit_and_iff w bit_simps mask_simps)
qed

section \<open>Regulators: correctness\<close>

lemma runs_voltage:
  assumes "pmic_conforms hal view" "STPMU1_Voltage_Find_Index rid mv = Some k"
  shows "runs view (STPMU1_Regulator_Voltage_Set hal rid mv)
    (mod_reg (control_reg (regul_of rid)) (push_bit 2 k) 0xFC)"
proof -
  have "STPMU1_Regulator_Voltage_Set hal rid mv =
      STPMU1_Register_Update hal (control_reg (regul_of rid)) (push_bit 2 k) 0xFC"
    by (rule ext) (simp add: STPMU1_Regulator_Voltage_Set_def assms(2) Get_Regulator_Data_some)
  then show ?thesis using runs_update[OF assms(1) regul_ctrl] by simp
qed

lemma runs_enable:
  assumes "pmic_conforms hal view"
  shows "runs view (STPMU1_Regulator_Enable hal rid) (mod_reg (control_reg (regul_of rid)) 1 1)"
    and "runs view (STPMU1_Regulator_Disable hal rid) (mod_reg (control_reg (regul_of rid)) 0 1)"
proof -
  have "STPMU1_Regulator_Enable hal rid = STPMU1_Register_Update hal (control_reg (regul_of rid)) 1 1"
    "STPMU1_Regulator_Disable hal rid = STPMU1_Register_Update hal (control_reg (regul_of rid)) 0 1"
    by (auto simp: STPMU1_Regulator_Enable_def STPMU1_Regulator_Disable_def Get_Regulator_Data_some)
  then show "runs view (STPMU1_Regulator_Enable hal rid) (mod_reg (control_reg (regul_of rid)) 1 1)"
    and "runs view (STPMU1_Regulator_Disable hal rid) (mod_reg (control_reg (regul_of rid)) 0 1)"
    using runs_update[OF assms regul_ctrl] by simp_all
qed

text \<open>
  Setting a voltage that is in the regulator's table comes back on a conforming chip, selects
  a table entry with exactly this voltage, and keeps the enable bits of the regulator and every other
  register. For a voltage that is not in the table the call never returns.
\<close>

theorem voltage_set_programs:
  assumes "pmic_conforms hal view"
  shows "if mv \<in> set (voltage_table (regul_of rid))
    then \<exists>d'. STPMU1_Regulator_Voltage_Set hal rid mv d = Some d' \<and>
      (let a = control_reg (regul_of rid); r = c_regs (view d); r' = c_regs (view d') in
        voltage_table (regul_of rid) ! unat (drop_bit 2 (r' a)) = mv \<and> r' a AND 3 = r a AND 3 \<and>
        r' = r(a := r' a) \<and> c_mask (view d') = c_mask (view d))
    else STPMU1_Regulator_Voltage_Set hal rid mv d = None"
proof (cases "STPMU1_Voltage_Find_Index rid mv")
  case None
  then show ?thesis
    using Voltage_Find_Index_None[of rid mv] by (simp add: STPMU1_Regulator_Voltage_Set_def)
next
  case (Some k)
  note k = Voltage_Find_Index_Some[OF Some]
  obtain d' where "STPMU1_Regulator_Voltage_Set hal rid mv d = Some d'"
      "c_regs (view d') = mod_reg (control_reg (regul_of rid)) (push_bit 2 k) 0xFC (c_regs (view d))"
      "c_mask (view d') = c_mask (view d)"
    using runs_voltage[OF assms Some] unfolding runs_def by blast
  moreover have "mv \<in> set (voltage_table (regul_of rid))" using k(2,3) by (metis nth_mem)
  ultimately show ?thesis using voltage_field[OF k(1)] k(3) by (simp add: Let_def mod_reg_def)
qed

definition same_but_enable :: "PMIC_RegulId_TypeDef \<Rightarrow> pmic_chip \<Rightarrow> pmic_chip \<Rightarrow> bool" where
  "same_but_enable rid c c' \<longleftrightarrow>
     (let a = control_reg (regul_of rid) in
       drop_bit 1 (c_regs c' a) = drop_bit 1 (c_regs c a) \<and> c_regs c' = (c_regs c)(a := c_regs c' a) \<and>
       c_mask c' = c_mask c)"

lemma enable_field:
  fixes x v :: u8
  shows "((x AND NOT 1) OR (v AND 1)) AND 1 = v AND 1" "drop_bit 1 ((x AND NOT 1) OR (v AND 1)) = drop_bit 1 x"
  by (rule bit_word_eqI;
      simp only: bit_and_iff bit_or_iff bit_not_iff bit_drop_bit_eq comp_apply bit_1_iff; auto dest: bit_u8_less)+

lemma Is_Regulator_Enabled_after:
  assumes "pmic_conforms hal view" "runs view f (mod_reg (control_reg (regul_of rid)) v 1)"
  shows "\<exists>d1 d2. f d = Some d1 \<and> STPMU1_Is_Regulator_Enabled hal rid d1 = Some (v AND 1, d2) \<and>
    same_but_enable rid (view d) (view d1)"
proof -
  let ?a = "control_reg (regul_of rid)"
  obtain d1 where d1: "f d = Some d1" "c_regs (view d1) = mod_reg ?a v 1 (c_regs (view d))"
      "c_mask (view d1) = c_mask (view d)"
    using assms(2) unfolding runs_def by blast
  obtain d2 where d2: "STPMU1_Register_Read hal ?a d1 = Some (c_regs (view d1) ?a, d2)"
    using Register_Read_ok[OF assms(1), of ?a d1] ctrl_not_irq(1)[OF regul_ctrl[of rid]] by auto
  have "STPMU1_Is_Regulator_Enabled hal rid d1 = Some (c_regs (view d1) ?a AND 1, d2)"
    by (simp add: STPMU1_Is_Regulator_Enabled_def Get_Regulator_Data_some d2)
  then show ?thesis
    using d1 enable_field[of "c_regs (view d) ?a" v]
    by (intro exI[of _ d1] exI[of _ d2]) (simp add: same_but_enable_def Let_def mod_reg_def)
qed

text \<open>
  On a conforming chip a regulator that was enabled reads back as enabled and one that was
  disabled as disabled, and neither operation changes the selected voltage or another register.
\<close>

theorem regulator_switching:
  assumes "pmic_conforms hal view"
  shows "(\<exists>d1 d2. STPMU1_Regulator_Enable hal rid d = Some d1 \<and>
      STPMU1_Is_Regulator_Enabled hal rid d1 = Some (1, d2) \<and> same_but_enable rid (view d) (view d1)) \<and>
    (\<exists>d1 d2. STPMU1_Regulator_Disable hal rid d = Some d1 \<and>
      STPMU1_Is_Regulator_Enabled hal rid d1 = Some (0, d2) \<and> same_but_enable rid (view d) (view d1))"
  using Is_Regulator_Enabled_after[OF assms runs_enable(1)[OF assms], of rid d]
    Is_Regulator_Enabled_after[OF assms runs_enable(2)[OF assms], of rid d]
  by simp

text \<open>A bus that reaches the chip of the data sheet directly shows that the hypothesis can hold.\<close>

definition ideal_hal :: "pmic_chip i2c_hal" where
  "ideal_hal =
     \<lparr>HAL_I2C_Init = (\<lambda>_ d. (HAL_OK, d)), HAL_I2C_DeInit = (\<lambda>d. (HAL_OK, d)), HAL_I2C_is_reset = (\<lambda>_. False),
      HAL_I2C_Mem_Write = (\<lambda>_ reg _ data _ d. (HAL_OK, chip_write (ucast reg) (hd data) d)),
      HAL_I2C_Mem_Read = (\<lambda>_ reg _ _ _ d. ((HAL_OK, \<lambda>_. chip_read (ucast reg) d), d)),
      HAL_I2C_IsDeviceReady = (\<lambda>_ _ _ d. (HAL_OK, d))\<rparr>"

lemma ucast_u8_u16 [simp]: "(ucast (ucast (a :: u8) :: u16) :: u8) = a"
  by (rule bit_word_eqI) (auto simp: bit_simps dest: bit_u8_less)

lemma ideal_quiet: "pmic_quiet ideal_hal (\<lambda>d. d)"
  by (simp add: pmic_quiet_def pmic_conforms_by_def ideal_hal_def)

lemma ideal_conforms: "pmic_conforms ideal_hal (\<lambda>d. d)"
  by (simp add: pmic_conforms_def pmic_conforms_by_def ideal_hal_def)

definition blank_chip :: pmic_chip where
  "blank_chip = \<lparr>c_regs = (\<lambda>_. 0), c_latch = (\<lambda>_. 0), c_mask = (\<lambda>_. 0xFF), c_events = []\<rparr>"

theorem voltage_set_programs_witness:
  "\<exists>d'. STPMU1_Regulator_Voltage_Set ideal_hal STPMU1_BUCK3 1800 blank_chip = Some d' \<and>
     buck3_voltage_table ! unat (drop_bit 2 (c_regs d' 0x22)) = 1800"
proof -
  have t: "voltage_table (regul_of STPMU1_BUCK3) = buck3_voltage_table"
    by (simp add: regul_of_def STPMU1_Get_Regulator_Data_def regulators_table_def)
  have "(1800 :: u16) \<in> set buck3_voltage_table" by (simp add: buck3_voltage_table_def)
  then show ?thesis
    using voltage_set_programs[OF ideal_conforms, of 1800 STPMU1_BUCK3 blank_chip]
    by (auto simp: t Let_def regul_control_reg)
qed

theorem regulator_switching_witness:
  "\<exists>d1 d2. STPMU1_Regulator_Enable ideal_hal STPMU1_LDO4 blank_chip = Some d1 \<and>
     STPMU1_Is_Regulator_Enabled ideal_hal STPMU1_LDO4 d1 = Some (1, d2)"
  using regulator_switching[OF ideal_conforms, of STPMU1_LDO4 blank_chip] by blast

section \<open>Configuration of the supplies: correctness\<close>
















section \<open>Interrupts: correctness\<close>

lemma less_4_cases: "(r::nat) < 4 \<Longrightarrow> r = 0 \<or> r = 1 \<or> r = 2 \<or> r = 3"
  by linarith

lemma irq_addresses:
  assumes "r < 4"
  shows "chip_read (ITMASK1_REG + of_nat r) c = c_mask c (of_nat r)"
    "chip_read (ITLATCH1_REG + of_nat r) c = c_latch c (of_nat r)"
    "chip_write (ITCLEARLATCH1_REG + of_nat r) v c =
       c\<lparr>c_latch := (c_latch c)(of_nat r := c_latch c (of_nat r) AND NOT v)\<rparr>"
    "chip_write (ITSETMASK1_REG + of_nat r) v c =
       c\<lparr>c_mask := (c_mask c)(of_nat r := c_mask c (of_nat r) OR v)\<rparr>"
    "chip_write (ITCLEARMASK1_REG + of_nat r) v c =
       c\<lparr>c_mask := (c_mask c)(of_nat r := c_mask c (of_nat r) AND NOT v)\<rparr>"
  using less_4_cases[OF assms]
  by (elim disjE; simp add: chip_read_def chip_write_def pmic_reg_defs)+

lemma of_nat_u8_eq: "a < 256 \<Longrightarrow> b < 256 \<Longrightarrow> (of_nat a :: u8) = of_nat b \<longleftrightarrow> a = b"
  by (simp add: word_unat_eq_iff unat_of_nat)

lemma masked_bit_u8: "(w :: u8) AND push_bit i 1 \<noteq> 0 \<longleftrightarrow> i < 8 \<and> bit w i"
proof
  assume "w AND push_bit i 1 \<noteq> 0"
  then show "i < 8 \<and> bit w i" by (auto simp: bit_eq_iff[of _ 0] bit_simps)
next
  assume a: "i < 8 \<and> bit w i"
  then have "bit (w AND push_bit i 1) i" by (simp add: bit_simps)
  then show "w AND push_bit i 1 \<noteq> 0" by (metis bit_0_eq bot_apply bot_bool_def)
qed

lemma set_irq_calls: "n \<in> set (irq_calls r ev) \<longleftrightarrow> n div 8 = r \<and> bit ev (7 - n mod 8)"
proof
  assume "n \<in> set (irq_calls r ev)"
  then obtain i where i: "i < 8" "bit ev i" "n = r * 8 + (7 - i)"
    unfolding irq_calls_def masked_bit_u8 by auto
  have "(r * 8 + k) mod 8 = k" "(r * 8 + k) div 8 = r" if "k < 8" for k using that by simp_all
  from this[of "7 - i"] show "n div 8 = r \<and> bit ev (7 - n mod 8)" using i by (simp del: diff_diff_left)
next
  assume a: "n div 8 = r \<and> bit ev (7 - n mod 8)"
  have "n = r * 8 + (7 - (7 - n mod 8))" using a by auto
  then show "n \<in> set (irq_calls r ev)"
    unfolding irq_calls_def masked_bit_u8 set_map set_filter
    by (rule image_eqI) (use a in auto)
qed

lemma distinct_irq_calls: "distinct (irq_calls r ev)"
  by (auto simp: irq_calls_def distinct_map inj_on_def)


lemma irq_register_by:
  assumes c: "pmic_conforms_by R hal view" and "r < 4" and "chip_order R"
  obtains c1 c2 d' ev where "R (view d) c1" "R c1 c2"
    "ev = c_latch c1 (of_nat r) AND NOT (c_mask (view d) (of_nat r))"
    "R (c2\<lparr>c_latch := (c_latch c2)(of_nat r := c_latch c2 (of_nat r) AND NOT ev)\<rparr>) (view d')"
    "irq_register hal r (calls, d) = Some (calls @ irq_calls r ev, d')"
proof -
  note a = irq_addresses[OF assms(2)]
  obtain d1 where d1: "STPMU1_Register_Read hal (ITMASK1_REG + of_nat r) d = Some (c_mask (view d) (of_nat r), d1)"
      "R (view d) (view d1)"
    using Register_Read_by[OF c] a(1) by metis
  obtain d2 where d2: "STPMU1_Register_Read hal (ITLATCH1_REG + of_nat r) d1 = Some (c_latch (view d1) (of_nat r), d2)"
      "R (view d1) (view d2)"
    using Register_Read_by[OF c] a(2) by metis
  let ?ev = "c_latch (view d1) (of_nat r) AND NOT (c_mask (view d) (of_nat r))"
  obtain d3 where d3: "STPMU1_Register_Write hal (ITCLEARLATCH1_REG + of_nat r) ?ev d2 = Some d3"
      "R (chip_write (ITCLEARLATCH1_REG + of_nat r) ?ev (view d2)) (view d3)"
    using Register_Write_by[OF c assms(3)] by blast
  have "irq_register hal r (calls, d) = Some (calls @ irq_calls r ?ev, d3)"
    using d1(1) d2(1) d3(1) by (simp add: irq_register_def)
  with that[OF d1(2) d2(2)] d3(2) show ?thesis by (simp add: a(3))
qed

text \<open>What holds after the first \<open>m\<close> registers, when the events \<open>A\<close> occurred meanwhile.\<close>

definition irq_inv :: "pmic_chip \<Rightarrow> nat \<Rightarrow> nat set \<Rightarrow> nat list \<Rightarrow> pmic_chip \<Rightarrow> bool" where
  "irq_inv c m A calls c' \<longleftrightarrow> distinct calls \<and> c_regs c' = c_regs c \<and> c_mask c' = c_mask c \<and>
     (\<forall>n \<in> set calls. n < 8 * m \<and> \<not> masked c n \<and> (latched c n \<or> n \<in> A)) \<and>
     (\<forall>n < 32. latched c n \<or> n \<in> A \<longrightarrow> latched c' n \<or> n \<in> set calls) \<and>
     (\<forall>n < 32. latched c' n \<longrightarrow> n \<in> A \<or> latched c n \<and> n \<notin> set calls) \<and>
     (\<forall>n < 8 * m. latched c n \<and> \<not> masked c n \<longrightarrow> n \<in> set calls)"

lemma latched_cleared:
  assumes "r < 4" and "n < 32"
  shows "latched (c\<lparr>c_latch := (c_latch c)(of_nat r := c_latch c (of_nat r) AND NOT ev)\<rparr>) n \<longleftrightarrow>
    latched c n \<and> n \<notin> set (irq_calls r ev)"
proof -
  have "n div 8 < 256" "r < 256" using assms by auto
  then have "(of_nat (n div 8) :: u8) = of_nat r \<longleftrightarrow> n div 8 = r" by (rule of_nat_u8_eq)
  moreover have "7 - n mod 8 < 8" by simp
  ultimately show ?thesis
    by (auto simp: latched_def set_irq_calls bit_and_iff bit_not_iff)
qed

lemma irq_inv_step:
  assumes inv: "irq_inv c r A calls c0" and "r < 4" and e: "arrive A1 c0 c1" "arrive A2 c1 c2"
    and ev: "ev = c_latch c1 (of_nat r) AND NOT (c_mask c0 (of_nat r))"
    and w: "arrive A3 (c2\<lparr>c_latch := (c_latch c2)(of_nat r := c_latch c2 (of_nat r) AND NOT ev)\<rparr>) c'"
  shows "irq_inv c (Suc r) (A \<union> A1 \<union> A2 \<union> A3) (calls @ irq_calls r ev) c'"
proof -
  let ?new = "set (irq_calls r ev)"
  have mask: "c_mask c0 = c_mask c" using inv by (simp add: irq_inv_def)
  have r8: "n div 8 = r \<longleftrightarrow> 8 * r \<le> n \<and> n < 8 * Suc r" for n by auto
  have new: "n \<in> ?new \<longleftrightarrow> n div 8 = r \<and> latched c1 n \<and> \<not> masked c n" for n
    by (auto simp: set_irq_calls ev latched_def masked_def mask bit_and_iff bit_not_iff)
  have l1: "latched c1 n \<longleftrightarrow> latched c0 n \<or> n \<in> A1" if "n < 32" for n
    using e(1) that by (simp add: arrive_def)
  have l': "latched c' n \<longleftrightarrow> (latched c0 n \<or> n \<in> A1 \<or> n \<in> A2) \<and> n \<notin> ?new \<or> n \<in> A3"
    if "n < 32" for n
    using e w that latched_cleared[OF assms(2) that, of c2 ev] l1 by (auto simp: arrive_def)
  have old: "\<And>n. n \<in> set calls \<Longrightarrow> n < 8 * r \<and> \<not> masked c n \<and> (latched c n \<or> n \<in> A)" "distinct calls"
      "\<And>n. n < 32 \<Longrightarrow> latched c n \<or> n \<in> A \<Longrightarrow> latched c0 n \<or> n \<in> set calls"
      "\<And>n. n < 32 \<Longrightarrow> latched c0 n \<Longrightarrow> n \<in> A \<or> latched c n \<and> n \<notin> set calls"
      "\<And>n. n < 8 * r \<Longrightarrow> latched c n \<Longrightarrow> \<not> masked c n \<Longrightarrow> n \<in> set calls"
    using inv by (auto simp: irq_inv_def)
  have lt: "n < 32" if "n < 8 * Suc r" for n using that assms(2) by simp
  have newlt: "n < 32" if "n \<in> ?new" for n using new[of n] r8[of n] lt[of n] that by blast
  have "\<forall>n \<in> set (calls @ irq_calls r ev). n < 8 * Suc r \<and> \<not> masked c n \<and>
      (latched c n \<or> n \<in> A \<union> A1 \<union> A2 \<union> A3)"
  proof
    fix n
    assume "n \<in> set (calls @ irq_calls r ev)"
    then consider "n \<in> set calls" | "n \<in> ?new" by auto
    then show "n < 8 * Suc r \<and> \<not> masked c n \<and> (latched c n \<or> n \<in> A \<union> A1 \<union> A2 \<union> A3)"
    proof cases
      case 1
      with old(1)[OF this] show ?thesis by auto
    next
      case 2
      with new[of n] r8[of n] l1[OF newlt[OF 2]] old(4)[OF newlt[OF 2]] show ?thesis by blast
    qed
  qed
  moreover have "\<forall>n < 32. latched c n \<or> n \<in> A \<union> A1 \<union> A2 \<union> A3 \<longrightarrow>
      latched c' n \<or> n \<in> set (calls @ irq_calls r ev)"
    using old(3) l' by auto
  moreover have "\<forall>n < 32. latched c' n \<longrightarrow>
      n \<in> A \<union> A1 \<union> A2 \<union> A3 \<or> latched c n \<and> n \<notin> set (calls @ irq_calls r ev)"
    using old(4) l' by auto
  moreover have "\<forall>n < 8 * Suc r. latched c n \<and> \<not> masked c n \<longrightarrow> n \<in> set (calls @ irq_calls r ev)"
    using old(3,5) new r8 l1 lt by (metis Un_iff not_less set_append)
  moreover have "distinct (calls @ irq_calls r ev)"
    using old(1,2) new r8 by (fastforce simp: distinct_irq_calls)
  moreover have "c_regs c' = c_regs c" "c_mask c' = c_mask c"
    using inv e w by (simp_all add: irq_inv_def arrive_def)
  ultimately show ?thesis unfolding irq_inv_def by blast
qed

lemma irq_loop:
  assumes "pmic_conforms hal view" and "m \<le> 4"
  shows "\<exists>calls d' new. steps (map (irq_register hal) [0..<m]) ([], d) = Some (calls, d') \<and>
    c_events (view d') = c_events (view d) @ new \<and> irq_inv (view d) m (set new) calls (view d')"
  using assms(2)
proof (induction m)
  case 0
  then show ?case by (simp add: irq_inv_def)
next
  case (Suc m)
  then obtain calls d0 new where d0: "steps (map (irq_register hal) [0..<m]) ([], d) = Some (calls, d0)"
      "c_events (view d0) = c_events (view d) @ new" "irq_inv (view d) m (set new) calls (view d0)" by auto
  have "m < 4" using Suc.prems by simp
  obtain c1 c2 d' ev where s: "evolves (view d0) c1" "evolves c1 c2"
      "ev = c_latch c1 (of_nat m) AND NOT (c_mask (view d0) (of_nat m))"
      "evolves (c2\<lparr>c_latch := (c_latch c2)(of_nat m := c_latch c2 (of_nat m) AND NOT ev)\<rparr>) (view d')"
      "irq_register hal m (calls, d0) = Some (calls @ irq_calls m ev, d')"
    by (rule irq_register_by[OF assms(1)[unfolded pmic_conforms_def] \<open>m < 4\<close> chip_orders(1)])
  obtain n1 where n1: "c_events c1 = c_events (view d0) @ n1" "arrive (set n1) (view d0) c1"
    using s(1) unfolding evolves_def by blast
  obtain n2 where n2: "c_events c2 = c_events c1 @ n2" "arrive (set n2) c1 c2"
    using s(2) unfolding evolves_def by blast
  obtain n3 where n3: "c_events (view d') = c_events c2 @ n3"
      "arrive (set n3) (c2\<lparr>c_latch := (c_latch c2)(of_nat m := c_latch c2 (of_nat m) AND NOT ev)\<rparr>) (view d')"
    using s(4) unfolding evolves_def by auto
  have "irq_inv (view d) (Suc m) (set (new @ n1 @ n2 @ n3)) (calls @ irq_calls m ev) (view d')"
    using irq_inv_step[OF d0(3) \<open>m < 4\<close> n1(2) n2(2) s(3) n3(2)] by (simp add: Un_assoc)
  moreover have "c_events (view d') = c_events (view d) @ (new @ n1 @ n2 @ n3)"
    by (simp add: n1(1) n2(1) n3(1) d0(2))
  moreover have "steps (map (irq_register hal) [0..<Suc m]) ([], d) = Some (calls @ irq_calls m ev, d')"
    using d0(1) s(5) by (simp add: steps_upto_Suc del: upt_Suc)
  ultimately show ?case by blast
qed

text \<open>
  C19: on a conforming chip the interrupt handler comes back, and no event is lost, whatever events
  occur while it runs. Every event that was latched at its start or occurs before it ends (\<open>new\<close>)
  is reported or is latched at the end, so an event that arrives between the reading of a latch and
  its clearing stays pending; every unmasked event that was latched at the start is reported. The
  handler reports no event twice, none that is masked and none that did not occur, it clears the
  events it reports (one is latched at the end only if it occurred again) and no others, and it
  leaves the control registers and the masks alone.
\<close>

theorem irq_handler_no_loss:
  assumes "pmic_conforms hal view"
  shows "\<exists>calls d' new. STPMU1_IrqHandler hal d = Some (calls, d') \<and>
    c_events (view d') = c_events (view d) @ new \<and> distinct calls \<and>
    c_regs (view d') = c_regs (view d) \<and> c_mask (view d') = c_mask (view d) \<and>
    (\<forall>n \<in> set calls. n < 32 \<and> \<not> masked (view d) n \<and> (latched (view d) n \<or> n \<in> set new)) \<and>
    (\<forall>n < 32. latched (view d) n \<and> \<not> masked (view d) n \<longrightarrow> n \<in> set calls) \<and>
    (\<forall>n < 32. latched (view d) n \<or> n \<in> set new \<longrightarrow> latched (view d') n \<or> n \<in> set calls) \<and>
    (\<forall>n < 32. latched (view d') n \<longrightarrow> n \<in> set new \<or> latched (view d) n \<and> n \<notin> set calls)"
  using irq_loop[OF assms, of 4 d]
  by (simp add: STPMU1_IrqHandler_def STM32_PMIC_NUM_IRQ_REGS_def irq_inv_def) blast

definition ponkey_chip :: pmic_chip where
  "ponkey_chip = blank_chip\<lparr>c_latch := (\<lambda>_. 0)(0 := 0x03), c_mask := (\<lambda>_. 0)(0 := 0x01)\<rparr>"

text \<open>
  A bus on which event 4 occurs right after the first latch register was read, when events 6 and 7
  are latched and event 7 is masked.
\<close>

definition busy_hal :: "pmic_chip i2c_hal" where
  "busy_hal = ideal_hal\<lparr>HAL_I2C_Mem_Read := (\<lambda>_ reg _ _ _ d.
     ((HAL_OK, \<lambda>_. chip_read (ucast reg) d),
      if reg = 0x50 then d\<lparr>c_latch := (c_latch d)(0 := set_bit 3 (c_latch d 0)), c_events := c_events d @ [4]\<rparr>
      else d))\<rparr>"

lemma busy_conforms: "pmic_conforms busy_hal (\<lambda>d. d)"
proof -
  have four: "n = 4 \<longleftrightarrow> n div 8 = 0 \<and> 7 - n mod 8 = 3" for n :: nat
    by (cases "n < 8") (auto simp: div_eq_0_iff)
  have lat: "latched (d\<lparr>c_latch := (c_latch d)(0 := set_bit 3 (c_latch d 0)), c_events := es\<rparr>) n \<longleftrightarrow>
      latched d n \<or> n = 4" if "n < 32" for d es n
  proof -
    have "(of_nat (n div 8) :: u8) = 0 \<longleftrightarrow> n div 8 = 0"
      using of_nat_u8_eq[of "n div 8" 0] that by simp
    then show ?thesis unfolding four latched_def by (auto simp: bit_set_bit_iff possible_bit_def simp del: div_eq_0_iff)
  qed
  show ?thesis
    by (simp add: pmic_conforms_def pmic_conforms_by_def busy_hal_def ideal_hal_def evolves_def
        arrive_def lat)
qed

theorem irq_handler_no_loss_witness:
  "pmic_conforms busy_hal (\<lambda>d. d) \<and>
   (\<exists>calls d'. STPMU1_IrqHandler busy_hal ponkey_chip = Some (calls, d') \<and> IT_PONKEY_R \<in> set calls \<and>
     IT_PONKEY_F \<notin> set calls \<and> latched d' IT_PONKEY_F)"
proof -
  have m: "latched ponkey_chip 6" "latched ponkey_chip 7" "\<not> masked ponkey_chip 6" "masked ponkey_chip 7"
    by (simp_all add: latched_def masked_def ponkey_chip_def)
  obtain calls d' where "STPMU1_IrqHandler busy_hal ponkey_chip = Some (calls, d')"
      "\<forall>n \<in> set calls. n < 32 \<and> \<not> masked ponkey_chip n"
      "\<forall>n < 32. latched ponkey_chip n \<and> \<not> masked ponkey_chip n \<longrightarrow> n \<in> set calls"
      "\<forall>n < 32. latched ponkey_chip n \<longrightarrow> latched d' n \<or> n \<in> set calls"
    using irq_handler_no_loss[OF busy_conforms, of ponkey_chip] by blast
  moreover have "(6 :: nat) < 32" "(7 :: nat) < 32" by simp_all
  ultimately show ?thesis using m busy_conforms unfolding IT_PONKEY_R_def IT_PONKEY_F_def by blast
qed

lemma irq_quiet_loop:
  assumes "pmic_quiet hal view" and "m \<le> 4"
  shows "\<exists>calls d'. steps (map (irq_register hal) [0..<m]) ([], d) = Some (calls, d') \<and>
    c_mask (view d') = c_mask (view d) \<and>
    set calls = {n. n < 8 * m \<and> latched (view d) n \<and> \<not> masked (view d) n} \<and>
    (\<forall>n < 32. latched (view d') n \<longleftrightarrow> latched (view d) n \<and> (n < 8 * m \<longrightarrow> masked (view d) n))"
  using assms(2)
proof (induction m)
  case 0
  then show ?case by simp
next
  case (Suc m)
  then obtain calls d0 where d0: "steps (map (irq_register hal) [0..<m]) ([], d) = Some (calls, d0)"
      "c_mask (view d0) = c_mask (view d)"
      "set calls = {n. n < 8 * m \<and> latched (view d) n \<and> \<not> masked (view d) n}"
      "\<And>n. n < 32 \<Longrightarrow> latched (view d0) n \<longleftrightarrow> latched (view d) n \<and> (n < 8 * m \<longrightarrow> masked (view d) n)"
    by auto
  have m4: "m < 4" using Suc.prems by simp
  define ev where "ev = c_latch (view d0) (of_nat m) AND NOT (c_mask (view d0) (of_nat m))"
  obtain d' where d': "view d' = (view d0)\<lparr>c_latch := (c_latch (view d0))(of_nat m :=
        c_latch (view d0) (of_nat m) AND NOT ev)\<rparr>"
      "irq_register hal m (calls, d0) = Some (calls @ irq_calls m ev, d')"
    by (rule irq_register_by[OF assms(1)[unfolded pmic_quiet_def] m4 chip_orders(2), of d0 calls])
      (simp add: ev_def)
  have r8: "n div 8 = m \<longleftrightarrow> \<not> n < 8 * m \<and> n < 8 * Suc m" for n by auto
  have evn: "bit ev (7 - n mod 8) \<longleftrightarrow> latched (view d0) n \<and> \<not> masked (view d) n" if "n div 8 = m" for n
  proof -
    have "7 - n mod 8 < 8" by simp
    then show ?thesis
      using that by (simp add: ev_def latched_def masked_def d0(2) bit_and_iff bit_not_iff)
  qed
  have lat: "latched (view d') n \<longleftrightarrow> latched (view d0) n \<and> \<not> (n div 8 = m \<and> \<not> masked (view d) n)"
    if "n < 32" for n
  proof -
    have "n div 8 < 256" "m < 256" using that m4 by auto
    then have idx: "(of_nat (n div 8) :: u8) = of_nat m \<longleftrightarrow> n div 8 = m" by (rule of_nat_u8_eq)
    show ?thesis
      using idx evn[of n] by (auto simp: d'(1) latched_def bit_and_iff bit_not_iff)
  qed
  have "set (calls @ irq_calls m ev) = {n. n < 8 * Suc m \<and> latched (view d) n \<and> \<not> masked (view d) n}"
  proof (rule set_eqI)
    fix n
    have "n \<in> set (calls @ irq_calls m ev) \<longleftrightarrow>
        (n < 8 * m \<and> latched (view d) n \<and> \<not> masked (view d) n) \<or>
        (n div 8 = m \<and> latched (view d0) n \<and> \<not> masked (view d) n)"
      using evn[of n] by (auto simp: set_irq_calls d0(3))
    also have "\<dots> \<longleftrightarrow> n < 8 * Suc m \<and> latched (view d) n \<and> \<not> masked (view d) n"
      using r8[of n] d0(4)[of n] m4 by auto
    finally show "n \<in> set (calls @ irq_calls m ev) \<longleftrightarrow>
        n \<in> {n. n < 8 * Suc m \<and> latched (view d) n \<and> \<not> masked (view d) n}" by simp
  qed
  moreover have "latched (view d') n \<longleftrightarrow> latched (view d) n \<and> (n < 8 * Suc m \<longrightarrow> masked (view d) n)"
    if "n < 32" for n
    using lat[OF that] d0(4)[OF that] r8[of n] by auto
  moreover have "c_mask (view d') = c_mask (view d)" by (simp add: d'(1) d0(2))
  ultimately show ?case using d0(1) d'(2) by (simp add: steps_upto_Suc del: upt_Suc)
qed

text \<open>
  While no further event occurs, the interrupt handler reports exactly the latched unmasked
  events, each once, and leaves exactly the masked ones latched.
\<close>

theorem irq_handler_exact:
  assumes "pmic_quiet hal view"
  shows "\<exists>calls d'. STPMU1_IrqHandler hal d = Some (calls, d') \<and>
    set calls = {n. n < 32 \<and> latched (view d) n \<and> \<not> masked (view d) n} \<and>
    (\<forall>n < 32. latched (view d') n \<longleftrightarrow> latched (view d) n \<and> masked (view d) n)"
  using irq_quiet_loop[OF assms, of 4 d]
  by (simp add: STPMU1_IrqHandler_def STM32_PMIC_NUM_IRQ_REGS_def) blast

theorem irq_handler_exact_witness:
  "\<exists>calls d'. STPMU1_IrqHandler ideal_hal ponkey_chip = Some (calls, d') \<and> IT_PONKEY_R \<in> set calls \<and>
     \<not> latched d' IT_PONKEY_R"
proof -
  have "latched ponkey_chip 6" "\<not> masked ponkey_chip 6"
    by (simp_all add: latched_def masked_def ponkey_chip_def)
  moreover obtain calls d' where "STPMU1_IrqHandler ideal_hal ponkey_chip = Some (calls, d')"
      "set calls = {n. n < 32 \<and> latched ponkey_chip n \<and> \<not> masked ponkey_chip n}"
      "\<forall>n < 32. latched d' n \<longleftrightarrow> latched ponkey_chip n \<and> masked ponkey_chip n"
    using irq_handler_exact[OF ideal_quiet, of ponkey_chip] by blast
  moreover have "(6 :: nat) < 32" by simp
  ultimately show ?thesis unfolding IT_PONKEY_R_def by blast
qed

section \<open>Set-up: correctness\<close>

lemma event_bit: "7 - n mod 8 = 7 - k mod 8 \<longleftrightarrow> n mod 8 = k mod (8 :: nat)"
proof -
  have "n mod 8 < 8" "k mod 8 < 8" by simp_all
  then show ?thesis by linarith
qed

lemma Enable_Interrupt_ok:
  assumes "pmic_conforms hal view" and "n < 32"
  shows "\<exists>d'. STPMU1_Enable_Interrupt hal n d = Some d' \<and> c_regs (view d') = c_regs (view d) \<and>
    (\<forall>k < 32. masked (view d') k \<longleftrightarrow> masked (view d) k \<and> k \<noteq> n)"
proof -
  have r: "n div 8 < 4" using assms(2) by auto
  let ?v = "push_bit (7 - n mod 8) (1 :: u8)"
  obtain d1 where d1: "STPMU1_Register_Write hal (ITCLEARLATCH1_REG + of_nat (n div 8)) ?v d = Some d1"
      "c_regs (view d1) = c_regs (view d)" "c_mask (view d1) = c_mask (view d)"
    using Register_Write_ok[OF assms(1), of "ITCLEARLATCH1_REG + of_nat (n div 8)" ?v d]
    by (auto simp: irq_addresses[OF r] dest: evolves_same)
  obtain d2 where d2: "STPMU1_Register_Write hal (ITCLEARMASK1_REG + of_nat (n div 8)) ?v d1 = Some d2"
      "c_regs (view d2) = c_regs (view d1)"
      "c_mask (view d2) = (c_mask (view d1))(of_nat (n div 8) := c_mask (view d1) (of_nat (n div 8)) AND NOT ?v)"
    using Register_Write_ok[OF assms(1), of "ITCLEARMASK1_REG + of_nat (n div 8)" ?v d1]
    by (auto simp: irq_addresses[OF r] dest: evolves_same)
  have "masked (view d2) k \<longleftrightarrow> masked (view d) k \<and> k \<noteq> n" if "k < 32" for k
  proof -
    have "k div 8 < 256" "n div 8 < 256" using that assms(2) by auto
    then have idx: "(of_nat (k div 8) :: u8) = of_nat (n div 8) \<longleftrightarrow> k div 8 = n div 8" by (rule of_nat_u8_eq)
    have "k = n \<longleftrightarrow> k div 8 = n div 8 \<and> 7 - k mod 8 = 7 - n mod 8"
      unfolding event_bit using div_mod_eq[of k 8 n] by simp
    moreover have "7 - k mod 8 < 8" by simp
    moreover have "bit ?v i \<longleftrightarrow> i = 7 - n mod 8 \<and> i < 8" for i
      by (auto simp: bit_push_bit_iff bit_1_iff simp del: push_bit_of_1)
    ultimately show ?thesis
      using idx by (auto simp: masked_def d1(3) d2(3) bit_and_iff bit_not_iff simp del: push_bit_of_1)
  qed
  then show ?thesis
    using d1 d2(1,2) assms(2) by (simp add: STPMU1_Enable_Interrupt_def IRQ_NR_def)
qed

lemma Enable_Interrupts_ok:
  assumes "pmic_conforms hal view" and "\<forall>n \<in> set ns. n < 32"
  shows "\<exists>d'. steps (map (STPMU1_Enable_Interrupt hal) ns) d = Some d' \<and>
    c_regs (view d') = c_regs (view d) \<and>
    (\<forall>k < 32. masked (view d') k \<longleftrightarrow> masked (view d) k \<and> k \<notin> set ns)"
  using assms(2)
proof (induction ns arbitrary: d)
  case (Cons n ns)
  obtain d1 where d1: "STPMU1_Enable_Interrupt hal n d = Some d1" "c_regs (view d1) = c_regs (view d)"
      "\<forall>k < 32. masked (view d1) k \<longleftrightarrow> masked (view d) k \<and> k \<noteq> n"
    using Enable_Interrupt_ok[OF assms(1), of n d] Cons.prems by auto
  show ?case using Cons.IH[of d1] Cons.prems d1 by auto
qed simp

text \<open>The I2C driver's own set-up and the presence test do not touch the registers of the chip.\<close>

definition setup_transparent :: "'d i2c_hal \<Rightarrow> ('d \<Rightarrow> pmic_chip) \<Rightarrow> bool" where
  "setup_transparent hal view \<longleftrightarrow>
     (\<forall>cfg d. c_regs (view (snd (HAL_I2C_Init hal cfg d))) = c_regs (view d)) \<and>
     (\<forall>a n t d. c_regs (view (snd (HAL_I2C_IsDeviceReady hal a n t d))) = c_regs (view d))"

lemma guarded_i2c_dev:
  assumes "guarded le port f b = Some b'"
  shows "i2c_dev b' = i2c_dev b"
proof -
  have "i2c_dev (board_rest b') = i2c_dev (board_rest (b\<lparr>b_sys := f (b_sys b)\<rparr>))"
    using guarded_rest[OF assms] by simp
  then show ?thesis by (simp add: board_rest_def)
qed

lemma BSP_PMIC_MspInit_regs:
  assumes "setup_transparent hal view" and "BSP_PMIC_MspInit hal le b = Some (r, b')"
  shows "c_regs (view (i2c_dev b')) = c_regs (view (i2c_dev b))"
proof -
  obtain r1 b1 where b1: "BSP_I2C4_Init hal le b = Some (r1, b1)" and b2: "i2c_dev b' = i2c_dev b1"
    using assms(2)
    by (auto simp: BSP_PMIC_MspInit_def HAL_NVIC_EnableIRQ_def HAL_NVIC_SetPriority_def Let_def
        dest!: guarded_i2c_dev split: option.splits)
  have msp: "i2c_dev c = i2c_dev b" if "I2C4_MspInit le b = Some c" for c
    using that
    by (auto simp: I2C4_MspInit_def HAL_NVIC_EnableIRQ_def HAL_NVIC_SetPriority_def Let_def
        dest!: guarded_i2c_dev split: option.splits)
  have "c_regs (view (i2c_dev b1)) = c_regs (view (i2c_dev b))"
    using b1 msp assms(1)
    by (auto simp: BSP_I2C4_Init_def MX_I2C4_Init_def setup_transparent_def case_prod_unfold
        split: if_splits option.splits)
  then show ?thesis by (simp add: b2)
qed

text \<open>
  When \<open>BSP_PMIC_Init\<close> comes back, it returns 0, busy or bus failure. A device that is ready is
  accepted exactly if its version register reads 0 (so not with the version \<open>PMIC_VERSION_ID\<close>, 0x10,
  that the header names), and after success every one of the 32 interrupts of the chip is unmasked.
\<close>

theorem pmic_init_outcome:
  assumes "pmic_conforms hal view" and "setup_transparent hal view"
    and "BSP_PMIC_Init hal le b = Some (r, b')"
  shows "r \<in> {0, -3, -8} \<and>
    (r \<noteq> -3 \<longrightarrow> (r = 0 \<longleftrightarrow> c_regs (view (i2c_dev b)) VERSION_STATUS_REG = 0)) \<and>
    (r = 0 \<longrightarrow> (\<forall>n < 32. \<not> masked (view (i2c_dev b')) n))"
proof -
  obtain r1 b1 where b1: "BSP_PMIC_MspInit hal le b = Some (r1, b1)"
    using assms(3) by (auto simp: BSP_PMIC_Init_def split: option.splits)
  obtain st d where d: "BSP_PMIC_Is_Device_Ready hal (i2c_dev b1) = (st, d)" by fastforce
  have "d = snd (HAL_I2C_IsDeviceReady hal STPMU1_I2C_ADDRESS 1 1000 (i2c_dev b1))" "st = 0 \<or> st = -3"
    using d by (auto simp: BSP_PMIC_Is_Device_Ready_def BSP_I2C4_IsReady_def case_prod_unfold
        bsp_error_defs split: if_splits)
  then have st: "st = 0 \<or> st = -3" "c_regs (view d) = c_regs (view (i2c_dev b))"
    using BSP_PMIC_MspInit_regs[OF assms(2) b1] assms(2) by (simp_all add: setup_transparent_def)
  show ?thesis
  proof (cases "st = 0")
    case False
    then show ?thesis using assms(3) b1 d st(1) by (simp add: BSP_PMIC_Init_def bsp_error_defs)
  next
    case True
    have ctrl: "chip_read VERSION_STATUS_REG c = c_regs c VERSION_STATUS_REG" for c
      by (rule ctrl_not_irq) (simp add: ctrl_reg_def VERSION_STATUS_REG_def)
    obtain d1 where d1: "STPMU1_Register_Read hal VERSION_STATUS_REG d =
        Some (c_regs (view (i2c_dev b)) VERSION_STATUS_REG, d1)"
      using Register_Read_ok[OF assms(1), of VERSION_STATUS_REG d] st(2) by (auto simp: ctrl)
    obtain d2 where d2: "steps (map (STPMU1_Enable_Interrupt hal) ([6, 7] @ [0..<32])) d1 = Some d2"
        "\<forall>k < 32. masked (view d2) k \<longleftrightarrow> masked (view d1) k \<and> k \<notin> set ([6, 7] @ [0..<32])"
      using Enable_Interrupts_ok[OF assms(1), of "[6, 7] @ [0..<32]" d1] by auto
    have fin: "BSP_PMIC_Init hal le b =
        (if c_regs (view (i2c_dev b)) VERSION_STATUS_REG \<noteq> 0 then Some (-8, b1\<lparr>i2c_dev := d1\<rparr>)
         else Some (0, b1\<lparr>i2c_dev := d2\<rparr>))"
      using b1 d d1 d2(1) True
      by (simp add: BSP_PMIC_Init_def bsp_error_defs IT_PONKEY_R_def IT_PONKEY_F_def IRQ_NR_def del: upt_Suc)
    show ?thesis using assms(3) d2(2) unfolding fin by (auto split: if_splits)
  qed
qed

definition ideal_board :: "pmic_chip i2c_board" where
  "ideal_board = board.extend blank_board \<lparr>i2c_dev = blank_chip, i2c_clk = False, i2c_clk_source_HSI = False\<rparr>"

theorem pmic_init_outcome_witness:
  "\<exists>r b'. BSP_PMIC_Init ideal_hal quiet ideal_board = Some (r, b') \<and> r \<in> {0, -3, -8}"
proof -
  have t: "setup_transparent ideal_hal (\<lambda>d. d)" by (simp add: setup_transparent_def ideal_hal_def)
  have "sem_R (b_hsem (ideal_board\<lparr>b_clk := c\<rparr>)) 0 = 0" for c
    by (simp add: ideal_board_def board.defs blank_board_def free_sys_def)
  then obtain b1 where "guarded quiet GPIOA (HAL_GPIO_Init GPIOA pmic_int_structure)
      (ideal_board\<lparr>b_clk := (b_clk ideal_board)(GPIOA := True)\<rparr>) = Some b1" using guarded_quiet by blast
  moreover have "HAL_I2C_is_reset ideal_hal d = False" for d by (simp add: ideal_hal_def)
  ultimately obtain r1 b2 where m: "BSP_PMIC_MspInit ideal_hal quiet ideal_board = Some (r1, b2)"
    by (simp add: BSP_PMIC_MspInit_def BSP_I2C4_Init_def Let_def)
  have ready: "BSP_PMIC_Is_Device_Ready ideal_hal d = (0, d)" for d
    by (simp add: BSP_PMIC_Is_Device_Ready_def BSP_I2C4_IsReady_def ideal_hal_def bsp_error_defs)
  obtain v d1 where v: "STPMU1_Register_Read ideal_hal VERSION_STATUS_REG (i2c_dev b2) = Some (v, d1)"
    using Register_Read_ok[OF ideal_conforms, of VERSION_STATUS_REG "i2c_dev b2"] by blast
  obtain d2 where d2: "steps (map (STPMU1_Enable_Interrupt ideal_hal) ([6, 7] @ [0..<32])) d1 = Some d2"
    using Enable_Interrupts_ok[OF ideal_conforms, of "[6, 7] @ [0..<32]" d1] by auto
  obtain r b' where "BSP_PMIC_Init ideal_hal quiet ideal_board = Some (r, b')"
    using m ready v d2
    by (cases "v = 0") (simp_all add: BSP_PMIC_Init_def bsp_error_defs IT_PONKEY_R_def IT_PONKEY_F_def IRQ_NR_def
        del: upt_Suc)
  then show ?thesis using pmic_init_outcome[OF ideal_conforms t] by blast
qed

end
