(* ===== verification/Kfifo.thy ===== *)
theory Kfifo
  imports Prelude
begin

text \<open>
  The kernel's ring buffer (\<^verbatim>\<open>CA7/linux-5.10.61/linux-5.10.61/lib/kfifo.c\<close>), in which the device driver keeps its
  queues. The buffer holds elements; the source counts bytes and multiplies by the element size, the
  model counts elements. The indices \<open>in\<close> and \<open>out\<close> are free running 32-bit counters that wrap around.

  The theory shows that the ring buffer is a bounded queue, for transfers of any length and across the
  wrap-around of the indices, states the contract of a bounded queue as a locale and interprets it on
  the ring buffer. The macros \<open>kfifo_put\<close> and \<open>kfifo_get\<close> of the kernel's header move one element.
\<close>

section \<open>The ring buffer\<close>

record 'a kfifo =
  kf_in :: u32
  kf_out :: u32
  kf_mask :: u32
  kf_data :: "'a list"

text \<open>\<^verbatim>\<open>memcpy\<close> of a block to position \<open>off\<close> of the buffer.\<close>

definition splice :: "nat \<Rightarrow> 'a list \<Rightarrow> 'a list \<Rightarrow> 'a list" where
  "splice off xs data = take off data @ xs @ drop (off + length xs) data"

definition kfifo_unused :: "'a kfifo \<Rightarrow> u32" where
  "kfifo_unused fifo = (kf_mask fifo + 1) - (kf_in fifo - kf_out fifo)"

definition kfifo_copy_in :: "'a kfifo \<Rightarrow> 'a list \<Rightarrow> u32 \<Rightarrow> u32 \<Rightarrow> 'a kfifo" where
  "kfifo_copy_in fifo src len off =
     (let sz = kf_mask fifo + 1;
          off = off AND kf_mask fifo;
          l = min len (sz - off);
          data = splice (unat off) (take (unat l) src) (kf_data fifo);
          data = splice 0 (take (unat (len - l)) (drop (unat l) src)) data
      in fifo\<lparr>kf_data := data\<rparr>)"

definition kfifo_in :: "'a kfifo \<Rightarrow> 'a list \<Rightarrow> u32 \<Rightarrow> u32 \<times> 'a kfifo" where
  "kfifo_in fifo buf len =
     (let l = kfifo_unused fifo;
          len = (if len > l then l else len);
          fifo = kfifo_copy_in fifo buf len (kf_in fifo)
      in (len, fifo\<lparr>kf_in := kf_in fifo + len\<rparr>))"

definition kfifo_copy_out :: "'a kfifo \<Rightarrow> u32 \<Rightarrow> u32 \<Rightarrow> 'a list" where
  "kfifo_copy_out fifo len off =
     (let sz = kf_mask fifo + 1;
          off = off AND kf_mask fifo;
          l = min len (sz - off)
      in take (unat l) (drop (unat off) (kf_data fifo)) @ take (unat (len - l)) (kf_data fifo))"

definition kfifo_out_peek :: "'a kfifo \<Rightarrow> u32 \<Rightarrow> u32 \<times> 'a list" where
  "kfifo_out_peek fifo len =
     (let l = kf_in fifo - kf_out fifo;
          len = (if len > l then l else len)
      in (len, kfifo_copy_out fifo len (kf_out fifo)))"

definition kfifo_out :: "'a kfifo \<Rightarrow> u32 \<Rightarrow> u32 \<times> 'a list \<times> 'a kfifo" where
  "kfifo_out fifo len =
     (case kfifo_out_peek fifo len of (len, buf) \<Rightarrow> (len, buf, fifo\<lparr>kf_out := kf_out fifo + len\<rparr>))"

text \<open>One element in, one element out, and the queries of the header.\<close>

definition kfifo_put :: "'a \<Rightarrow> 'a kfifo \<Rightarrow> bool \<times> 'a kfifo" where
  "kfifo_put x fifo = (case kfifo_in fifo [x] 1 of (n, fifo) \<Rightarrow> (n \<noteq> 0, fifo))"

definition kfifo_get :: "'a kfifo \<Rightarrow> 'a option \<times> 'a kfifo" where
  "kfifo_get fifo =
     (case kfifo_out fifo 1 of (n, buf, fifo) \<Rightarrow> (if n = 0 then None else Some (buf ! 0), fifo))"

definition kfifo_size :: "'a kfifo \<Rightarrow> u32" where "kfifo_size fifo = kf_mask fifo + 1"

definition kfifo_len :: "'a kfifo \<Rightarrow> u32" where "kfifo_len fifo = kf_in fifo - kf_out fifo"

definition kfifo_is_empty :: "'a kfifo \<Rightarrow> bool" where "kfifo_is_empty fifo \<longleftrightarrow> kf_in fifo = kf_out fifo"

definition kfifo_make :: "nat \<Rightarrow> 'a \<Rightarrow> 'a kfifo" where
  "kfifo_make k x = \<lparr>kf_in = 0, kf_out = 0, kf_mask = of_nat (2 ^ k - 1), kf_data = replicate (2 ^ k) x\<rparr>"

section \<open>The queue a ring buffer holds\<close>

definition cap :: "'a kfifo \<Rightarrow> nat" where "cap f = unat (kf_mask f) + 1"

definition kf_inv :: "'a kfifo \<Rightarrow> bool" where
  "kf_inv f \<longleftrightarrow> (\<exists>k < 32. cap f = 2 ^ k) \<and> length (kf_data f) = cap f \<and>
     unat (kf_in f - kf_out f) \<le> cap f"

definition contents :: "'a kfifo \<Rightarrow> 'a list" where
  "contents f = map (\<lambda>i. kf_data f ! ((unat (kf_out f) + i) mod cap f)) [0..<unat (kf_in f - kf_out f)]"

lemma length_contents [simp]: "length (contents f) = unat (kf_in f - kf_out f)"
  by (simp add: contents_def)

lemma nth_contents:
  "i < unat (kf_in f - kf_out f) \<Longrightarrow> contents f ! i = kf_data f ! ((unat (kf_out f) + i) mod cap f)"
  by (simp add: contents_def)

lemma kf_inv_facts:
  assumes "kf_inv f"
  shows "cap f dvd 2 ^ 32" "cap f < 2 ^ 32" "0 < cap f" "unat (kf_mask f + 1) = cap f"
    "unat (x AND kf_mask f) = unat x mod cap f"
proof -
  obtain k where k: "k < 32" "cap f = 2 ^ k" using assms by (auto simp: kf_inv_def)
  then have "k \<le> 32" by simp
  then show "cap f dvd 2 ^ 32" unfolding k(2) by (rule le_imp_power_dvd)
  show lt: "cap f < 2 ^ 32" unfolding k(2) using k(1) by (intro power_strict_increasing) simp_all
  show "0 < cap f" by (simp add: cap_def)
  show "unat (kf_mask f + 1) = cap f"
    using lt by (simp add: cap_def unat_word_ariths)
  have "unat (kf_mask f) = mask k" using k(2) by (simp add: cap_def mask_eq_exp_minus_1)
  then have "unat (x AND kf_mask f) = unat x AND mask k" by (simp add: unsigned_and_eq)
  then show "unat (x AND kf_mask f) = unat x mod cap f" by (simp add: k(2) flip: take_bit_eq_mask take_bit_eq_mod)
qed

lemma nth_splice:
  assumes "off + length xs \<le> length data" "j < length data"
  shows "splice off xs data ! j = (if off \<le> j \<and> j < off + length xs then xs ! (j - off) else data ! j)"
  using assms by (auto simp: splice_def nth_append min_def)

lemma length_splice: "off + length xs \<le> length data \<Longrightarrow> length (splice off xs data) = length data"
  by (simp add: splice_def)

text \<open>A block copied in at \<open>off\<close> occupies the positions \<open>off\<close>, \<open>off + 1\<close>, \<dots> modulo the capacity.\<close>

lemma copy_in_data:
  fixes f :: "'a kfifo" and off :: u32
  assumes inv: "kf_inv f" and n: "unat len \<le> cap f" "unat len \<le> length src"
  defines "d \<equiv> kf_data (kfifo_copy_in f src len off)"
  shows "length d = cap f"
    and "i < unat len \<Longrightarrow> d ! ((unat off + i) mod cap f) = src ! i"
    and "j < cap f \<Longrightarrow> (\<And>i. i < unat len \<Longrightarrow> j \<noteq> (unat off + i) mod cap f) \<Longrightarrow> d ! j = kf_data f ! j"
proof -
  note facts = kf_inv_facts[OF inv]
  define c where "c = cap f"
  define n where "n = unat len"
  define o' where "o' = unat off mod c"
  define l where "l = min n (c - o')"
  have c0: "0 < c" "c < 2 ^ 32" and nc: "n \<le> c" "n \<le> length src" and len: "length (kf_data f) = c"
    using facts n inv by (simp_all add: c_def n_def kf_inv_def)
  have oc: "o' < c" using c0 by (simp add: o'_def)
  have off: "unat (off AND kf_mask f) = o'" using facts(5) by (simp add: o'_def c_def)
  have sz: "unat (kf_mask f + 1 - (off AND kf_mask f)) = c - o'"
    using facts(4) off oc by (subst unat_sub) (simp_all add: c_def word_le_nat_alt)
  have lw: "unat (min len (kf_mask f + 1 - (off AND kf_mask f))) = l"
    unfolding l_def using sz by (simp add: min_def n_def word_le_nat_alt)
  have rest: "unat (len - min len (kf_mask f + 1 - (off AND kf_mask f))) = n - l"
    using lw by (subst unat_sub) (simp_all add: n_def)
  define d1 where "d1 = splice o' (take l src) (kf_data f)"
  have fit1: "o' + length (take l src) \<le> length (kf_data f)" using oc nc by (simp add: l_def len)
  have len1: "length d1 = c" using length_splice[OF fit1] by (simp add: d1_def len)
  have d: "d = splice 0 (take (n - l) (drop l src)) d1"
    unfolding d_def kfifo_copy_in_def Let_def d1_def using off lw rest by simp
  have fit2: "0 + length (take (n - l) (drop l src)) \<le> length d1" using nc by (simp add: len1)
  show "length d = cap f" using length_splice[OF fit2] by (simp add: d len1 c_def)
  have ln: "l \<le> n" by (simp add: l_def)
  have nth1: "d1 ! j = (if o' \<le> j \<and> j < o' + l then src ! (j - o') else kf_data f ! j)" if "j < c" for j
    using that nth_splice[OF fit1, of j] nc ln by (auto simp: d1_def len)
  have nth: "d ! j = (if j < n - l then src ! (l + j) else d1 ! j)" if "j < c" for j
    using that nth_splice[OF fit2, of j] nc ln by (auto simp: d len1)
  have idx: "(unat off + i) mod c = (if o' + i < c then o' + i else o' + i - c)" if "i < c" for i
    using mod_shift[OF oc that] by (simp add: o'_def mod_add_left_eq)
  show "d ! ((unat off + i) mod cap f) = src ! i" if "i < unat len"
  proof -
    have "i < n" "i < c" using that nc by (simp_all add: n_def)
    then show ?thesis using oc nth[of "(unat off + i) mod c"] nth1[of "(unat off + i) mod c"] idx[of i] nc
      by (auto simp: l_def min_def c_def[symmetric] split: if_splits)
  qed
  show "d ! j = kf_data f ! j" if "j < cap f" "\<And>i. i < unat len \<Longrightarrow> j \<noteq> (unat off + i) mod cap f"
  proof -
    have miss: "j \<noteq> (if o' + i < c then o' + i else o' + i - c)" if "i < n" for i
      using \<open>\<And>i. i < unat len \<Longrightarrow> j \<noteq> (unat off + i) mod cap f\<close>[of i] that idx[of i] nc
      by (simp add: n_def c_def)
    have "\<not> (o' \<le> j \<and> j < o' + l)"
    proof
      assume hit: "o' \<le> j \<and> j < o' + l"
      then have "j - o' < n" using ln by linarith
      from miss[OF this] show False using hit \<open>j < cap f\<close> by (simp add: c_def)
    qed
    moreover have "\<not> j < n - l"
    proof
      assume hit: "j < n - l"
      then have "l = c - o'" "l + j < n" by (auto simp: l_def min_def split: if_splits)
      from miss[OF this(2)] show False using \<open>l = c - o'\<close> oc by simp
    qed
    ultimately show ?thesis using nth[of j] nth1[of j] \<open>j < cap f\<close> by (auto simp: c_def)
  qed
qed

text \<open>The free running indices agree with their positions in the buffer modulo the capacity, because the
  capacity divides \<open>2 ^ 32\<close>.\<close>

lemma unat_add_mod_cap:
  assumes "kf_inv f"
  shows "unat (x + y :: u32) mod cap f = (unat x + unat y) mod cap f"
  using kf_inv_facts(1)[OF assms] by (simp add: unat_word_ariths mod_mod_cancel)

lemma in_position:
  assumes "kf_inv f"
  shows "unat (kf_in f) mod cap f = (unat (kf_out f) + unat (kf_in f - kf_out f)) mod cap f"
  using unat_add_mod_cap[OF assms, of "kf_out f" "kf_in f - kf_out f"] by simp

lemma unused_eq:
  assumes "kf_inv f"
  shows "unat (kfifo_unused f) = cap f - length (contents f)"
  using assms kf_inv_facts(4)[OF assms]
  by (simp add: kfifo_unused_def kf_inv_def unat_sub word_le_nat_alt)

text \<open>What a transfer into the ring buffer does to the queue it holds.\<close>

lemma kfifo_in_spec:
  assumes inv: "kf_inv f" and buf: "unat len \<le> length buf"
  defines "n \<equiv> min (unat len) (cap f - length (contents f))"
  shows "\<exists>f'. kfifo_in f buf len = (of_nat n, f') \<and> kf_inv f' \<and> cap f' = cap f \<and>
    contents f' = contents f @ take n buf"
proof -
  define m where "m = (if len > kfifo_unused f then kfifo_unused f else len)"
  define k where "k = unat (kf_in f - kf_out f)"
  define f' where "f' = (kfifo_copy_in f buf m (kf_in f))\<lparr>kf_in := kf_in f + m\<rparr>"
  have m: "unat m = n" using unused_eq[OF inv] by (auto simp: m_def n_def word_less_nat_alt)
  have in_eq: "kfifo_in f buf len = (m, f')"
    by (simp add: kfifo_in_def Let_def m_def f'_def kfifo_copy_in_def)
  have "k \<le> cap f" using inv by (simp add: k_def kf_inv_def)
  then have kc: "k + n \<le> cap f" unfolding n_def length_contents k_def[symmetric] by linarith
  have nc: "unat m \<le> cap f" "unat m \<le> length buf" using kc buf m by (simp_all add: n_def)
  note copied = copy_in_data[OF inv nc, where off = "kf_in f"]
  have fields: "kf_out f' = kf_out f" "kf_mask f' = kf_mask f" "kf_in f' = kf_in f + m"
    "kf_data f' = kf_data (kfifo_copy_in f buf m (kf_in f))"
    by (simp_all add: f'_def kfifo_copy_in_def Let_def)
  have cap': "cap f' = cap f" by (simp add: cap_def fields)
  have "kf_in f + m - kf_out f = (kf_in f - kf_out f) + m" by simp
  then have "unat (kf_in f + m - kf_out f) = unat ((kf_in f - kf_out f) + m)" by (rule arg_cong)
  also have "\<dots> = k + n" using kc kf_inv_facts(2)[OF inv] by (simp add: unat_word_ariths k_def m)
  finally have used: "unat (kf_in f' - kf_out f') = k + n" by (simp add: fields)
  have inv': "kf_inv f'" using inv copied(1) kc used cap' by (simp add: kf_inv_def fields)
  have pos: "(unat (kf_out f) + (k + i)) mod cap f = (unat (kf_in f) + i) mod cap f" for i
    using in_position[OF inv] mod_add_left_eq[of "unat (kf_in f)" "cap f" i]
      mod_add_left_eq[of "unat (kf_out f) + k" "cap f" i]
    by (simp add: k_def add.assoc)
  have "contents f' ! i = (contents f @ take n buf) ! i" if "i < k + n" for i
  proof (cases "i < k")
    case True
    have "(unat (kf_out f) + i) mod cap f \<noteq> (unat (kf_in f) + j) mod cap f" if "j < unat m" for j
      using mod_cap_inj[of "unat (kf_out f)" i "cap f" "k + j"] True that kc m unfolding pos by auto
    then have "kf_data f' ! ((unat (kf_out f) + i) mod cap f) = kf_data f ! ((unat (kf_out f) + i) mod cap f)"
      using copied(3)[of "(unat (kf_out f) + i) mod cap f"] kf_inv_facts(3)[OF inv] by (simp add: fields)
    then show ?thesis using True that used by (simp add: nth_contents nth_append fields cap' k_def)
  next
    case False
    then have j: "i = k + (i - k)" "i - k < unat m" using that m by auto
    have "kf_data f' ! ((unat (kf_out f) + i) mod cap f) = buf ! (i - k)"
      using copied(2)[OF j(2)] pos[of "i - k"] j(1) by (simp add: fields)
    then show ?thesis using False that used nc m by (simp add: nth_contents nth_append fields cap' k_def)
  qed
  moreover have "length (contents f') = length (contents f @ take n buf)"
    using used nc m by (simp add: k_def)
  ultimately have "contents f' = contents f @ take n buf"
    using used by (intro nth_equalityI) simp_all
  moreover have "m = of_nat n" using m by (simp add: word_eq_of_unat)
  ultimately show ?thesis using in_eq inv' cap' by blast
qed

text \<open>What a transfer out of the ring buffer delivers and leaves behind.\<close>

lemma copy_out_spec:
  assumes inv: "kf_inv f" and n: "unat len \<le> length (contents f)"
  shows "kfifo_copy_out f len (kf_out f) = take (unat len) (contents f)"
proof -
  define c where "c = cap f"
  define a where "a = unat (kf_out f) mod c"
  define n where "n = unat len"
  define l where "l = min n (c - a)"
  note facts = kf_inv_facts[OF inv]
  have c0: "0 < c" and len: "length (kf_data f) = c" and nc: "n \<le> c"
    using facts(3) assms by (simp_all add: c_def n_def kf_inv_def)
  have ac: "a < c" using c0 by (simp add: a_def)
  have off: "unat (kf_out f AND kf_mask f) = a" using facts(5) by (simp add: a_def c_def)
  have sz: "unat (kf_mask f + 1 - (kf_out f AND kf_mask f)) = c - a"
    using facts(4) off ac by (subst unat_sub) (simp_all add: c_def word_le_nat_alt)
  have lw: "unat (min len (kf_mask f + 1 - (kf_out f AND kf_mask f))) = l"
    unfolding l_def using sz by (simp add: min_def n_def word_le_nat_alt)
  have rest: "unat (len - min len (kf_mask f + 1 - (kf_out f AND kf_mask f))) = n - l"
    using lw by (subst unat_sub) (simp_all add: n_def)
  have out: "kfifo_copy_out f len (kf_out f) = take l (drop a (kf_data f)) @ take (n - l) (kf_data f)"
    unfolding kfifo_copy_out_def Let_def lw rest off ..
  have idx: "(unat (kf_out f) + i) mod c = (if a + i < c then a + i else a + i - c)" if "i < c" for i
    using mod_shift[OF ac that] by (simp add: a_def mod_add_left_eq)
  show ?thesis
  proof (rule nth_equalityI)
    show len_eq: "length (kfifo_copy_out f len (kf_out f)) = length (take (unat len) (contents f))"
      using assms(2) ac nc unfolding out by (auto simp: len l_def min_def n_def)
    fix i assume "i < length (kfifo_copy_out f len (kf_out f))"
    then have i: "i < n" using assms(2) len_eq by (simp add: n_def)
    then show "kfifo_copy_out f len (kf_out f) ! i = take (unat len) (contents f) ! i"
      using assms(2) ac nc idx[of i] unfolding out
      by (auto simp: contents_def nth_append len l_def min_def n_def c_def[symmetric] add.commute[of a i]
          split: if_splits)
  qed
qed

lemma kfifo_out_spec:
  assumes inv: "kf_inv f"
  defines "n len \<equiv> min (unat len) (length (contents f))"
  shows "\<exists>f'. kfifo_out f len = (of_nat (n len), take (n len) (contents f), f') \<and> kf_inv f' \<and>
    cap f' = cap f \<and> contents f' = drop (n len) (contents f)"
proof -
  define m where "m = (if len > kf_in f - kf_out f then kf_in f - kf_out f else len)"
  define k where "k = unat (kf_in f - kf_out f)"
  define f' where "f' = f\<lparr>kf_out := kf_out f + m\<rparr>"
  have m: "unat m = n len" by (auto simp: m_def n_def word_less_nat_alt)
  have mk: "unat m \<le> k" by (auto simp: m_def k_def word_less_nat_alt)
  have res: "kfifo_out f len = (m, take (unat m) (contents f), f')"
    using copy_out_spec[OF inv, of m] mk
    by (simp add: kfifo_out_def kfifo_out_peek_def Let_def m_def[symmetric] f'_def k_def)
  have cap': "cap f' = cap f" by (simp add: cap_def f'_def)
  have "unat (kf_in f - (kf_out f + m)) = unat ((kf_in f - kf_out f) - m)" by (simp add: diff_diff_eq)
  also have "\<dots> = k - unat m" using mk by (subst unat_sub) (simp_all add: k_def word_le_nat_alt)
  finally have used: "unat (kf_in f' - kf_out f') = k - unat m" by (simp add: f'_def)
  have "k \<le> cap f" using inv by (simp add: kf_inv_def k_def)
  then have "k - unat m \<le> cap f" by linarith
  then have inv': "kf_inv f'" using inv used cap' by (simp add: kf_inv_def f'_def)
  have pos: "(unat (kf_out f + m) + i) mod cap f = (unat (kf_out f) + (unat m + i)) mod cap f" for i
    using unat_add_mod_cap[OF inv, of "kf_out f" m] mod_add_left_eq[of "unat (kf_out f + m)" "cap f" i]
      mod_add_left_eq[of "unat (kf_out f) + unat m" "cap f" i]
    by (simp add: add.assoc)
  have "contents f' = drop (unat m) (contents f)"
  proof (rule nth_equalityI)
    show "length (contents f') = length (drop (unat m) (contents f))" using used by (simp add: k_def)
    fix i assume "i < length (contents f')"
    then show "contents f' ! i = drop (unat m) (contents f) ! i"
      using used mk pos[of i] cap' by (simp add: nth_contents k_def) (simp add: f'_def)
  qed
  moreover have "m = of_nat (n len)" using m by (simp add: word_eq_of_unat)
  ultimately show ?thesis using res inv' cap' m by auto
qed

section \<open>A bounded queue\<close>

text \<open>
  What a client of a queue relies on: an element is queued at the end while there is room and refused
  otherwise, and the element at the front is delivered first.
\<close>

locale bounded_fifo =
  fixes put :: "'a \<Rightarrow> 'q \<Rightarrow> bool \<times> 'q" and get :: "'q \<Rightarrow> 'a option \<times> 'q"
    and view :: "'q \<Rightarrow> 'a list" and room :: nat and ok :: "'q \<Rightarrow> bool"
  assumes put_room: "ok q \<Longrightarrow> length (view q) < room \<Longrightarrow>
      fst (put x q) \<and> ok (snd (put x q)) \<and> view (snd (put x q)) = view q @ [x]"
    and put_full: "ok q \<Longrightarrow> length (view q) = room \<Longrightarrow>
      \<not> fst (put x q) \<and> ok (snd (put x q)) \<and> view (snd (put x q)) = view q"
    and get_nonempty: "ok q \<Longrightarrow> view q \<noteq> [] \<Longrightarrow>
      fst (get q) = Some (hd (view q)) \<and> ok (snd (get q)) \<and> view (snd (get q)) = tl (view q)"
    and get_empty: "ok q \<Longrightarrow> view q = [] \<Longrightarrow> fst (get q) = None \<and> ok (snd (get q)) \<and> view (snd (get q)) = []"
    and bound: "ok q \<Longrightarrow> length (view q) \<le> room"
begin

lemma put_ok: "ok q \<Longrightarrow> ok (snd (put x q))"
  using put_room put_full bound by (metis le_neq_implies_less)

lemma get_ok: "ok q \<Longrightarrow> ok (snd (get q))"
  using get_nonempty get_empty by metis

lemma put_view: "ok q \<Longrightarrow> view (snd (put x q)) = (if length (view q) < room then view q @ [x] else view q)"
  using put_room put_full bound by (metis le_neq_implies_less)

lemma put_fst: "ok q \<Longrightarrow> fst (put x q) \<longleftrightarrow> length (view q) < room"
  using put_room put_full bound by (metis le_neq_implies_less)

lemma get_view: "ok q \<Longrightarrow> view (snd (get q)) = tl (view q)"
  using get_nonempty get_empty by (metis list.sel(2))

lemma get_fst: "ok q \<Longrightarrow> fst (get q) = (if view q = [] then None else Some (hd (view q)))"
  using get_nonempty get_empty by simp

end

lemma kfifo_put_spec:
  assumes "kf_inv f"
  shows "\<exists>f'. kfifo_put x f = (length (contents f) < cap f, f') \<and> kf_inv f' \<and> cap f' = cap f \<and>
    contents f' = (if length (contents f) < cap f then contents f @ [x] else contents f)"
proof -
  have "length (contents f) \<le> cap f" using assms by (simp add: kf_inv_def)
  then show ?thesis using kfifo_in_spec[OF assms, of 1 "[x]"] by (auto simp: kfifo_put_def)
qed

lemma kfifo_get_spec:
  assumes "kf_inv f"
  shows "\<exists>f'. kfifo_get f = (if contents f = [] then None else Some (hd (contents f)), f') \<and> kf_inv f' \<and>
    cap f' = cap f \<and> contents f' = tl (contents f)"
proof -
  show ?thesis using kfifo_out_spec[OF assms, of 1]
    by (cases "contents f") (auto simp: kfifo_get_def)
qed

text \<open>The ring buffer keeps the contract, for each capacity.\<close>

interpretation kf: bounded_fifo kfifo_put kfifo_get contents c "\<lambda>f. kf_inv f \<and> cap f = c" for c
proof (unfold_locales, goal_cases)
  case (1 q x) then show ?case using kfifo_put_spec[of q x] by auto
next
  case (2 q x) then show ?case using kfifo_put_spec[of q x] by auto
next
  case (3 q) then show ?case using kfifo_get_spec[of q] by auto
next
  case (4 q) then show ?case using kfifo_get_spec[of q] by auto
next
  case (5 q) then show ?case by (auto simp: kf_inv_def)
qed

lemma kfifo_make_ok:
  assumes "k < 32"
  shows "kf_inv (kfifo_make k x)" "cap (kfifo_make k x) = 2 ^ k" "contents (kfifo_make k x) = []"
proof -
  have lt: "(2 :: nat) ^ k < 2 ^ 32" using assms by (intro power_strict_increasing) simp_all
  have "unat (of_nat (2 ^ k - 1) :: u32) = 2 ^ k - 1" using lt by (simp only: unat_of_nat) simp
  then show cap: "cap (kfifo_make k x) = 2 ^ k" by (simp add: cap_def kfifo_make_def)
  show "contents (kfifo_make k x) = []" by (simp add: contents_def kfifo_make_def)
  show "kf_inv (kfifo_make k x)" using assms cap by (auto simp: kf_inv_def kfifo_make_def)
qed

section \<open>Properties\<close>

text \<open>C28: A transfer into the ring buffer (\<^verbatim>\<open>__kfifo_in\<close>) queues as many elements as there is room for, in
  order and behind the elements already there, wherever the free running indices stand (also when the
  block is split at the end of the buffer and when an index wraps around), and reports their number.\<close>

theorem kfifo_in_appends:
  assumes "kf_inv f" "unat len \<le> length buf"
  shows "case kfifo_in f buf len of (n, f') \<Rightarrow>
    unat n = min (unat len) (cap f - length (contents f)) \<and> contents f' = contents f @ take (unat n) buf \<and>
    kf_inv f' \<and> cap f' = cap f"
proof -
  have "min (unat len) (cap f - length (contents f)) < 2 ^ 32" using unat_u32_less[of len] by auto
  then show ?thesis using kfifo_in_spec[OF assms] by (auto simp: unat_of_nat)
qed

text \<open>Three elements into a ring of four whose indices are about to wrap around.\<close>

theorem kfifo_in_appends_witness:
  "case kfifo_in \<lparr>kf_in = - 1, kf_out = - 2, kf_mask = 3, kf_data = [0, 0, 7, 0 :: nat]\<rparr> [1, 2, 3, 4] 4 of
    (n, f') \<Rightarrow> unat n = 3 \<and> contents f' = [7, 1, 2, 3]"
proof -
  let ?f = "\<lparr>kf_in = - 1, kf_out = - 2, kf_mask = 3, kf_data = [0, 0, 7, 0 :: nat]\<rparr>"
  have cap: "cap ?f = 4" by (simp add: cap_def)
  have cont: "contents ?f = [7]" by (simp add: contents_def cap)
  have "\<exists>k < 32. (4 :: nat) = 2 ^ k" by (rule exI[of _ 2]) simp
  then have "kf_inv ?f" by (simp add: kf_inv_def cap)
  from kfifo_in_appends[OF this, of 4 "[1, 2, 3, 4]"] show ?thesis
    unfolding cap cont by (auto simp: take_Cons')
qed

text \<open>A transfer out of the ring buffer (\<^verbatim>\<open>__kfifo_out\<close>) delivers the oldest elements in order, at most
  as many as are asked for and as are there, and leaves exactly the others.\<close>

theorem kfifo_out_takes:
  assumes "kf_inv f"
  shows "case kfifo_out f len of (n, buf, f') \<Rightarrow>
    unat n = min (unat len) (length (contents f)) \<and> contents f = buf @ contents f' \<and> length buf = unat n \<and>
    kf_inv f' \<and> cap f' = cap f"
proof -
  have "min (unat len) (length (contents f)) < 2 ^ 32" using unat_u32_less[of len] by auto
  then show ?thesis using kfifo_out_spec[OF assms, of len] by (auto simp: unat_of_nat)
qed

theorem kfifo_out_takes_witness:
  "case kfifo_out \<lparr>kf_in = 1, kf_out = - 2, kf_mask = 3, kf_data = [2, 0, 7, 1 :: nat]\<rparr> 2 of
    (n, buf, f') \<Rightarrow> unat n = 2 \<and> [7, 1, 2] = buf @ contents f'"
proof -
  let ?f = "\<lparr>kf_in = 1, kf_out = - 2, kf_mask = 3, kf_data = [2, 0, 7, 1 :: nat]\<rparr>"
  have cap: "cap ?f = 4" by (simp add: cap_def)
  have cont: "contents ?f = [7, 1, 2]" using cap by (simp add: contents_def upt_rec)
  have "\<exists>k < 32. (4 :: nat) = 2 ^ k" by (rule exI[of _ 2]) simp
  then have "kf_inv ?f" using cap by (simp add: kf_inv_def)
  from kfifo_out_takes[OF this, of 2] show ?thesis unfolding cont by auto
qed

end
