(* ===== verification/Ecu_Driver.thy ===== *)
theory Ecu_Driver
  imports Kfifo
begin

text \<open>
  The character device driver of the application processor
  (\<^verbatim>\<open>CA7/CustomKernel/drivers/stm32ecu/stm32ecu.c\<close>): user programs send messages to the coprocessor through it
  and fetch the responses.

  A request leaves a mark in \<open>fifo_send_types\<close> that says where its response belongs: nowhere (a ping of
  the driver), in \<open>fifo_external_msg\<close> (the request came through \<open>write\<close>) or in the slot of \<open>rx_unique_buffer\<close>
  whose number is queued in \<open>fifo_unique_ids\<close> (the request came through \<open>ioctl\<close>). The callback of the
  channel takes one mark per response.

  Code outside the repository is a parameter (the record \<open>ecu_env\<close>): the message layout and its
  checksum, the queue macros of \<^verbatim>\<open>linux/kfifo.h\<close>, the array of slots. What is relied on is stated as the
  contract of a bounded queue (\<^verbatim>\<open>Kfifo\<close>) and as \<open>xa_conforms\<close>. The results of calls that can fail (copying from
  and to user memory, allocation, sending on the channel) are arguments of the handlers (the record
  \<open>ecu_io\<close>). \<open>None\<close> is an access through a null pointer in the kernel.

  In the step relation \<open>traffic\<close> the callback may run between any two accesses of a request or a ping to the shared
  queues, and every call may fail at every place where the code lets it; the callback itself, and any other call, is one step, and one
  request or ping is under way at a time (the device file is open once). The theorems that follow one exchange run whole handlers
  one after the other.
\<close>

section \<open>Data\<close>

record 'd interproc_msg =
  command :: int
  data :: 'd
  checksum :: int

definition SENT_MSG_INTERNAL :: u8 where "SENT_MSG_INTERNAL = 0"
definition SENT_MSG_EXTERNAL_UNIQUE :: u8 where "SENT_MSG_EXTERNAL_UNIQUE = 1"
definition SENT_MSG_EXTERNAL_FIFO :: u8 where "SENT_MSG_EXTERNAL_FIFO = 2"

lemmas sent_msg_defs = SENT_MSG_INTERNAL_def SENT_MSG_EXTERNAL_UNIQUE_def SENT_MSG_EXTERNAL_FIFO_def

definition EAGAIN :: int where "EAGAIN = 11"
definition ENOMEM :: int where "ENOMEM = 12"
definition EBUSY :: int where "EBUSY = 16"
definition EINVAL :: int where "EINVAL = 22"

lemmas errno_defs = EAGAIN_def ENOMEM_def EBUSY_def EINVAL_def

record ('d, 't, 'm, 'i, 'x) ecu_env =
  sizeof_msg :: nat
  calc_crc :: "'d interproc_msg \<Rightarrow> int"
  CMD_PING :: int
  zero_data :: 'd
  put_type :: "u8 \<Rightarrow> 't \<Rightarrow> bool \<times> 't"
  get_type :: "'t \<Rightarrow> u8 option \<times> 't"
  put_msg :: "'d interproc_msg \<Rightarrow> 'm \<Rightarrow> bool \<times> 'm"
  get_msg :: "'m \<Rightarrow> 'd interproc_msg option \<times> 'm"
  size_msg :: "'m \<Rightarrow> nat"
  is_empty_msg :: "'m \<Rightarrow> bool"
  put_id :: "u32 \<Rightarrow> 'i \<Rightarrow> bool \<times> 'i"
  get_id :: "'i \<Rightarrow> u32 option \<times> 'i"
  xa_alloc_cyclic :: "'x \<Rightarrow> u32 \<times> u32 \<Rightarrow> u32 \<Rightarrow> (u32 \<times> u32) option \<times> 'x"
  xa_load :: "'x \<Rightarrow> u32 \<Rightarrow> 'd interproc_msg option"
  xa_erase :: "'x \<Rightarrow> u32 \<Rightarrow> 'd interproc_msg option \<times> 'x"
  xa_store :: "'x \<Rightarrow> u32 \<Rightarrow> 'd interproc_msg \<Rightarrow> bool \<times> 'x"
  xa_entries :: "'x \<Rightarrow> nat"
  xa_destroy :: "'x \<Rightarrow> 'x"
  free_type :: "'t \<Rightarrow> 't"
  free_msg :: "'m \<Rightarrow> 'm"
  free_id :: "'i \<Rightarrow> 'i"

text \<open>
  The variables of the module. \<open>drvdata\<close> is the receive counter of each channel device that has one,
  \<open>sent\<close> the messages handed to the channel so far and \<open>vm_live\<close> the number of blocks allocated with
  \<^verbatim>\<open>vmalloc\<close> and not freed.
\<close>

record ('d, 't, 'm, 'i, 'x) ecu =
  fifo_send_types :: 't
  fifo_external_msg :: 'm
  fifo_unique_ids :: 'i
  rx_unique_buffer :: 'x
  next_uid :: u32
  st_value :: u32
  device_open :: int
  global_rproc_ref :: "nat option"
  drvdata :: "nat \<rightharpoonup> int"
  sent :: "'d interproc_msg list"
  vm_live :: nat

text \<open>
  The outcomes of one call. \<open>rpmsg_send\<close> gives the result of the \<open>i\<close>-th attempt to send in the call.
\<close>

record 'd ecu_io =
  from_user_msgs :: "'d interproc_msg list option"
  from_user_msg :: "'d interproc_msg option"
  from_user_value :: "u32 option"
  from_user_id :: "u32 option"
  to_user_ok :: bool
  vmalloc_ok :: bool
  dev_offline :: "nat \<Rightarrow> bool"
  rpmsg_send :: "nat \<Rightarrow> int"

datatype 'd user_out = No_Out | Out_Value u32 | Out_Id u32 | Out_Msg "'d interproc_msg"

datatype cmd =
  STM32ECU_RESET | STM32ECU_OFFLINE | STM32ECU_SET_STATE | STM32ECU_GET_STATE | STM32ECU_PING_RPROC |
  STM32ECU_SEND_MSG | STM32ECU_RECV_MSG | Other_Cmd u32

section \<open>Opening and closing\<close>

definition ioctl_open :: "('d, 't, 'm, 'i, 'x) ecu \<Rightarrow> int \<times> ('d, 't, 'm, 'i, 'x) ecu" where
  "ioctl_open s = (if device_open s \<noteq> 0 then (- EBUSY, s) else (0, s\<lparr>device_open := device_open s + 1\<rparr>))"

definition ioctl_release :: "('d, 't, 'm, 'i, 'x) ecu \<Rightarrow> int \<times> ('d, 't, 'm, 'i, 'x) ecu" where
  "ioctl_release s = (0, s\<lparr>device_open := device_open s - 1\<rparr>)"

section \<open>Reading and writing\<close>

text \<open>\<open>None\<close> in the list of delivered messages is a place of the user's buffer that was not written.\<close>

primrec read_loop :: "('d, 't, 'm, 'i, 'x) ecu_env \<Rightarrow> nat \<Rightarrow> 'm \<Rightarrow> 'd interproc_msg option list \<times> 'm" where
  "read_loop env 0 q = ([], q)"
| "read_loop env (Suc n) q =
     (case get_msg env q of (out_msg, q) \<Rightarrow> case read_loop env n q of (ms, q) \<Rightarrow> (out_msg # ms, q))"

definition ioctl_read ::
  "('d, 't, 'm, 'i, 'x) ecu_env \<Rightarrow> nat \<Rightarrow> ('d, 't, 'm, 'i, 'x) ecu \<Rightarrow>
    int \<times> 'd interproc_msg option list \<times> ('d, 't, 'm, 'i, 'x) ecu" where
  "ioctl_read env len s =
     (let num_msgs = len div sizeof_msg env;
          expected_len = sizeof_msg env * num_msgs
      in if len \<noteq> expected_len then (0, [], s)
         else let num_stored_msgs = size_msg env (fifo_external_msg s)
              in if 0 = num_stored_msgs then (0, [], s)
                 else let num_output_msgs = min num_msgs num_stored_msgs
                      in case read_loop env num_output_msgs (fifo_external_msg s) of
                           (ms, q) \<Rightarrow> (int (num_output_msgs * sizeof_msg env), ms, s\<lparr>fifo_external_msg := q\<rparr>))"

definition mark :: "('d, 't, 'm, 'i, 'x) ecu_env \<Rightarrow> u8 \<Rightarrow> ('d, 't, 'm, 'i, 'x) ecu \<Rightarrow> bool \<times> ('d, 't, 'm, 'i, 'x) ecu" where
  "mark env ty s = (case put_type env ty (fifo_send_types s) of (done, q) \<Rightarrow> (done, s\<lparr>fifo_send_types := q\<rparr>))"

text \<open>The loop that sends the messages of a \<open>write\<close>; \<open>i\<close> is its counter and the result the bytes written.\<close>

primrec write_loop ::
  "('d, 't, 'm, 'i, 'x) ecu_env \<Rightarrow> 'd ecu_io \<Rightarrow> nat \<Rightarrow> 'd interproc_msg list \<Rightarrow> ('d, 't, 'm, 'i, 'x) ecu \<Rightarrow>
    (int \<times> ('d, 't, 'm, 'i, 'x) ecu) option" where
  "write_loop env io i [] s = Some (0, s)"
| "write_loop env io i (msg # msgs) s =
     (case global_rproc_ref s of
        None \<Rightarrow> None
      | Some _ \<Rightarrow>
          if rpmsg_send io i \<noteq> 0 then Some (0, s)
          else let s = s\<lparr>sent := sent s @ [msg]\<rparr>;
                   s = snd (mark env SENT_MSG_EXTERNAL_FIFO s)
               in map_option (\<lambda>(n, s). (int (sizeof_msg env) + n, s)) (write_loop env io (Suc i) msgs s))"

definition crc_ok :: "('d, 't, 'm, 'i, 'x) ecu_env \<Rightarrow> 'd interproc_msg \<Rightarrow> bool" where
  "crc_ok env msg \<longleftrightarrow> checksum msg = calc_crc env msg"

definition ioctl_write ::
  "('d, 't, 'm, 'i, 'x) ecu_env \<Rightarrow> 'd ecu_io \<Rightarrow> nat \<Rightarrow> ('d, 't, 'm, 'i, 'x) ecu \<Rightarrow>
    (int \<times> ('d, 't, 'm, 'i, 'x) ecu) option" where
  "ioctl_write env io len s =
     (let s = snd (mark env SENT_MSG_EXTERNAL_FIFO s);
          num_msgs = len div sizeof_msg env;
          expected_len = sizeof_msg env * num_msgs
      in if len \<noteq> expected_len then Some (0, s)
         else if \<not> vmalloc_ok io \<and> 0 < len then None
         else let s = (if vmalloc_ok io then s\<lparr>vm_live := vm_live s + 1\<rparr> else s)
              in case from_user_msgs io of
                   None \<Rightarrow> Some (0, s)
                 | Some msg_list \<Rightarrow>
                     if \<not> (\<forall>msg \<in> set (take num_msgs msg_list). crc_ok env msg) then Some (0, s)
                     else write_loop env io 0 (take num_msgs msg_list) s)"

section \<open>The control calls\<close>

definition ioctl_set_state ::
  "'d ecu_io \<Rightarrow> ('d, 't, 'm, 'i, 'x) ecu \<Rightarrow> (int \<times> 'd user_out \<times> ('d, 't, 'm, 'i, 'x) ecu) option" where
  "ioctl_set_state io s =
     (case from_user_value io of
        None \<Rightarrow> Some (- EINVAL, No_Out, s)
      | Some v \<Rightarrow> Some (0, No_Out, s\<lparr>st_value := v\<rparr>))"

definition ioctl_get_state ::
  "'d ecu_io \<Rightarrow> ('d, 't, 'm, 'i, 'x) ecu \<Rightarrow> (int \<times> 'd user_out \<times> ('d, 't, 'm, 'i, 'x) ecu) option" where
  "ioctl_get_state io s =
     (if \<not> to_user_ok io then Some (- EINVAL, No_Out, s) else Some (0, Out_Value (st_value s), s))"

definition ping_msg :: "('d, 't, 'm, 'i, 'x) ecu_env \<Rightarrow> 'd interproc_msg" where
  "ping_msg env =
     (let msg = \<lparr>command = CMD_PING env, data = zero_data env, checksum = 0\<rparr>
      in msg\<lparr>checksum := calc_crc env msg\<rparr>)"

definition ioctl_ping_rproc ::
  "('d, 't, 'm, 'i, 'x) ecu_env \<Rightarrow> 'd ecu_io \<Rightarrow> ('d, 't, 'm, 'i, 'x) ecu \<Rightarrow>
    (int \<times> 'd user_out \<times> ('d, 't, 'm, 'i, 'x) ecu) option" where
  "ioctl_ping_rproc env io s =
     (case global_rproc_ref s of
        None \<Rightarrow> Some (- EINVAL, No_Out, s)
      | Some dev \<Rightarrow>
          if dev_offline io dev then Some (- EINVAL, No_Out, s)
          else let ret = rpmsg_send io 0
               in if ret \<noteq> 0 then Some (ret, No_Out, s)
                  else case mark env SENT_MSG_INTERNAL (s\<lparr>sent := sent s @ [ping_msg env]\<rparr>) of
                         (done, s) \<Rightarrow> Some (if done then 0 else - EINVAL, No_Out, s))"

text \<open>
  What \<open>STM32ECU_SEND_MSG\<close> does once the message is on the channel: it marks the request, takes a slot and queues the
  number of the slot. Each may fail; the message has been sent then all the same.
\<close>

definition assign_number ::
  "('d, 't, 'm, 'i, 'x) ecu_env \<Rightarrow> ('d, 't, 'm, 'i, 'x) ecu \<Rightarrow> u32 option \<times> ('d, 't, 'm, 'i, 'x) ecu" where
  "assign_number env s =
     (case xa_alloc_cyclic env (rx_unique_buffer s) (1, 1024) (next_uid s) of
        (None, xa) \<Rightarrow> (None, s\<lparr>rx_unique_buffer := xa\<rparr>)
      | (Some (uid, nxt), xa) \<Rightarrow> (Some uid, s\<lparr>rx_unique_buffer := xa, next_uid := nxt\<rparr>))"

definition queue_number ::
  "('d, 't, 'm, 'i, 'x) ecu_env \<Rightarrow> u32 \<Rightarrow> ('d, 't, 'm, 'i, 'x) ecu \<Rightarrow> bool \<times> ('d, 't, 'm, 'i, 'x) ecu" where
  "queue_number env uid s =
     (case put_id env uid (fifo_unique_ids s) of (done, q) \<Rightarrow> (done, s\<lparr>fifo_unique_ids := q\<rparr>))"

definition register_request ::
  "('d, 't, 'm, 'i, 'x) ecu_env \<Rightarrow> ('d, 't, 'm, 'i, 'x) ecu \<Rightarrow> u32 option \<times> ('d, 't, 'm, 'i, 'x) ecu" where
  "register_request env s =
     (case mark env SENT_MSG_EXTERNAL_UNIQUE s of
        (done, s) \<Rightarrow>
          if \<not> done then (None, s)
          else case assign_number env s of
                 (None, s) \<Rightarrow> (None, s)
               | (Some uid, s) \<Rightarrow>
                   case queue_number env uid s of (done, s) \<Rightarrow> (if done then Some uid else None, s))"

definition ioctl_send_msg ::
  "('d, 't, 'm, 'i, 'x) ecu_env \<Rightarrow> 'd ecu_io \<Rightarrow> ('d, 't, 'm, 'i, 'x) ecu \<Rightarrow>
    (int \<times> 'd user_out \<times> ('d, 't, 'm, 'i, 'x) ecu) option" where
  "ioctl_send_msg env io s =
     (case from_user_msg io of
        None \<Rightarrow> Some (- EINVAL, No_Out, s)
      | Some msg \<Rightarrow>
          case global_rproc_ref s of
            None \<Rightarrow> None
          | Some _ \<Rightarrow>
              let ret = rpmsg_send io 0
              in if ret \<noteq> 0 then Some (ret, No_Out, s)
                 else case register_request env (s\<lparr>sent := sent s @ [msg]\<rparr>) of
                        (None, s) \<Rightarrow> Some (- EINVAL, No_Out, s)
                      | (Some uid, s) \<Rightarrow>
                          if \<not> to_user_ok io then Some (- EINVAL, No_Out, s) else Some (0, Out_Id uid, s))"

definition ioctl_recv_msg ::
  "('d, 't, 'm, 'i, 'x) ecu_env \<Rightarrow> 'd ecu_io \<Rightarrow> ('d, 't, 'm, 'i, 'x) ecu \<Rightarrow>
    (int \<times> 'd user_out \<times> ('d, 't, 'm, 'i, 'x) ecu) option" where
  "ioctl_recv_msg env io s =
     (case from_user_id io of
        None \<Rightarrow> Some (- EINVAL, No_Out, s)
      | Some uid \<Rightarrow>
          if xa_load env (rx_unique_buffer s) uid = None then Some (- EAGAIN, No_Out, s)
          else case xa_erase env (rx_unique_buffer s) uid of
                 (msg, xa) \<Rightarrow>
                   let s = s\<lparr>rx_unique_buffer := xa\<rparr>
                   in if \<not> to_user_ok io then Some (- EINVAL, No_Out, s)
                      else map_option (\<lambda>msg. (0, Out_Msg msg, s)) msg)"

fun ioctl_call ::
  "('d, 't, 'm, 'i, 'x) ecu_env \<Rightarrow> 'd ecu_io \<Rightarrow> cmd \<Rightarrow> ('d, 't, 'm, 'i, 'x) ecu \<Rightarrow>
    (int \<times> 'd user_out \<times> ('d, 't, 'm, 'i, 'x) ecu) option" where
  "ioctl_call env io STM32ECU_RESET s = Some (0, No_Out, s)"
| "ioctl_call env io STM32ECU_OFFLINE s = Some (0, No_Out, s)"
| "ioctl_call env io STM32ECU_SET_STATE s = ioctl_set_state io s"
| "ioctl_call env io STM32ECU_GET_STATE s = ioctl_get_state io s"
| "ioctl_call env io STM32ECU_PING_RPROC s = ioctl_ping_rproc env io s"
| "ioctl_call env io STM32ECU_SEND_MSG s = ioctl_send_msg env io s"
| "ioctl_call env io STM32ECU_RECV_MSG s = ioctl_recv_msg env io s"
| "ioctl_call env io (Other_Cmd _) s = Some (0, No_Out, s)"

datatype poll_event = POLLIN | POLLRDNORM | POLLOUT | POLLWRNORM

definition poll_cb :: "('d, 't, 'm, 'i, 'x) ecu_env \<Rightarrow> ('d, 't, 'm, 'i, 'x) ecu \<Rightarrow> poll_event set" where
  "poll_cb env s =
     (let mask = {POLLOUT, POLLWRNORM}
      in if \<not> is_empty_msg env (fifo_external_msg s) then mask \<union> {POLLIN, POLLRDNORM} else mask)"

section \<open>The channel\<close>

text \<open>
  The callback for an incoming message. \<open>stack_id\<close> is what the local variable \<open>id\<close> holds before it is
  assigned.
\<close>

definition store_unique ::
  "('d, 't, 'm, 'i, 'x) ecu_env \<Rightarrow> 'd ecu_io \<Rightarrow> u32 \<Rightarrow> 'd interproc_msg \<Rightarrow> ('d, 't, 'm, 'i, 'x) ecu \<Rightarrow>
    (int \<times> ('d, 't, 'm, 'i, 'x) ecu) option" where
  "store_unique env io stack_id msg s =
     (case get_id env (fifo_unique_ids s) of
        (got, q) \<Rightarrow>
          let uid = (case got of Some i \<Rightarrow> i | None \<Rightarrow> stack_id);
              s = s\<lparr>fifo_unique_ids := q\<rparr>
          in if \<not> vmalloc_ok io then None
             else let s = s\<lparr>vm_live := vm_live s + 1\<rparr>
                  in case xa_store env (rx_unique_buffer s) uid msg of
                       (err, xa) \<Rightarrow> Some (if err then - EINVAL else 0, s\<lparr>rx_unique_buffer := xa\<rparr>))"

definition rpmsg_sample_cb ::
  "('d, 't, 'm, 'i, 'x) ecu_env \<Rightarrow> 'd ecu_io \<Rightarrow> u32 \<Rightarrow> nat \<Rightarrow> 'd interproc_msg option \<Rightarrow> nat \<Rightarrow>
    ('d, 't, 'm, 'i, 'x) ecu \<Rightarrow> (int \<times> ('d, 't, 'm, 'i, 'x) ecu) option" where
  "rpmsg_sample_cb env io stack_id rpdev payload len s =
     (case drvdata s rpdev of
        None \<Rightarrow> None
      | Some rx_count \<Rightarrow>
          let s = s\<lparr>drvdata := (drvdata s)(rpdev \<mapsto> rx_count + 1)\<rparr>
          in case (if len = sizeof_msg env then payload else None) of
               None \<Rightarrow> Some (0, s)
             | Some msg \<Rightarrow>
                 case get_type env (fifo_send_types s) of
                   (None, q) \<Rightarrow> Some (- EINVAL, s\<lparr>fifo_send_types := q\<rparr>)
                 | (Some sent_type, q) \<Rightarrow>
                     let s = s\<lparr>fifo_send_types := q\<rparr>
                     in if \<not> crc_ok env msg then Some (0, s)
                        else if sent_type = SENT_MSG_EXTERNAL_FIFO then
                          (case put_msg env msg (fifo_external_msg s) of
                             (done, q) \<Rightarrow> Some (if done then 0 else - EINVAL, s\<lparr>fifo_external_msg := q\<rparr>))
                        else if sent_type = SENT_MSG_EXTERNAL_UNIQUE then store_unique env io stack_id msg s
                        else Some (0, s))"

definition rpmsg_sample_probe :: "bool \<Rightarrow> nat \<Rightarrow> ('d, 't, 'm, 'i, 'x) ecu \<Rightarrow> int \<times> ('d, 't, 'm, 'i, 'x) ecu" where
  "rpmsg_sample_probe kzalloc_ok rpdev s =
     (if \<not> kzalloc_ok then (- ENOMEM, s)
      else (0, s\<lparr>drvdata := (drvdata s)(rpdev \<mapsto> 0), global_rproc_ref := Some rpdev\<rparr>))"

definition rpmsg_sample_remove :: "nat \<Rightarrow> ('d, 't, 'm, 'i, 'x) ecu \<Rightarrow> ('d, 't, 'm, 'i, 'x) ecu" where
  "rpmsg_sample_remove rpdev s = s"

section \<open>Loading and unloading the module\<close>

text \<open>
  What the module has registered with the kernel. \<open>class_create\<close> and \<open>device_create\<close> report a failure by an
  error pointer; the module compares with the null pointer.
\<close>

datatype kptr = KNull | KErr | KObj

record regs =
  chrdev_region :: bool
  cdev_fops :: bool
  cdev_added :: bool
  dev_class :: kptr
  my_device :: kptr
  rpmsg_driver :: bool

record init_io =
  alloc_chrdev_region :: int
  cdev_add :: int
  class_create :: kptr
  device_create :: kptr
  register_rpmsg_driver :: int

definition stm32ecu_init :: "init_io \<Rightarrow> regs \<Rightarrow> int \<times> regs" where
  "stm32ecu_init io r =
     (if alloc_chrdev_region io < 0 then (- 1, r)
      else let r = r\<lparr>chrdev_region := True, cdev_fops := True\<rparr>;
               r_class = (\<lambda>r. (- 1, r\<lparr>chrdev_region := False\<rparr>));
               r_device = (\<lambda>r. r_class (r\<lparr>dev_class := KNull\<rparr>))
           in if cdev_add io < 0 then r_class r
              else let r = r\<lparr>cdev_added := True, dev_class := class_create io\<rparr>
                   in if class_create io = KNull then r_class r
                      else let r = r\<lparr>my_device := device_create io\<rparr>
                           in if device_create io = KNull then r_device r
                              else if register_rpmsg_driver io < 0 then (- 1, r)
                              else (0, r\<lparr>rpmsg_driver := True\<rparr>))"

definition stm32ecu_exit ::
  "('d, 't, 'm, 'i, 'x) ecu_env \<Rightarrow> regs \<times> ('d, 't, 'm, 'i, 'x) ecu \<Rightarrow> regs \<times> ('d, 't, 'm, 'i, 'x) ecu" where
  "stm32ecu_exit env = (\<lambda>(r, s).
     (r\<lparr>my_device := KNull, dev_class := KNull, chrdev_region := False, rpmsg_driver := False\<rparr>,
      s\<lparr>vm_live := vm_live s - xa_entries env (rx_unique_buffer s),
        rx_unique_buffer := xa_destroy env (rx_unique_buffer s),
        fifo_send_types := free_type env (fifo_send_types s),
        fifo_external_msg := free_msg env (fifo_external_msg s),
        fifo_unique_ids := free_id env (fifo_unique_ids s)\<rparr>))"

section \<open>Traffic\<close>

text \<open>
  The programs that hold the device file, counted: a successful \<open>open\<close> adds one, and only a holder releases.
\<close>

inductive file_step ::
  "nat \<times> ('d, 't, 'm, 'i, 'x) ecu \<Rightarrow> nat \<times> ('d, 't, 'm, 'i, 'x) ecu \<Rightarrow> bool" where
  opened: "ioctl_open s = (0, s') \<Longrightarrow> file_step (h, s) (Suc h, s')"
| refused: "ioctl_open s = (r, s') \<Longrightarrow> r \<noteq> 0 \<Longrightarrow> file_step (h, s) (h, s')"
| released: "ioctl_release s = (r, s') \<Longrightarrow> file_step (Suc h, s) (h, s')"

inductive_cases file_stepE: "file_step x y"

lemma file_step_count:
  "file_step x y \<Longrightarrow> device_open (snd x) = int (fst x) \<and> fst x \<le> 1 \<Longrightarrow> device_open (snd y) = int (fst y) \<and> fst y \<le> 1"
  by (erule file_stepE) (auto simp: ioctl_open_def ioctl_release_def EBUSY_def split: if_splits)

text \<open>
  The use of the driver through the control calls. A request and a ping are not one step: the channel callback may
  run between any two of their accesses to the shared queues, so \<open>progress\<close> says how far the call under way has
  come. One request or ping is under way at a time (the device file is exclusive); user programs may ask for
  responses, and make the other calls, at any time.

  The list holds the requests that are registered and not answered yet, in the order in which they were sent: the slot
  number for a request and \<open>None\<close> for a ping. Every outcome of a call and every incoming message is a step. The flag
  is set, for good, when a step upsets the book-keeping: a mark, a slot or the number of a slot could not be had for a
  message that was already sent; an answer arrived before its request was marked and queued; or an answer had the wrong
  length, or a wrong checksum although a slot waits for it. A message that comes when nothing was asked is no answer
  and does not set it.
\<close>

datatype progress = Idle | Ping_Sent | Request_Sent | Request_Marked | Request_Numbered u32

type_synonym ('d, 't, 'm, 'i, 'x) traffic_state =
  "progress \<times> u32 option list \<times> bool \<times> ('d, 't, 'm, 'i, 'x) ecu"

definition in_order ::
  "('d, 't, 'm, 'i, 'x) ecu_env \<Rightarrow> progress \<Rightarrow> u32 option list \<Rightarrow> 'd interproc_msg option \<Rightarrow> nat \<Rightarrow> bool" where
  "in_order env c p payload len \<longleftrightarrow>
     (case p of
        [] \<Rightarrow> c = Idle
      | q # _ \<Rightarrow> len = sizeof_msg env \<and> (case payload of None \<Rightarrow> False | Some m \<Rightarrow> q = None \<or> crc_ok env m))"

inductive traffic ::
  "('d, 't, 'm, 'i, 'x) ecu_env \<Rightarrow> ('d, 't, 'm, 'i, 'x) traffic_state \<Rightarrow> ('d, 't, 'm, 'i, 'x) traffic_state \<Rightarrow> bool"
  for env where
  request_sent: "from_user_msg (io :: 'd ecu_io) = Some m \<Longrightarrow> global_rproc_ref s = Some d \<Longrightarrow> rpmsg_send io 0 = 0 \<Longrightarrow>
    traffic env (Idle, p, b, s) (Request_Sent, p, b, s\<lparr>sent := sent s @ [m]\<rparr>)"
| request_marked: "mark env SENT_MSG_EXTERNAL_UNIQUE s = (ok, s') \<Longrightarrow>
    traffic env (Request_Sent, p, b, s) (if ok then Request_Marked else Idle, p, b \<or> \<not> ok, s')"
| request_numbered: "assign_number env s = (Some u, s') \<Longrightarrow>
    traffic env (Request_Marked, p, b, s) (Request_Numbered u, p, b, s')"
| request_unnumbered: "assign_number env s = (None, s') \<Longrightarrow> traffic env (Request_Marked, p, b, s) (Idle, p, True, s')"
| request_queued: "queue_number env u s = (ok, s') \<Longrightarrow>
    traffic env (Request_Numbered u, p, b, s) (Idle, if ok then p @ [Some u] else p, b \<or> \<not> ok, s')"
| ping_sent: "global_rproc_ref s = Some d \<Longrightarrow> \<not> dev_offline (io :: 'd ecu_io) d \<Longrightarrow> rpmsg_send io 0 = 0 \<Longrightarrow>
    traffic env (Idle, p, b, s) (Ping_Sent, p, b, s\<lparr>sent := sent s @ [ping_msg env]\<rparr>)"
| ping_marked: "mark env SENT_MSG_INTERNAL s = (ok, s') \<Longrightarrow>
    traffic env (Ping_Sent, p, b, s) (Idle, if ok then p @ [None] else p, b \<or> \<not> ok, s')"
| incoming: "rpmsg_sample_cb env io g dev payload len s = Some (r, s') \<Longrightarrow>
    traffic env (c, p, b, s) (c, tl p, b \<or> \<not> in_order env c p payload len, s')"
| other_call: "cmd \<noteq> STM32ECU_SEND_MSG \<Longrightarrow> cmd \<noteq> STM32ECU_PING_RPROC \<Longrightarrow> ioctl_call env io cmd s = Some (r, out, s') \<Longrightarrow>
    traffic env (c, p, b, s) (c, p, b, s')"

inductive_cases trafficE: "traffic env x y"

text \<open>The flag stays set.\<close>

lemma traffic_flag: "traffic env x y \<Longrightarrow> fst (snd (snd x)) \<Longrightarrow> fst (snd (snd y))"
  by (erule trafficE) auto

text \<open>
  No outcome of a call is left out: a control call that is made when none is under way, and comes back, is a run of steps; it
  adds the number it hands out, and sets the flag at most when it fails.
\<close>

lemma register_is_traffic:
  assumes "register_request env s = (num, s')"
  shows "\<exists>b'. (traffic env)\<^sup>*\<^sup>* (Request_Sent, p, b, s) (Idle, case num of None \<Rightarrow> p | Some u \<Rightarrow> p @ [Some u], b', s') \<and>
    (num \<noteq> None \<longrightarrow> b' = b)"
proof -
  obtain ok s1 where mk: "mark env SENT_MSG_EXTERNAL_UNIQUE s = (ok, s1)" by (rule prod.exhaust)
  note marked = r_into_rtranclp[of "traffic env", OF traffic.request_marked[OF mk, of p b]]
  obtain n s2 where nu: "assign_number env s1 = (n, s2)" by (rule prod.exhaust)
  consider "\<not> ok" | "ok" "n = None" | u where "ok" "n = Some u" by blast
  then show ?thesis
  proof cases
    case 1
    with assms mk have "num = None" "s' = s1" by (simp_all add: register_request_def)
    then show ?thesis using marked 1 by auto
  next
    case 2
    with assms mk nu have "num = None" "s' = s2" by (simp_all add: register_request_def)
    moreover have "(traffic env)\<^sup>*\<^sup>* (Request_Sent, p, b, s) (Idle, p, True, s2)"
      using rtranclp.rtrancl_into_rtrancl[OF marked, of "(Idle, p, True, s2)"] traffic.request_unnumbered[of env s1 s2 p b] nu 2 by auto
    ultimately show ?thesis by auto
  next
    case 3
    obtain ok' s3 where qu: "queue_number env u s2 = (ok', s3)" by (rule prod.exhaust)
    have "(traffic env)\<^sup>*\<^sup>* (Request_Sent, p, b, s) (Request_Numbered u, p, b, s2)"
      using rtranclp.rtrancl_into_rtrancl[OF marked, of "(Request_Numbered u, p, b, s2)"] traffic.request_numbered[of env s1 u s2 p b] nu 3
      by auto
    note queued = rtranclp.rtrancl_into_rtrancl[OF this traffic.request_queued[OF qu]]
    have "num = (if ok' then Some u else None)" "s' = s3" using assms mk nu qu 3 by (simp_all add: register_request_def)
    then show ?thesis using queued by (cases ok') auto
  qed
qed

lemma send_is_traffic:
  assumes "ioctl_send_msg env io s = Some (r, out, s')"
  shows "\<exists>p' b'. (traffic env)\<^sup>*\<^sup>* (Idle, p, b, s) (Idle, p', b', s') \<and> (r = 0 \<longrightarrow> (\<exists>u. out = Out_Id u \<and> p' = p @ [Some u]) \<and> b' = b)"
proof (cases "s' = s \<and> r \<noteq> 0")
  case True
  then show ?thesis by blast
next
  case False
  obtain msg d where m: "from_user_msg io = Some msg" "global_rproc_ref s = Some d" "rpmsg_send io 0 = 0"
    using assms False by (auto simp: ioctl_send_msg_def Let_def EINVAL_def split: option.splits if_splits)
  obtain num s1 where r: "register_request env (s\<lparr>sent := sent s @ [msg]\<rparr>) = (num, s1)" by (rule prod.exhaust)
  obtain b' where b': "(traffic env)\<^sup>*\<^sup>* (Request_Sent, p, b, s\<lparr>sent := sent s @ [msg]\<rparr>)
      (Idle, case num of None \<Rightarrow> p | Some u \<Rightarrow> p @ [Some u], b', s1)" "num \<noteq> None \<longrightarrow> b' = b"
    using register_is_traffic[OF r, of p b] by blast
  have "(traffic env)\<^sup>*\<^sup>* (Idle, p, b, s) (Idle, case num of None \<Rightarrow> p | Some u \<Rightarrow> p @ [Some u], b', s1)"
    by (rule converse_rtranclp_into_rtranclp[OF traffic.request_sent[OF m] b'(1)])
  moreover have "s' = s1" "r = 0 \<longrightarrow> (\<exists>u. num = Some u \<and> out = Out_Id u)"
    using assms m r by (auto simp: ioctl_send_msg_def EINVAL_def split: option.splits if_splits)
  ultimately show ?thesis using b'(2) by (intro exI[of _ "case num of None \<Rightarrow> p | Some u \<Rightarrow> p @ [Some u]"] exI[of _ b']) auto
qed

lemma ping_is_traffic:
  assumes "ioctl_ping_rproc env io s = Some (r, out, s')"
  shows "\<exists>p' b'. (traffic env)\<^sup>*\<^sup>* (Idle, p, b, s) (Idle, p', b', s') \<and> (r = 0 \<longrightarrow> p' = p @ [None] \<and> b' = b)"
proof (cases "s' = s \<and> r \<noteq> 0")
  case True
  then show ?thesis by blast
next
  case False
  obtain d where m: "global_rproc_ref s = Some d" "\<not> dev_offline io d" "rpmsg_send io 0 = 0"
    using assms False by (auto simp: ioctl_ping_rproc_def Let_def EINVAL_def split: option.splits if_splits)
  note start = r_into_rtranclp[of "traffic env", OF traffic.ping_sent[OF m, where p = p and b = b]]
  obtain ok s1 where mk: "mark env SENT_MSG_INTERNAL (s\<lparr>sent := sent s @ [ping_msg env]\<rparr>) = (ok, s1)" by (rule prod.exhaust)
  note marked = rtranclp.rtrancl_into_rtrancl[OF start traffic.ping_marked[OF mk]]
  then show ?thesis
    using assms m mk by (auto simp: ioctl_ping_rproc_def EINVAL_def split: if_splits)
qed

lemma calls_are_traffic:
  assumes "ioctl_call env io cmd s = Some (r, out, s')"
  shows "\<exists>p' b'. (traffic env)\<^sup>*\<^sup>* (Idle, p, b, s) (Idle, p', b', s') \<and>
    (\<forall>u. out = Out_Id u \<longrightarrow> p' = p @ [Some u]) \<and> (r = 0 \<longrightarrow> b' = b)"
proof (cases "cmd = STM32ECU_SEND_MSG \<or> cmd = STM32ECU_PING_RPROC")
  case False
  have "out \<noteq> Out_Id u" for u
    using assms False
    by (cases cmd) (auto simp: ioctl_set_state_def ioctl_get_state_def ioctl_recv_msg_def Let_def
        split: option.splits if_splits prod.splits)
  then show ?thesis using traffic.other_call[OF _ _ assms, where p = p and b = b and c = Idle] False by blast
next
  case True
  have zero: "r = 0" if "cmd = STM32ECU_SEND_MSG" "out = Out_Id u" for u
    using assms that by (auto simp: ioctl_send_msg_def Let_def split: option.splits if_splits prod.splits)
  have none: "out \<noteq> Out_Id u" if "cmd = STM32ECU_PING_RPROC" for u
    using assms that by (auto simp: ioctl_ping_rproc_def Let_def split: option.splits if_splits prod.splits)
  show ?thesis
  proof (cases "cmd = STM32ECU_SEND_MSG")
    case True
    with assms obtain p' b' where "(traffic env)\<^sup>*\<^sup>* (Idle, p, b, s) (Idle, p', b', s')"
        "r = 0 \<longrightarrow> (\<exists>u. out = Out_Id u \<and> p' = p @ [Some u]) \<and> b' = b"
      using send_is_traffic[of env io s r out s' p b] by auto
    then show ?thesis using zero[OF True] by (intro exI[of _ p'] exI[of _ b']) auto
  next
    case False
    with True assms obtain p' b' where "(traffic env)\<^sup>*\<^sup>* (Idle, p, b, s) (Idle, p', b', s')" "r = 0 \<longrightarrow> p' = p @ [None] \<and> b' = b"
      using ping_is_traffic[of env io s r out s' p b] by auto
    then show ?thesis using none False True by (intro exI[of _ p'] exI[of _ b']) auto
  qed
qed

text \<open>A series of responses with the outcomes \<open>io\<close>, each of which the callback accepts.\<close>

primrec respond_all ::
  "('d, 't, 'm, 'i, 'x) ecu_env \<Rightarrow> 'd ecu_io \<Rightarrow> nat \<Rightarrow> 'd interproc_msg list \<Rightarrow> ('d, 't, 'm, 'i, 'x) ecu \<Rightarrow>
    ('d, 't, 'm, 'i, 'x) ecu option" where
  "respond_all env io dev [] s = Some s"
| "respond_all env io dev (m # ms) s =
     (case rpmsg_sample_cb env io 0 dev (Some m) (sizeof_msg env) s of
        Some (r, s') \<Rightarrow> if r = 0 then respond_all env io dev ms s' else None
      | None \<Rightarrow> None)"

section \<open>What the driver relies on\<close>

text \<open>
  The array of slots, seen as a map: an absent entry is free, \<open>Some None\<close> is allocated and holds no message yet,
  \<open>Some (Some m)\<close> holds \<open>m\<close>. An allocation reserves a free index within the limits and stores the null pointer
  there, a store at an allocated index does not fail, erasing returns the entry and frees the index.
\<close>

definition xa_conforms ::
  "('d, 't, 'm, 'i, 'x) ecu_env \<Rightarrow> ('x \<Rightarrow> u32 \<Rightarrow> 'd interproc_msg option option) \<Rightarrow> bool" where
  "xa_conforms env xv \<longleftrightarrow>
     (\<forall>x nxt. case xa_alloc_cyclic env x (1, 1024) nxt of
        (None, x') \<Rightarrow> xv x' = xv x
      | (Some (i, _), x') \<Rightarrow> 1 \<le> i \<and> i \<le> 1024 \<and> xv x i = None \<and> xv x' = (xv x)(i \<mapsto> None)) \<and>
     (\<forall>x i. xa_load env x i = (case xv x i of Some e \<Rightarrow> e | None \<Rightarrow> None)) \<and>
     (\<forall>x i. case xa_erase env x i of (m, x') \<Rightarrow> m = xa_load env x i \<and> xv x' = (xv x)(i := None)) \<and>
     (\<forall>x i m. case xa_store env x i m of
        (err, x') \<Rightarrow> (xv x i \<noteq> None \<longrightarrow> \<not> err) \<and> xv x' = (if err then xv x else (xv x)(i \<mapsto> Some m)))"

lemma xa_conforms_alloc:
  assumes "xa_conforms env xv" "xa_alloc_cyclic env x (1, 1024) nxt = (Some (i, n), x')"
  shows "1 \<le> i \<and> i \<le> 1024 \<and> xv x i = None \<and> xv x' = (xv x)(i \<mapsto> None)"
proof -
  have "\<forall>x nxt. case xa_alloc_cyclic env x (1, 1024) nxt of
        (None, x') \<Rightarrow> xv x' = xv x
      | (Some (i, _), x') \<Rightarrow> 1 \<le> i \<and> i \<le> 1024 \<and> xv x i = None \<and> xv x' = (xv x)(i \<mapsto> None)"
    using assms(1) unfolding xa_conforms_def by (rule conjunct1)
  from this[rule_format, of x nxt] show ?thesis unfolding assms(2) by simp
qed

lemma xa_conforms_load: "xa_conforms env xv \<Longrightarrow> xa_load env x i = (case xv x i of Some e \<Rightarrow> e | None \<Rightarrow> None)"
  by (simp add: xa_conforms_def)

lemma xa_conforms_erase:
  assumes "xa_conforms env xv" "xa_erase env x i = (m, x')"
  shows "m = xa_load env x i \<and> xv x' = (xv x)(i := None)"
proof -
  have "\<forall>x i. case xa_erase env x i of (m, x') \<Rightarrow> m = xa_load env x i \<and> xv x' = (xv x)(i := None)"
    using assms(1) unfolding xa_conforms_def by (elim conjE)
  from this[rule_format, of x i] show ?thesis unfolding assms(2) by simp
qed

lemma xa_conforms_store:
  assumes "xa_conforms env xv" "xv x i \<noteq> None" "xa_store env x i m = (err, x')"
  shows "\<not> err \<and> xv x' = (xv x)(i \<mapsto> Some m)"
proof -
  have "\<forall>x i m. case xa_store env x i m of
      (err, x') \<Rightarrow> (xv x i \<noteq> None \<longrightarrow> \<not> err) \<and> xv x' = (if err then xv x else (xv x)(i \<mapsto> Some m))"
    using assms(1) unfolding xa_conforms_def by (elim conjE)
  from this[rule_format, of x i m] show ?thesis using assms(2) unfolding assms(3) by simp
qed

text \<open>The driver on three bounded queues, of the capacities it declares, and an array of slots.\<close>

locale ecu_setting =
  fixes env :: "('d, 't, 'm, 'i, 'x) ecu_env"
    and tv :: "'t \<Rightarrow> u8 list" and tok :: "'t \<Rightarrow> bool"
    and mv :: "'m \<Rightarrow> 'd interproc_msg list" and mok :: "'m \<Rightarrow> bool"
    and iv :: "'i \<Rightarrow> u32 list" and iok :: "'i \<Rightarrow> bool"
    and xv :: "'x \<Rightarrow> u32 \<Rightarrow> 'd interproc_msg option option"
  assumes types_fifo: "bounded_fifo (put_type env) (get_type env) tv 512 tok"
    and msgs_fifo: "bounded_fifo (put_msg env) (get_msg env) mv 256 mok"
    and ids_fifo: "bounded_fifo (put_id env) (get_id env) iv 256 iok"
    and msgs_size: "mok q \<Longrightarrow> size_msg env q = 256"
    and msgs_empty: "mok q \<Longrightarrow> is_empty_msg env q \<longleftrightarrow> mv q = []"
    and slots: "xa_conforms env xv"
    and msg_sized: "0 < sizeof_msg env"

sublocale ecu_setting \<subseteq> types: bounded_fifo "put_type env" "get_type env" tv 512 tok
  by (rule types_fifo)

sublocale ecu_setting \<subseteq> msgs: bounded_fifo "put_msg env" "get_msg env" mv 256 mok
  by (rule msgs_fifo)

sublocale ecu_setting \<subseteq> ids: bounded_fifo "put_id env" "get_id env" iv 256 iok
  by (rule ids_fifo)

context ecu_setting
begin

definition wf :: "('d, 't, 'm, 'i, 'x) ecu \<Rightarrow> bool" where
  "wf s \<longleftrightarrow> tok (fifo_send_types s) \<and> mok (fifo_external_msg s) \<and> iok (fifo_unique_ids s)"

lemma mark_spec:
  assumes "tok (fifo_send_types s)"
  shows "\<exists>q. mark env ty s = (length (tv (fifo_send_types s)) < 512, s\<lparr>fifo_send_types := q\<rparr>) \<and> tok q \<and>
    tv q = (if length (tv (fifo_send_types s)) < 512 then tv (fifo_send_types s) @ [ty] else tv (fifo_send_types s))"
  using types.put_fst[OF assms, of ty] types.put_view[OF assms, of ty] types.put_ok[OF assms, of ty]
  by (auto simp: mark_def split: prod.splits)

lemma assign_number_spec:
  assumes "assign_number env s = (Some u, s')"
  shows "\<exists>x n. s' = s\<lparr>rx_unique_buffer := x, next_uid := n\<rparr> \<and> xv (rx_unique_buffer s) u = None \<and>
    xv x = (xv (rx_unique_buffer s))(u \<mapsto> None)"
  using assms xa_conforms_alloc[OF slots]
  by (fastforce simp: assign_number_def split: prod.splits option.splits)

lemma queue_number_spec:
  assumes "iok (fifo_unique_ids s)" "queue_number env u s = (True, s')"
  shows "\<exists>i. s' = s\<lparr>fifo_unique_ids := i\<rparr> \<and> iok i \<and> iv i = iv (fifo_unique_ids s) @ [u]"
  using assms(2) ids.put_fst[OF assms(1), of u] ids.put_view[OF assms(1), of u] ids.put_ok[OF assms(1), of u]
  by (auto simp: queue_number_def split: prod.splits)

lemma recv_spec:
  assumes ret: "ioctl_recv_msg env io s = Some (r, out, s')"
  shows "s' = s \<or> (\<exists>u x m. from_user_id io = Some u \<and> xv (rx_unique_buffer s) u = Some (Some m) \<and>
    s' = s\<lparr>rx_unique_buffer := x\<rparr> \<and> xv x = (xv (rx_unique_buffer s))(u := None))"
  using ret xa_conforms_load[OF slots] xa_conforms_erase[OF slots]
  by (auto simp: ioctl_recv_msg_def Let_def split: if_splits option.splits prod.splits)

text \<open>The callback takes the first mark; what it does with the message depends on the mark.\<close>

lemma cb_marked:
  assumes "wf s" "drvdata s dev = Some c" "tv (fifo_send_types s) = ty # ts" "crc_ok env m"
  obtains t where "tok t" "tv t = ts"
    "rpmsg_sample_cb env io g dev (Some m) (sizeof_msg env) s =
      (let s = s\<lparr>drvdata := (drvdata s)(dev \<mapsto> c + 1), fifo_send_types := t\<rparr>
       in if ty = SENT_MSG_EXTERNAL_FIFO then
            (case put_msg env m (fifo_external_msg s) of
               (done, q) \<Rightarrow> Some (if done then 0 else - EINVAL, s\<lparr>fifo_external_msg := q\<rparr>))
          else if ty = SENT_MSG_EXTERNAL_UNIQUE then store_unique env io g m s
          else Some (0, s))"
proof -
  have tok: "tok (fifo_send_types s)" using assms(1) by (simp add: wf_def)
  show thesis
    using that[of "snd (get_type env (fifo_send_types s))"] assms(2-) types.get_fst[OF tok] types.get_view[OF tok]
      types.get_ok[OF tok]
    by (cases "get_type env (fifo_send_types s)") (simp add: rpmsg_sample_cb_def Let_def)
qed

lemma store_unique_spec:
  assumes "iok (fifo_unique_ids s)" "iv (fifo_unique_ids s) = u # us" "xv (rx_unique_buffer s) u \<noteq> None" "vmalloc_ok io"
  obtains i x where "iok i" "iv i = us" "xv x = (xv (rx_unique_buffer s))(u \<mapsto> Some m)"
    "store_unique env io g m s =
      Some (0, s\<lparr>fifo_unique_ids := i, vm_live := vm_live s + 1, rx_unique_buffer := x\<rparr>)"
proof -
  obtain err x where st: "xa_store env (rx_unique_buffer s) u m = (err, x)" by (rule prod.exhaust)
  show thesis
    using that[of "snd (get_id env (fifo_unique_ids s))" x] xa_conforms_store[OF slots assms(3) st] assms(2,4) st
      ids.get_fst[OF assms(1)] ids.get_view[OF assms(1)] ids.get_ok[OF assms(1)]
    by (cases "get_id env (fifo_unique_ids s)") (simp add: store_unique_def Let_def)
qed

lemma cb_unique:
  assumes "wf s" "drvdata s dev = Some c" "tv (fifo_send_types s) = SENT_MSG_EXTERNAL_UNIQUE # ts" "crc_ok env m"
    "iv (fifo_unique_ids s) = u # us" "xv (rx_unique_buffer s) u \<noteq> None" "vmalloc_ok io"
  obtains t i x where "tok t" "tv t = ts" "iok i" "iv i = us" "xv x = (xv (rx_unique_buffer s))(u \<mapsto> Some m)"
    "rpmsg_sample_cb env io g dev (Some m) (sizeof_msg env) s =
      Some (0, s\<lparr>drvdata := (drvdata s)(dev \<mapsto> c + 1), fifo_send_types := t, fifo_unique_ids := i,
        vm_live := vm_live s + 1, rx_unique_buffer := x\<rparr>)"
proof -
  obtain t where t: "tok t" "tv t = ts" and cb: "rpmsg_sample_cb env io g dev (Some m) (sizeof_msg env) s =
      store_unique env io g m (s\<lparr>drvdata := (drvdata s)(dev \<mapsto> c + 1), fifo_send_types := t\<rparr>)"
    using cb_marked[OF assms(1-4), of io g] by (auto simp: Let_def sent_msg_defs)
  let ?s = "s\<lparr>drvdata := (drvdata s)(dev \<mapsto> c + 1), fifo_send_types := t\<rparr>"
  have "iok (fifo_unique_ids ?s)" using assms(1) by (simp add: wf_def)
  then show thesis using that[OF t] cb store_unique_spec[of ?s u us io m g] assms(5-) by auto
qed

lemma cb_fifo:
  assumes "wf s" "drvdata s dev = Some c" "tv (fifo_send_types s) = SENT_MSG_EXTERNAL_FIFO # ts" "crc_ok env m"
    "length (mv (fifo_external_msg s)) < 256"
  obtains t q where "tok t" "tv t = ts" "mok q" "mv q = mv (fifo_external_msg s) @ [m]"
    "rpmsg_sample_cb env io g dev (Some m) (sizeof_msg env) s =
      Some (0, s\<lparr>drvdata := (drvdata s)(dev \<mapsto> c + 1), fifo_send_types := t, fifo_external_msg := q\<rparr>)"
proof -
  obtain t where t: "tok t" "tv t = ts" and cb: "rpmsg_sample_cb env io g dev (Some m) (sizeof_msg env) s =
      (case put_msg env m (fifo_external_msg s) of (done, q) \<Rightarrow> Some (if done then 0 else - EINVAL,
        s\<lparr>drvdata := (drvdata s)(dev \<mapsto> c + 1), fifo_send_types := t, fifo_external_msg := q\<rparr>))"
    using cb_marked[OF assms(1-4), of io g] by (auto simp: Let_def)
  have mok: "mok (fifo_external_msg s)" using assms(1) by (simp add: wf_def)
  show thesis
    using that[OF t, of "snd (put_msg env m (fifo_external_msg s))"] cb msgs.put_room[OF mok assms(5), of m]
    by (cases "put_msg env m (fifo_external_msg s)") auto
qed

lemma cb_internal:
  assumes "wf s" "drvdata s dev = Some c" "tv (fifo_send_types s) = SENT_MSG_INTERNAL # ts" "crc_ok env m"
  obtains t where "tok t" "tv t = ts"
    "rpmsg_sample_cb env io g dev (Some m) (sizeof_msg env) s =
      Some (0, s\<lparr>drvdata := (drvdata s)(dev \<mapsto> c + 1), fifo_send_types := t\<rparr>)"
  using cb_marked[OF assms, of io g] by (auto simp: Let_def sent_msg_defs)

text \<open>The queues follow the outstanding requests, and the slots of outstanding requests are reserved.\<close>

definition marks :: "u32 option list \<Rightarrow> u8 list" where
  "marks = map (\<lambda>q. if q = None then SENT_MSG_INTERNAL else SENT_MSG_EXTERNAL_UNIQUE)"

definition uids :: "u32 option list \<Rightarrow> u32 list" where "uids p = List.map_filter id p"

lemma uids_simps [simp]:
  "uids [] = []" "uids (None # p) = uids p" "uids (Some u # p) = u # uids p" "uids (p @ p') = uids p @ uids p'"
  by (simp_all add: uids_def map_filter_simps map_filter_def)

lemma marks_simps [simp]:
  "marks [] = []" "marks (q # p) = (if q = None then SENT_MSG_INTERNAL else SENT_MSG_EXTERNAL_UNIQUE) # marks p"
  "marks (p @ p') = marks p @ marks p'"
  by (simp_all add: marks_def)

text \<open>The mark and the slot of the request under way.\<close>

fun own_mark :: "progress \<Rightarrow> u8 list" where
  "own_mark Request_Marked = [SENT_MSG_EXTERNAL_UNIQUE]"
| "own_mark (Request_Numbered u) = [SENT_MSG_EXTERNAL_UNIQUE]"
| "own_mark _ = []"

fun own_slot :: "progress \<Rightarrow> u32 list" where
  "own_slot (Request_Numbered u) = [u]"
| "own_slot _ = []"

definition tracked :: "progress \<times> u32 option list \<times> ('d, 't, 'm, 'i, 'x) ecu \<Rightarrow> bool" where
  "tracked = (\<lambda>(c, p, s). wf s \<and> tv (fifo_send_types s) = marks p @ own_mark c \<and> iv (fifo_unique_ids s) = uids p \<and>
     distinct (uids p @ own_slot c) \<and> (\<forall>u \<in> set (uids p @ own_slot c). xv (rx_unique_buffer s) u = Some None))"

lemma mark_ok_spec:
  assumes "tok (fifo_send_types s)" "mark env ty s = (True, s')"
  shows "\<exists>q. s' = s\<lparr>fifo_send_types := q\<rparr> \<and> tok q \<and> tv q = tv (fifo_send_types s) @ [ty]"
  using mark_spec[OF assms(1), of ty] assms(2) by auto

lemma tracked_sent:
  "tracked (Idle, p, s) \<Longrightarrow> tracked (Request_Sent, p, s\<lparr>sent := ms\<rparr>)"
  "tracked (Idle, p, s) \<Longrightarrow> tracked (Ping_Sent, p, s\<lparr>sent := ms\<rparr>)"
  by (simp_all add: tracked_def wf_def)

lemma tracked_marked:
  assumes "tracked (Request_Sent, p, s)" "mark env SENT_MSG_EXTERNAL_UNIQUE s = (True, s')"
  shows "tracked (Request_Marked, p, s')"
  using mark_ok_spec[OF _ assms(2)] assms(1) by (auto simp: tracked_def wf_def)

lemma tracked_numbered:
  assumes "tracked (Request_Marked, p, s)" "assign_number env s = (Some u, s')"
  shows "tracked (Request_Numbered u, p, s')"
  using assign_number_spec[OF assms(2)] assms(1) by (auto simp: tracked_def wf_def)

lemma tracked_queued:
  assumes "tracked (Request_Numbered u, p, s)" "queue_number env u s = (True, s')"
  shows "tracked (Idle, p @ [Some u], s')"
  using queue_number_spec[OF _ assms(2)] assms(1) by (auto simp: tracked_def wf_def)

lemma tracked_ping:
  assumes "tracked (Ping_Sent, p, s)" "mark env SENT_MSG_INTERNAL s = (True, s')"
  shows "tracked (Idle, p @ [None], s')"
  using mark_ok_spec[OF _ assms(2)] assms(1) by (auto simp: tracked_def wf_def)

lemma tracked_registered:
  assumes "tracked (Request_Sent, p, s)" "register_request env s = (Some u, s')"
  shows "tracked (Idle, p @ [Some u], s')"
proof -
  obtain s1 s2 where "mark env SENT_MSG_EXTERNAL_UNIQUE s = (True, s1)" "assign_number env s1 = (Some u, s2)"
      "queue_number env u s2 = (True, s')"
    using assms(2) by (auto simp: register_request_def split: prod.splits if_splits option.splits)
  then show ?thesis using assms(1) tracked_marked tracked_numbered tracked_queued by blast
qed

lemma tracked_request:
  assumes "tracked (Idle, p, s)" "ioctl_send_msg env io s = Some (0, Out_Id u, s')"
  shows "tracked (Idle, p @ [Some u], s')"
proof -
  obtain msg where "register_request env (s\<lparr>sent := sent s @ [msg]\<rparr>) = (Some u, s')"
    using assms(2) by (auto simp: ioctl_send_msg_def Let_def split: option.splits if_splits prod.splits)
  then show ?thesis by (rule tracked_registered[OF tracked_sent(1)[OF assms(1)]])
qed

lemma tracked_other:
  assumes "tracked (c, p, s)" "cmd \<noteq> STM32ECU_SEND_MSG" "cmd \<noteq> STM32ECU_PING_RPROC" "ioctl_call env io cmd s = Some (r, out, s')"
  shows "tracked (c, p, s')"
proof (cases "cmd = STM32ECU_RECV_MSG")
  case True
  then show ?thesis using recv_spec[of io s r out s'] assms(1,4) by (auto simp: tracked_def wf_def)
next
  case False
  then have "\<exists>v. s' = s\<lparr>st_value := v\<rparr> \<or> s' = s"
    using assms(2-4) by (cases cmd) (auto simp: ioctl_set_state_def ioctl_get_state_def split: option.splits if_splits)
  then show ?thesis using assms(1) by (auto simp: tracked_def wf_def)
qed

lemma tracked_ping_answer:
  assumes "tracked (c, None # p, s)" "drvdata s dev = Some k"
    "rpmsg_sample_cb env io g dev (Some m) (sizeof_msg env) s = Some (r, s')"
  shows "tracked (c, p, s')"
proof -
  have tok: "tok (fifo_send_types s)" and ty: "tv (fifo_send_types s) = SENT_MSG_INTERNAL # marks p @ own_mark c"
    using assms(1) by (simp_all add: tracked_def wf_def)
  have "s' = s\<lparr>drvdata := (drvdata s)(dev \<mapsto> k + 1), fifo_send_types := snd (get_type env (fifo_send_types s))\<rparr>"
    using assms(2,3) types.get_nonempty[OF tok] ty
    by (auto simp: rpmsg_sample_cb_def Let_def sent_msg_defs split: prod.splits if_splits)
  then show ?thesis using assms(1) types.get_view[OF tok] types.get_ok[OF tok] ty by (simp add: tracked_def wf_def)
qed

lemma tracked_answer:
  assumes "tracked (c, Some u # p, s)" "crc_ok env m" "drvdata s dev = Some k"
    "rpmsg_sample_cb env io g dev (Some m) (sizeof_msg env) s = Some (r, s')"
  shows "tracked (c, p, s')"
proof -
  have wf: "wf s" and ty: "tv (fifo_send_types s) = SENT_MSG_EXTERNAL_UNIQUE # (marks p @ own_mark c)"
    and ids: "iv (fifo_unique_ids s) = u # uids p" "xv (rx_unique_buffer s) u \<noteq> None"
    using assms(1) by (simp_all add: tracked_def)
  have vm: "vmalloc_ok io"
    by (rule cb_marked[OF wf assms(3) ty assms(2), of io g])
      (use assms(4) in \<open>auto simp: Let_def sent_msg_defs store_unique_def split: prod.splits if_splits\<close>)
  show ?thesis
    by (rule cb_unique[OF wf assms(3) ty assms(2) ids vm, of g])
      (use assms in \<open>auto simp: tracked_def wf_def\<close>)
qed

lemma tracked_unasked:
  assumes "tracked (Idle, [], s)" "rpmsg_sample_cb env io g dev payload len s = Some (r, s')"
  shows "tracked (Idle, [], s')"
proof -
  have tok: "tok (fifo_send_types s)" and ty: "tv (fifo_send_types s) = []" using assms(1) by (simp_all add: tracked_def wf_def)
  have "fst (get_type env (fifo_send_types s)) = None" using types.get_fst[OF tok] ty by simp
  then have "(\<exists>d. s' = s\<lparr>drvdata := d\<rparr>) \<or> (\<exists>d. s' = s\<lparr>drvdata := d, fifo_send_types := snd (get_type env (fifo_send_types s))\<rparr>)"
    using assms(2) by (auto simp: rpmsg_sample_cb_def Let_def split: option.splits prod.splits if_splits)
  then show ?thesis using assms(1) types.get_view[OF tok] types.get_ok[OF tok] ty by (auto simp: tracked_def wf_def)
qed

lemma tracked_incoming:
  assumes "tracked (c, p, s)" "rpmsg_sample_cb env io g dev payload len s = Some (r, s')" "in_order env c p payload len"
  shows "tracked (c, tl p, s')"
proof -
  obtain k where k: "drvdata s dev = Some k" using assms(2) by (cases "drvdata s dev") (auto simp: rpmsg_sample_cb_def)
  show ?thesis
  proof (cases p)
    case Nil
    then show ?thesis using tracked_unasked assms by (auto simp: in_order_def)
  next
    case (Cons q p')
    then obtain m where m: "payload = Some m" "len = sizeof_msg env" "q = None \<or> crc_ok env m"
      using assms(3) by (auto simp: in_order_def split: option.splits)
    show ?thesis
      using tracked_ping_answer[of c p' s dev k io g m r s'] tracked_answer[of c _ p' s m dev k io g r s'] assms(1,2) m k Cons
      by (cases q) auto
  qed
qed

lemma traffic_tracked:
  assumes "traffic env x y" "\<not> fst (snd (snd y))" "tracked (fst x, fst (snd x), snd (snd (snd x)))"
  shows "tracked (fst y, fst (snd y), snd (snd (snd y)))"
  using assms
proof cases
  case request_sent
  then show ?thesis using assms(3) by (simp add: tracked_sent)
next
  case request_marked
  then show ?thesis using assms(2,3) by (auto intro: tracked_marked)
next
  case request_numbered
  then show ?thesis using assms(3) by (auto intro: tracked_numbered)
next
  case request_queued
  then show ?thesis using assms(2,3) by (auto intro: tracked_queued)
next
  case ping_sent
  then show ?thesis using assms(3) by (simp add: tracked_sent)
next
  case ping_marked
  then show ?thesis using assms(2,3) by (auto intro: tracked_ping)
next
  case incoming
  then show ?thesis using assms(2,3) by (auto intro: tracked_incoming)
next
  case other_call
  then show ?thesis using assms(3) by (auto intro: tracked_other)
qed (use assms(2) in auto)

lemma traffic_star_tracked:
  assumes "(traffic env)\<^sup>*\<^sup>* x y" "tracked (fst x, fst (snd x), snd (snd (snd x)))" "\<not> fst (snd (snd y))"
  shows "tracked (fst y, fst (snd y), snd (snd (snd y)))"
  using assms
proof (induction rule: rtranclp_induct)
  case (step y z)
  then show ?case using traffic_flag[OF step.hyps(2)] traffic_tracked[OF step.hyps(2)] by blast
qed

lemma routed_response:
  assumes "tracked (c, Some u # p, s)" "crc_ok env m" "drvdata s dev = Some k" "vmalloc_ok io"
  shows "\<exists>s'. rpmsg_sample_cb env io g dev (Some m) (sizeof_msg env) s = Some (0, s') \<and>
    xa_load env (rx_unique_buffer s) u = None \<and> xa_load env (rx_unique_buffer s') u = Some m \<and>
    (\<forall>v. v \<noteq> u \<longrightarrow> xa_load env (rx_unique_buffer s') v = xa_load env (rx_unique_buffer s) v) \<and>
    fifo_external_msg s' = fifo_external_msg s \<and> vm_live s' = vm_live s + 1 \<and> tracked (c, p, s')"
proof -
  have facts: "wf s" "tv (fifo_send_types s) = SENT_MSG_EXTERNAL_UNIQUE # (marks p @ own_mark c)" "iv (fifo_unique_ids s) = u # uids p"
    "xv (rx_unique_buffer s) u = Some None" using assms(1) by (simp_all add: tracked_def)
  have "xv (rx_unique_buffer s) u \<noteq> None" using facts(4) by simp
  then show ?thesis
    by (rule cb_unique[OF facts(1) assms(3) facts(2) assms(2) facts(3) _ assms(4), of g])
      (use facts assms(1) in \<open>auto simp: tracked_def wf_def xa_conforms_load[OF slots]\<close>)
qed

lemma read_loop_spec:
  assumes "mok q"
  shows "case read_loop env n q of (ms, q') \<Rightarrow>
    ms = map Some (take n (mv q)) @ replicate (n - length (mv q)) None \<and> mok q' \<and> mv q' = drop n (mv q)"
  using assms
proof (induction n arbitrary: q)
  case (Suc n)
  have "mok (snd (get_msg env q))" using Suc.prems by (rule msgs.get_ok)
  from Suc.IH[OF this] show ?case
    using msgs.get_fst[OF Suc.prems] msgs.get_view[OF Suc.prems]
    by (cases "mv q") (auto split: prod.splits)
qed simp

lemma take_snoc_replicate:
  assumes "length xs \<le> n" "ys = (if length xs < n then xs @ [x] else xs)"
  shows "take n (ys @ replicate k x) = take n (xs @ replicate (Suc k) x)"
proof (cases "length xs < n")
  case True
  then have "ys @ replicate k x = xs @ replicate (Suc k) x" using assms(2) by simp
  then show ?thesis by (rule arg_cong)
qed (use assms in simp)

text \<open>How the marks grow: a mark is dropped when the queue is full.\<close>

lemma write_loop_spec:
  assumes "wf s" "global_rproc_ref s = Some dev" "\<forall>j < k. rpmsg_send io (i + j) = 0" "k \<le> length msgs"
    "k < length msgs \<longrightarrow> rpmsg_send io (i + k) \<noteq> 0"
  shows "\<exists>t. write_loop env io i msgs s =
      Some (int (k * sizeof_msg env), s\<lparr>sent := sent s @ take k msgs, fifo_send_types := t\<rparr>) \<and> tok t \<and>
    tv t = take 512 (tv (fifo_send_types s) @ replicate k SENT_MSG_EXTERNAL_FIFO)"
  using assms
proof (induction msgs arbitrary: k i s)
  case (Cons m ms)
  show ?case
  proof (cases k)
    case 0
    have "s = s\<lparr>sent := sent s, fifo_send_types := fifo_send_types s\<rparr>" by simp
    then show ?thesis using Cons.prems 0 by (intro exI[of _ "fifo_send_types s"]) (simp add: wf_def types.bound)
  next
    case (Suc k')
    define s0 where "s0 = s\<lparr>sent := sent s @ [m]\<rparr>"
    have tok: "tok (fifo_send_types s0)" using Cons.prems(1) by (simp add: wf_def s0_def)
    obtain t where t: "snd (mark env SENT_MSG_EXTERNAL_FIFO s0) = s0\<lparr>fifo_send_types := t\<rparr>" "tok t"
        "tv t = (if length (tv (fifo_send_types s)) < 512 then tv (fifo_send_types s) @ [SENT_MSG_EXTERNAL_FIFO]
           else tv (fifo_send_types s))"
      using mark_spec[OF tok, of SENT_MSG_EXTERNAL_FIFO] by (auto simp: s0_def)
    have le: "length (tv (fifo_send_types s)) \<le> 512" using Cons.prems(1) types.bound by (simp add: wf_def)
    have send: "rpmsg_send io i = 0" using Cons.prems(3) Suc by fastforce
    have "wf (s0\<lparr>fifo_send_types := t\<rparr>)" "global_rproc_ref (s0\<lparr>fifo_send_types := t\<rparr>) = Some dev"
      using Cons.prems(1,2) t(2) by (simp_all add: wf_def s0_def)
    moreover have "\<forall>j < k'. rpmsg_send io (Suc i + j) = 0" using Cons.prems(3) Suc by fastforce
    moreover have "k' \<le> length ms" "k' < length ms \<longrightarrow> rpmsg_send io (Suc i + k') \<noteq> 0"
      using Cons.prems(4,5) Suc by auto
    ultimately obtain t' where IH: "write_loop env io (Suc i) ms (s0\<lparr>fifo_send_types := t\<rparr>) =
        Some (int (k' * sizeof_msg env), s0\<lparr>sent := sent s0 @ take k' ms, fifo_send_types := t'\<rparr>)" "tok t'"
        "tv t' = take 512 (tv t @ replicate k' SENT_MSG_EXTERNAL_FIFO)"
      using Cons.IH[of "s0\<lparr>fifo_send_types := t\<rparr>" k' "Suc i"] by auto
    have "tv t' = take 512 (tv (fifo_send_types s) @ replicate k SENT_MSG_EXTERNAL_FIFO)"
      using IH(3) take_snoc_replicate[OF le t(3)] Suc by (simp only:)
    then show ?thesis using IH(1,2) t(1) send Cons.prems(2) Suc
      by (intro exI[of _ t']) (simp add: s0_def Let_def)
  qed
qed (auto simp: wf_def types.bound intro!: exI[of _ "fifo_send_types s" for s])

lemma write_spec:
  assumes "wf s" "global_rproc_ref s = Some dev" "len = length msgs * sizeof_msg env" "vmalloc_ok io"
    "from_user_msgs io = Some msgs" "\<forall>m \<in> set msgs. crc_ok env m"
    "\<forall>j < k. rpmsg_send io j = 0" "k \<le> length msgs" "k < length msgs \<longrightarrow> rpmsg_send io k \<noteq> 0"
  shows "\<exists>t. ioctl_write env io len s = Some (int (k * sizeof_msg env),
      s\<lparr>sent := sent s @ take k msgs, fifo_send_types := t, vm_live := vm_live s + 1\<rparr>) \<and> tok t \<and>
    tv t = take 512 (tv (fifo_send_types s) @ replicate (Suc k) SENT_MSG_EXTERNAL_FIFO)"
proof -
  have tok: "tok (fifo_send_types s)" using assms(1) by (simp add: wf_def)
  then have le: "length (tv (fifo_send_types s)) \<le> 512" by (rule types.bound)
  obtain t where t: "snd (mark env SENT_MSG_EXTERNAL_FIFO s) = s\<lparr>fifo_send_types := t\<rparr>" "tok t"
      "tv t = (if length (tv (fifo_send_types s)) < 512 then tv (fifo_send_types s) @ [SENT_MSG_EXTERNAL_FIFO]
         else tv (fifo_send_types s))"
    using mark_spec[OF tok, of SENT_MSG_EXTERNAL_FIFO] by auto
  let ?s = "s\<lparr>fifo_send_types := t, vm_live := vm_live s + 1\<rparr>"
  have "wf ?s" "global_rproc_ref ?s = Some dev" using assms(1,2) t(2) by (simp_all add: wf_def)
  moreover have "\<forall>j < k. rpmsg_send io (0 + j) = 0" "k < length msgs \<longrightarrow> rpmsg_send io (0 + k) \<noteq> 0"
    using assms(7,9) by simp_all
  ultimately obtain t' where loop: "write_loop env io 0 msgs ?s =
      Some (int (k * sizeof_msg env), ?s\<lparr>sent := sent s @ take k msgs, fifo_send_types := t'\<rparr>)" "tok t'"
      "tv t' = take 512 (tv t @ replicate k SENT_MSG_EXTERNAL_FIFO)"
    using write_loop_spec[of ?s dev k io 0 msgs] assms(8) by auto
  have "tv t' = take 512 (tv (fifo_send_types s) @ replicate (Suc k) SENT_MSG_EXTERNAL_FIFO)"
    using loop(3) take_snoc_replicate[OF le t(3)] by (simp only:)
  then show ?thesis using loop(1,2) t(1) assms(3-6) msg_sized
    by (intro exI[of _ t']) (simp add: ioctl_write_def Let_def)
qed

lemma fifo_responses:
  assumes "wf s" "drvdata s dev \<noteq> None" "tv (fifo_send_types s) = replicate (length rs) SENT_MSG_EXTERNAL_FIFO @ ts"
    "\<forall>m \<in> set rs. crc_ok env m" "length (mv (fifo_external_msg s)) + length rs \<le> 256"
  shows "\<exists>s'. respond_all env io dev rs s = Some s' \<and> wf s' \<and> tv (fifo_send_types s') = ts \<and>
    mv (fifo_external_msg s') = mv (fifo_external_msg s) @ rs \<and> rx_unique_buffer s' = rx_unique_buffer s \<and>
    drvdata s' dev \<noteq> None \<and> global_rproc_ref s' = global_rproc_ref s"
  using assms
proof (induction rs arbitrary: s)
  case (Cons m rs)
  obtain c where c: "drvdata s dev = Some c" using Cons.prems(2) by auto
  have ty: "tv (fifo_send_types s) =
      SENT_MSG_EXTERNAL_FIFO # (replicate (length rs) SENT_MSG_EXTERNAL_FIFO @ ts)" using Cons.prems(3) by simp
  have crc: "crc_ok env m" and room: "length (mv (fifo_external_msg s)) < 256" using Cons.prems(4,5) by auto
  obtain t q where tq: "tok t" "tv t = replicate (length rs) SENT_MSG_EXTERNAL_FIFO @ ts" "mok q"
      "mv q = mv (fifo_external_msg s) @ [m]" and cb: "rpmsg_sample_cb env io 0 dev (Some m) (sizeof_msg env) s =
      Some (0, s\<lparr>drvdata := (drvdata s)(dev \<mapsto> c + 1), fifo_send_types := t, fifo_external_msg := q\<rparr>)"
    by (rule cb_fifo[OF Cons.prems(1) c ty crc room, of io 0])
  let ?s = "s\<lparr>drvdata := (drvdata s)(dev \<mapsto> c + 1), fifo_send_types := t, fifo_external_msg := q\<rparr>"
  have "wf ?s" using Cons.prems(1) tq by (simp add: wf_def)
  then show ?case using Cons.IH[of ?s] Cons.prems(4,5) tq cb by simp
qed simp

lemma register_succeeds:
  assumes "wf s" "length (tv (fifo_send_types s)) < 512" "length (iv (fifo_unique_ids s)) < 256"
    "xa_alloc_cyclic env (rx_unique_buffer s) (1, 1024) (next_uid s) = (Some (u, n), x)"
  shows "\<exists>t i. register_request env s =
    (Some u, s\<lparr>fifo_send_types := t, rx_unique_buffer := x, next_uid := n, fifo_unique_ids := i\<rparr>)"
proof -
  have tok: "tok (fifo_send_types s)" and iok: "iok (fifo_unique_ids s)" using assms(1) by (simp_all add: wf_def)
  obtain t where "mark env SENT_MSG_EXTERNAL_UNIQUE s = (True, s\<lparr>fifo_send_types := t\<rparr>)"
    using mark_spec[OF tok, of SENT_MSG_EXTERNAL_UNIQUE] assms(2) by auto
  moreover obtain i where "put_id env u (fifo_unique_ids s) = (True, i)"
    using ids.put_fst[OF iok, of u] assms(3) by (cases "put_id env u (fifo_unique_ids s)") auto
  ultimately have "register_request env s =
      (Some u, s\<lparr>fifo_send_types := t, rx_unique_buffer := x, next_uid := n, fifo_unique_ids := i\<rparr>)"
    using assms(4) by (simp add: register_request_def assign_number_def queue_number_def)
  then show ?thesis by blast
qed

lemma send_succeeds:
  assumes "wf s" "from_user_msg io = Some m" "global_rproc_ref s = Some dev" "rpmsg_send io 0 = 0"
    "length (tv (fifo_send_types s)) < 512" "length (iv (fifo_unique_ids s)) < 256" "to_user_ok io"
    "xa_alloc_cyclic env (rx_unique_buffer s) (1, 1024) (next_uid s) = (Some (u, n), x)"
  shows "\<exists>s'. ioctl_send_msg env io s = Some (0, Out_Id u, s') \<and> sent s' = sent s @ [m] \<and>
    drvdata s' = drvdata s \<and> vm_live s' = vm_live s"
proof -
  have "wf (s\<lparr>sent := sent s @ [m]\<rparr>)" using assms(1) by (simp add: wf_def)
  from register_succeeds[OF this, of u n x] assms show ?thesis by (auto simp: ioctl_send_msg_def Let_def)
qed

lemma ping_succeeds:
  assumes "wf s" "global_rproc_ref s = Some dev" "\<not> dev_offline io dev" "rpmsg_send io 0 = 0"
    "length (tv (fifo_send_types s)) < 512"
  shows "\<exists>s'. ioctl_ping_rproc env io s = Some (0, No_Out, s') \<and> wf s' \<and>
    tv (fifo_send_types s') = tv (fifo_send_types s) @ [SENT_MSG_INTERNAL] \<and>
    fifo_external_msg s' = fifo_external_msg s \<and> drvdata s' = drvdata s"
proof -
  define s0 where "s0 = s\<lparr>sent := sent s @ [ping_msg env]\<rparr>"
  have tok: "tok (fifo_send_types s0)" using assms(1) by (simp add: wf_def s0_def)
  obtain t where "mark env SENT_MSG_INTERNAL s0 = (True, s0\<lparr>fifo_send_types := t\<rparr>)" "tok t"
      "tv t = tv (fifo_send_types s) @ [SENT_MSG_INTERNAL]"
    using mark_spec[OF tok, of SENT_MSG_INTERNAL] assms(5) by (auto simp: s0_def)
  then show ?thesis using assms(1-4) by (simp add: ioctl_ping_rproc_def Let_def s0_def wf_def)
qed

lemma recv_reserved:
  assumes "from_user_id io = Some u" "xa_load env (rx_unique_buffer s) u = None"
  shows "ioctl_recv_msg env io s = Some (- EAGAIN, No_Out, s)"
  using assms by (simp add: ioctl_recv_msg_def)

lemma recv_stored:
  assumes "from_user_id io = Some u" "to_user_ok io" "xa_load env (rx_unique_buffer s) u = Some m"
  shows "\<exists>s'. ioctl_recv_msg env io s = Some (0, Out_Msg m, s') \<and> xa_load env (rx_unique_buffer s') u = None \<and>
    vm_live s' = vm_live s"
proof -
  obtain m' x where e: "xa_erase env (rx_unique_buffer s) u = (m', x)" by (rule prod.exhaust)
  then show ?thesis
    using assms xa_conforms_erase[OF slots e] by (simp add: ioctl_recv_msg_def Let_def xa_conforms_load[OF slots])
qed

lemma tracked_start:
  assumes "tok (fifo_send_types s)" "mok (fifo_external_msg s)" "iok (fifo_unique_ids s)"
    "tv (fifo_send_types s) = []" "iv (fifo_unique_ids s) = []"
  shows "tracked (Idle, [], s)"
  using assms by (simp add: tracked_def wf_def)

text \<open>
  An answer that overtakes the registration of its request: it finds no mark and is dropped. The request is registered
  all the same, and the answer to the next one goes to its slot.
\<close>

lemma early_answer:
  assumes "wf s" "tv (fifo_send_types s) = []" "iv (fifo_unique_ids s) = []" "drvdata s dev = Some k" "vmalloc_ok io" "crc_ok env m2"
  shows "\<exists>s1. rpmsg_sample_cb env io g dev (Some m) (sizeof_msg env) s = Some (- EINVAL, s1) \<and>
    rx_unique_buffer s1 = rx_unique_buffer s \<and> next_uid s1 = next_uid s \<and>
    (\<forall>u s2 v s3. register_request env s1 = (Some u, s2) \<and> register_request env s2 = (Some v, s3) \<longrightarrow>
      u \<noteq> v \<and> (\<exists>s4. rpmsg_sample_cb env io g dev (Some m2) (sizeof_msg env) s3 = Some (0, s4) \<and>
        xa_load env (rx_unique_buffer s4) u = Some m2 \<and> xa_load env (rx_unique_buffer s4) v = None))"
proof -
  have tok: "tok (fifo_send_types s)" using assms(1) by (simp add: wf_def)
  obtain t where t: "get_type env (fifo_send_types s) = (None, t)"
    using types.get_fst[OF tok] assms(2) by (cases "get_type env (fifo_send_types s)") auto
  define s1 where "s1 = s\<lparr>drvdata := (drvdata s)(dev \<mapsto> k + 1), fifo_send_types := t\<rparr>"
  have cb: "rpmsg_sample_cb env io g dev (Some m) (sizeof_msg env) s = Some (- EINVAL, s1)"
    using assms(4) t by (simp add: rpmsg_sample_cb_def Let_def s1_def)
  have tr: "tracked (Request_Sent, [], s1)"
    using assms(1-3) types.get_view[OF tok] types.get_ok[OF tok] t by (simp add: tracked_def wf_def s1_def)
  have "u \<noteq> v \<and> (\<exists>s4. rpmsg_sample_cb env io g dev (Some m2) (sizeof_msg env) s3 = Some (0, s4) \<and>
        xa_load env (rx_unique_buffer s4) u = Some m2 \<and> xa_load env (rx_unique_buffer s4) v = None)"
    if r: "register_request env s1 = (Some u, s2)" "register_request env s2 = (Some v, s3)" for u s2 v s3
  proof -
    have "tracked (Request_Sent, [Some u], s2)"
      using tracked_registered[OF tr r(1)] tracked_sent(1)[of "[Some u]" s2 "sent s2"] by simp
    from tracked_registered[OF this r(2)] have two: "tracked (Idle, [Some u, Some v], s3)" by simp
    have frame: "drvdata s3 = drvdata s1"
      using r by (auto simp: register_request_def mark_def assign_number_def queue_number_def
          split: prod.splits if_splits option.splits)
    then have d: "drvdata s3 dev = Some (k + 1)" by (simp add: s1_def)
    have uv: "u \<noteq> v" "xv (rx_unique_buffer s3) v = Some None" using two by (simp_all add: tracked_def)
    then have "xa_load env (rx_unique_buffer s3) v = None" by (simp add: xa_conforms_load[OF slots])
    with routed_response[OF two assms(6) d assms(5), of g] uv(1) show ?thesis by metis
  qed
  then show ?thesis using cb by (intro exI[of _ s1]) (simp add: s1_def)
qed

text \<open>A request, its response, and the response fetched by the number the request was given.\<close>

lemma send_response_recv:
  assumes "tracked (Idle, [], s)" "from_user_msg io = Some req" "global_rproc_ref s = Some dev" "rpmsg_send io 0 = 0"
    "to_user_ok io" "vmalloc_ok io" "drvdata s dev = Some c" "crc_ok env res"
    "xa_alloc_cyclic env (rx_unique_buffer s) (1, 1024) (next_uid s) = (Some (u, n), x)"
  shows "\<exists>s1 s2 s3. ioctl_send_msg env io s = Some (0, Out_Id u, s1) \<and> sent s1 = sent s @ [req] \<and>
    ioctl_recv_msg env (io\<lparr>from_user_id := Some u\<rparr>) s1 = Some (- EAGAIN, No_Out, s1) \<and>
    rpmsg_sample_cb env io g dev (Some res) (sizeof_msg env) s1 = Some (0, s2) \<and>
    ioctl_recv_msg env (io\<lparr>from_user_id := Some u\<rparr>) s2 = Some (0, Out_Msg res, s3) \<and>
    ioctl_recv_msg env (io\<lparr>from_user_id := Some u\<rparr>) s3 = Some (- EAGAIN, No_Out, s3) \<and>
    vm_live s3 = vm_live s + 1"
proof -
  let ?io = "io\<lparr>from_user_id := Some u\<rparr>"
  have "wf s" "length (tv (fifo_send_types s)) < 512" "length (iv (fifo_unique_ids s)) < 256"
    using assms(1) by (simp_all add: tracked_def)
  then obtain s1 where s1: "ioctl_send_msg env io s = Some (0, Out_Id u, s1)" "sent s1 = sent s @ [req]"
      "drvdata s1 = drvdata s" "vm_live s1 = vm_live s"
    using send_succeeds[OF _ assms(2-4) _ _ assms(5,9)] by blast
  have "tracked (Idle, [Some u], s1)" using tracked_request[OF assms(1) s1(1)] by simp
  then obtain s2 where s2: "rpmsg_sample_cb env io g dev (Some res) (sizeof_msg env) s1 = Some (0, s2)"
      "xa_load env (rx_unique_buffer s1) u = None" "xa_load env (rx_unique_buffer s2) u = Some res"
      "vm_live s2 = vm_live s1 + 1"
    using routed_response[of Idle u "[]" s1 res dev c io g] assms(6-8) s1(3) by auto
  obtain s3 where s3: "ioctl_recv_msg env ?io s2 = Some (0, Out_Msg res, s3)"
      "xa_load env (rx_unique_buffer s3) u = None" "vm_live s3 = vm_live s2"
    using recv_stored[of ?io u s2 res] assms(5) s2(3) by auto
  show ?thesis
    using s1 s2 s3 recv_reserved[of ?io u s1] recv_reserved[of ?io u s3] by (intro exI[of _ s1] exI[of _ s2] exI[of _ s3]) simp
qed

end

section \<open>The driver on the ring buffers of the kernel\<close>

text \<open>
  The setting with the ring buffers of \<^verbatim>\<open>Kfifo\<close> for the three queues, at the capacities the driver
  declares, and a map for the array of slots. \<open>xa_scan\<close> looks for a free index in cyclic order.
\<close>

primrec xa_scan :: "nat \<Rightarrow> (u32 \<rightharpoonup> 'b) \<Rightarrow> u32 \<Rightarrow> u32 option" where
  "xa_scan 0 x i = None"
| "xa_scan (Suc n) x i = (if x i = None then Some i else xa_scan n x (if 1024 \<le> i then 1 else i + 1))"

definition xa_start :: "u32 \<Rightarrow> u32" where
  "xa_start nxt = (if nxt < 1 \<or> 1024 < nxt then 1 else nxt)"

lemma xa_start_range: "1 \<le> xa_start nxt" "xa_start nxt \<le> 1024"
  using word_less_1[of nxt] by (auto simp: xa_start_def linorder_not_less[symmetric])

lemma xa_scan_first: "0 < n \<Longrightarrow> x i = None \<Longrightarrow> xa_scan n x i = Some i"
  by (cases n) simp_all

lemma xa_scan_range:
  assumes "xa_scan n x i = Some j" "1 \<le> i" "i \<le> 1024"
  shows "x j = None \<and> 1 \<le> j \<and> j \<le> 1024"
  using assms
proof (induction n arbitrary: i)
  case (Suc n)
  have "1 \<le> (if 1024 \<le> i then 1 else i + 1) \<and> (if 1024 \<le> i then 1 else i + 1) \<le> 1024"
    using Suc.prems(3) by (auto simp: word_le_nat_alt unat_word_ariths)
  then show ?case using Suc.IH Suc.prems by (auto split: if_splits)
qed simp

type_synonym 'd ring_slots = "u32 \<Rightarrow> 'd interproc_msg option option"

definition ring_env ::
  "nat \<Rightarrow> ('d interproc_msg \<Rightarrow> int) \<Rightarrow> int \<Rightarrow> 'd \<Rightarrow>
    ('d, u8 kfifo, 'd interproc_msg kfifo, u32 kfifo, 'd ring_slots) ecu_env" where
  "ring_env sz crc ping zero = \<lparr>
     sizeof_msg = sz, calc_crc = crc, CMD_PING = ping, zero_data = zero,
     put_type = kfifo_put, get_type = kfifo_get,
     put_msg = kfifo_put, get_msg = kfifo_get,
     size_msg = (\<lambda>q. unat (kfifo_size q)), is_empty_msg = kfifo_is_empty,
     put_id = kfifo_put, get_id = kfifo_get,
     xa_alloc_cyclic = (\<lambda>x (lo, hi) nxt.
       case xa_scan 1024 x (xa_start nxt) of
         None \<Rightarrow> (None, x)
       | Some i \<Rightarrow> (Some (i, i + 1), x(i \<mapsto> None))),
     xa_load = (\<lambda>x i. case x i of Some e \<Rightarrow> e | None \<Rightarrow> None),
     xa_erase = (\<lambda>x i. (case x i of Some e \<Rightarrow> e | None \<Rightarrow> None, x(i := None))),
     xa_store = (\<lambda>x i m. (False, x(i \<mapsto> Some m))),
     xa_entries = (\<lambda>x. card {i. \<exists>m. x i = Some (Some m)}),
     xa_destroy = (\<lambda>x. Map.empty),
     free_type = (\<lambda>q. q), free_msg = (\<lambda>q. q), free_id = (\<lambda>q. q)\<rparr>"

lemma ring_env_slots: "xa_conforms (ring_env sz crc ping zero) (\<lambda>x. x)"
  using xa_scan_range[OF _ xa_start_range, of 1024]
  by (auto simp: xa_conforms_def ring_env_def split: option.splits)

lemma ring_size: "kf_inv q \<and> cap q = c \<Longrightarrow> unat (kfifo_size q) = c"
  using kf_inv_facts(4) by (auto simp: kfifo_size_def)

lemma ring_empty: "kfifo_is_empty q \<longleftrightarrow> contents q = []"
  by (simp add: kfifo_is_empty_def contents_def unsigned_eq_0_iff)

lemma ring_setting:
  "ecu_setting (ring_env (Suc k) crc ping zero) contents (\<lambda>f. kf_inv f \<and> cap f = 512)
    contents (\<lambda>f. kf_inv f \<and> cap f = 256) contents (\<lambda>f. kf_inv f \<and> cap f = 256) (\<lambda>x. x)"
proof (rule ecu_setting.intro)
  show "xa_conforms (ring_env (Suc k) crc ping zero) (\<lambda>x. x)" by (rule ring_env_slots)
qed (simp_all add: ring_env_def kf.bounded_fifo_axioms ring_size ring_empty)

interpretation ring: ecu_setting "ring_env (Suc k) crc ping zero" contents "\<lambda>f. kf_inv f \<and> cap f = 512"
    contents "\<lambda>f. kf_inv f \<and> cap f = 256" contents "\<lambda>f. kf_inv f \<and> cap f = 256" "\<lambda>x. x" for k crc ping zero
  by (rule ring_setting)

text \<open>The module after it was loaded and channel device 0 was found, and a call in which nothing fails.\<close>

definition ring_ecu :: "(unit, u8 kfifo, unit interproc_msg kfifo, u32 kfifo, unit ring_slots) ecu" where
  "ring_ecu = \<lparr>fifo_send_types = kfifo_make 9 0, fifo_external_msg = kfifo_make 8 undefined,
     fifo_unique_ids = kfifo_make 8 0, rx_unique_buffer = Map.empty, next_uid = 1, st_value = 0, device_open = 0,
     global_rproc_ref = Some 0, drvdata = [0 \<mapsto> 0], sent = [], vm_live = 0\<rparr>"

definition calm :: "unit ecu_io" where
  "calm = \<lparr>from_user_msgs = None, from_user_msg = None, from_user_value = None, from_user_id = None,
     to_user_ok = True, vmalloc_ok = True, dev_offline = (\<lambda>_. False), rpmsg_send = (\<lambda>_. 0)\<rparr>"

lemma ring_ecu_queues:
  "kf_inv (fifo_send_types ring_ecu) \<and> cap (fifo_send_types ring_ecu) = 512"
  "kf_inv (fifo_external_msg ring_ecu) \<and> cap (fifo_external_msg ring_ecu) = 256"
  "kf_inv (fifo_unique_ids ring_ecu) \<and> cap (fifo_unique_ids ring_ecu) = 256"
  "contents (fifo_send_types ring_ecu) = []" "contents (fifo_external_msg ring_ecu) = []"
  "contents (fifo_unique_ids ring_ecu) = []"
  by (simp_all add: ring_ecu_def kfifo_make_ok)

lemma ring_alloc:
  "xa_alloc_cyclic (ring_env k crc ping zero) (rx_unique_buffer ring_ecu) (1, 1024) (next_uid ring_ecu) =
    (Some (1, 2), [1 \<mapsto> None])"
  by (simp add: ring_env_def ring_ecu_def xa_start_def xa_scan_first)

definition wenv :: "(unit, u8 kfifo, unit interproc_msg kfifo, u32 kfifo, unit ring_slots) ecu_env" where
  "wenv = ring_env (Suc 59) command 7 ()"

definition wmsg :: "int \<Rightarrow> unit interproc_msg" where
  "wmsg c = \<lparr>command = c, data = (), checksum = c\<rparr>"

lemma wmsg_crc [simp]: "crc_ok wenv (wmsg c)"
  by (simp add: crc_ok_def wenv_def ring_env_def wmsg_def)

lemma wenv_size [simp]: "sizeof_msg wenv = 60"
  by (simp add: wenv_def ring_env_def)

lemmas wenv_setting = ring_setting[of 59 command 7 "()", folded wenv_def]
lemmas wenv_alloc = ring_alloc[of "Suc 59" command 7 "()", folded wenv_def]

lemma calm_simps [simp]:
  "to_user_ok calm" "vmalloc_ok calm" "rpmsg_send calm i = 0"
  by (simp_all add: calm_def)

lemma ring_ecu_simps [simp]:
  "global_rproc_ref ring_ecu = Some 0" "drvdata ring_ecu 0 = Some 0" "sent ring_ecu = []" "vm_live ring_ecu = 0"
  by (simp_all add: ring_ecu_def)

lemma two_puts:
  assumes "kf_inv f \<and> cap f = c" "2 \<le> c" "contents f = []"
  shows "kf_inv (snd (kfifo_put y (snd (kfifo_put x f)))) \<and> cap (snd (kfifo_put y (snd (kfifo_put x f)))) = c"
    "contents (snd (kfifo_put y (snd (kfifo_put x f)))) = [x, y]"
proof -
  have 1: "kf_inv (snd (kfifo_put x f)) \<and> cap (snd (kfifo_put x f)) = c" "contents (snd (kfifo_put x f)) = [x]"
    using kf.put_room[OF assms(1), of x] assms(2,3) by simp_all
  have "length (contents (snd (kfifo_put x f))) < c" unfolding 1(2) using assms(2) by simp
  from kf.put_room[OF 1(1) this, of y] show
    "kf_inv (snd (kfifo_put y (snd (kfifo_put x f)))) \<and> cap (snd (kfifo_put y (snd (kfifo_put x f)))) = c"
    "contents (snd (kfifo_put y (snd (kfifo_put x f)))) = [x, y]"
    unfolding 1(2) by simp_all
qed

section \<open>Properties\<close>

text \<open>C14: A request sent with \<^verbatim>\<open>STM32ECU_SEND_MSG\<close> while no other request is outstanding is handed to the channel and
  the caller gets a number. Asking for the response too early gives \<^verbatim>\<open>-EAGAIN\<close>; once the coprocessor has
  answered with a message of correct checksum, \<^verbatim>\<open>STM32ECU_RECV_MSG\<close> with that number delivers exactly that
  message, and asking once more gives \<^verbatim>\<open>-EAGAIN\<close>. The block that held the message stays allocated.\<close>

theorem send_response_recv_roundtrip:
  assumes "ecu_setting env tv tok mv mok iv iok xv"
    "tok (fifo_send_types s)" "mok (fifo_external_msg s)" "iok (fifo_unique_ids s)"
    "tv (fifo_send_types s) = []" "iv (fifo_unique_ids s) = []"
    "from_user_msg io = Some req" "global_rproc_ref s = Some dev" "rpmsg_send io 0 = 0"
    "to_user_ok io" "vmalloc_ok io" "drvdata s dev = Some c" "crc_ok env res"
    "xa_alloc_cyclic env (rx_unique_buffer s) (1, 1024) (next_uid s) = (Some (u, n), x)"
  shows "\<exists>s1 s2 s3. ioctl_call env io STM32ECU_SEND_MSG s = Some (0, Out_Id u, s1) \<and> sent s1 = sent s @ [req] \<and>
    ioctl_call env (io\<lparr>from_user_id := Some u\<rparr>) STM32ECU_RECV_MSG s1 = Some (- EAGAIN, No_Out, s1) \<and>
    rpmsg_sample_cb env io g dev (Some res) (sizeof_msg env) s1 = Some (0, s2) \<and>
    ioctl_call env (io\<lparr>from_user_id := Some u\<rparr>) STM32ECU_RECV_MSG s2 = Some (0, Out_Msg res, s3) \<and>
    ioctl_call env (io\<lparr>from_user_id := Some u\<rparr>) STM32ECU_RECV_MSG s3 = Some (- EAGAIN, No_Out, s3) \<and>
    vm_live s3 = vm_live s + 1"
proof -
  have "ecu_setting.tracked tv tok mok iv iok xv (Idle, [], s)"
    using ecu_setting.tracked_start[OF assms(1-6)] .
  from ecu_setting.send_response_recv[OF assms(1) this assms(7-14), of g] show ?thesis by simp
qed

theorem send_response_recv_roundtrip_witness:
  "\<exists>s1 s2 s3. ioctl_call wenv (calm\<lparr>from_user_msg := Some (wmsg 3)\<rparr>) STM32ECU_SEND_MSG ring_ecu =
      Some (0, Out_Id 1, s1) \<and>
    rpmsg_sample_cb wenv (calm\<lparr>from_user_msg := Some (wmsg 3)\<rparr>) 0 0 (Some (wmsg 4)) 60 s1 = Some (0, s2) \<and>
    ioctl_call wenv (calm\<lparr>from_user_msg := Some (wmsg 3), from_user_id := Some 1\<rparr>) STM32ECU_RECV_MSG s2 =
      Some (0, Out_Msg (wmsg 4), s3)"
  using send_response_recv_roundtrip[OF wenv_setting ring_ecu_queues(1-4,6), where
      io = "calm\<lparr>from_user_msg := Some (wmsg 3)\<rparr>" and req = "wmsg 3" and dev = 0 and c = 0 and g = 0,
      OF _ _ _ _ _ _ wmsg_crc[of 4] wenv_alloc]
  by auto

text \<open>C3: Answers reach the requests they belong to. Take any run of the control calls and of the channel callback in
  which the callback may also run in the middle of a request or a ping, in which calls may fail in every way they can
  and in which any message may come in, and in which nothing upset the book-keeping (the flag is not set: no message was
  sent that then could not be marked, given a slot or queued, no answer overtook the registration of its request, none
  had a wrong length, or a wrong checksum while a slot waited for it). Then the next answer is stored under the number
  that the oldest unanswered request was given, where nothing was stored before, and no other slot and not the queue of
  \<^verbatim>\<open>read\<close> changes, also when another request is under way. The runs leave out no outcome: every control call that
  comes back is a run of steps, which adds the number it hands out and sets the flag only if it fails.\<close>

theorem responses_reach_requesters:
  assumes "ecu_setting env tv tok mv mok iv iok xv"
    "tok (fifo_send_types s)" "mok (fifo_external_msg s)" "iok (fifo_unique_ids s)"
    "tv (fifo_send_types s) = []" "iv (fifo_unique_ids s) = []"
    "(traffic env)\<^sup>*\<^sup>* (Idle, [], False, s) (c, Some u # p, False, s1)"
    "crc_ok env m" "drvdata s1 dev = Some k" "vmalloc_ok io"
  shows "(\<exists>s2. rpmsg_sample_cb env io g dev (Some m) (sizeof_msg env) s1 = Some (0, s2) \<and>
      xa_load env (rx_unique_buffer s1) u = None \<and> xa_load env (rx_unique_buffer s2) u = Some m \<and>
      (\<forall>v. v \<noteq> u \<longrightarrow> xa_load env (rx_unique_buffer s2) v = xa_load env (rx_unique_buffer s1) v) \<and>
      fifo_external_msg s2 = fifo_external_msg s1 \<and> traffic env (c, Some u # p, False, s1) (c, p, False, s2)) \<and>
    (\<forall>io cmd r out s2. c = Idle \<and> ioctl_call env io cmd s1 = Some (r, out, s2) \<longrightarrow>
      (\<exists>p' b. (traffic env)\<^sup>*\<^sup>* (c, Some u # p, False, s1) (Idle, p', b, s2) \<and>
        (\<forall>v. out = Out_Id v \<longrightarrow> p' = (Some u # p) @ [Some v]) \<and> (r = 0 \<longrightarrow> \<not> b)))"
proof -
  have "ecu_setting.tracked tv tok mok iv iok xv (Idle, [], s)"
    by (rule ecu_setting.tracked_start[OF assms(1-6)])
  then have t: "ecu_setting.tracked tv tok mok iv iok xv (c, Some u # p, s1)"
    using ecu_setting.traffic_star_tracked[OF assms(1,7)] by simp
  obtain s2 where s2: "rpmsg_sample_cb env io g dev (Some m) (sizeof_msg env) s1 = Some (0, s2)"
      "xa_load env (rx_unique_buffer s1) u = None" "xa_load env (rx_unique_buffer s2) u = Some m"
      "\<forall>v. v \<noteq> u \<longrightarrow> xa_load env (rx_unique_buffer s2) v = xa_load env (rx_unique_buffer s1) v"
      "fifo_external_msg s2 = fifo_external_msg s1"
    using ecu_setting.routed_response[OF assms(1) t assms(8-10), of g] by blast
  have step: "traffic env (c, Some u # p, False, s1) (c, p, False, s2)"
    using traffic.incoming[OF s2(1), where c = c and p = "Some u # p" and b = False] assms(8) by (simp add: in_order_def)
  have calls: "\<exists>p' b. (traffic env)\<^sup>*\<^sup>* (Idle, Some u # p, False, s1) (Idle, p', b, s2) \<and>
      (\<forall>v. out = Out_Id v \<longrightarrow> p' = (Some u # p) @ [Some v]) \<and> (r = 0 \<longrightarrow> \<not> b)"
    if "ioctl_call env io cmd s1 = Some (r, out, s2)" for io cmd r out s2
    using calls_are_traffic[OF that, of "Some u # p" False] by auto
  show ?thesis
    by (intro conjI exI[of _ s2] s2 step allI impI; elim conjE; simp only:; rule calls)
qed

text \<open>One request was made, a second one has just been sent when the answer to the first comes in.\<close>

theorem responses_reach_requesters_witness:
  "\<exists>s1 s2 s3. ioctl_call wenv (calm\<lparr>from_user_msg := Some (wmsg 3)\<rparr>) STM32ECU_SEND_MSG ring_ecu = Some (0, Out_Id 1, s1) \<and>
    s2 = s1\<lparr>sent := [wmsg 3, wmsg 3]\<rparr> \<and>
    (traffic wenv)\<^sup>*\<^sup>* (Idle, [], False, ring_ecu) (Request_Sent, [Some 1], False, s2) \<and>
    rpmsg_sample_cb wenv calm 5 0 (Some (wmsg 4)) 60 s2 = Some (0, s3) \<and>
    xa_load wenv (rx_unique_buffer s3) 1 = Some (wmsg 4)"
proof -
  let ?io = "calm\<lparr>from_user_msg := Some (wmsg 3)\<rparr>"
  have "\<exists>s1. ioctl_send_msg wenv ?io ring_ecu = Some (0, Out_Id 1, s1) \<and> sent s1 = sent ring_ecu @ [wmsg 3] \<and>
      drvdata s1 = drvdata ring_ecu \<and> vm_live s1 = vm_live ring_ecu"
    by (rule ecu_setting.send_succeeds[OF wenv_setting _ _ _ _ _ _ _ wenv_alloc])
      (simp_all add: ecu_setting.wf_def[OF wenv_setting] ring_ecu_queues del: length_contents)
  then obtain s1 where s1: "ioctl_call wenv ?io STM32ECU_SEND_MSG ring_ecu = Some (0, Out_Id 1, s1)" "drvdata s1 0 = Some 0"
      "sent s1 = [wmsg 3]"
    by auto
  have "global_rproc_ref s1 = Some 0"
    using s1(1) by (auto simp: ioctl_send_msg_def register_request_def mark_def assign_number_def queue_number_def
        split: prod.splits if_splits option.splits)
  note second = traffic.request_sent[of ?io "wmsg 3", OF _ this, of wenv "[Some 1]" False, simplified]
  have "(traffic wenv)\<^sup>*\<^sup>* (Idle, [], False, ring_ecu) (Idle, [Some 1], False, s1)"
    using calls_are_traffic[OF s1(1), of "[]" False] by auto
  from rtranclp.rtrancl_into_rtrancl[OF this second]
  have run: "(traffic wenv)\<^sup>*\<^sup>* (Idle, [], False, ring_ecu) (Request_Sent, [Some 1], False, s1\<lparr>sent := [wmsg 3, wmsg 3]\<rparr>)"
    by (simp add: s1(3))
  have "drvdata (s1\<lparr>sent := [wmsg 3, wmsg 3]\<rparr>) 0 = Some 0" using s1(2) by simp
  from responses_reach_requesters[OF wenv_setting ring_ecu_queues(1-4,6) run wmsg_crc[of 4] this calm_simps(2), of 5] run s1(1)
  show ?thesis by (auto simp only: wenv_size)
qed

text \<open>An answer that arrives after \<^verbatim>\<open>rpmsg_send\<close> but before the request is marked finds no mark: the callback drops it
  with \<^verbatim>\<open>-EINVAL\<close>. The request is registered afterwards all the same, its caller waits for ever, and the answer to the
  next request is stored under its number.\<close>

theorem early_answer_lost:
  assumes "ecu_setting env tv tok mv mok iv iok xv"
    "tok (fifo_send_types s)" "mok (fifo_external_msg s)" "iok (fifo_unique_ids s)"
    "tv (fifo_send_types s) = []" "iv (fifo_unique_ids s) = []"
    "drvdata s dev = Some k" "vmalloc_ok io" "crc_ok env m2"
  shows "\<exists>s1. rpmsg_sample_cb env io g dev (Some m) (sizeof_msg env) s = Some (- EINVAL, s1) \<and>
    rx_unique_buffer s1 = rx_unique_buffer s \<and> next_uid s1 = next_uid s \<and>
    (\<forall>u s2 v s3. register_request env s1 = (Some u, s2) \<and> register_request env s2 = (Some v, s3) \<longrightarrow>
      u \<noteq> v \<and> (\<exists>s4. rpmsg_sample_cb env io g dev (Some m2) (sizeof_msg env) s3 = Some (0, s4) \<and>
        xa_load env (rx_unique_buffer s4) u = Some m2 \<and> xa_load env (rx_unique_buffer s4) v = None))"
proof -
  have "ecu_setting.wf tok mok iok s" using assms(2-4) ecu_setting.wf_def[OF assms(1)] by simp
  from ecu_setting.early_answer[OF assms(1) this assms(5-9)] show ?thesis .
qed

theorem early_answer_lost_witness:
  "\<exists>s1. rpmsg_sample_cb wenv calm 0 0 (Some (wmsg 3)) 60 ring_ecu = Some (- EINVAL, s1) \<and> rx_unique_buffer s1 = Map.empty"
  using early_answer_lost[OF wenv_setting ring_ecu_queues(1-4,6), of 0 0 calm "wmsg 4" 0 "wmsg 3"]
  by (auto simp: ring_ecu_def)

text \<open>\<^verbatim>\<open>read\<close> delivers the stored responses in the order they came in and removes them, as many as the buffer
  has room for. The length it reports is that of the buffer (at most 256 messages) also when fewer messages
  are stored: the places after the last stored message are counted but not written.\<close>

theorem read_delivers_in_order:
  assumes "ecu_setting env tv tok mv mok iv iok xv" "mok (fifo_external_msg s)"
  shows "case ioctl_read env (k * sizeof_msg env) s of (bytes, out, s') \<Rightarrow>
    bytes = int (min k 256 * sizeof_msg env) \<and>
    out = map Some (take k (mv (fifo_external_msg s))) @ replicate (min k 256 - length (mv (fifo_external_msg s))) None \<and>
    mv (fifo_external_msg s') = drop k (mv (fifo_external_msg s)) \<and> mok (fifo_external_msg s') \<and>
    s' = s\<lparr>fifo_external_msg := fifo_external_msg s'\<rparr>"
proof -
  have len: "length (mv (fifo_external_msg s)) \<le> 256"
    using bounded_fifo.bound[OF ecu_setting.msgs_fifo[OF assms(1)] assms(2)] .
  have "0 < sizeof_msg env" "size_msg env (fifo_external_msg s) = 256"
    using ecu_setting.msg_sized[OF assms(1)] ecu_setting.msgs_size[OF assms(1,2)] by simp_all
  moreover have "take (min k 256) (mv (fifo_external_msg s)) = take k (mv (fifo_external_msg s))"
    "drop (min k 256) (mv (fifo_external_msg s)) = drop k (mv (fifo_external_msg s))"
    using len by (auto simp: min_def)
  ultimately show ?thesis
    using ecu_setting.read_loop_spec[OF assms, of "min k 256"]
    by (auto simp: ioctl_read_def Let_def split: prod.splits)
qed

theorem read_delivers_in_order_witness:
  "case ioctl_read wenv (2 * 60) ring_ecu of (bytes, out, s') \<Rightarrow> bytes = 120 \<and> out = [None, None]"
  using read_delivers_in_order[OF wenv_setting ring_ecu_queues(2), of 2]
  by (auto simp: ring_ecu_queues(5) numeral_2_eq_2 simp del: length_contents)

text \<open>\<^verbatim>\<open>write\<close> of a block of messages whose checksums are correct sends them in order up to the first one the
  channel refuses (or all of them) and returns the bytes sent. It queues one mark more than it sends messages,
  as far as the queue has room, and never frees the block it copied the messages to.\<close>

theorem write_sends_in_order:
  assumes "ecu_setting env tv tok mv mok iv iok xv"
    "tok (fifo_send_types s)" "mok (fifo_external_msg s)" "iok (fifo_unique_ids s)"
    "global_rproc_ref s = Some dev" "vmalloc_ok io" "from_user_msgs io = Some msgs" "\<forall>m \<in> set msgs. crc_ok env m"
    "\<forall>j < k. rpmsg_send io j = 0" "k \<le> length msgs" "k < length msgs \<longrightarrow> rpmsg_send io k \<noteq> 0"
  shows "\<exists>t. ioctl_write env io (length msgs * sizeof_msg env) s = Some (int (k * sizeof_msg env),
      s\<lparr>sent := sent s @ take k msgs, fifo_send_types := t, vm_live := vm_live s + 1\<rparr>) \<and> tok t \<and>
    tv t = take 512 (tv (fifo_send_types s) @ replicate (k + 1) SENT_MSG_EXTERNAL_FIFO)"
proof -
  have "ecu_setting.wf tok mok iok s" using assms(2-4) ecu_setting.wf_def[OF assms(1)] by simp
  from ecu_setting.write_spec[OF assms(1) this assms(5) refl assms(6-11)] show ?thesis by simp
qed

theorem write_sends_in_order_witness:
  "\<exists>t. ioctl_write wenv (calm\<lparr>from_user_msgs := Some [wmsg 1, wmsg 2], rpmsg_send := (\<lambda>i. if i = 1 then - 5 else 0)\<rparr>)
      120 ring_ecu = Some (60, ring_ecu\<lparr>sent := [wmsg 1], fifo_send_types := t, vm_live := 1\<rparr>) \<and>
    contents t = [SENT_MSG_EXTERNAL_FIFO, SENT_MSG_EXTERNAL_FIFO]"
proof -
  let ?io = "calm\<lparr>from_user_msgs := Some [wmsg 1, wmsg 2], rpmsg_send := (\<lambda>i. if i = 1 then - 5 else 0)\<rparr>"
  have "\<exists>t. ioctl_write wenv ?io (length [wmsg 1, wmsg 2] * sizeof_msg wenv) ring_ecu =
      Some (int (1 * sizeof_msg wenv), ring_ecu\<lparr>sent := sent ring_ecu @ take 1 [wmsg 1, wmsg 2], fifo_send_types := t,
        vm_live := vm_live ring_ecu + 1\<rparr>) \<and> (kf_inv t \<and> cap t = 512) \<and>
    contents t = take 512 (contents (fifo_send_types ring_ecu) @ replicate (1 + 1) SENT_MSG_EXTERNAL_FIFO)"
    by (rule write_sends_in_order[OF wenv_setting ring_ecu_queues(1-3)]) simp_all
  then show ?thesis by (auto simp: ring_ecu_queues(4) numeral_2_eq_2)
qed

text \<open>C32: Messages written with \<^verbatim>\<open>write\<close> when nothing is outstanding and answered with correct checksums: reading back
  delivers exactly the answers, in order. One mark of the \<^verbatim>\<open>write\<close> is left over; the answer to a ping sent
  afterwards is taken for the answer to a written message and turns up in the queue of \<^verbatim>\<open>read\<close>.\<close>

theorem written_answers_read_back:
  assumes "ecu_setting env tv tok mv mok iv iok xv"
    "tok (fifo_send_types s)" "mok (fifo_external_msg s)" "iok (fifo_unique_ids s)"
    "tv (fifo_send_types s) = []" "mv (fifo_external_msg s) = []"
    "global_rproc_ref s = Some dev" "drvdata s dev \<noteq> None" "vmalloc_ok io" "from_user_msgs io = Some msgs"
    "\<forall>m \<in> set msgs. crc_ok env m" "\<forall>j. rpmsg_send io j = 0" "length rs = length msgs" "length rs \<le> 255"
    "\<forall>m \<in> set rs. crc_ok env m" "\<not> dev_offline io dev" "crc_ok env pong"
  shows "\<exists>s1 s2 s3 s4. ioctl_write env io (length msgs * sizeof_msg env) s = Some (int (length msgs * sizeof_msg env), s1) \<and>
    respond_all env io dev rs s1 = Some s2 \<and> mv (fifo_external_msg s2) = rs \<and>
    ioctl_call env io STM32ECU_PING_RPROC s2 = Some (0, No_Out, s3) \<and>
    rpmsg_sample_cb env io 0 dev (Some pong) (sizeof_msg env) s3 = Some (0, s4) \<and>
    mv (fifo_external_msg s4) = rs @ [pong]"
proof -
  have wf: "ecu_setting.wf tok mok iok s" using assms(2-4) ecu_setting.wf_def[OF assms(1)] by simp
  have all: "\<forall>j < length msgs. rpmsg_send io j = 0" "length msgs \<le> length msgs"
    "length msgs < length msgs \<longrightarrow> rpmsg_send io (length msgs) \<noteq> 0" using assms(12) by simp_all
  obtain t where w: "ioctl_write env io (length msgs * sizeof_msg env) s = Some (int (length msgs * sizeof_msg env),
      s\<lparr>sent := sent s @ msgs, fifo_send_types := t, vm_live := vm_live s + 1\<rparr>)" "tok t"
      "tv t = replicate (length rs) SENT_MSG_EXTERNAL_FIFO @ [SENT_MSG_EXTERNAL_FIFO]"
    using ecu_setting.write_spec[OF assms(1) wf assms(7) refl assms(9-11) all] assms(5,13,14)
    by (auto simp: replicate_append_same)
  let ?s1 = "s\<lparr>sent := sent s @ msgs, fifo_send_types := t, vm_live := vm_live s + 1\<rparr>"
  have wf1: "ecu_setting.wf tok mok iok ?s1" using assms(2-4) w(2) ecu_setting.wf_def[OF assms(1)] by simp
  obtain s2 where s2: "respond_all env io dev rs ?s1 = Some s2" "ecu_setting.wf tok mok iok s2"
      "tv (fifo_send_types s2) = [SENT_MSG_EXTERNAL_FIFO]" "mv (fifo_external_msg s2) = rs"
      "drvdata s2 dev \<noteq> None" "global_rproc_ref s2 = Some dev"
    using ecu_setting.fifo_responses[OF assms(1) wf1, of dev rs "[SENT_MSG_EXTERNAL_FIFO]" io] w(3) assms(6-8,14,15)
    by auto
  obtain s3 where s3: "ioctl_ping_rproc env io s2 = Some (0, No_Out, s3)" "ecu_setting.wf tok mok iok s3"
      "tv (fifo_send_types s3) = [SENT_MSG_EXTERNAL_FIFO, SENT_MSG_INTERNAL]"
      "fifo_external_msg s3 = fifo_external_msg s2" "drvdata s3 = drvdata s2"
    using ecu_setting.ping_succeeds[OF assms(1) s2(2,6), of io] assms(12,16) s2(3) by auto
  obtain c where c: "drvdata s3 dev = Some c" using s2(5) s3(5) by auto
  have room: "length (mv (fifo_external_msg s3)) < 256" using s3(4) s2(4) assms(14) by simp
  obtain s4 where "rpmsg_sample_cb env io 0 dev (Some pong) (sizeof_msg env) s3 = Some (0, s4)"
      "mv (fifo_external_msg s4) = rs @ [pong]"
    by (rule ecu_setting.cb_fifo[OF assms(1) s3(2) c s3(3) assms(17) room, of io 0]) (use s3(4) s2(4) in auto)
  then show ?thesis using w(1) s2(1,4) s3(1) by auto
qed

theorem written_answers_read_back_witness:
  "\<exists>s1 s2 s3 s4. ioctl_write wenv (calm\<lparr>from_user_msgs := Some [wmsg 1]\<rparr>) 60 ring_ecu = Some (60, s1) \<and>
    respond_all wenv (calm\<lparr>from_user_msgs := Some [wmsg 1]\<rparr>) 0 [wmsg 2] s1 = Some s2 \<and>
    contents (fifo_external_msg s2) = [wmsg 2] \<and>
    ioctl_call wenv (calm\<lparr>from_user_msgs := Some [wmsg 1]\<rparr>) STM32ECU_PING_RPROC s2 = Some (0, No_Out, s3) \<and>
    rpmsg_sample_cb wenv (calm\<lparr>from_user_msgs := Some [wmsg 1]\<rparr>) 0 0 (Some (wmsg 7)) 60 s3 = Some (0, s4) \<and>
    contents (fifo_external_msg s4) = [wmsg 2, wmsg 7]"
  using written_answers_read_back[OF wenv_setting ring_ecu_queues(1-5), where dev = 0 and
      io = "calm\<lparr>from_user_msgs := Some [wmsg 1]\<rparr>" and msgs = "[wmsg 1]" and rs = "[wmsg 2]" and pong = "wmsg 7"]
  by (simp add: calm_def)

text \<open>A response with a wrong checksum is dropped together with its mark, but the slot number of its request stays
  queued: the (correct) response to the next request is then stored under the number of the first request, and
  the slot of the request it answers stays empty.\<close>

theorem bad_response_shifts_slots:
  assumes "ecu_setting env tv tok mv mok iv iok xv"
    "tok (fifo_send_types s)" "mok (fifo_external_msg s)" "iok (fifo_unique_ids s)"
    "tv (fifo_send_types s) = [SENT_MSG_EXTERNAL_UNIQUE, SENT_MSG_EXTERNAL_UNIQUE]" "iv (fifo_unique_ids s) = [u1, u2]"
    "u1 \<noteq> u2" "xv (rx_unique_buffer s) u1 = Some None" "xv (rx_unique_buffer s) u2 = Some None"
    "drvdata s dev = Some c" "vmalloc_ok io" "\<not> crc_ok env bad" "crc_ok env res2"
  shows "\<exists>s1 s2. rpmsg_sample_cb env io g dev (Some bad) (sizeof_msg env) s = Some (0, s1) \<and>
    rpmsg_sample_cb env io g dev (Some res2) (sizeof_msg env) s1 = Some (0, s2) \<and>
    xa_load env (rx_unique_buffer s2) u1 = Some res2 \<and> xa_load env (rx_unique_buffer s2) u2 = None \<and>
    tv (fifo_send_types s2) = []"
proof -
  define t where "t = snd (get_type env (fifo_send_types s))"
  define s1 where "s1 = s\<lparr>drvdata := (drvdata s)(dev \<mapsto> c + 1), fifo_send_types := t\<rparr>"
  note tf = ecu_setting.types_fifo[OF assms(1)]
  have t: "get_type env (fifo_send_types s) = (Some SENT_MSG_EXTERNAL_UNIQUE, t)" "tok t"
      "tv t = [SENT_MSG_EXTERNAL_UNIQUE]"
    using bounded_fifo.get_nonempty[OF tf assms(2)] assms(5) by (auto simp: t_def prod_eq_iff)
  have cb1: "rpmsg_sample_cb env io g dev (Some bad) (sizeof_msg env) s = Some (0, s1)"
    using t(1) assms(10,12) by (simp add: rpmsg_sample_cb_def Let_def s1_def)
  have s1: "ecu_setting.wf tok mok iok s1" "drvdata s1 dev = Some (c + 1)"
      "tv (fifo_send_types s1) = [SENT_MSG_EXTERNAL_UNIQUE]" "iv (fifo_unique_ids s1) = [u1, u2]"
      "xv (rx_unique_buffer s1) u1 \<noteq> None" "rx_unique_buffer s1 = rx_unique_buffer s"
    using assms(3,4,6,8) t ecu_setting.wf_def[OF assms(1)] by (simp_all add: s1_def)
  show ?thesis
    by (rule ecu_setting.cb_unique[OF assms(1) s1(1-3) assms(13) s1(4,5) assms(11), of g])
      (use cb1 s1(6) assms(7,9) xa_conforms_load[OF ecu_setting.slots[OF assms(1)]] in auto)
qed

theorem bad_response_shifts_slots_witness:
  "\<exists>s s1 s2. rpmsg_sample_cb wenv calm 0 0 (Some ((wmsg 3)\<lparr>checksum := 9\<rparr>)) 60 s = Some (0, s1) \<and>
    rpmsg_sample_cb wenv calm 0 0 (Some (wmsg 4)) 60 s1 = Some (0, s2) \<and>
    xa_load wenv (rx_unique_buffer s2) 1 = Some (wmsg 4) \<and> xa_load wenv (rx_unique_buffer s2) 2 = None"
proof -
  let ?U = SENT_MSG_EXTERNAL_UNIQUE
  define s where "s = ring_ecu\<lparr>fifo_send_types := snd (kfifo_put ?U (snd (kfifo_put ?U (fifo_send_types ring_ecu)))),
    fifo_unique_ids := snd (kfifo_put 2 (snd (kfifo_put 1 (fifo_unique_ids ring_ecu)))),
    rx_unique_buffer := [1 \<mapsto> None, 2 \<mapsto> None]\<rparr>"
  have q: "kf_inv (fifo_send_types s) \<and> cap (fifo_send_types s) = 512" "contents (fifo_send_types s) = [?U, ?U]"
    "kf_inv (fifo_unique_ids s) \<and> cap (fifo_unique_ids s) = 256" "contents (fifo_unique_ids s) = [1, 2]"
    using two_puts[OF ring_ecu_queues(1) _ ring_ecu_queues(4), of ?U ?U]
      two_puts[OF ring_ecu_queues(3) _ ring_ecu_queues(6), where x = 1 and y = 2] by (simp_all add: s_def)
  have m: "kf_inv (fifo_external_msg s) \<and> cap (fifo_external_msg s) = 256"
    using ring_ecu_queues(2) by (simp add: s_def)
  have rest: "rx_unique_buffer s 1 = Some None" "rx_unique_buffer s 2 = Some None" "drvdata s 0 = Some 0"
    "\<not> crc_ok wenv ((wmsg 3)\<lparr>checksum := 9\<rparr>)"
    by (simp_all add: s_def crc_ok_def wenv_def ring_env_def wmsg_def)
  from bad_response_shifts_slots[OF wenv_setting q(1) m q(3,2,4) _ rest(1-3) _ rest(4) wmsg_crc[of 4], of calm 0]
  show ?thesis by auto
qed

text \<open>Programs opening and closing the device file in any order: at most one of them holds it at a time, and the
  variable \<^verbatim>\<open>device_open\<close> counts the holder.\<close>

theorem device_file_exclusive:
  assumes "file_step\<^sup>*\<^sup>* (0, s) (h, s')" "device_open s = 0"
  shows "h \<le> 1 \<and> device_open s' = int h \<and> (h = 1 \<longrightarrow> fst (ioctl_open s') = - EBUSY) \<and>
    (h = 0 \<longrightarrow> fst (ioctl_open s') = 0)"
proof -
  have "device_open (snd (h, s')) = int (fst (h, s')) \<and> fst (h, s') \<le> 1"
    using assms(1)
  proof (induction rule: rtranclp_induct)
    case base
    then show ?case using assms(2) by simp
  next
    case (step y z)
    then show ?case using file_step_count by blast
  qed
  then show ?thesis by (auto simp: ioctl_open_def)
qed

theorem device_file_exclusive_witness:
  "\<exists>s'. file_step\<^sup>*\<^sup>* (0, ring_ecu) (1, s') \<and> device_open s' = 1 \<and> fst (ioctl_open s') = - EBUSY"
proof -
  have zero: "device_open ring_ecu = 0" by (simp add: ring_ecu_def)
  then have "file_step\<^sup>*\<^sup>* (0, ring_ecu) (1, ring_ecu\<lparr>device_open := 1\<rparr>)"
    using file_step.opened[of ring_ecu "ring_ecu\<lparr>device_open := 1\<rparr>" 0] by (auto simp: ioctl_open_def)
  with device_file_exclusive[OF this zero] show ?thesis by auto
qed

text \<open>Loading the module succeeds exactly when the device number, the character device and the channel driver
  can be registered and class and device are not null; then everything is registered. Of a failed loading
  the character device stays registered once it was added, and a failure to register the channel driver
  leaves everything else registered. Unloading leaves the character device registered too.\<close>

theorem module_loading:
  "let (r, after) = stm32ecu_init io regs in
    (r = 0 \<longleftrightarrow> 0 \<le> alloc_chrdev_region io \<and> 0 \<le> cdev_add io \<and> class_create io \<noteq> KNull \<and> device_create io \<noteq> KNull \<and>
       0 \<le> register_rpmsg_driver io) \<and>
    (r = 0 \<longrightarrow> chrdev_region after \<and> cdev_added after \<and> dev_class after \<noteq> KNull \<and> my_device after \<noteq> KNull \<and>
       rpmsg_driver after \<and> cdev_added (fst (stm32ecu_exit env (after, s)))) \<and>
    (r \<noteq> 0 \<longrightarrow> r = - 1 \<and> rpmsg_driver after = rpmsg_driver regs \<and>
       (0 \<le> alloc_chrdev_region io \<and> 0 \<le> cdev_add io \<longrightarrow> cdev_added after)) \<and>
    (0 \<le> alloc_chrdev_region io \<and> 0 \<le> cdev_add io \<and> class_create io \<noteq> KNull \<and> device_create io \<noteq> KNull \<and>
       register_rpmsg_driver io < 0 \<longrightarrow>
       r = - 1 \<and> chrdev_region after \<and> dev_class after = class_create io \<and> my_device after = device_create io)"
  by (auto simp: stm32ecu_init_def stm32ecu_exit_def Let_def)

definition no_regs :: regs where
  "no_regs = \<lparr>chrdev_region = False, cdev_fops = False, cdev_added = False, dev_class = KNull, my_device = KNull,
     rpmsg_driver = False\<rparr>"

definition late_failure :: init_io where
  "late_failure = \<lparr>alloc_chrdev_region = 0, cdev_add = 0, class_create = KObj, device_create = KObj,
     register_rpmsg_driver = - 5\<rparr>"

theorem module_loading_witness:
  "let (r, after) = stm32ecu_init late_failure no_regs in r = - 1 \<and> chrdev_region after \<and> cdev_added after"
proof -
  obtain r regs where e: "stm32ecu_init late_failure no_regs = (r, regs)" by (rule prod.exhaust)
  have "0 \<le> alloc_chrdev_region late_failure" "0 \<le> cdev_add late_failure" "class_create late_failure \<noteq> KNull"
    "device_create late_failure \<noteq> KNull" "register_rpmsg_driver late_failure < 0" "(- 1 :: int) \<noteq> 0"
    by (simp_all add: late_failure_def)
  then show ?thesis using module_loading[of late_failure no_regs wenv ring_ecu]
    unfolding e Let_def prod.case by blast
qed

text \<open>Before the coprocessor has announced its channel, a ping is refused with \<^verbatim>\<open>-EINVAL\<close> and changes nothing, while
  sending a message or writing a correct one goes through the null pointer.\<close>

theorem no_coprocessor:
  assumes "global_rproc_ref s = None" "from_user_msg io = Some m" "from_user_msgs io = Some (m # ms)"
    "\<forall>m \<in> set (m # ms). crc_ok env m" "0 < sizeof_msg env"
  shows "ioctl_call env io STM32ECU_PING_RPROC s = Some (- EINVAL, No_Out, s) \<and>
    ioctl_call env io STM32ECU_SEND_MSG s = None \<and>
    ioctl_write env io (length (m # ms) * sizeof_msg env) s = None"
proof -
  have "global_rproc_ref (snd (mark env ty s)) = None" for ty
    using assms(1) by (simp add: mark_def split: prod.splits)
  then show ?thesis
    using assms by (simp add: ioctl_ping_rproc_def ioctl_send_msg_def ioctl_write_def Let_def)
qed

theorem no_coprocessor_witness:
  "ioctl_call wenv (calm\<lparr>from_user_msg := Some (wmsg 1), from_user_msgs := Some [wmsg 1]\<rparr>) STM32ECU_SEND_MSG
    (ring_ecu\<lparr>global_rproc_ref := None\<rparr>) = None"
  using no_coprocessor[of "ring_ecu\<lparr>global_rproc_ref := None\<rparr>"
      "calm\<lparr>from_user_msg := Some (wmsg 1), from_user_msgs := Some [wmsg 1]\<rparr>" "wmsg 1" "[]" wenv]
  by simp

end
