(* ===== verification/Rtos_Heap.thy ===== *)
theory Rtos_Heap
  imports Prelude
begin

text \<open>
  The memory allocator of the firmware (\<^verbatim>\<open>Middlewares/Third_Party/FreeRTOS/Source/portable/MemMang/heap_4.c\<close>, selected by
  \<^verbatim>\<open>USE_FreeRTOS_HEAP_4\<close>), which the tasks and the communication layers share.

  Addresses and sizes are natural numbers; \<open>w32\<close> is written where arithmetic on \<^verbatim>\<open>size_t\<close> can wrap around. Every block begins with
  a link (next free block and size), kept in \<open>h_mem\<close> under the address of the block; the list head \<^verbatim>\<open>xStart\<close> is a variable at an
  address of its own. \<open>None\<close> is a failed assertion, which stops the processor, a loop without end, or what the hook for failed
  allocations does if it does not return. Scheduling is suspended while the lists are changed, so each call is one step.

  The theory shows that the heap is a sequence of adjacent blocks which the two functions split and join: a
  refinement of a first-fit allocator, from which follow the separation of what is handed out, the exactness of the
  byte counts, and that freeing everything gives back one block.
\<close>

section \<open>State\<close>

record BlockLink_t =
  pxNextFreeBlock :: nat
  xBlockSize :: nat

record heap4 =
  ucHeap :: nat
  xStart :: nat
  h_mem :: "nat \<Rightarrow> BlockLink_t"
  pxEnd :: nat
  xFreeBytesRemaining :: nat
  xMinimumEverFreeBytesRemaining :: nat
  xBlockAllocatedBit :: nat

definition w32 :: "nat \<Rightarrow> nat" where "w32 x = x mod 2 ^ 32"

definition sub32 :: "nat \<Rightarrow> nat \<Rightarrow> nat" where "sub32 x y = w32 (x + 2 ^ 32 - y)"

definition not32 :: "nat \<Rightarrow> nat" where "not32 x = 2 ^ 32 - 1 - x"

definition portBYTE_ALIGNMENT :: nat where "portBYTE_ALIGNMENT = 8"
definition portBYTE_ALIGNMENT_MASK :: nat where "portBYTE_ALIGNMENT_MASK = 7"
definition configTOTAL_HEAP_SIZE :: nat where "configTOTAL_HEAP_SIZE = 16384"
definition heapBITS_PER_BYTE :: nat where "heapBITS_PER_BYTE = 8"

definition xHeapStructSize :: nat where
  "xHeapStructSize = (8 + (portBYTE_ALIGNMENT - 1)) AND not32 portBYTE_ALIGNMENT_MASK"

definition heapMINIMUM_BLOCK_SIZE :: nat where
  "heapMINIMUM_BLOCK_SIZE = w32 (push_bit 1 xHeapStructSize)"

definition next_of :: "nat \<Rightarrow> heap4 \<Rightarrow> nat" where "next_of p s = pxNextFreeBlock (h_mem s p)"
definition size_of :: "nat \<Rightarrow> heap4 \<Rightarrow> nat" where "size_of p s = xBlockSize (h_mem s p)"

definition set_next :: "nat \<Rightarrow> nat \<Rightarrow> heap4 \<Rightarrow> heap4" where
  "set_next p v s = s\<lparr>h_mem := (h_mem s)(p := (h_mem s p)\<lparr>pxNextFreeBlock := v\<rparr>)\<rparr>"

definition set_size :: "nat \<Rightarrow> nat \<Rightarrow> heap4 \<Rightarrow> heap4" where
  "set_size p v s = s\<lparr>h_mem := (h_mem s)(p := (h_mem s p)\<lparr>xBlockSize := v\<rparr>)\<rparr>"

section \<open>Operations\<close>

definition prvHeapInit :: "heap4 \<Rightarrow> heap4" where
  "prvHeapInit s =
     (let unaligned = ucHeap s AND portBYTE_ALIGNMENT_MASK \<noteq> 0;
          uxAddress = (if unaligned then w32 (ucHeap s + (portBYTE_ALIGNMENT - 1)) AND not32 portBYTE_ALIGNMENT_MASK else ucHeap s);
          xTotalHeapSize = (if unaligned then sub32 configTOTAL_HEAP_SIZE (sub32 uxAddress (ucHeap s)) else configTOTAL_HEAP_SIZE);
          pucAlignedHeap = uxAddress;
          s = set_size (xStart s) 0 (set_next (xStart s) pucAlignedHeap s);
          uxAddress = sub32 (w32 (pucAlignedHeap + xTotalHeapSize)) xHeapStructSize AND not32 portBYTE_ALIGNMENT_MASK;
          s = s\<lparr>pxEnd := uxAddress\<rparr>;
          s = set_next (pxEnd s) 0 (set_size (pxEnd s) 0 s);
          pxFirstFreeBlock = pucAlignedHeap;
          s = set_next pxFirstFreeBlock (pxEnd s) (set_size pxFirstFreeBlock (sub32 uxAddress pxFirstFreeBlock) s)
      in s\<lparr>xMinimumEverFreeBytesRemaining := size_of pxFirstFreeBlock s, xFreeBytesRemaining := size_of pxFirstFreeBlock s,
           xBlockAllocatedBit := push_bit (4 * heapBITS_PER_BYTE - 1) 1\<rparr>)"

text \<open>The place of a block in the list: the last link before it.\<close>

partial_function (option) insert_after :: "heap4 \<Rightarrow> nat \<Rightarrow> nat \<Rightarrow> nat option" where
  "insert_after s pxIterator pxBlockToInsert =
     (if next_of pxIterator s < pxBlockToInsert then insert_after s (next_of pxIterator s) pxBlockToInsert else Some pxIterator)"

definition join_next :: "nat \<Rightarrow> nat \<Rightarrow> heap4 \<Rightarrow> heap4" where
  "join_next pxIterator pxBlockToInsert s =
     (if pxBlockToInsert + size_of pxBlockToInsert s = next_of pxIterator s then
        (if next_of pxIterator s \<noteq> pxEnd s then
           let s = set_size pxBlockToInsert (w32 (size_of pxBlockToInsert s + size_of (next_of pxIterator s) s)) s
           in set_next pxBlockToInsert (next_of (next_of pxIterator s) s) s
         else set_next pxBlockToInsert (pxEnd s) s)
      else set_next pxBlockToInsert (next_of pxIterator s) s)"

definition link_block :: "nat \<Rightarrow> nat \<Rightarrow> heap4 \<Rightarrow> heap4" where
  "link_block pxIterator pxBlockToInsert s =
     (let (s, pxBlockToInsert) =
            (if pxIterator + size_of pxIterator s = pxBlockToInsert
             then (set_size pxIterator (w32 (size_of pxIterator s + size_of pxBlockToInsert s)) s, pxIterator)
             else (s, pxBlockToInsert));
          s = join_next pxIterator pxBlockToInsert s
      in if pxIterator \<noteq> pxBlockToInsert then set_next pxIterator pxBlockToInsert s else s)"

definition prvInsertBlockIntoFreeList :: "nat \<Rightarrow> heap4 \<Rightarrow> heap4 option" where
  "prvInsertBlockIntoFreeList pxBlockToInsert s =
     map_option (\<lambda>pxIterator. link_block pxIterator pxBlockToInsert s) (insert_after s (xStart s) pxBlockToInsert)"

text \<open>The search for a block that is large enough; the result is the link before it and the block.\<close>

partial_function (option) find_block :: "heap4 \<Rightarrow> nat \<Rightarrow> nat \<Rightarrow> nat \<Rightarrow> (nat \<times> nat) option" where
  "find_block s xWantedSize pxPreviousBlock pxBlock =
     (if size_of pxBlock s < xWantedSize \<and> next_of pxBlock s \<noteq> 0
      then find_block s xWantedSize pxBlock (next_of pxBlock s) else Some (pxPreviousBlock, pxBlock))"

definition wanted :: "nat \<Rightarrow> nat" where
  "wanted xWantedSize =
     (if xWantedSize > 0 then
        let xWantedSize = w32 (xWantedSize + xHeapStructSize)
        in if xWantedSize AND portBYTE_ALIGNMENT_MASK \<noteq> 0
           then w32 (xWantedSize + (portBYTE_ALIGNMENT - (xWantedSize AND portBYTE_ALIGNMENT_MASK))) else xWantedSize
      else xWantedSize)"

text \<open>The block is taken out of the counts and marked as the application's.\<close>

definition hand_out :: "nat \<Rightarrow> heap4 \<Rightarrow> heap4" where
  "hand_out pxBlock s =
     (let s = s\<lparr>xFreeBytesRemaining := sub32 (xFreeBytesRemaining s) (size_of pxBlock s)\<rparr>;
          s = (if xFreeBytesRemaining s < xMinimumEverFreeBytesRemaining s
               then s\<lparr>xMinimumEverFreeBytesRemaining := xFreeBytesRemaining s\<rparr> else s);
          s = set_size pxBlock (size_of pxBlock s OR xBlockAllocatedBit s) s
      in set_next pxBlock 0 s)"

definition take_block :: "nat \<Rightarrow> nat \<Rightarrow> nat \<Rightarrow> heap4 \<Rightarrow> (nat \<times> heap4) option" where
  "take_block xWantedSize pxPreviousBlock pxBlock s =
     (let pvReturn = next_of pxPreviousBlock s + xHeapStructSize;
          s = set_next pxPreviousBlock (next_of pxBlock s) s
      in map_option (\<lambda>s. (pvReturn, hand_out pxBlock s))
           (if sub32 (size_of pxBlock s) xWantedSize > heapMINIMUM_BLOCK_SIZE then
              let pxNewBlockLink = pxBlock + xWantedSize
              in if pxNewBlockLink AND portBYTE_ALIGNMENT_MASK \<noteq> 0 then None
                 else let s = set_size pxNewBlockLink (sub32 (size_of pxBlock s) xWantedSize) s
                      in prvInsertBlockIntoFreeList pxNewBlockLink (set_size pxBlock xWantedSize s)
            else Some s))"

text \<open>\<open>hook\<close> is the function called when there is no memory (\<^verbatim>\<open>vApplicationMallocFailedHook\<close>, a weak symbol).\<close>

definition pvPortMalloc :: "(heap4 \<Rightarrow> heap4 option) \<Rightarrow> nat \<Rightarrow> heap4 \<Rightarrow> (nat \<times> heap4) option" where
  "pvPortMalloc hook xWantedSize s =
     (let s = (if pxEnd s = 0 then prvHeapInit s else s)
      in case (if xWantedSize AND xBlockAllocatedBit s = 0 then
                 let xWantedSize = wanted xWantedSize
                 in if xWantedSize AND portBYTE_ALIGNMENT_MASK \<noteq> 0 then None
                    else if xWantedSize > 0 \<and> xWantedSize \<le> xFreeBytesRemaining s then
                      (case find_block s xWantedSize (xStart s) (next_of (xStart s) s) of
                         None \<Rightarrow> None
                       | Some (pxPreviousBlock, pxBlock) \<Rightarrow>
                           if pxBlock \<noteq> pxEnd s then take_block xWantedSize pxPreviousBlock pxBlock s else Some (0, s))
                    else Some (0, s)
               else Some (0, s)) of
           None \<Rightarrow> None
         | Some (pvReturn, s) \<Rightarrow>
             case (if pvReturn = 0 then hook s else Some s) of
               None \<Rightarrow> None
             | Some s \<Rightarrow> if pvReturn AND portBYTE_ALIGNMENT_MASK \<noteq> 0 then None else Some (pvReturn, s))"

text \<open>The hook of \<^verbatim>\<open>app_freertos.c\<close> stops the processor.\<close>

definition vApplicationMallocFailedHook :: "heap4 \<Rightarrow> heap4 option" where
  "vApplicationMallocFailedHook s = None"

definition vPortFree :: "nat \<Rightarrow> heap4 \<Rightarrow> heap4 option" where
  "vPortFree pv s =
     (if pv = 0 then Some s
      else let pxLink = pv - xHeapStructSize
           in if size_of pxLink s AND xBlockAllocatedBit s = 0 then None
              else if next_of pxLink s \<noteq> 0 then None
              else let s = set_size pxLink (size_of pxLink s AND not32 (xBlockAllocatedBit s)) s;
                       s = s\<lparr>xFreeBytesRemaining := w32 (xFreeBytesRemaining s + size_of pxLink s)\<rparr>
                   in prvInsertBlockIntoFreeList pxLink s)"

definition xPortGetFreeHeapSize :: "heap4 \<Rightarrow> nat" where
  "xPortGetFreeHeapSize s = xFreeBytesRemaining s"

definition xPortGetMinimumEverFreeHeapSize :: "heap4 \<Rightarrow> nat" where
  "xPortGetMinimumEverFreeHeapSize s = xMinimumEverFreeBytesRemaining s"

section \<open>The heap as a sequence of blocks\<close>

text \<open>
  A block is its size and whether it is in use. The blocks lie one behind the other from \<open>a\<close> on; \<open>e\<close> is where the list of free
  blocks goes on after them.
\<close>

type_synonym blocks = "(nat \<times> bool) list"

abbreviation total :: "blocks \<Rightarrow> nat" where "total bs \<equiv> sum_list (map fst bs)"

definition free_total :: "blocks \<Rightarrow> nat" where
  "free_total bs = sum_list (map fst (filter (\<lambda>b. \<not> snd b) bs))"

fun nfree :: "nat \<Rightarrow> blocks \<Rightarrow> nat \<Rightarrow> nat" where
  "nfree a [] e = e"
| "nfree a ((n, u) # bs) e = (if u then nfree (a + n) bs e else a)"

fun lastf :: "nat \<Rightarrow> nat \<Rightarrow> blocks \<Rightarrow> nat" where
  "lastf d a [] = d"
| "lastf d a ((n, u) # bs) = lastf (if u then d else a) (a + n) bs"

fun chain :: "heap4 \<Rightarrow> nat \<Rightarrow> blocks \<Rightarrow> nat \<Rightarrow> bool" where
  "chain s a [] e \<longleftrightarrow> True"
| "chain s a ((n, u) # bs) e \<longleftrightarrow> (\<not> u \<longrightarrow> size_of a s = n \<and> next_of a s = nfree (a + n) bs e) \<and> chain s (a + n) bs e"

fun used_at :: "nat \<Rightarrow> blocks \<Rightarrow> (nat \<times> nat) list" where
  "used_at a [] = []"
| "used_at a ((n, u) # bs) = (if u then [(a, n)] else []) @ used_at (a + n) bs"

definition used_ok :: "heap4 \<Rightarrow> nat \<Rightarrow> blocks \<Rightarrow> bool" where
  "used_ok s a bs \<longleftrightarrow> (\<forall>(p, n) \<in> set (used_at a bs). size_of p s = n OR 2 ^ 31 \<and> next_of p s = 0)"

fun coalesced :: "blocks \<Rightarrow> bool" where
  "coalesced ((n, u) # (m, v) # bs) \<longleftrightarrow> (u \<or> v) \<and> coalesced ((m, v) # bs)"
| "coalesced _ \<longleftrightarrow> True"

definition block_ok :: "nat \<times> bool \<Rightarrow> bool" where
  "block_ok b \<longleftrightarrow> 16 \<le> fst b \<and> 8 dvd fst b"

definition heap_inv :: "nat \<Rightarrow> heap4 \<Rightarrow> blocks \<Rightarrow> bool" where
  "heap_inv base s bs \<longleftrightarrow>
     0 < base \<and> 8 dvd base \<and> pxEnd s = base + total bs \<and> pxEnd s < 2 ^ 32 \<and> total bs < 2 ^ 31 \<and>
     (xStart s < base \<or> pxEnd s < xStart s) \<and>
     size_of (xStart s) s = 0 \<and> next_of (xStart s) s = nfree base bs (pxEnd s) \<and>
     size_of (pxEnd s) s = 0 \<and> next_of (pxEnd s) s = 0 \<and>
     chain s base bs (pxEnd s) \<and> used_ok s base bs \<and> (\<forall>b \<in> set bs. block_ok b) \<and> coalesced bs \<and>
     xFreeBytesRemaining s = free_total bs \<and> xMinimumEverFreeBytesRemaining s \<le> xFreeBytesRemaining s \<and>
     xBlockAllocatedBit s = 2 ^ 31"

text \<open>The abstract allocator: the first free block that is large enough, cut if enough is left over; and joining a block that is
  freed with the free blocks around it. Places are offsets from the beginning.\<close>

fun alloc_blocks :: "nat \<Rightarrow> blocks \<Rightarrow> (nat \<times> blocks) option" where
  "alloc_blocks w [] = None"
| "alloc_blocks w ((n, u) # bs) =
     (if \<not> u \<and> w \<le> n then Some (0, if n - w > 16 then (w, True) # (n - w, False) # bs else (n, True) # bs)
      else map_option (\<lambda>(off, bs'). (n + off, (n, u) # bs')) (alloc_blocks w bs))"

definition join_left :: "blocks \<Rightarrow> nat \<Rightarrow> blocks \<times> nat" where
  "join_left L n = (if L \<noteq> [] \<and> \<not> snd (last L) then (butlast L, fst (last L) + n) else (L, n))"

definition join_right :: "nat \<Rightarrow> blocks \<Rightarrow> nat \<times> blocks" where
  "join_right n R = (if R \<noteq> [] \<and> \<not> snd (hd R) then (n + fst (hd R), tl R) else (n, R))"

definition merge_block :: "blocks \<Rightarrow> nat \<Rightarrow> blocks \<Rightarrow> blocks" where
  "merge_block L n R = (let (L, n) = join_left L n; (n, R) = join_right n R in L @ (n, False) # R)"

fun free_blocks :: "blocks \<Rightarrow> nat \<Rightarrow> blocks \<Rightarrow> blocks option" where
  "free_blocks L off [] = None"
| "free_blocks L off ((n, u) # R) =
     (if off = 0 then (if u then Some (merge_block L n R) else None)
      else if off < n then None else free_blocks (L @ [(n, u)]) (off - n) R)"

section \<open>Arithmetic\<close>

lemma and_7: "(n :: nat) AND 7 = n mod 8"
  using take_bit_eq_mask[of 3 n] by (simp add: take_bit_eq_mod mask_eq_exp_minus_1)

lemma not_bit_above: "n < 2 ^ m \<Longrightarrow> m \<le> k \<Longrightarrow> \<not> bit (n :: nat) k"
proof -
  assume n: "n < 2 ^ m" "m \<le> k"
  have "n < 2 ^ k" using n power_increasing[of m k "2 :: nat"] by (simp add: less_le_trans)
  then show "\<not> bit n k" by (simp add: bit_iff_odd)
qed

lemma and_not_7:
  assumes "n < 2 ^ 32"
  shows "n AND not32 7 = n - n mod 8"
proof -
  have m: "not32 7 = push_bit 3 (mask 29)" by (simp add: not32_def push_bit_eq_mult mask_eq_exp_minus_1)
  have "n AND push_bit 3 (mask 29) = push_bit 3 (drop_bit 3 n)"
  proof (rule bit_eqI)
    fix k
    have "\<not> bit n k" if "32 \<le> k"
      by (rule not_bit_above[OF assms that])
    then show "bit (n AND push_bit 3 (mask 29)) k = bit (push_bit 3 (drop_bit 3 n)) k"
      by (cases "32 \<le> k") (auto simp: bit_and_iff bit_push_bit_iff_nat bit_mask_iff bit_drop_bit_eq)
  qed
  also have "\<dots> = n - n mod 8"
    by (simp add: push_bit_eq_mult drop_bit_eq_div minus_mod_eq_div_mult)
  finally show ?thesis by (simp add: m)
qed

lemma heap_consts [simp]: "xHeapStructSize = 8" "heapMINIMUM_BLOCK_SIZE = 16"
proof -
  show "xHeapStructSize = 8"
    by (simp add: xHeapStructSize_def portBYTE_ALIGNMENT_def portBYTE_ALIGNMENT_MASK_def and_not_7)
  then show "heapMINIMUM_BLOCK_SIZE = 16" by (simp add: heapMINIMUM_BLOCK_SIZE_def w32_def push_bit_eq_mult)
qed

lemma sub32_simp [simp]: "y \<le> x \<Longrightarrow> x < 2 ^ 32 \<Longrightarrow> sub32 x y = x - y"
  by (simp add: sub32_def w32_def Nat.diff_add_assoc2[symmetric] mod_if)

lemma alloc_bit:
  assumes "n < 2 ^ 31"
  shows "(n OR 2 ^ 31) AND 2 ^ 31 \<noteq> (0 :: nat)" "(n OR 2 ^ 31) AND not32 (2 ^ 31) = n" "n AND 2 ^ 31 = 0"
proof -
  have b: "\<not> bit n k" if "31 \<le> k" for k
    by (rule not_bit_above[OF assms that])
  have "bit ((n OR 2 ^ 31) AND 2 ^ 31) 31" by (simp add: bit_simps)
  then show "(n OR 2 ^ 31) AND 2 ^ 31 \<noteq> (0 :: nat)" by (metis bit_0_eq bot_apply bot_bool_def)
  have "not32 (2 ^ 31) = mask 31" by (simp add: not32_def mask_eq_exp_minus_1)
  moreover have "(n OR 2 ^ 31) AND mask 31 = n"
    using assms by (simp add: take_bit_eq_mask[symmetric] take_bit_or take_bit_nat_eq_self)
  ultimately show "(n OR 2 ^ 31) AND not32 (2 ^ 31) = n" by simp
  show "n AND 2 ^ 31 = 0" unfolding and_exp_eq_0_iff_not_bit by (rule b) simp
qed

lemma wanted_simp:
  assumes "n < 2 ^ 31"
  shows "wanted n = (if n = 0 then 0 else (n + 15) div 8 * 8)" "wanted n mod 8 = 0" "0 < n \<Longrightarrow> 16 \<le> wanted n \<and> n + 8 \<le> wanted n"
proof -
  have *: "wanted n = (if n = 0 then 0 else (n + 15) div 8 * 8)"
  proof (cases "(n + 8) mod 8 = 0")
    case True
    then obtain k where "n = 8 * k" by (auto simp: mod_eq_0_iff_dvd)
    then show ?thesis using assms by (simp add: wanted_def w32_def portBYTE_ALIGNMENT_MASK_def and_7)
  next
    case False
    then have "(n + 8) + (8 - (n + 8) mod 8) = (n + 15) div 8 * 8" by presburger
    then show ?thesis using assms False
      by (simp add: wanted_def w32_def portBYTE_ALIGNMENT_MASK_def portBYTE_ALIGNMENT_def and_7 Let_def)
  qed
  show "wanted n = (if n = 0 then 0 else (n + 15) div 8 * 8)" by (rule *)
  show "wanted n mod 8 = 0" by (simp add: *)
  show "16 \<le> wanted n \<and> n + 8 \<le> wanted n" if "0 < n" using that unfolding * by auto
qed

section \<open>Walking over blocks\<close>

lemma mem_simps [simp]:
  "next_of p (set_next q v s) = (if p = q then v else next_of p s)" "size_of p (set_next q v s) = size_of p s"
  "size_of p (set_size q v s) = (if p = q then v else size_of p s)" "next_of p (set_size q v s) = next_of p s"
  "pxEnd (set_next q v s) = pxEnd s" "pxEnd (set_size q v s) = pxEnd s" "xStart (set_next q v s) = xStart s" "xStart (set_size q v s) = xStart s"
  "xFreeBytesRemaining (set_next q v s) = xFreeBytesRemaining s" "xFreeBytesRemaining (set_size q v s) = xFreeBytesRemaining s"
  "xMinimumEverFreeBytesRemaining (set_next q v s) = xMinimumEverFreeBytesRemaining s"
  "xMinimumEverFreeBytesRemaining (set_size q v s) = xMinimumEverFreeBytesRemaining s"
  "xBlockAllocatedBit (set_next q v s) = xBlockAllocatedBit s" "xBlockAllocatedBit (set_size q v s) = xBlockAllocatedBit s"
  by (simp_all add: next_of_def size_of_def set_next_def set_size_def)

lemma count_simps [simp]:
  "next_of p (s\<lparr>xFreeBytesRemaining := v\<rparr>) = next_of p s" "size_of p (s\<lparr>xFreeBytesRemaining := v\<rparr>) = size_of p s"
  "next_of p (s\<lparr>xMinimumEverFreeBytesRemaining := v\<rparr>) = next_of p s" "size_of p (s\<lparr>xMinimumEverFreeBytesRemaining := v\<rparr>) = size_of p s"
  by (simp_all add: next_of_def size_of_def)

abbreviation pos_blocks :: "blocks \<Rightarrow> bool" where "pos_blocks bs \<equiv> \<forall>b \<in> set bs. 0 < fst b"

lemma nfree_append [simp]: "nfree a (L @ M) e = nfree a L (nfree (a + total L) M e)"
  by (induction L arbitrary: a) (auto simp: add.assoc)

lemma chain_append [simp]: "chain s a (L @ M) e \<longleftrightarrow> chain s a L (nfree (a + total L) M e) \<and> chain s (a + total L) M e"
  by (induction L arbitrary: a) (auto simp: add.assoc)

lemma lastf_append [simp]: "lastf d a (L @ M) = lastf (lastf d a L) (a + total L) M"
  by (induction L arbitrary: a d) (auto simp: add.assoc)

lemma used_at_append [simp]: "used_at a (L @ M) = used_at a L @ used_at (a + total L) M"
  by (induction L arbitrary: a) (auto simp: add.assoc)

lemma free_total_simps [simp]:
  "free_total [] = 0" "free_total ((n, u) # bs) = (if u then 0 else n) + free_total bs" "free_total (L @ M) = free_total L + free_total M"
  by (simp_all add: free_total_def)

lemma free_total_le: "free_total bs \<le> total bs"
  by (induction bs) auto

lemma nfree_ge: "a + total bs \<le> e \<Longrightarrow> a \<le> nfree a bs e"
proof (induction bs arbitrary: a)
  case (Cons b bs)
  obtain m u where b: "b = (m, u)" by (cases b)
  have "a + m \<le> nfree (a + m) bs e" using Cons.IH[of "a + m"] Cons.prems b by simp
  then show ?case using b by auto
qed simp

lemma nfree_le: "a + total bs \<le> e \<Longrightarrow> nfree a bs e \<le> e"
  by (induction bs arbitrary: a) (auto simp: add.assoc)

lemma lastf_range: "pos_blocks bs \<Longrightarrow> lastf d a bs = d \<or> a \<le> lastf d a bs \<and> lastf d a bs < a + total bs"
proof (induction bs arbitrary: a d)
  case (Cons b bs)
  obtain m u where b: "b = (m, u)" by (cases b)
  show ?case using Cons.IH[of "if u then d else a" "a + m"] Cons.prems b by (cases u) auto
qed simp

lemma chain_cong:
  assumes "\<And>p. a \<le> p \<Longrightarrow> p < a + total bs \<Longrightarrow> next_of p s' = next_of p s \<and> size_of p s' = size_of p s" "pos_blocks bs"
  shows "chain s' a bs e = chain s a bs e"
  using assms by (induction bs arbitrary: a) (auto simp: add.assoc)

lemma used_range: "pos_blocks bs \<Longrightarrow> (p, n) \<in> set (used_at a bs) \<Longrightarrow> a \<le> p \<and> p + n \<le> a + total bs \<and> 0 < n"
  by (induction bs arbitrary: a) (auto simp: add.assoc split: if_splits, fastforce+)

lemma used_not_last:
  "pos_blocks bs \<Longrightarrow> (p, n) \<in> set (used_at a bs) \<Longrightarrow> d < a \<or> a + total bs \<le> d \<Longrightarrow> p \<noteq> lastf d a bs"
proof (induction bs arbitrary: a d)
  case (Cons b bs)
  obtain m u where b: "b = (m, u)" by (cases b)
  consider (here) "u" "p = a" | (later) "(p, n) \<in> set (used_at (a + m) bs)" using Cons.prems(2) b by (auto split: if_splits)
  then show ?case
  proof cases
    case here
    then show ?thesis using lastf_range[of bs d "a + m"] Cons.prems b by auto
  next
    case later
    show ?thesis using Cons.IH[of "a + m" "if u then d else a"] later Cons.prems b by (auto simp: add.assoc)
  qed
qed simp

text \<open>The link in front of a place is that of the last free block before it.\<close>

lemma insert_after_last:
  assumes "next_of d s = nfree a (L @ (n, True) # R) e" "chain s a L (nfree (a + total L) ((n, True) # R) e)" "pos_blocks L" "0 < n"
    "a + total L + n + total R \<le> e"
  shows "insert_after s d (a + total L) = Some (lastf d a L)"
  using assms
proof (induction L arbitrary: a d)
  case Nil
  have "a + n \<le> nfree (a + n) R e" using Nil(5) nfree_ge[of "a + n" R e] by simp
  then show ?case using Nil(1,4) by (subst insert_after.simps) simp
next
  case (Cons b L)
  obtain m u where b: "b = (m, u)" by (cases b)
  show ?case
  proof (cases u)
    case True
    then show ?thesis using Cons.IH[of d "a + m"] Cons.prems b by (simp add: add.assoc)
  next
    case False
    have "insert_after s a (a + m + total L) = Some (lastf a (a + m) L)"
      using Cons.IH[of a "a + m"] Cons.prems b False by (simp add: add.assoc)
    then show ?thesis using Cons.prems(1,3) b False by (subst insert_after.simps) (simp add: add.assoc)
  qed
qed

text \<open>Redirecting that link.\<close>

lemma relink:
  assumes "chain s a L x" "next_of d s = nfree a L x" "pos_blocks L" "d < a \<or> a + total L \<le> d"
  shows "chain (set_next (lastf d a L) y s) a L y \<and> next_of d (set_next (lastf d a L) y s) = nfree a L y"
  using assms
proof (induction L arbitrary: a d)
  case (Cons b L)
  obtain m u where b: "b = (m, u)" by (cases b)
  show ?case
  proof (cases u)
    case True
    then show ?thesis using Cons.IH[of "a + m" d] Cons.prems b by (auto simp: add.assoc)
  next
    case False
    have "lastf a (a + m) L \<noteq> d" using lastf_range[of L a "a + m"] Cons.prems b by auto
    then show ?thesis using Cons.IH[of "a + m" a] Cons.prems b False by (auto simp: add.assoc)
  qed
qed simp

lemma lastf_gap:
  assumes "chain s a L x" "pos_blocks L" "L = [] \<or> snd (last L)"
  shows "lastf d a L = d \<or> lastf d a L + size_of (lastf d a L) s < a + total L"
proof (cases L rule: rev_cases)
  case (snoc L' b)
  then obtain m where b: "b = (m, True)" "0 < m" using assms by (cases b) auto
  have "lastf d a L' = d \<or> lastf d a L' + size_of (lastf d a L') s \<le> a + total L'" if "chain s a L' y" for y
    using that
  proof (induction L' arbitrary: a d)
    case (Cons c L')
    obtain k u where c: "c = (k, u)" by (cases c)
    show ?case
    proof (cases u)
      case False
      have "size_of a s = k" "chain s (a + k) L' y" using Cons.prems c False by auto
      then show ?thesis using Cons.IH[of "a + k" a] c False by (auto simp: add.assoc)
    qed (use Cons.IH[of "a + k" d] Cons.prems c in \<open>auto simp: add.assoc\<close>)
  qed simp
  then show ?thesis using assms(1) snoc b by auto
qed simp

lemma lastf_next: "chain s a L x \<Longrightarrow> next_of d s = nfree a L x \<Longrightarrow> next_of (lastf d a L) s = x"
proof (induction L arbitrary: a d)
  case (Cons b L)
  then show ?case by (cases b) (auto simp: add.assoc)
qed simp

text \<open>Joining with the block behind.\<close>

lemma join_next_spec:
  assumes it: "next_of it s = nfree c R e" and C: "chain s c R e" and q: "q + size_of q s = c" "q < c"
    and R: "pos_blocks R" "c + total R = e" "pxEnd s = e" "e < 2 ^ 32" and j: "join_right n R = (n', R')"
  shows "size_of p (join_next it q s) = (if p = q then size_of q s + (n' - n) else size_of p s)"
    "next_of p (join_next it q s) = (if p = q then nfree (c + (n' - n)) R' e else next_of p s)"
    "n \<le> n'" "chain s (c + (n' - n)) R' e" "c + (n' - n) + total R' = e" "n' - n + total R' = total R" "pos_blocks R'"
    "pxEnd (join_next it q s) = pxEnd s" "xStart (join_next it q s) = xStart s"
    "xFreeBytesRemaining (join_next it q s) = xFreeBytesRemaining s"
    "xMinimumEverFreeBytesRemaining (join_next it q s) = xMinimumEverFreeBytesRemaining s"
    "xBlockAllocatedBit (join_next it q s) = xBlockAllocatedBit s"
proof -
  consider (none) "R = []" | (free) k R2 where "R = (k, False) # R2" | (used) k R2 where "R = (k, True) # R2"
    by (cases R) auto
  then have "(size_of p (join_next it q s) = (if p = q then size_of q s + (n' - n) else size_of p s) \<and>
    next_of p (join_next it q s) = (if p = q then nfree (c + (n' - n)) R' e else next_of p s) \<and>
    n \<le> n' \<and> chain s (c + (n' - n)) R' e \<and> c + (n' - n) + total R' = e \<and> n' - n + total R' = total R \<and> pos_blocks R')"
  proof cases
    case none
    then show ?thesis using assms by (simp add: join_next_def join_right_def)
  next
    case free
    have "size_of c s = k" "next_of c s = nfree (c + k) R2 e" "c \<noteq> e" using C R free by auto
    moreover have "w32 (size_of q s + k) = size_of q s + k" using q R free by (simp add: w32_def)
    ultimately show ?thesis using assms free by (auto simp: join_next_def join_right_def Let_def)
  next
    case used
    have "c + k \<le> nfree (c + k) R2 e" using R used nfree_ge[of "c + k" R2 e] by simp
    then have "nfree c R e \<noteq> c" using R(1) used by simp
    then show ?thesis using assms used by (auto simp: join_next_def join_right_def)
  qed
  then show "size_of p (join_next it q s) = (if p = q then size_of q s + (n' - n) else size_of p s)"
    "next_of p (join_next it q s) = (if p = q then nfree (c + (n' - n)) R' e else next_of p s)"
    "n \<le> n'" "chain s (c + (n' - n)) R' e" "c + (n' - n) + total R' = e" "n' - n + total R' = total R" "pos_blocks R'" by blast+
qed (simp_all add: join_next_def Let_def)

lemma join_right_add: "join_right n R = (n', R') \<Longrightarrow> join_right (m + n) R = (m + n', R')"
  by (auto simp: join_right_def split: if_splits)

definition same_counts :: "heap4 \<Rightarrow> heap4 \<Rightarrow> bool" where
  "same_counts s s' \<longleftrightarrow> pxEnd s' = pxEnd s \<and> xStart s' = xStart s \<and> xFreeBytesRemaining s' = xFreeBytesRemaining s \<and>
     xMinimumEverFreeBytesRemaining s' = xMinimumEverFreeBytesRemaining s \<and> xBlockAllocatedBit s' = xBlockAllocatedBit s"

text \<open>Inserting a block that lies between \<open>L\<close> and \<open>R\<close> and is not yet in the list.\<close>

lemma insert_spec:
  assumes st: "next_of (xStart s) s = nfree base (L @ (n, True) # R) (pxEnd s)" and C: "chain s base (L @ (n, True) # R) (pxEnd s)"
    and e: "pxEnd s = base + total (L @ (n, True) # R)" "pxEnd s < 2 ^ 32" and pos: "pos_blocks (L @ (n, True) # R)"
    and out: "xStart s < base \<or> pxEnd s < xStart s" "size_of (xStart s) s = 0" and b: "b = base + total L" "size_of b s = n"
  shows "\<exists>s'. prvInsertBlockIntoFreeList b s = Some s' \<and> next_of (xStart s) s' = nfree base (merge_block L n R) (pxEnd s) \<and>
    chain s' base (merge_block L n R) (pxEnd s) \<and> size_of (xStart s) s' = 0 \<and> same_counts s s' \<and> size_of b s' \<le> n + total R \<and>
    (\<forall>p. p \<noteq> b \<and> p \<noteq> lastf (xStart s) base L \<longrightarrow> next_of p s' = next_of p s \<and> size_of p s' = size_of p s)"
proof -
  let ?e = "pxEnd s" and ?t = "lastf (xStart s) base L"
  let ?x = "nfree (b + n) R ?e"
  have n: "0 < n" and CL: "chain s base L ?x" and CR: "chain s (b + n) R ?e" and PL: "pos_blocks L" and PR: "pos_blocks R"
    using C pos b by auto
  have eR: "b + n + total R = ?e" using e b by simp
  have ia: "insert_after s (xStart s) b = Some ?t"
    unfolding b(1) by (rule insert_after_last[OF st]) (use C pos e in auto)
  have tx: "next_of ?t s = ?x" by (rule lastf_next[OF CL]) (use st b in simp)
  obtain n' R' where j: "join_right n R = (n', R')" by (cases "join_right n R")
  show ?thesis
  proof (cases "L = [] \<or> snd (last L)")
    case True
    have M: "merge_block L n R = L @ (n', False) # R'" using True j by (auto simp: merge_block_def join_left_def)
    have t: "?t = xStart s \<or> ?t < b \<and> ?t + size_of ?t s < b" using lastf_gap[OF CL PL True, of "xStart s"] b(1) by auto
    have ne: "?t + size_of ?t s \<noteq> b" "?t \<noteq> b" using t out e b by auto
    note J = join_next_spec[OF tx CR _ _ PR eR refl e(2) j, of b]
    have bc: "b + size_of b s = b + n" "b < b + n" using b(2) n by simp_all
    let ?s2 = "join_next ?t b s" let ?s3 = "set_next ?t b ?s2"
    have P: "prvInsertBlockIntoFreeList b s = Some ?s3"
      using ia ne by (simp add: prvInsertBlockIntoFreeList_def link_block_def Let_def)
    have "chain ?s2 base L ?x" by (subst chain_cong[of _ _ _ s]) (use J(1,2)[OF bc] b(1) PL CL in auto)
    moreover have "next_of (xStart s) ?s2 = nfree base L ?x" using J(2)[OF bc] st b e out by auto
    ultimately have C3: "chain ?s3 base L b" and X3: "next_of (xStart s) ?s3 = nfree base L b"
      using relink[of ?s2 base L ?x "xStart s" b] PL out e b by auto
    have le: "n \<le> n'" "b + n' + total R' = ?e" "pos_blocks R'" "chain s (b + n') R' ?e"
      using J(3,4,5,7)[OF bc] by (simp_all add: add.assoc)
    have "chain ?s3 (b + n') R' ?e"
      by (subst chain_cong[of _ _ _ s]) (use J(1,2)[OF bc] le t n out b(1) in auto)
    then have "chain ?s3 base (merge_block L n R) ?e"
      using C3 J(1,2)[OF bc] ne le b unfolding M by (simp add: add.assoc)
    moreover have "next_of (xStart s) ?s3 = nfree base (merge_block L n R) ?e" using X3 b unfolding M by simp
    moreover have "size_of (xStart s) ?s3 = 0" using J(1)[OF bc] out e b by auto
    moreover have "same_counts s ?s3" using J(8-12)[OF bc] by (simp add: same_counts_def)
    moreover have "size_of b ?s3 \<le> n + total R" using J(1,6)[OF bc] b(2) by simp
    ultimately show ?thesis using P J(1,2)[OF bc] by auto
  next
    case False
    then obtain L0 m where L: "L = L0 @ [(m, False)]" by (cases L rule: rev_cases) auto
    have t: "?t = base + total L0" "?t + m = b" "size_of ?t s = m" "0 < m" using L CL PL b(1) by simp_all
    let ?s1 = "set_size ?t (w32 (size_of ?t s + size_of b s)) s"
    have sz: "w32 (size_of ?t s + size_of b s) = m + n" using t b e L by (simp add: w32_def)
    have M: "merge_block L n R = L0 @ (m + n', False) # R'" using L join_right_add[OF j, of m] by (simp add: merge_block_def join_left_def)
    have C1: "chain ?s1 (b + n) R ?e" by (subst chain_cong[of _ _ _ s]) (use CR PR t in auto)
    have "next_of ?t ?s1 = ?x" using tx by simp
    note J = join_next_spec[OF this C1 _ _ PR eR _ e(2) j, of ?t]
    have bc: "?t + size_of ?t ?s1 = b + n" "?t < b + n" "pxEnd ?s1 = ?e" using t sz n by simp_all
    let ?s2 = "join_next ?t ?t ?s1"
    have P: "prvInsertBlockIntoFreeList b s = Some ?s2"
      using ia t by (simp add: prvInsertBlockIntoFreeList_def link_block_def Let_def)
    have D: "size_of p ?s2 = (if p = ?t then m + n' else size_of p s)"
      "next_of p ?s2 = (if p = ?t then nfree (b + n') R' ?e else next_of p s)" for p
      using J(1,2,3)[OF bc] sz by auto
    have le: "n \<le> n'" "b + n' + total R' = ?e" "pos_blocks R'" "chain ?s1 (b + n') R' ?e"
      using J(3,4,5,7)[OF bc] by (simp_all add: add.assoc)
    have "chain ?s2 base L0 ?t" by (subst chain_cong[of _ _ _ s]) (use D CL PL L t in auto)
    moreover have "chain ?s2 (b + n') R' ?e" by (subst chain_cong[of _ _ _ ?s1]) (use D le t in auto)
    ultimately have "chain ?s2 base (merge_block L n R) ?e" using D t unfolding M by (auto simp: add.assoc)
    moreover have ex: "xStart s \<noteq> ?t" using out t b e n by auto
    moreover have "next_of (xStart s) ?s2 = nfree base (merge_block L n R) ?e" using st D ex L t unfolding M by simp
    moreover have "same_counts s ?s2" using J(8-12)[OF bc] by (simp add: same_counts_def)
    moreover have "size_of b ?s2 \<le> n + total R" using D(1)[of b] t b(2) by simp
    ultimately show ?thesis using P D out by auto
  qed
qed

section \<open>Freeing\<close>

lemma coalesced_append:
  "coalesced (L @ (k, u) # R) \<longleftrightarrow> coalesced L \<and> coalesced R \<and> (u \<or> (L = [] \<or> snd (last L)) \<and> (R = [] \<or> snd (hd R)))"
proof (induction L)
  case Nil
  then show ?case by (cases R) auto
next
  case (Cons b L)
  then show ?case by (cases b; cases L) auto
qed

lemma merge_facts:
  "total (merge_block L n R) = total L + n + total R" "free_total (merge_block L n R) = free_total L + n + free_total R"
  "used_at a (merge_block L n R) = used_at a L @ used_at (a + total L + n) R"
proof -
  obtain L' l where L: "join_left L n = (L', l)" by (cases "join_left L n")
  obtain r R' where R: "join_right l R = (r, R')" by (cases "join_right l R")
  have M: "merge_block L n R = L' @ (r, False) # R'" using L R by (simp add: merge_block_def)
  have l: "total L' + l = total L + n" "free_total L' + l = free_total L + n" "used_at a L' = used_at a L"
    using L by (cases L rule: rev_cases; auto simp: join_left_def split: if_splits)+
  have r: "r + total R' = l + total R" "r + free_total R' = l + free_total R" "used_at (c + r) R' = used_at (c + l) R" for c
    using R by (cases R; auto simp: join_right_def add.assoc split: if_splits)+
  show "total (merge_block L n R) = total L + n + total R" "free_total (merge_block L n R) = free_total L + n + free_total R"
    using l(1,2) r(1,2) unfolding M by simp_all
  show "used_at a (merge_block L n R) = used_at a L @ used_at (a + total L + n) R"
    using l(1,3) r(3)[of "a + total L'"] unfolding M by (simp add: add.assoc)
qed

lemma merge_ok:
  assumes "coalesced (L @ (n, True) # R)" "\<forall>b \<in> set (L @ (n, True) # R). block_ok b"
  shows "coalesced (merge_block L n R)" "\<forall>b \<in> set (merge_block L n R). block_ok b"
proof -
  obtain L' l where L: "join_left L n = (L', l)" by (cases "join_left L n")
  obtain r R' where R: "join_right l R = (r, R')" by (cases "join_right l R")
  have M: "merge_block L n R = L' @ (r, False) # R'" using L R by (simp add: merge_block_def)
  have c: "coalesced L" "coalesced R" using assms(1) by (simp_all add: coalesced_append)
  have L': "coalesced L'" "L' = [] \<or> snd (last L')" "\<forall>b \<in> set L'. block_ok b" "block_ok (l, False)"
    using L c(1) assms(2)
    by (cases L rule: rev_cases; auto simp: join_left_def coalesced_append block_ok_def split: if_splits)+
  have "coalesced R'" "R' = [] \<or> snd (hd R')" "\<forall>b \<in> set R'. block_ok b" "block_ok (r, False)"
    using R c(2) assms(2) L'(4)
    by (cases R; cases "tl R"; auto simp: join_right_def block_ok_def split: if_splits)+
  then show "coalesced (merge_block L n R)" "\<forall>b \<in> set (merge_block L n R). block_ok b"
    using L' unfolding M by (auto simp: coalesced_append)
qed

lemma chain_other:
  assumes "\<And>q. q \<noteq> base + total L \<Longrightarrow> next_of q s' = next_of q s \<and> size_of q s' = size_of q s" "pos_blocks L" "0 < n" "pos_blocks R"
  shows "chain s' base (L @ (n, True) # R) e = chain s base (L @ (n, True) # R) e"
  using chain_cong[of base L s' s] chain_cong[of "base + total L + n" R s' s] assms by simp

lemma block_ok_pos: "\<forall>b \<in> set bs. block_ok b \<Longrightarrow> pos_blocks bs"
  by (auto simp: block_ok_def dest!: bspec)

lemma heap_invD:
  assumes "heap_inv base s bs"
  shows "0 < base" "8 dvd base" "pxEnd s = base + total bs" "pxEnd s < 2 ^ 32" "total bs < 2 ^ 31"
    "xStart s < base \<or> pxEnd s < xStart s" "size_of (xStart s) s = 0" "next_of (xStart s) s = nfree base bs (pxEnd s)"
    "size_of (pxEnd s) s = 0" "next_of (pxEnd s) s = 0" "chain s base bs (pxEnd s)" "used_ok s base bs" "\<forall>b \<in> set bs. block_ok b"
    "coalesced bs" "xFreeBytesRemaining s = free_total bs" "xMinimumEverFreeBytesRemaining s \<le> xFreeBytesRemaining s"
    "xBlockAllocatedBit s = 2 ^ 31" "pos_blocks bs"
  using assms block_ok_pos unfolding heap_inv_def by blast+

lemma free_spec:
  assumes inv: "heap_inv base s (L @ (n, True) # R)" and p: "p = base + total L"
  shows "\<exists>s'. vPortFree (p + 8) s = Some s' \<and> heap_inv base s' (merge_block L n R) \<and> xStart s' = xStart s \<and> size_of p s' < 2 ^ 31"
proof -
  let ?bs = "L @ (n, True) # R"
  note I = heap_invD[OF inv]
  have pos: "pos_blocks L" "0 < n" "pos_blocks R" using I(18) by auto
  have n: "n < 2 ^ 31" "free_total ?bs + n < 2 ^ 31" using I(5) free_total_le[of L] free_total_le[of R] by simp_all
  have "(p, n) \<in> set (used_at base ?bs)" by (simp add: p)
  then have h: "size_of p s = n OR 2 ^ 31" "next_of p s = 0" using I(12) by (auto simp: used_ok_def)
  define s1 where "s1 = (set_size p n s)\<lparr>xFreeBytesRemaining := w32 (xFreeBytesRemaining s + n)\<rparr>"
  have run: "vPortFree (p + 8) s = prvInsertBlockIntoFreeList p s1"
    using alloc_bit[OF n(1)] by (simp add: vPortFree_def Let_def s1_def h I(17) del: power_numeral)
  have xs: "xStart s \<noteq> p" using I(3,6) p by auto
  have "chain s1 base ?bs (pxEnd s) = chain s base ?bs (pxEnd s)"
    by (rule chain_other[OF _ pos]) (simp add: s1_def p)
  then have C1: "chain s1 base ?bs (pxEnd s1)" using I(11) by (simp add: s1_def del: chain_append)
  have S1: "size_of p s1 = n" "pxEnd s1 = pxEnd s" "xStart s1 = xStart s" "next_of (xStart s1) s1 = nfree base ?bs (pxEnd s1)"
    "size_of (xStart s1) s1 = 0" "xFreeBytesRemaining s1 = free_total ?bs + n"
    "xMinimumEverFreeBytesRemaining s1 = xMinimumEverFreeBytesRemaining s" "xBlockAllocatedBit s1 = 2 ^ 31"
    using I(7,8,15,17) xs n(2) by (simp_all add: s1_def w32_def)
  have c1: "pxEnd s1 = base + total ?bs" "pxEnd s1 < 2 ^ 32" "xStart s1 < base \<or> pxEnd s1 < xStart s1"
    unfolding S1(2,3) by (rule I(3) I(4) I(6))+
  obtain s' where s': "prvInsertBlockIntoFreeList p s1 = Some s'" "next_of (xStart s1) s' = nfree base (merge_block L n R) (pxEnd s1)"
    "chain s' base (merge_block L n R) (pxEnd s1)" "size_of (xStart s1) s' = 0" "same_counts s1 s'" "size_of p s' \<le> n + total R"
    "\<And>q. q \<noteq> p \<Longrightarrow> q \<noteq> lastf (xStart s1) base L \<Longrightarrow> next_of q s' = next_of q s1 \<and> size_of q s' = size_of q s1"
    using insert_spec[OF S1(4) C1 c1(1,2) I(18) c1(3) S1(5) p S1(1)] by blast
  have fr: "next_of q s' = next_of q s \<and> size_of q s' = size_of q s" if "q \<noteq> p" "q \<noteq> lastf (xStart s) base L" for q
    using s'(7)[of q] that by (simp add: S1(3)) (simp add: s1_def)
  have t: "lastf (xStart s) base L = xStart s \<or> lastf (xStart s) base L < p" using lastf_range[of L "xStart s" base] pos p by auto
  have "used_ok s' base (merge_block L n R)"
  proof -
    have "q \<noteq> p \<and> q \<noteq> lastf (xStart s) base L" if "(q, k) \<in> set (used_at base L)" for q k
      using used_range[OF pos(1) that] used_not_last[OF pos(1) that, of "xStart s"] p I(3,6) by auto
    moreover have "q \<noteq> p \<and> q \<noteq> lastf (xStart s) base L" if "(q, k) \<in> set (used_at (base + total L + n) R)" for q k
      using used_range[OF pos(3) that] t pos(2) p I(3,6) by auto
    ultimately show ?thesis using I(12) fr unfolding used_ok_def merge_facts used_at_append by fastforce
  qed
  moreover have "size_of (pxEnd s) s' = 0" "next_of (pxEnd s) s' = 0"
    using fr[of "pxEnd s"] t I(3,6,9,10) pos(2) p by auto
  moreover have cnt: "pxEnd s' = pxEnd s" "xStart s' = xStart s" "xFreeBytesRemaining s' = free_total ?bs + n"
    "xMinimumEverFreeBytesRemaining s' = xMinimumEverFreeBytesRemaining s" "xBlockAllocatedBit s' = 2 ^ 31"
    using s'(5) S1 by (simp_all add: same_counts_def)
  moreover have "coalesced (merge_block L n R)" "\<forall>b \<in> set (merge_block L n R). block_ok b" by (rule merge_ok[OF I(14,13)])+
  ultimately have "heap_inv base s' (merge_block L n R)"
    using I(1-6,15,16) s'(2-4) S1(2,3) unfolding heap_inv_def by (simp add: merge_facts)
  then show ?thesis using run s'(1,6) cnt(2) I(5) by auto
qed

section \<open>Allocating\<close>

definition cut :: "nat \<Rightarrow> nat \<Rightarrow> blocks" where
  "cut w n = (if n - w > 16 then [(w, True), (n - w, False)] else [(n, True)])"

lemma find_block_spec:
  assumes "chain s a bs e" "next_of d s = nfree a bs e" "pos_blocks bs" "e = a + total bs" "size_of e s = 0" "next_of e s = 0" "0 < w" "0 < a"
  shows "(\<exists>L n R. bs = L @ (n, False) # R \<and> w \<le> n \<and> find_block s w d (nfree a bs e) = Some (lastf d a L, a + total L) \<and>
      alloc_blocks w bs = Some (total L, L @ cut w n @ R)) \<or>
    (alloc_blocks w bs = None \<and> (\<exists>q. find_block s w d (nfree a bs e) = Some (q, e)))"
  using assms
proof (induction bs arbitrary: a d)
  case Nil
  then show ?case by (subst find_block.simps) simp
next
  case (Cons b bs)
  obtain m u where b: "b = (m, u)" by (cases b)
  show ?case
  proof (cases "\<not> u \<and> w \<le> m")
    case True
    then have "find_block s w d a = Some (d, a)" using Cons.prems b by (subst find_block.simps) simp
    then show ?thesis using True b by (intro disjI1 exI[of _ "[]"] exI[of _ m] exI[of _ bs]) (simp add: cut_def)
  next
    case False
    let ?d = "if u then d else a"
    have nz: "nfree (a + m) bs e \<noteq> 0" using nfree_ge[of "a + m" bs e] Cons.prems b by simp
    have "find_block s w d (nfree a (b # bs) e) = find_block s w ?d (nfree (a + m) bs e)"
    proof (cases u)
      case uF: False
      have "size_of a s = m" "next_of a s = nfree (a + m) bs e" using Cons.prems(1) b uF by simp_all
      then show ?thesis using False uF b nz by (subst find_block.simps) simp
    qed (simp add: b)
    moreover have "next_of ?d s = nfree (a + m) bs e" using Cons.prems(1,2) b by (cases u) simp_all
    moreover note Cons.IH[of "a + m" ?d]
    ultimately have IH: "(\<exists>L n R. bs = L @ (n, False) # R \<and> w \<le> n \<and> find_block s w d (nfree a (b # bs) e) = Some (lastf ?d (a + m) L, a + m + total L) \<and>
        alloc_blocks w bs = Some (total L, L @ cut w n @ R)) \<or>
      (alloc_blocks w bs = None \<and> (\<exists>q. find_block s w d (nfree a (b # bs) e) = Some (q, e)))"
      using Cons.prems b by (simp add: add.assoc)
    have A: "alloc_blocks w (b # bs) = map_option (\<lambda>(off, bs'). (m + off, (m, u) # bs')) (alloc_blocks w bs)" using False b by auto
    from IH show ?thesis
    proof (elim disjE exE conjE)
      fix L n R
      assume "bs = L @ (n, False) # R" "w \<le> n" "find_block s w d (nfree a (b # bs) e) = Some (lastf ?d (a + m) L, a + m + total L)"
        "alloc_blocks w bs = Some (total L, L @ cut w n @ R)"
      then show ?thesis using A b
        by (intro disjI1 exI[of _ "b # L"] exI[of _ n] exI[of _ R]) (simp add: add.assoc)
    qed (use A in auto)
  qed
qed

text \<open>Entering a block into the used ones: the last step of an allocation.\<close>

lemma enter_used:
  assumes C: "chain s base (L @ (m, True) # R) (pxEnd s)" "next_of (xStart s) s = nfree base (L @ (m, True) # R) (pxEnd s)"
    and e: "pxEnd s = base + total (L @ (m, True) # R)" "size_of (pxEnd s) s = 0" "next_of (pxEnd s) s = 0"
    and out: "xStart s < base \<or> pxEnd s < xStart s" "size_of (xStart s) s = 0"
    and pos: "pos_blocks L" "0 < m" "pos_blocks R" and p: "p = base + total L" "size_of p s = m"
    and U: "used_ok s base L" "used_ok s (p + m) R"
    and s': "\<And>q. next_of q s' = (if q = p then 0 else next_of q s)" "\<And>q. size_of q s' = (if q = p then m OR 2 ^ 31 else size_of q s)"
  shows "chain s' base (L @ (m, True) # R) (pxEnd s)" "next_of (xStart s) s' = nfree base (L @ (m, True) # R) (pxEnd s)"
    "size_of (pxEnd s) s' = 0" "next_of (pxEnd s) s' = 0" "size_of (xStart s) s' = 0" "used_ok s' base (L @ (m, True) # R)"
proof -
  have o: "next_of q s' = next_of q s \<and> size_of q s' = size_of q s" if "q \<noteq> p" for q using that by (simp add: s')
  have "chain s' base (L @ (m, True) # R) (pxEnd s) = chain s base (L @ (m, True) # R) (pxEnd s)"
    by (rule chain_other[OF _ pos]) (use o p in auto)
  then show "chain s' base (L @ (m, True) # R) (pxEnd s)" using C(1) by blast
  have ne: "xStart s \<noteq> p" "pxEnd s \<noteq> p" using out e p pos by auto
  show "next_of (xStart s) s' = nfree base (L @ (m, True) # R) (pxEnd s)" "size_of (pxEnd s) s' = 0" "next_of (pxEnd s) s' = 0"
    "size_of (xStart s) s' = 0" using o[OF ne(1)] o[OF ne(2)] C(2) e out by simp_all
  have "q \<noteq> p" if "(q, k) \<in> set (used_at base L)" for q k using used_range[OF pos(1) that] p by auto
  moreover have "q \<noteq> p" if "(q, k) \<in> set (used_at (p + m) R)" for q k using used_range[OF pos(3) that] pos(2) by auto
  moreover have "size_of p s' = m OR 2 ^ 31" "next_of p s' = 0" by (simp_all add: s')
  ultimately show "used_ok s' base (L @ (m, True) # R)" using U o p(1) unfolding used_ok_def by (fastforce simp: add.assoc)
qed

lemma hand_out_simps:
  assumes "xBlockAllocatedBit s = 2 ^ 31" "size_of p s \<le> xFreeBytesRemaining s" "xFreeBytesRemaining s < 2 ^ 32"
  shows "next_of q (hand_out p s) = (if q = p then 0 else next_of q s)"
    "size_of q (hand_out p s) = (if q = p then size_of p s OR 2 ^ 31 else size_of q s)"
    "pxEnd (hand_out p s) = pxEnd s" "xStart (hand_out p s) = xStart s" "xBlockAllocatedBit (hand_out p s) = 2 ^ 31"
    "xFreeBytesRemaining (hand_out p s) = xFreeBytesRemaining s - size_of p s"
    "xMinimumEverFreeBytesRemaining (hand_out p s) \<le> xFreeBytesRemaining (hand_out p s)"
  using assms by (simp_all add: hand_out_def Let_def del: power_numeral)

lemma used_frame:
  assumes "pos_blocks bs" "used_ok s a bs" "\<And>q. a \<le> q \<Longrightarrow> q < a + total bs \<Longrightarrow> q \<noteq> lastf d a bs \<Longrightarrow> next_of q s' = next_of q s \<and> size_of q s' = size_of q s"
    "d < a \<or> a + total bs \<le> d"
  shows "used_ok s' a bs"
  unfolding used_ok_def
proof (safe, goal_cases)
  case (1 q k)
  then show ?case using assms(2) assms(3)[of q] used_range[OF assms(1) 1] used_not_last[OF assms(1) 1 assms(4)] by (auto simp: used_ok_def)
next
  case (2 q k)
  then show ?case using assms(2) assms(3)[of q] used_range[OF assms(1) 2] used_not_last[OF assms(1) 2 assms(4)] by (auto simp: used_ok_def)
qed

lemma used_ok_append: "used_ok s a (L @ (m, u) # R) \<longleftrightarrow>
    used_ok s a L \<and> (u \<longrightarrow> size_of (a + total L) s = m OR 2 ^ 31 \<and> next_of (a + total L) s = 0) \<and> used_ok s (a + total L + m) R"
  by (auto simp: used_ok_def add.assoc)

lemma hand_out_inv:
  assumes C: "chain s base (L @ (m, True) # R) (pxEnd s)" "next_of (xStart s) s = nfree base (L @ (m, True) # R) (pxEnd s)"
    and e: "pxEnd s = base + total (L @ (m, True) # R)" "size_of (pxEnd s) s = 0" "next_of (pxEnd s) s = 0" "pxEnd s < 2 ^ 32"
    and out: "xStart s < base \<or> pxEnd s < xStart s" "size_of (xStart s) s = 0"
    and p: "p = base + total L" "size_of p s = m" and U: "used_ok s base L" "used_ok s (p + m) R"
    and B: "\<forall>b \<in> set (L @ (m, True) # R). block_ok b" "coalesced (L @ (m, True) # R)" "0 < base" "8 dvd base" "total (L @ (m, True) # R) < 2 ^ 31"
    and F: "xFreeBytesRemaining s = m + free_total (L @ (m, True) # R)" "xBlockAllocatedBit s = 2 ^ 31"
  shows "heap_inv base (hand_out p s) (L @ (m, True) # R)"
proof -
  have pos: "pos_blocks L" "0 < m" "pos_blocks R" using block_ok_pos[OF B(1)] by auto
  have "size_of p s \<le> xFreeBytesRemaining s" "xFreeBytesRemaining s < 2 ^ 32"
    using F(1) p(2) B(5) free_total_le[of L] free_total_le[of R] by simp_all
  note H = hand_out_simps[OF F(2) this]
  note E = enter_used[OF C e(1-3) out pos p U, of "hand_out p s", OF H(1) H(2)[unfolded p(2)]]
  show ?thesis
    unfolding heap_inv_def H(3-5) using E B e out F(1) p(2) H(6,7)
    by (intro conjI) (blast | simp)+
qed

lemma total_dvd: "\<forall>b \<in> set bs. block_ok b \<Longrightarrow> 8 dvd total bs"
  by (induction bs) (auto simp: block_ok_def)

lemma take_spec:
  assumes inv: "heap_inv base s (L @ (n, False) # R)" and w: "w \<le> n" "16 \<le> w" "8 dvd w" and p: "p = base + total L"
  shows "\<exists>s'. take_block w (lastf (xStart s) base L) p s = Some (p + 8, s') \<and> heap_inv base s' (L @ cut w n @ R) \<and> xStart s' = xStart s"
proof -
  let ?bs = "L @ (n, False) # R" and ?t = "lastf (xStart s) base L" and ?e = "pxEnd s"
  let ?x = "nfree (p + n) R ?e"
  note I = heap_invD[OF inv]
  have pos: "pos_blocks L" "0 < n" "pos_blocks R" using I(18) by auto
  have c: "chain s base L p" "size_of p s = n" "next_of p s = ?x" "chain s (p + n) R ?e" "next_of (xStart s) s = nfree base L p"
    using I(8,11) p by (simp_all add: add.assoc)
  have tp: "next_of ?t s = p" by (rule lastf_next[OF c(1,5)])
  have t: "?t = xStart s \<or> base \<le> ?t \<and> ?t < p" using lastf_range[OF pos(1), of "xStart s" base] p by auto
  have e: "?e = p + n + total R" "?e < 2 ^ 32" "n < 2 ^ 31" using I(3-5) p by simp_all
  have ne: "?t \<noteq> p" "?t \<noteq> p + k" "xStart s \<noteq> p + k" "xStart s \<noteq> p" if "k \<le> n" for k using that t I(3,6) p e(1) by auto
  have dL: "xStart s < base \<or> base + total L \<le> xStart s" using I(3,6) by auto
  have ee: "?e \<noteq> xStart s" "?e \<noteq> ?t" using I(3,6) t e(1) pos(2) by auto
  define s1 where "s1 = set_next ?t ?x s"
  have r: "chain s1 base L ?x" "next_of (xStart s) s1 = nfree base L ?x"
    using relink[OF c(1,5) pos(1) dL, of ?x] by (simp_all add: s1_def)
  have cR: "chain s1 (p + n) R ?e" by (subst chain_cong[of _ _ _ s]) (use c(4) pos(3) t I(6) p e in \<open>auto simp: s1_def\<close>)
  have U: "used_ok s base L" "used_ok s (p + n) R" using I(12) p by (simp_all add: used_ok_append)
  have U1: "used_ok s1 base L" "used_ok s1 (p + n) R"
    using used_frame[OF pos(1) U(1), of "xStart s" s1] used_frame[OF pos(3) U(2), of 0 s1] dL t p e pos(2) I(6) by (auto simp: s1_def)
  have head: "R = [] \<or> snd (hd R)" "coalesced L" "coalesced R" using I(14) by (simp_all add: coalesced_append)
  have S1: "pxEnd s1 = ?e" "xStart s1 = xStart s" "size_of p s1 = n" "size_of ?e s1 = 0" "next_of ?e s1 = 0" "size_of (xStart s) s1 = 0"
    "xFreeBytesRemaining s1 = free_total ?bs" "xBlockAllocatedBit s1 = 2 ^ 31"
    using c(2) I(7,9,10,15,17) ee by (simp_all add: s1_def)
  show ?thesis
  proof (cases "n - w > 16")
    case False
    have run: "take_block w ?t p s = Some (p + 8, hand_out p s1)"
      using False w e(2,3) tp c(2,3) ne(1)[of 0] by (simp add: take_block_def Let_def s1_def)
    have "heap_inv base (hand_out p s1) (L @ (n, True) # R)"
      by (rule hand_out_inv) (use r cR S1 I p U1 e head in \<open>auto simp: coalesced_append block_ok_def\<close>)
    moreover have "xStart (hand_out p s1) = xStart s" by (simp add: hand_out_def Let_def S1)
    ultimately show ?thesis using run False by (simp add: cut_def)
  next
    case True
    let ?L = "L @ [(w, True)]"
    define s2 where "s2 = set_size p w (set_size (p + w) (n - w) s1)"
    have "8 dvd total L" using I(13) by (intro total_dvd) simp
    then have "8 dvd p + w" using I(2) w(3) p by simp
    then have run: "take_block w ?t p s = map_option (\<lambda>s. (p + 8, hand_out p s)) (prvInsertBlockIntoFreeList (p + w) s2)"
      using True w e(2,3) tp c(2,3) ne(1)[of 0] ne(2)[of w]
      by (simp add: take_block_def Let_def s1_def s2_def portBYTE_ALIGNMENT_MASK_def and_7)
    have wp: "0 < w" "w < n" using w True by simp_all
    have xe: "xStart s2 = xStart s" "pxEnd s2 = ?e" by (simp_all add: s2_def S1)
    have "chain s2 base L ?x" by (subst chain_cong[of _ _ _ s1]) (use r(1) pos(1) p in \<open>auto simp: s2_def\<close>)
    moreover have "chain s2 (p + n) R ?e" by (subst chain_cong[of _ _ _ s1]) (use cR pos(3) wp in \<open>auto simp: s2_def\<close>)
    ultimately have C2: "chain s2 base (?L @ (n - w, True) # R) (pxEnd s2)" using p wp by (simp add: xe add.assoc)
    have st2: "next_of (xStart s2) s2 = nfree base (?L @ (n - w, True) # R) (pxEnd s2)"
      using r(2) p wp unfolding xe by (simp add: s2_def add.assoc)
    have e2: "pxEnd s2 = base + total (?L @ (n - w, True) # R)" "pxEnd s2 < 2 ^ 32" "xStart s2 < base \<or> pxEnd s2 < xStart s2"
      "size_of (xStart s2) s2 = 0" "p + w = base + total ?L" "size_of (p + w) s2 = n - w"
      using e p wp I(6) S1(6) ne(3)[of w] ne(4)[of 0] unfolding xe by (simp_all add: s2_def)
    have pos2: "pos_blocks (?L @ (n - w, True) # R)" using pos wp by auto
    have M: "merge_block ?L (n - w) R = L @ (w, True) # (n - w, False) # R"
      using head(1) by (auto simp: merge_block_def join_left_def join_right_def)
    obtain s3 where s3: "prvInsertBlockIntoFreeList (p + w) s2 = Some s3"
      "next_of (xStart s2) s3 = nfree base (L @ (w, True) # (n - w, False) # R) (pxEnd s2)"
      "chain s3 base (L @ (w, True) # (n - w, False) # R) (pxEnd s2)" "size_of (xStart s2) s3 = 0" "same_counts s2 s3"
      "\<And>q. q \<noteq> p + w \<Longrightarrow> q \<noteq> ?t \<Longrightarrow> next_of q s3 = next_of q s2 \<and> size_of q s3 = size_of q s2"
      using insert_spec[OF st2 C2 e2(1,2) pos2 e2(3-6)] unfolding M xe by fastforce
    have x3: "pxEnd s3 = ?e" "xStart s3 = xStart s" "xFreeBytesRemaining s3 = free_total ?bs" "xBlockAllocatedBit s3 = 2 ^ 31"
      using s3(5) S1 by (simp_all add: same_counts_def s2_def)
    have fr: "next_of q s3 = next_of q s1 \<and> size_of q s3 = size_of q s1" if "q \<noteq> p" "q \<noteq> p + w" "q \<noteq> ?t" for q
      using s3(6)[of q] that by (simp add: s2_def)
    have U3: "used_ok s3 base L" "used_ok s3 (p + n) R"
      using used_frame[OF pos(1) U1(1), of "xStart s" s3] used_frame[OF pos(3) U1(2), of 0 s3] fr dL t p e wp I(6) by auto
    have "?e \<noteq> p" "?e \<noteq> p + w" using e(1) wp by simp_all
    then have E3: "size_of ?e s3 = 0" "next_of ?e s3 = 0" "size_of p s3 = w"
      using fr[of ?e] ee(2) S1(4,5) s3(6)[of p] ne(1)[of 0] wp by (simp_all add: s2_def)
    let ?bs' = "L @ (w, True) # (n - w, False) # R"
    have "\<forall>b \<in> set ?bs'. block_ok b" using I(13) w wp True by (auto simp: block_ok_def)
    moreover have "coalesced ?bs'" using head by (simp add: coalesced_append) (cases R; auto)
    moreover have "total ?bs' = total ?bs" "free_total ?bs' + w = free_total ?bs" using wp by simp_all
    moreover have "used_ok s3 (p + w) ((n - w, False) # R)" using U3(2) wp by (simp add: used_ok_def)
    ultimately have "heap_inv base (hand_out p s3) ?bs'"
      using s3(2-4) x3 E3 I(1-6) U3(1) p xe by (intro hand_out_inv) simp_all
    moreover have "xStart (hand_out p s3) = xStart s" by (simp add: hand_out_def Let_def x3)
    ultimately show ?thesis using run s3(1) True by (simp add: cut_def)
  qed
qed

lemma alloc_le: "alloc_blocks w bs = Some x \<Longrightarrow> w \<le> free_total bs"
proof (induction bs arbitrary: x)
  case (Cons b bs)
  then show ?case by (cases b) (auto split: if_splits simp: trans_le_add2)
qed simp

lemma alloc_shape:
  "alloc_blocks w bs = Some (off, bs') \<Longrightarrow> \<exists>L n R. bs = L @ (n, False) # R \<and> off = total L \<and> w \<le> n \<and> bs' = L @ cut w n @ R"
proof (induction bs arbitrary: off bs')
  case (Cons b bs)
  obtain m u where b: "b = (m, u)" by (cases b)
  show ?case
  proof (cases "\<not> u \<and> w \<le> m")
    case True
    then show ?thesis using Cons.prems b by (intro exI[of _ "[]"] exI[of _ m] exI[of _ bs]) (auto simp: cut_def)
  next
    case False
    then obtain o1 b1 where "alloc_blocks w bs = Some (o1, b1)" "off = m + o1" "bs' = (m, u) # b1" using Cons.prems b by auto
    then obtain L n R where "bs = L @ (n, False) # R" "o1 = total L" "w \<le> n" "b1 = L @ cut w n @ R" using Cons.IH by blast
    then show ?thesis using b \<open>off = m + o1\<close> \<open>bs' = (m, u) # b1\<close> by (intro exI[of _ "b # L"] exI[of _ n] exI[of _ R]) simp
  qed
qed simp

text \<open>What a request of \<open>n\<close> bytes does to the blocks.\<close>

definition request :: "nat \<Rightarrow> blocks \<Rightarrow> (nat \<times> blocks) option" where
  "request n bs = (if 0 < n \<and> n < 2 ^ 31 then alloc_blocks (wanted n) bs else None)"

lemma malloc_spec:
  assumes inv: "heap_inv base s bs" and n: "n < 2 ^ 32"
  shows "case request n bs of
      Some (off, bs') \<Rightarrow> \<exists>s'. pvPortMalloc hook n s = Some (base + off + 8, s') \<and> heap_inv base s' bs' \<and> xStart s' = xStart s
    | None \<Rightarrow> pvPortMalloc hook n s = map_option (\<lambda>s. (0, s)) (hook s)"
proof -
  note I = heap_invD[OF inv]
  have E: "pxEnd s \<noteq> 0" "xBlockAllocatedBit s = 2 ^ 31" using I(1,3,17) by simp_all
  show ?thesis
  proof (cases "0 < n \<and> n < 2 ^ 31")
    case False
    have "n AND 2 ^ 31 \<noteq> 0 \<or> n = 0 \<and> wanted n = 0"
    proof (cases "n = 0")
      case True
      then show ?thesis by (simp add: wanted_def)
    next
      case n0: False
      then have "n div 2 ^ 31 = 1" using False n by (simp add: div_nat_eqI)
      then have "bit n 31" by (simp add: bit_iff_odd)
      then show ?thesis unfolding and_exp_eq_0_iff_not_bit by blast
    qed
    then have "pvPortMalloc hook n s = map_option (\<lambda>s. (0, s)) (hook s)"
      using E by (auto simp: pvPortMalloc_def Let_def and_7 portBYTE_ALIGNMENT_MASK_def split: option.split simp del: power_numeral)
    then show ?thesis using False by (auto simp: request_def)
  next
    case True
    let ?w = "wanted n"
    have w: "?w mod 8 = 0" "16 \<le> ?w" "0 < ?w" "8 dvd ?w" using wanted_simp[of n] True by auto
    have z: "n AND 2 ^ 31 = 0" using alloc_bit(3)[of n] True by blast
    have P: "pvPortMalloc hook n s = (case (if ?w \<le> free_total bs then
          (case find_block s ?w (xStart s) (next_of (xStart s) s) of None \<Rightarrow> None
           | Some (q, b) \<Rightarrow> if b \<noteq> pxEnd s then take_block ?w q b s else Some (0, s)) else Some (0, s)) of
        None \<Rightarrow> None | Some (r, s) \<Rightarrow> case (if r = 0 then hook s else Some s) of None \<Rightarrow> None
          | Some s \<Rightarrow> if r mod 8 \<noteq> 0 then None else Some (r, s))"
      using E z w I(15) unfolding pvPortMalloc_def Let_def portBYTE_ALIGNMENT_MASK_def and_7 by (simp del: power_numeral)
    from find_block_spec[OF I(11,8,18,3,9,10) w(3) I(1)] show ?thesis
    proof (elim disjE exE conjE)
      fix L m R
      assume bs: "bs = L @ (m, False) # R" and f: "?w \<le> m" "find_block s ?w (xStart s) (nfree base bs (pxEnd s)) = Some (lastf (xStart s) base L, base + total L)"
        and a: "alloc_blocks ?w bs = Some (total L, L @ cut ?w m @ R)"
      obtain s' where t: "take_block ?w (lastf (xStart s) base L) (base + total L) s = Some (base + total L + 8, s')"
        "heap_inv base s' (L @ cut ?w m @ R)" "xStart s' = xStart s"
        using take_spec[OF inv[unfolded bs] f(1) w(2,4) refl] by blast
      have "base + total L \<noteq> pxEnd s" using I(3,18) bs by simp
      moreover have "8 dvd total L" using I(13) bs by (intro total_dvd) simp
      then have "(base + total L + 8) mod 8 = 0" using I(2) by (simp add: mod_eq_0_iff_dvd)
      ultimately have "pvPortMalloc hook n s = Some (base + total L + 8, s')"
        using alloc_le[OF a] f(2) t(1) unfolding P I(8) by simp
      then show ?thesis using a t True by (auto simp: request_def)
    next
      fix q
      assume "alloc_blocks ?w bs = None" "find_block s ?w (xStart s) (nfree base bs (pxEnd s)) = Some (q, pxEnd s)"
      then show ?thesis using True unfolding P I(8) by (auto simp: request_def split: option.split)
    qed
  qed
qed

section \<open>Starting\<close>

text \<open>A heap that was never used, in memory that does not reach the end of the address space.\<close>

definition heap_fresh :: "heap4 \<Rightarrow> bool" where
  "heap_fresh s \<longleftrightarrow> pxEnd s = 0 \<and> 0 < ucHeap s \<and> ucHeap s + 16384 < 2 ^ 32 \<and> (xStart s < ucHeap s \<or> ucHeap s + 16384 \<le> xStart s)"

definition heap_base :: "nat \<Rightarrow> nat" where "heap_base u = (u + 7) div 8 * 8"
definition heap_room :: "nat \<Rightarrow> nat" where "heap_room u = (u + 16376) div 8 * 8 - heap_base u"

lemma heap_bounds:
  "u \<le> heap_base u" "heap_base u < u + 8" "8 dvd heap_base u" "heap_base u + heap_room u \<le> u + 16376" "16368 \<le> heap_room u"
  "8 dvd heap_room u" "heap_base u + heap_room u = (u + 16376) div 8 * 8" "heap_room u \<le> 16376"
proof -
  show b: "u \<le> heap_base u" "heap_base u < u + 8" "8 dvd heap_base u" by (auto simp: heap_base_def)
  have "heap_base u \<le> (u + 16376) div 8 * 8" by (auto simp: heap_base_def intro: div_le_mono)
  then show e: "heap_base u + heap_room u = (u + 16376) div 8 * 8" by (simp add: heap_room_def)
  have q: "(u + 16376) div 8 * 8 \<le> u + 16376" by (rule div_times_less_eq_dividend)
  then show "heap_base u + heap_room u \<le> u + 16376" unfolding e .
  then show "heap_room u \<le> 16376" using b(1) by simp
  have "8 dvd (u + 16376) div 8 * 8" by simp
  then show d: "8 dvd heap_room u" using b(3) unfolding heap_room_def by (rule dvd_diff_nat)
  have "u + 16376 < heap_base u + heap_room u + 8" unfolding e by presburger
  then have "16361 \<le> heap_room u" using b(2) by simp
  then show "16368 \<le> heap_room u" using d by presburger
qed

lemma init_spec:
  assumes "heap_fresh s"
  shows "heap_inv (heap_base (ucHeap s)) (prvHeapInit s) [(heap_room (ucHeap s), False)]" "xStart (prvHeapInit s) = xStart s"
proof -
  let ?u = "ucHeap s"
  note B = heap_bounds[of ?u]
  have u: "0 < ?u" "?u + 16384 < 2 ^ 32" "xStart s < ?u \<or> ?u + 16384 \<le> xStart s" using assms by (auto simp: heap_fresh_def)
  let ?a = "if ?u AND portBYTE_ALIGNMENT_MASK \<noteq> 0 then w32 (?u + (portBYTE_ALIGNMENT - 1)) AND not32 portBYTE_ALIGNMENT_MASK else ?u"
  have a: "?a = heap_base ?u"
  proof (cases "?u mod 8 = 0")
    case True
    then have "heap_base ?u = ?u" by (auto simp: heap_base_def)
    then show ?thesis using True by (simp add: portBYTE_ALIGNMENT_MASK_def and_7)
  next
    case False
    then show ?thesis using u(2)
      by (simp add: portBYTE_ALIGNMENT_MASK_def portBYTE_ALIGNMENT_def and_7 w32_def and_not_7 heap_base_def minus_mod_eq_div_mult)
  qed
  have tot: "w32 (heap_base ?u + (if ?u AND portBYTE_ALIGNMENT_MASK \<noteq> 0 then sub32 configTOTAL_HEAP_SIZE (sub32 (heap_base ?u) ?u)
      else configTOTAL_HEAP_SIZE)) = ?u + 16384"
  proof (cases "?u mod 8 = 0")
    case True
    then have "heap_base ?u = ?u" by (auto simp: heap_base_def)
    then show ?thesis using True u(2) by (simp add: portBYTE_ALIGNMENT_MASK_def and_7 configTOTAL_HEAP_SIZE_def w32_def)
  next
    case False
    then show ?thesis using u(2) B(1,2)
      by (simp add: portBYTE_ALIGNMENT_MASK_def and_7 configTOTAL_HEAP_SIZE_def) (simp add: w32_def)
  qed
  have en: "sub32 (?u + 16384) xHeapStructSize AND not32 portBYTE_ALIGNMENT_MASK = heap_base ?u + heap_room ?u"
    using u(2) B(7) by (simp add: portBYTE_ALIGNMENT_MASK_def and_not_7 minus_mod_eq_div_mult)
  have sz: "sub32 (heap_base ?u + heap_room ?u) (heap_base ?u) = heap_room ?u" using B(4) u(2) by simp
  have bit: "push_bit (4 * heapBITS_PER_BYTE - 1) 1 = (2 ^ 31 :: nat)" by (simp add: heapBITS_PER_BYTE_def)
  have ne: "xStart s \<noteq> heap_base ?u" "xStart s \<noteq> heap_base ?u + heap_room ?u" "heap_room ?u \<noteq> 0" using u B by auto
  have I: "prvHeapInit s = (let b = heap_base ?u; e = heap_base ?u + heap_room ?u;
      t = set_next b e (set_size b (heap_room ?u) (set_next e 0 (set_size e 0 ((set_size (xStart s) 0 (set_next (xStart s) b s))\<lparr>pxEnd := e\<rparr>))))
      in t\<lparr>xMinimumEverFreeBytesRemaining := heap_room ?u, xFreeBytesRemaining := heap_room ?u, xBlockAllocatedBit := 2 ^ 31\<rparr>)"
    unfolding prvHeapInit_def Let_def a tot en sz bit by simp
  have m: "next_of p (t\<lparr>pxEnd := e\<rparr>) = next_of p t" "size_of p (t\<lparr>pxEnd := e\<rparr>) = size_of p t"
    "next_of p (t\<lparr>xBlockAllocatedBit := e\<rparr>) = next_of p t" "size_of p (t\<lparr>xBlockAllocatedBit := e\<rparr>) = size_of p t" for p t e
    by (simp_all add: next_of_def size_of_def)
  show "xStart (prvHeapInit s) = xStart s" by (simp add: I Let_def)
  show "heap_inv (heap_base ?u) (prvHeapInit s) [(heap_room ?u, False)]"
    unfolding heap_inv_def I Let_def using ne u B
    by (auto simp: m used_ok_def block_ok_def)
qed

lemma malloc_first:
  assumes "heap_fresh s"
  shows "pvPortMalloc hook n s = pvPortMalloc hook n (prvHeapInit s)"
proof -
  have "pxEnd (prvHeapInit s) \<noteq> 0" using heap_invD(1,3)[OF init_spec(1)[OF assms]] by simp
  then show ?thesis using assms by (simp add: pvPortMalloc_def heap_fresh_def Let_def)
qed

section \<open>Sequences of calls\<close>

datatype heap_cmd = Malloc nat | Free nat

fun heap_exec :: "(heap4 \<Rightarrow> heap4 option) \<Rightarrow> heap_cmd \<Rightarrow> heap4 \<Rightarrow> (nat \<times> heap4) option" where
  "heap_exec hook (Malloc n) s = pvPortMalloc hook n s"
| "heap_exec hook (Free p) s = map_option (\<lambda>s. (0, s)) (vPortFree p s)"

fun heap_run :: "(heap4 \<Rightarrow> heap4 option) \<Rightarrow> heap_cmd list \<Rightarrow> heap4 \<Rightarrow> (nat list \<times> heap4) option" where
  "heap_run hook [] s = Some ([], s)"
| "heap_run hook (c # cs) s =
     (case heap_exec hook c s of None \<Rightarrow> None
      | Some (x, s) \<Rightarrow> map_option (\<lambda>(xs, s). (x # xs, s)) (heap_run hook cs s))"

text \<open>The same on blocks. A request that cannot be served gives 0 if the hook returns (\<open>r\<close>); only what is in use may be freed.\<close>

fun blocks_exec :: "bool \<Rightarrow> nat \<Rightarrow> heap_cmd \<Rightarrow> blocks \<Rightarrow> (nat \<times> blocks) option" where
  "blocks_exec r base (Malloc n) bs =
     (case request n bs of Some (off, bs') \<Rightarrow> Some (base + off + 8, bs') | None \<Rightarrow> if r then Some (0, bs) else None)"
| "blocks_exec r base (Free p) bs =
     (if p = 0 then Some (0, bs) else if p < base + 8 then None
      else map_option (\<lambda>bs. (0, bs)) (free_blocks [] (p - base - 8) bs))"

fun blocks_run :: "bool \<Rightarrow> nat \<Rightarrow> heap_cmd list \<Rightarrow> blocks \<Rightarrow> (nat list \<times> blocks) option" where
  "blocks_run r base [] bs = Some ([], bs)"
| "blocks_run r base (c # cs) bs =
     (case blocks_exec r base c bs of None \<Rightarrow> None
      | Some (x, bs) \<Rightarrow> map_option (\<lambda>(xs, bs). (x # xs, bs)) (blocks_run r base cs bs))"

definition hook_of :: "bool \<Rightarrow> heap4 \<Rightarrow> heap4 option" where
  "hook_of r s = (if r then Some s else vApplicationMallocFailedHook s)"

fun size_ok :: "heap_cmd \<Rightarrow> bool" where
  "size_ok (Malloc n) \<longleftrightarrow> n < 2 ^ 32"
| "size_ok (Free p) \<longleftrightarrow> True"

lemma free_blocks_shape:
  "free_blocks K off bs = Some bs' \<Longrightarrow> \<exists>L n R. bs = L @ (n, True) # R \<and> off = total L \<and> bs' = merge_block (K @ L) n R"
proof (induction bs arbitrary: K off)
  case (Cons b bs)
  obtain m u where b: "b = (m, u)" by (cases b)
  show ?case
  proof (cases "off = 0")
    case True
    then show ?thesis using Cons.prems b by (intro exI[of _ "[]"] exI[of _ m] exI[of _ bs]) (auto split: if_splits)
  next
    case False
    then have "free_blocks (K @ [(m, u)]) (off - m) bs = Some bs'" "m \<le> off" using Cons.prems b by (auto split: if_splits)
    then obtain L n R where "bs = L @ (n, True) # R" "off - m = total L" "bs' = merge_block ((K @ [(m, u)]) @ L) n R"
      using Cons.IH by blast
    then show ?thesis using b \<open>m \<le> off\<close> by (intro exI[of _ "b # L"] exI[of _ n] exI[of _ R]) simp
  qed
qed simp

lemma exec_refines_blocks:
  assumes inv: "heap_inv base s bs" and c: "size_ok c" "blocks_exec r base c bs = Some (x, bs')"
  shows "\<exists>s'. heap_exec (hook_of r) c s = Some (x, s') \<and> heap_inv base s' bs'"
proof (cases c)
  case (Malloc n)
  then show ?thesis
    using malloc_spec[OF inv, of n "hook_of r"] c inv
    by (auto simp: hook_of_def vApplicationMallocFailedHook_def split: option.splits if_splits)
next
  case (Free p)
  show ?thesis
  proof (cases "p = 0")
    case True
    then show ?thesis using Free c inv by (simp add: vPortFree_def)
  next
    case False
    then obtain L n R where "bs = L @ (n, True) # R" "p - base - 8 = total L" "bs' = merge_block L n R" "base + 8 \<le> p" "x = 0"
      using Free c(2) free_blocks_shape[of "[]" "p - base - 8" bs] by (auto split: if_splits)
    then have "p = base + total L + 8" "heap_inv base s (L @ (n, True) # R)" "bs' = merge_block L n R" using inv by auto
    then show ?thesis using free_spec[of base s L n R "base + total L"] Free \<open>x = 0\<close> by auto
  qed
qed

lemma run_refines_blocks:
  assumes "heap_inv base s bs" "\<forall>c \<in> set cs. size_ok c" "blocks_run r base cs bs = Some (xs, bs')"
  shows "\<exists>s'. heap_run (hook_of r) cs s = Some (xs, s') \<and> heap_inv base s' bs'"
  using assms
proof (induction cs arbitrary: s bs xs)
  case (Cons c cs)
  obtain x b ys where "blocks_exec r base c bs = Some (x, b)" "blocks_run r base cs b = Some (ys, bs')" "xs = x # ys"
    using Cons.prems(3) by (auto split: option.splits)
  moreover obtain s1 where "heap_exec (hook_of r) c s = Some (x, s1)" "heap_inv base s1 b"
    using exec_refines_blocks[OF Cons.prems(1), of c r x b] Cons.prems(2) calculation(1) by auto
  ultimately show ?case using Cons.IH[of s1 b ys] Cons.prems(2) by auto
qed simp

section \<open>Reading the blocks back\<close>

text \<open>The headers determine the blocks: walking over them gives the sequence that the heap represents.\<close>

partial_function (option) scan_blocks :: "heap4 \<Rightarrow> nat \<Rightarrow> blocks option" where
  "scan_blocks s a =
     (if a = pxEnd s then Some []
      else let n = size_of a s AND not32 (xBlockAllocatedBit s)
           in Option.bind (scan_blocks s (a + n)) (\<lambda>bs. Some ((n, size_of a s AND xBlockAllocatedBit s \<noteq> 0) # bs)))"

lemma scan_spec:
  assumes "chain s a bs e" "used_ok s a bs" "pos_blocks bs" "pxEnd s = a + total bs" "total bs < 2 ^ 31" "xBlockAllocatedBit s = 2 ^ 31"
  shows "scan_blocks s a = Some bs"
  using assms
proof (induction bs arbitrary: a)
  case Nil
  then show ?case by (subst scan_blocks.simps) simp
next
  case (Cons b bs)
  obtain m u where b: "b = (m, u)" by (cases b)
  have m: "m < 2 ^ 31" "0 < m" using Cons.prems(3,5) b by simp_all
  have "used_ok s (a + m) bs" using Cons.prems(2) b by (simp add: used_ok_def split: if_splits)
  then have IH: "scan_blocks s (a + m) = Some bs" using Cons.IH[of "a + m"] Cons.prems b by (simp add: add.assoc)
  have "m AND not32 (2 ^ 31) = m"
    using m(1) by (simp add: not32_def take_bit_eq_mask[of 31 m, unfolded mask_eq_exp_minus_1, simplified, symmetric] take_bit_nat_eq_self)
  moreover have "size_of a s = (if u then m OR 2 ^ 31 else m)"
    using Cons.prems(1,2) b by (auto simp: used_ok_def split: if_splits)
  ultimately have "size_of a s AND not32 (xBlockAllocatedBit s) = m" "(size_of a s AND xBlockAllocatedBit s \<noteq> 0) = u"
    using alloc_bit[OF m(1)] Cons.prems(6) by (cases u; simp del: power_numeral)+
  moreover have "a \<noteq> pxEnd s" using Cons.prems(4) b m by simp
  ultimately show ?case using IH b by (subst scan_blocks.simps) (simp add: Let_def)
qed

definition regions :: "nat \<Rightarrow> blocks \<Rightarrow> (nat \<times> nat) set" where
  "regions base bs = (\<lambda>(p, n). (p + 8, n - 8)) ` set (used_at base bs)"

definition live_regions :: "nat \<Rightarrow> heap4 \<Rightarrow> (nat \<times> nat) set" where
  "live_regions base s = regions base (the (scan_blocks s base))"

lemma live_regions_inv: "heap_inv base s bs \<Longrightarrow> live_regions base s = regions base bs"
  using scan_spec[OF heap_invD(11,12,18,3,5,17)] by (simp add: live_regions_def)

lemma used_at_disjoint:
  assumes "pos_blocks (L @ (m, u) # R)" "(q, k) \<in> set (used_at a L) \<union> set (used_at (a + total L + m) R)"
  shows "q + k \<le> a + total L \<or> a + total L + m \<le> q"
  using assms used_range[of L q k a] used_range[of R q k "a + total L + m"] by auto

lemma cut_used:
  assumes "w \<le> n" "16 \<le> w"
  obtains k where "w \<le> k" "k \<le> n" "used_at a (cut w n @ R) = (a, k) # used_at (a + n) R"
proof (cases "16 < n - w")
  case True
  then show ?thesis using assms that[of w] by (simp add: cut_def)
next
  case False
  then show ?thesis using assms that[of n] by (simp add: cut_def)
qed

lemma request_regions:
  assumes ok: "\<forall>b \<in> set bs. block_ok b" and r: "request n bs = Some (off, bs')"
  shows "\<exists>k \<ge> n. regions base bs' = insert (base + off + 8, k) (regions base bs) \<and> off + 8 + k \<le> total bs \<and> 8 dvd off \<and>
    (\<forall>(q, m) \<in> regions base bs. q + m \<le> base + off + 8 \<or> base + off + 8 + k \<le> q)"
proof -
  have n: "0 < n" "n < 2 ^ 31" and a: "alloc_blocks (wanted n) bs = Some (off, bs')" using r by (auto simp: request_def split: if_splits)
  obtain L m R where s: "bs = L @ (m, False) # R" "off = total L" "wanted n \<le> m" "bs' = L @ cut (wanted n) m @ R" using alloc_shape[OF a] by blast
  have w: "16 \<le> wanted n" "n + 8 \<le> wanted n" using wanted_simp(3)[OF n(2,1)] by simp_all
  obtain k where k: "wanted n \<le> k" "k \<le> m" "used_at (base + total L) (cut (wanted n) m @ R) = (base + total L, k) # used_at (base + total L + m) R"
    using cut_used[OF s(3) w(1)] by blast
  have "regions base bs' = insert (base + off + 8, k - 8) (regions base bs)" using s k(3) by (auto simp: regions_def)
  moreover have "off + 8 + (k - 8) \<le> total bs" using s k w by simp
  moreover have "8 dvd off" unfolding s(2) by (rule total_dvd) (use ok s in simp)
  moreover have "q + j \<le> base + off + 8 \<or> base + off + 8 + (k - 8) \<le> q" if "(q, j) \<in> regions base bs" for q j
  proof -
    obtain q' j' where q: "q = q' + 8" "j = j' - 8" "(q', j') \<in> set (used_at base L) \<union> set (used_at (base + total L + m) R)"
      using \<open>(q, j) \<in> regions base bs\<close> s(1) by (auto simp: regions_def)
    have "pos_blocks (L @ (m, False) # R)" using block_ok_pos[OF ok] s(1) by simp
    from used_at_disjoint[OF this q(3)] show ?thesis using q k s w by auto
  qed
  ultimately show ?thesis using k w by (intro exI[of _ "k - 8"]) auto
qed

section \<open>The allocator as seen by its clients\<close>

text \<open>
  What a client relies on: a request returns 0 and nothing changes, or a region of at least the size asked for that
  touches no region handed out before.
\<close>

locale memory_allocator =
  fixes inv :: "'s \<Rightarrow> bool" and live :: "'s \<Rightarrow> (nat \<times> nat) set" and malloc :: "nat \<Rightarrow> 's \<Rightarrow> (nat \<times> 's) option"
  assumes malloc_law: "inv s \<Longrightarrow> n < 2 ^ 32 \<Longrightarrow> malloc n s = Some (p, s') \<Longrightarrow> inv s' \<and>
    (p = 0 \<and> live s' = live s \<or>
     p \<noteq> 0 \<and> (\<exists>k \<ge> n. 0 < k \<and> live s' = insert (p, k) (live s) \<and> (\<forall>(q, m) \<in> live s. q + m \<le> p \<or> p + k \<le> q)))"
    and live_law: "inv s \<Longrightarrow> (p, k) \<in> live s \<Longrightarrow> 0 < k"
begin

fun malloc_all :: "nat list \<Rightarrow> 's \<Rightarrow> (nat list \<times> 's) option" where
  "malloc_all [] s = Some ([], s)"
| "malloc_all (n # ns) s =
     (case malloc n s of None \<Rightarrow> None | Some (p, s) \<Rightarrow> map_option (\<lambda>(ps, s). (p # ps, s)) (malloc_all ns s))"

lemma malloc_all_fresh:
  assumes "inv s" "\<forall>n \<in> set ns. n < 2 ^ 32" "malloc_all ns s = Some (ps, s')" "0 \<notin> set ps"
  shows "distinct ps \<and> set ps \<inter> fst ` live s = {} \<and> inv s' \<and> fst ` live s' = fst ` live s \<union> set ps"
  using assms
proof (induction ns arbitrary: s ps)
  case (Cons n ns)
  obtain p s1 ps1 where m: "malloc n s = Some (p, s1)" "malloc_all ns s1 = Some (ps1, s')" "ps = p # ps1"
    using Cons.prems(3) by (auto split: option.splits)
  have l: "inv s1" "p \<noteq> 0" using malloc_law[OF Cons.prems(1) _ m(1)] Cons.prems m by auto
  then obtain k where k: "0 < k" "live s1 = insert (p, k) (live s)" "\<forall>(q, m) \<in> live s. q + m \<le> p \<or> p + k \<le> q"
    using malloc_law[OF Cons.prems(1) _ m(1)] Cons.prems by auto
  have "p \<notin> fst ` live s"
  proof
    assume "p \<in> fst ` live s"
    then obtain j where "(p, j) \<in> live s" by auto
    then show False using k live_law[OF Cons.prems(1)] by fastforce
  qed
  then show ?case using Cons.IH[OF l(1) _ m(2)] Cons.prems m(3) k(2) by auto
qed simp

end

lemma heap_regions_pos: "heap_inv base s bs \<Longrightarrow> (p, k) \<in> regions base bs \<Longrightarrow> 0 < k"
proof -
  assume i: "heap_inv base s bs" and "(p, k) \<in> regions base bs"
  then obtain q j where "(q, j) \<in> set (used_at base bs)" "k = j - 8" by (auto simp: regions_def)
  moreover have "16 \<le> j" if "(q, j) \<in> set (used_at a bs)" "\<forall>b \<in> set bs. block_ok b" for a
    using that by (induction bs arbitrary: a) (auto simp: block_ok_def split: if_splits)
  ultimately show "0 < k" using heap_invD(13)[OF i] by fastforce
qed

lemma malloc_regions:
  assumes i: "heap_inv base s bs" and n: "n < 2 ^ 32" and m: "pvPortMalloc (hook_of r) n s = Some (p, s')"
  shows "\<exists>bs'. heap_inv base s' bs' \<and> (p = 0 \<and> bs' = bs \<or> p \<noteq> 0 \<and> 8 dvd p \<and> base + 8 \<le> p \<and>
    (\<exists>k \<ge> n. 0 < k \<and> p + k \<le> pxEnd s \<and> regions base bs' = insert (p, k) (regions base bs) \<and> (\<forall>(q, m) \<in> regions base bs. q + m \<le> p \<or> p + k \<le> q)))"
proof (cases "request n bs")
  case None
  then show ?thesis using malloc_spec[OF i n, of "hook_of r"] m i
    by (auto simp: hook_of_def vApplicationMallocFailedHook_def split: if_splits)
next
  case (Some x)
  obtain off bs' where x: "request n bs = Some (off, bs')" using Some by (cases x) simp
  then obtain s1 where "pvPortMalloc (hook_of r) n s = Some (base + off + 8, s1)" "heap_inv base s1 bs'"
    using malloc_spec[OF i n, of "hook_of r"] by auto
  then have h: "p = base + off + 8" "heap_inv base s' bs'" using m by simp_all
  obtain k where k: "n \<le> k" "regions base bs' = insert (base + off + 8, k) (regions base bs)" "off + 8 + k \<le> total bs" "8 dvd off"
    "\<forall>(q, m) \<in> regions base bs. q + m \<le> base + off + 8 \<or> base + off + 8 + k \<le> q" using request_regions[OF heap_invD(13)[OF i] x, of base] by blast
  have "0 < k" using heap_regions_pos[OF h(2), of "base + off + 8" k] k(2) by simp
  then show ?thesis using h k heap_invD(1-3)[OF i]
    by (intro exI[of _ bs'] conjI disjI2 exI[of _ k]) simp_all
qed

interpretation rtos: memory_allocator "\<lambda>s. \<exists>bs. heap_inv base s bs" "live_regions base" "pvPortMalloc (hook_of r)" for base r
proof
  fix s n p s'
  assume "\<exists>bs. heap_inv base s bs" "n < 2 ^ 32" "pvPortMalloc (hook_of r) n s = Some (p, s')"
  then obtain bs where i: "heap_inv base s bs" by blast
  obtain bs' where b: "heap_inv base s' bs'" "p = 0 \<and> bs' = bs \<or> p \<noteq> 0 \<and> 8 dvd p \<and> base + 8 \<le> p \<and>
    (\<exists>k \<ge> n. 0 < k \<and> p + k \<le> pxEnd s \<and> regions base bs' = insert (p, k) (regions base bs) \<and> (\<forall>(q, m) \<in> regions base bs. q + m \<le> p \<or> p + k \<le> q))"
    using malloc_regions[OF i \<open>n < 2 ^ 32\<close> \<open>pvPortMalloc (hook_of r) n s = Some (p, s')\<close>] by blast
  then show "(\<exists>bs. heap_inv base s' bs) \<and> (p = 0 \<and> live_regions base s' = live_regions base s \<or>
     p \<noteq> 0 \<and> (\<exists>k \<ge> n. 0 < k \<and> live_regions base s' = insert (p, k) (live_regions base s) \<and>
       (\<forall>(q, m) \<in> live_regions base s. q + m \<le> p \<or> p + k \<le> q)))"
    unfolding live_regions_inv[OF i] live_regions_inv[OF b(1)] by blast
next
  fix s p k
  assume "\<exists>bs. heap_inv base s bs" "(p, k) \<in> live_regions base s"
  then obtain bs where "heap_inv base s bs" "(p, k) \<in> regions base bs" using live_regions_inv by auto
  then show "0 < k" by (rule heap_regions_pos)
qed

section \<open>Releasing\<close>

lemma used_at_split: "(p, n) \<in> set (used_at a bs) \<Longrightarrow> \<exists>L R. bs = L @ (n, True) # R \<and> p = a + total L"
proof (induction bs arbitrary: a)
  case (Cons b bs)
  obtain m u where b: "b = (m, u)" by (cases b)
  show ?case
  proof (cases "u \<and> p = a \<and> n = m")
    case True
    then show ?thesis using b by (intro exI[of _ "[]"] exI[of _ bs]) simp
  next
    case False
    then have "(p, n) \<in> set (used_at (a + m) bs)" using Cons.prems b by (auto split: if_splits)
    then obtain L R where "bs = L @ (n, True) # R" "p = a + m + total L" using Cons.IH by blast
    then show ?thesis using b by (intro exI[of _ "b # L"] exI[of _ R]) simp
  qed
qed simp

lemma regions_split:
  assumes "(p, k) \<in> regions base bs"
  obtains L n R where "bs = L @ (n, True) # R" "p = base + total L + 8" "k = n - 8"
  using assms used_at_split[of _ _ base bs] that by (fastforce simp: regions_def)

text \<open>The blocks in use that remain are the other ones.\<close>

lemma regions_merge:
  assumes ok: "\<forall>b \<in> set (L @ (n, True) # R). block_ok b"
  shows "regions base (merge_block L n R) = regions base (L @ (n, True) # R) - {(base + total L + 8, n - 8)}"
proof -
  have "pos_blocks (L @ (n, True) # R)" using block_ok_pos[OF ok] .
  then have "(base + total L, j) \<notin> set (used_at base L) \<union> set (used_at (base + total L + n) R)" for j
    using used_range[of L "base + total L" j base] used_range[of R "base + total L" j "base + total L + n"] by auto
  then show ?thesis unfolding regions_def merge_facts by auto
qed

lemma merge_cut:
  assumes "coalesced (L @ (n, False) # R)" "w \<le> n"
  shows "\<exists>k R'. cut w n @ R = (k, True) # R' \<and> merge_block L k R' = L @ (n, False) # R"
proof -
  have c: "L = [] \<or> snd (last L)" "R = [] \<or> snd (hd R)" using assms(1) by (simp_all add: coalesced_append)
  then show ?thesis
  proof (cases "16 < n - w")
    case True
    then show ?thesis using c assms(2)
      by (intro exI[of _ w] exI[of _ "(n - w, False) # R"]) (auto simp: cut_def merge_block_def join_left_def join_right_def)
  next
    case False
    then show ?thesis using c
      by (intro exI[of _ n] exI[of _ R]) (auto simp: cut_def merge_block_def join_left_def join_right_def)
  qed
qed

lemma blocks_exec_total: "blocks_exec r base c bs = Some (x, bs') \<Longrightarrow> total bs' = total bs"
proof (cases c)
  case (Malloc n)
  assume e: "blocks_exec r base c bs = Some (x, bs')"
  show ?thesis
  proof (cases "request n bs")
    case (Some y)
    then obtain off where a: "alloc_blocks (wanted n) bs = Some (off, bs')" using e Malloc
      by (cases y) (auto simp: request_def split: if_splits)
    from alloc_shape[OF a] show ?thesis by (auto simp: cut_def)
  qed (use e Malloc in \<open>auto split: if_splits\<close>)
next
  case (Free p)
  assume "blocks_exec r base c bs = Some (x, bs')"
  then show ?thesis using Free free_blocks_shape[of "[]" "p - base - 8" bs bs'] by (auto simp: merge_facts split: if_splits)
qed

lemma blocks_run_total: "blocks_run r base cs bs = Some (xs, bs') \<Longrightarrow> total bs' = total bs"
  by (induction cs arbitrary: bs xs) (fastforce dest: blocks_exec_total split: option.splits)+

lemma unused_coalesced: "coalesced bs \<Longrightarrow> used_at a bs = [] \<Longrightarrow> bs = [] \<or> (\<exists>n. bs = [(n, False)])"
  by (cases bs rule: coalesced.cases) (auto split: if_splits)

section \<open>Properties\<close>

text \<open>
  C12: the allocator refines a first-fit allocator on a sequence of adjacent blocks. From a heap that was never used, for every
  sequence of requests and releases of what was handed out, each call returns (no assertion fails and no search
  runs on) with the result of the abstract allocator, and the heap's memory represents its blocks: the free list holds
  exactly the free ones, in order of address and with no two adjacent, headers of blocks in use are intact, and the count of free
  bytes is exact. \<open>r\<close> says whether the hook for failed requests returns; in the firmware it does not.
\<close>

theorem heap_refines_blocks:
  assumes "heap_fresh s" and "\<forall>c \<in> set cs. size_ok c" and "cs = Malloc n # cs'"
    and "blocks_run r (heap_base (ucHeap s)) cs [(heap_room (ucHeap s), False)] = Some (xs, bs)"
  shows "\<exists>s'. heap_run (hook_of r) cs s = Some (xs, s') \<and> heap_inv (heap_base (ucHeap s)) s' bs \<and>
    xPortGetFreeHeapSize s' = free_total bs \<and> xPortGetMinimumEverFreeHeapSize s' \<le> free_total bs"
proof -
  obtain s' where "heap_run (hook_of r) cs (prvHeapInit s) = Some (xs, s')" "heap_inv (heap_base (ucHeap s)) s' bs"
    using run_refines_blocks[OF init_spec(1)[OF assms(1)] assms(2,4)] by blast
  moreover have "heap_run (hook_of r) cs s = heap_run (hook_of r) cs (prvHeapInit s)"
    using malloc_first[OF assms(1)] assms(3) by simp
  ultimately show ?thesis using heap_invD(15,16)[of "heap_base (ucHeap s)" s' bs]
    by (auto simp: xPortGetFreeHeapSize_def xPortGetMinimumEverFreeHeapSize_def)
qed

theorem heap_refines_blocks_witness:
  "\<exists>s'. heap_run (hook_of True) [Malloc 100, Malloc 50, Free 268435464, Malloc 20000]
      \<lparr>ucHeap = 268435456, xStart = 536870912, h_mem = \<lambda>_. \<lparr>pxNextFreeBlock = 0, xBlockSize = 0\<rparr>, pxEnd = 0,
       xFreeBytesRemaining = 0, xMinimumEverFreeBytesRemaining = 0, xBlockAllocatedBit = 0\<rparr>
      = Some ([268435464, 268435576, 0, 0], s') \<and>
    heap_inv (heap_base 268435456) s' [(112, False), (64, True), (16200, False)] \<and>
    xPortGetFreeHeapSize s' = free_total [(112, False), (64, True), (16200, False)] \<and>
    xPortGetMinimumEverFreeHeapSize s' \<le> free_total [(112, False), (64, True), (16200, False)]"
proof -
  have w: "wanted 100 = 112" "wanted 50 = 64" "wanted 20000 = 20008" using wanted_simp(1) by simp_all
  show ?thesis
    using heap_refines_blocks[of "\<lparr>ucHeap = 268435456, xStart = 536870912, h_mem = \<lambda>_. \<lparr>pxNextFreeBlock = 0, xBlockSize = 0\<rparr>, pxEnd = 0,
       xFreeBytesRemaining = 0, xMinimumEverFreeBytesRemaining = 0, xBlockAllocatedBit = 0\<rparr>"
       "[Malloc 100, Malloc 50, Free 268435464, Malloc 20000]" 100 "[Malloc 50, Free 268435464, Malloc 20000]" True
       "[268435464, 268435576, 0, 0]" "[(112, False), (64, True), (16200, False)]"]
    by (simp add: heap_fresh_def heap_base_def heap_room_def request_def w merge_block_def join_left_def join_right_def)
qed

text \<open>
  C18: what is handed out is separate. In every state of the heap, an allocation that does not return 0 returns an address aligned to
  eight bytes inside the heap, of a region of at least the size asked for that overlaps no region handed out
  before and not yet released; those regions are unchanged.
\<close>

theorem malloc_separate:
  assumes "heap_inv base s bs" and "n < 2 ^ 32" and "pvPortMalloc (hook_of r) n s = Some (p, s')" and "p \<noteq> 0"
  shows "8 dvd p \<and> base < p \<and> (\<exists>k \<ge> n. p + k \<le> pxEnd s \<and> live_regions base s' = insert (p, k) (live_regions base s) \<and>
    (\<forall>(q, m) \<in> live_regions base s. q + m \<le> p \<or> p + k \<le> q))"
proof -
  obtain bs' where "heap_inv base s' bs'" "8 dvd p \<and> base + 8 \<le> p \<and>
    (\<exists>k \<ge> n. 0 < k \<and> p + k \<le> pxEnd s \<and> regions base bs' = insert (p, k) (regions base bs) \<and> (\<forall>(q, m) \<in> regions base bs. q + m \<le> p \<or> p + k \<le> q))"
    using malloc_regions[OF assms(1-3)] assms(4) by blast
  then show ?thesis using live_regions_inv[OF assms(1)] live_regions_inv[of base s' bs'] by auto
qed

definition example_heap :: heap4 where
  "example_heap = prvHeapInit \<lparr>ucHeap = 268435456, xStart = 536870912, h_mem = \<lambda>_. \<lparr>pxNextFreeBlock = 0, xBlockSize = 0\<rparr>, pxEnd = 0,
     xFreeBytesRemaining = 0, xMinimumEverFreeBytesRemaining = 0, xBlockAllocatedBit = 0\<rparr>"

lemma example_heap_inv: "heap_inv 268435456 example_heap [(16376, False)]"
  using init_spec(1)[of "\<lparr>ucHeap = 268435456, xStart = 536870912, h_mem = \<lambda>_. \<lparr>pxNextFreeBlock = 0, xBlockSize = 0\<rparr>, pxEnd = 0,
     xFreeBytesRemaining = 0, xMinimumEverFreeBytesRemaining = 0, xBlockAllocatedBit = 0\<rparr>"]
  by (simp add: heap_fresh_def heap_base_def heap_room_def example_heap_def)

lemma example_heap_malloc: "\<exists>s. pvPortMalloc (hook_of r) 100 example_heap = Some (268435464, s) \<and> heap_inv 268435456 s [(112, True), (16264, False)]"
proof -
  have "wanted 100 = 112" using wanted_simp(1) by simp
  then show ?thesis using malloc_spec[OF example_heap_inv, of 100 "hook_of r"] by (auto simp: request_def)
qed

theorem malloc_separate_witness:
  "\<exists>s'. pvPortMalloc (hook_of False) 100 example_heap = Some (268435464, s') \<and> 8 dvd (268435464 :: nat) \<and>
    (\<exists>k \<ge> 100. live_regions 268435456 s' = insert (268435464, k) (live_regions 268435456 example_heap))"
proof -
  obtain s where "pvPortMalloc (hook_of False) 100 example_heap = Some (268435464, s)" using example_heap_malloc by blast
  then show ?thesis using malloc_separate[OF example_heap_inv, of 100 False 268435464 s] by auto
qed

text \<open>
  Releasing undoes allocating. If a request can be served then the allocation and the release of what it returned both
  succeed, and the heap again represents the same blocks: what was cut off is joined again, and no free space is lost.
\<close>

theorem malloc_free_roundtrip:
  assumes "heap_inv base s bs" and "n < 2 ^ 32" and "request n bs = Some (off, bs')"
  shows "\<exists>s1 s2. pvPortMalloc hook n s = Some (base + off + 8, s1) \<and> vPortFree (base + off + 8) s1 = Some s2 \<and>
    heap_inv base s2 bs \<and> xPortGetFreeHeapSize s2 = xPortGetFreeHeapSize s \<and> live_regions base s2 = live_regions base s"
proof -
  obtain s1 where m: "pvPortMalloc hook n s = Some (base + off + 8, s1)" "heap_inv base s1 bs'"
    using malloc_spec[OF assms(1,2), of hook] assms(3) by auto
  obtain L k R where b: "bs = L @ (k, False) # R" "off = total L" "wanted n \<le> k" "bs' = L @ cut (wanted n) k @ R"
    using alloc_shape[of "wanted n" bs off bs'] assms(3) by (auto simp: request_def split: if_splits)
  obtain j R' where j: "cut (wanted n) k @ R = (j, True) # R'" "merge_block L j R' = bs"
    using merge_cut[of L k R "wanted n"] heap_invD(14)[OF assms(1)] b by auto
  obtain s2 where f: "vPortFree (base + off + 8) s1 = Some s2" "heap_inv base s2 bs"
    using free_spec[of base s1 L j R' "base + off"] m(2) b(2,4) j by auto
  then show ?thesis using m(1) heap_invD(15)[OF f(2)] heap_invD(15)[OF assms(1)] live_regions_inv[OF assms(1)] live_regions_inv[OF f(2)]
    by (simp add: xPortGetFreeHeapSize_def)
qed

theorem malloc_free_roundtrip_witness:
  "\<exists>s1 s2. pvPortMalloc vApplicationMallocFailedHook 100 example_heap = Some (268435464, s1) \<and>
     vPortFree 268435464 s1 = Some s2 \<and> heap_inv 268435456 s2 [(16376, False)]"
proof -
  have "wanted 100 = 112" using wanted_simp(1) by simp
  then show ?thesis
    using malloc_free_roundtrip[OF example_heap_inv, of 100 0 "[(112, True), (16264, False)]" vApplicationMallocFailedHook]
    by (auto simp: request_def)
qed

text \<open>
  Each region is released once. Releasing a region that is in use succeeds, and exactly it is no longer in use; releasing the same
  address again right after it fails an assertion, which stops the processor, before any list is changed.
\<close>

theorem release_once:
  assumes "heap_inv base s bs" and "(p, k) \<in> live_regions base s"
  shows "\<exists>s' bs'. vPortFree p s = Some s' \<and> heap_inv base s' bs' \<and> live_regions base s' = live_regions base s - {(p, k)} \<and>
    xPortGetFreeHeapSize s' = xPortGetFreeHeapSize s + k + xHeapStructSize \<and> vPortFree p s' = None"
proof -
  obtain L n R where b: "bs = L @ (n, True) # R" "p = base + total L + 8" "k = n - 8"
    using assms(2) unfolding live_regions_inv[OF assms(1)] by (rule regions_split)
  obtain s' where f: "vPortFree p s = Some s'" "heap_inv base s' (merge_block L n R)" "size_of (base + total L) s' < 2 ^ 31"
    using free_spec[of base s L n R "base + total L"] assms(1) b by auto
  have "vPortFree p s' = None" using alloc_bit(3)[OF f(3)] heap_invD(17)[OF f(2)] b(2) by (simp add: vPortFree_def del: power_numeral)
  moreover have "8 \<le> n" using heap_invD(13)[OF assms(1)] b(1) by (simp add: block_ok_def)
  moreover have "live_regions base s' = live_regions base s - {(p, k)}"
    using regions_merge[of L n R base] heap_invD(13)[OF assms(1)] b live_regions_inv[OF assms(1)] live_regions_inv[OF f(2)] by simp
  ultimately show ?thesis using f(1,2) heap_invD(15)[OF f(2)] heap_invD(15)[OF assms(1)] b
    by (intro exI[of _ s'] exI[of _ "merge_block L n R"]) (simp add: xPortGetFreeHeapSize_def merge_facts)
qed

theorem release_once_witness:
  "\<exists>s s'. pvPortMalloc (hook_of False) 100 example_heap = Some (268435464, s) \<and> vPortFree 268435464 s = Some s' \<and> vPortFree 268435464 s' = None"
proof -
  obtain s where "pvPortMalloc (hook_of False) 100 example_heap = Some (268435464, s)" "heap_inv 268435456 s [(112, True), (16264, False)]"
    using example_heap_malloc by blast
  then show ?thesis using release_once[of 268435456 s "[(112, True), (16264, False)]" 268435464 104]
    live_regions_inv[of 268435456 s "[(112, True), (16264, False)]"] by (auto simp: regions_def)
qed

text \<open>
  The heap does not fragment for good. After any sequence of calls on a heap never used before, if nothing handed out is still in use
  then the heap is one free block again, whatever the order of the releases was: every request that could be served at the start
  is served, at the same address.
\<close>

theorem release_all_restores:
  assumes "heap_fresh s" and "\<forall>c \<in> set cs. size_ok c" and "cs = Malloc n # cs'"
    and "blocks_run r (heap_base (ucHeap s)) cs [(heap_room (ucHeap s), False)] = Some (xs, bs)"
    and "regions (heap_base (ucHeap s)) bs = {}" and "0 < m" and "m \<le> heap_room (ucHeap s) - xHeapStructSize"
  shows "\<exists>s1 s2. heap_run (hook_of r) cs s = Some (xs, s1) \<and> heap_inv (heap_base (ucHeap s)) s1 [(heap_room (ucHeap s), False)] \<and>
    pvPortMalloc (hook_of r) m s1 = Some (heap_base (ucHeap s) + xHeapStructSize, s2)"
proof -
  let ?u = "ucHeap s"
  obtain s1 where h: "heap_run (hook_of r) cs (prvHeapInit s) = Some (xs, s1)" "heap_inv (heap_base ?u) s1 bs"
    using run_refines_blocks[OF init_spec(1)[OF assms(1)] assms(2,4)] by blast
  have "heap_run (hook_of r) cs s = heap_run (hook_of r) cs (prvHeapInit s)"
    using malloc_first[OF assms(1)] assms(3) by simp
  moreover have "total bs = heap_room ?u" using blocks_run_total[OF assms(4)] by simp
  then have "bs = [(heap_room ?u, False)]"
    using unused_coalesced[OF heap_invD(14)[OF h(2)], of "heap_base ?u"] assms(5) heap_bounds(5)[of ?u] by (auto simp: regions_def)
  moreover have m: "m < 2 ^ 31" "wanted m \<le> heap_room ?u"
  proof -
    show "m < 2 ^ 31" using assms(7) heap_bounds(8)[of ?u] by simp
    then have w: "wanted m = (m + 15) div 8 * 8" using wanted_simp(1) assms(6) by simp
    obtain j where "heap_room ?u = 8 * j" using heap_bounds(6)[of ?u] by blast
    then show "wanted m \<le> heap_room ?u" unfolding w using assms(6,7) by simp
  qed
  ultimately show ?thesis using h malloc_spec[of "heap_base ?u" s1 bs m "hook_of r"] assms(6) by (auto simp: request_def)
qed

theorem release_all_restores_witness:
  "\<exists>s1 s2. heap_run (hook_of False) [Malloc 100, Malloc 50, Free 268435464, Free 268435576]
      \<lparr>ucHeap = 268435456, xStart = 536870912, h_mem = \<lambda>_. \<lparr>pxNextFreeBlock = 0, xBlockSize = 0\<rparr>, pxEnd = 0,
       xFreeBytesRemaining = 0, xMinimumEverFreeBytesRemaining = 0, xBlockAllocatedBit = 0\<rparr>
      = Some ([268435464, 268435576, 0, 0], s1) \<and> pvPortMalloc (hook_of False) 16000 s1 = Some (268435464, s2)"
proof -
  have w: "wanted 100 = 112" "wanted 50 = 64" using wanted_simp(1) by simp_all
  show ?thesis
    using release_all_restores[of "\<lparr>ucHeap = 268435456, xStart = 536870912, h_mem = \<lambda>_. \<lparr>pxNextFreeBlock = 0, xBlockSize = 0\<rparr>, pxEnd = 0,
       xFreeBytesRemaining = 0, xMinimumEverFreeBytesRemaining = 0, xBlockAllocatedBit = 0\<rparr>"
       "[Malloc 100, Malloc 50, Free 268435464, Free 268435576]" 100 "[Malloc 50, Free 268435464, Free 268435576]" False
       "[268435464, 268435576, 0, 0]" "[(16376, False)]" 16000]
    by (auto simp: heap_fresh_def heap_base_def heap_room_def request_def w merge_block_def join_left_def join_right_def regions_def)
qed

end
