(* ===== verification/Rtos_List.thy ===== *)
theory Rtos_List
  imports Prelude
begin

text \<open>
  The lists of the FreeRTOS kernel (\<^verbatim>\<open>Middlewares/Third_Party/FreeRTOS/Source/list.c\<close> and \<^verbatim>\<open>include/list.h\<close>), in which it keeps ready,
  delayed and waiting tasks: circular doubly linked lists through a marker that is part of the list.

  A node is an item or the marker of a list; the store maps each node to its links and its value. The lists refine sequences of
  items: sorted insertion, insertion before the index, removal, and the walk of the index, which is how the kernel shares the processor
  between tasks of one priority.
\<close>

section \<open>Store\<close>

datatype node = Item nat | Marker nat

text \<open>Items and lists are numbered. The container of an item is the list it is in, if any; the index of a list is the node last walked to.\<close>

record 'o list_store =
  pxNext :: "node \<Rightarrow> node"
  pxPrevious :: "node \<Rightarrow> node"
  xItemValue :: "node \<Rightarrow> u32"
  pvOwner :: "nat \<Rightarrow> 'o"
  pxContainer :: "nat \<Rightarrow> nat option"
  uxNumberOfItems :: "nat \<Rightarrow> u32"
  pxIndex :: "nat \<Rightarrow> node"

definition portMAX_DELAY :: u32 where "portMAX_DELAY = 0xFFFFFFFF"

definition set_pxNext :: "node \<Rightarrow> node \<Rightarrow> 'o list_store \<Rightarrow> 'o list_store" where
  "set_pxNext n v h = h\<lparr>pxNext := (pxNext h)(n := v)\<rparr>"

definition set_pxPrevious :: "node \<Rightarrow> node \<Rightarrow> 'o list_store \<Rightarrow> 'o list_store" where
  "set_pxPrevious n v h = h\<lparr>pxPrevious := (pxPrevious h)(n := v)\<rparr>"

section \<open>Functions of list.c\<close>

definition vListInitialise :: "nat \<Rightarrow> 'o list_store \<Rightarrow> 'o list_store" where
  "vListInitialise l h =
     (let h = h\<lparr>pxIndex := (pxIndex h)(l := Marker l)\<rparr>;
          h = h\<lparr>xItemValue := (xItemValue h)(Marker l := portMAX_DELAY)\<rparr>;
          h = set_pxNext (Marker l) (Marker l) h;
          h = set_pxPrevious (Marker l) (Marker l) h
      in h\<lparr>uxNumberOfItems := (uxNumberOfItems h)(l := 0)\<rparr>)"

definition vListInitialiseItem :: "nat \<Rightarrow> 'o list_store \<Rightarrow> 'o list_store" where
  "vListInitialiseItem x h = h\<lparr>pxContainer := (pxContainer h)(x := None)\<rparr>"

definition vListInsertEnd :: "nat \<Rightarrow> nat \<Rightarrow> 'o list_store \<Rightarrow> 'o list_store" where
  "vListInsertEnd l x h =
     (let idx = pxIndex h l;
          h = set_pxNext (Item x) idx h;
          h = set_pxPrevious (Item x) (pxPrevious h idx) h;
          h = set_pxNext (pxPrevious h idx) (Item x) h;
          h = set_pxPrevious idx (Item x) h;
          h = h\<lparr>pxContainer := (pxContainer h)(x := Some l)\<rparr>
      in h\<lparr>uxNumberOfItems := (uxNumberOfItems h)(l := uxNumberOfItems h l + 1)\<rparr>)"

text \<open>The loop that looks for the place of a value; it may not end on a damaged list.\<close>

partial_function (option) insert_place :: "'o list_store \<Rightarrow> u32 \<Rightarrow> node \<Rightarrow> node option" where
  "insert_place h xValueOfInsertion it =
     (if xItemValue h (pxNext h it) \<le> xValueOfInsertion then insert_place h xValueOfInsertion (pxNext h it) else Some it)"

definition vListInsert :: "nat \<Rightarrow> nat \<Rightarrow> 'o list_store \<Rightarrow> 'o list_store option" where
  "vListInsert l x h =
     (let xValueOfInsertion = xItemValue h (Item x)
      in case (if xValueOfInsertion = portMAX_DELAY then Some (pxPrevious h (Marker l)) else insert_place h xValueOfInsertion (Marker l)) of
           None \<Rightarrow> None
         | Some it \<Rightarrow>
             let h = set_pxNext (Item x) (pxNext h it) h;
                 h = set_pxPrevious (pxNext h (Item x)) (Item x) h;
                 h = set_pxPrevious (Item x) it h;
                 h = set_pxNext it (Item x) h;
                 h = h\<lparr>pxContainer := (pxContainer h)(x := Some l)\<rparr>
             in Some (h\<lparr>uxNumberOfItems := (uxNumberOfItems h)(l := uxNumberOfItems h l + 1)\<rparr>))"

text \<open>\<open>None\<close>: the item is in no list, and the null pointer would be followed.\<close>

definition uxListRemove :: "nat \<Rightarrow> 'o list_store \<Rightarrow> (u32 \<times> 'o list_store) option" where
  "uxListRemove x h =
     (case pxContainer h x of
        None \<Rightarrow> None
      | Some l \<Rightarrow>
          let h = set_pxPrevious (pxNext h (Item x)) (pxPrevious h (Item x)) h;
              h = set_pxNext (pxPrevious h (Item x)) (pxNext h (Item x)) h;
              h = (if pxIndex h l = Item x then h\<lparr>pxIndex := (pxIndex h)(l := pxPrevious h (Item x))\<rparr> else h);
              h = h\<lparr>pxContainer := (pxContainer h)(x := None)\<rparr>;
              h = h\<lparr>uxNumberOfItems := (uxNumberOfItems h)(l := uxNumberOfItems h l - 1)\<rparr>
          in Some (uxNumberOfItems h l, h))"

text \<open>The macros of \<^verbatim>\<open>list.h\<close>. The owner of the next entry is read from an item; on an empty list the macro reads behind the marker (\<open>None\<close>).\<close>

definition listGET_OWNER_OF_NEXT_ENTRY :: "nat \<Rightarrow> 'o list_store \<Rightarrow> ('o \<times> 'o list_store) option" where
  "listGET_OWNER_OF_NEXT_ENTRY l h =
     (let h = h\<lparr>pxIndex := (pxIndex h)(l := pxNext h (pxIndex h l))\<rparr>;
          h = (if pxIndex h l = Marker l then h\<lparr>pxIndex := (pxIndex h)(l := pxNext h (pxIndex h l))\<rparr> else h)
      in case pxIndex h l of Item x \<Rightarrow> Some (pvOwner h x, h) | Marker _ \<Rightarrow> None)"

definition listSET_LIST_ITEM_VALUE :: "nat \<Rightarrow> u32 \<Rightarrow> 'o list_store \<Rightarrow> 'o list_store" where
  "listSET_LIST_ITEM_VALUE x v h = h\<lparr>xItemValue := (xItemValue h)(Item x := v)\<rparr>"

definition listGET_ITEM_VALUE_OF_HEAD_ENTRY :: "nat \<Rightarrow> 'o list_store \<Rightarrow> u32" where
  "listGET_ITEM_VALUE_OF_HEAD_ENTRY l h = xItemValue h (pxNext h (Marker l))"

definition listGET_HEAD_ENTRY :: "nat \<Rightarrow> 'o list_store \<Rightarrow> node" where
  "listGET_HEAD_ENTRY l h = pxNext h (Marker l)"

definition listLIST_IS_EMPTY :: "nat \<Rightarrow> 'o list_store \<Rightarrow> bool" where
  "listLIST_IS_EMPTY l h \<longleftrightarrow> uxNumberOfItems h l = 0"

definition listIS_CONTAINED_WITHIN :: "nat \<Rightarrow> nat \<Rightarrow> 'o list_store \<Rightarrow> bool" where
  "listIS_CONTAINED_WITHIN l x h \<longleftrightarrow> pxContainer h x = Some l"

section \<open>Rings\<close>

text \<open>The nodes of a ring in order: each is linked to the next, and the last to the first.\<close>

definition linked :: "'o list_store \<Rightarrow> node \<times> node \<Rightarrow> bool" where
  "linked h p \<longleftrightarrow> pxNext h (fst p) = snd p \<and> pxPrevious h (snd p) = fst p"

definition ring :: "'o list_store \<Rightarrow> node list \<Rightarrow> bool" where
  "ring h ns \<longleftrightarrow> distinct ns \<and> list_all (linked h) (zip ns (rotate1 ns))"

lemma zip_rotate1: "length xs = length ys \<Longrightarrow> zip (rotate1 xs) (rotate1 ys) = rotate1 (zip xs ys)"
  by (cases xs; cases ys) (simp_all)

lemma ring_rotate1: "ring h ns \<Longrightarrow> ring h (rotate1 ns)"
  by (simp add: ring_def zip_rotate1 list_all_iff)

lemma ring_swap: "ring h (as @ bs) \<Longrightarrow> ring h (bs @ as)"
proof -
  assume "ring h (as @ bs)"
  then have "ring h ((rotate1 ^^ n) (as @ bs))" for n by (induction n) (simp_all add: ring_rotate1)
  then show ?thesis using rotate_append[of as bs] unfolding rotate_def by metis
qed

lemma zip_shift: "zip (y # ys) (ys @ [z]) = zip (butlast (y # ys)) ys @ [(last (y # ys), z)]"
  by (induction ys arbitrary: y) simp_all

lemma ring_ends: "ring h ns \<Longrightarrow> ns \<noteq> [] \<Longrightarrow> pxNext h (last ns) = hd ns \<and> pxPrevious h (hd ns) = last ns"
  by (cases ns) (simp_all only: ring_def rotate1.simps zip_shift list_all_append, simp_all add: linked_def)

lemma ring_frame:
  assumes "ring h ns" and "\<And>n. n \<in> set ns \<Longrightarrow> pxNext h' n = pxNext h n \<and> pxPrevious h' n = pxPrevious h n"
  shows "ring h' ns"
proof -
  have "linked h' (u, v)" if "(u, v) \<in> set (zip ns (rotate1 ns))" for u v
  proof -
    have "u \<in> set ns" "v \<in> set ns" using set_zip_leftD[OF that] set_zip_rightD[OF that] by simp_all
    moreover have "linked h (u, v)" using assms(1) that by (auto simp: ring_def list_all_iff)
    ultimately show ?thesis using assms(2) by (simp add: linked_def)
  qed
  then show ?thesis using assms(1) by (auto simp: ring_def list_all_iff)
qed

lemma last_not_butlast: "distinct ns \<Longrightarrow> u \<in> set (butlast ns) \<Longrightarrow> u \<noteq> last ns"
proof -
  assume d: "distinct ns" and u: "u \<in> set (butlast ns)"
  then have "butlast ns @ [last ns] = ns" by (intro append_butlast_last_id) auto
  then have "distinct (butlast ns @ [last ns])" using d by simp
  then show ?thesis using u by auto
qed

lemma zip_snoc: "zip ((y # ys) @ [x]) (rotate1 ((y # ys) @ [x])) = zip (butlast (y # ys)) ys @ [(last (y # ys), x), (x, y)]"
  using zip_append[of "y # ys" "ys @ [x]" "[x]" "[y]"] zip_shift[of y ys x] by simp

text \<open>Linking a node in behind the last one, and unlinking the last one.\<close>

lemma ring_snoc:
  assumes "ring h ns" and "ns \<noteq> []" and "x \<notin> set ns"
    and "pxNext h' = (pxNext h)(x := hd ns, last ns := x)" and "pxPrevious h' = (pxPrevious h)(x := last ns, hd ns := x)"
  shows "ring h' (ns @ [x])"
proof -
  obtain y ys where ns: "ns = y # ys" using assms(2) by (cases ns) auto
  let ?z = "zip (butlast ns) ys"
  have old: "list_all (linked h) ?z" "distinct ns" using assms(1) by (simp_all only: ns ring_def rotate1.simps zip_shift list_all_append)
  have z: "zip (ns @ [x]) (rotate1 (ns @ [x])) = ?z @ [(last ns, x), (x, y)]" unfolding ns by (rule zip_snoc)
  have "linked h' (u, v)" if "(u, v) \<in> set ?z" for u v
  proof -
    have "u \<in> set (butlast ns)" "v \<in> set ys" using set_zip_leftD[OF that] set_zip_rightD[OF that] .
    then have "u \<noteq> last ns" "v \<noteq> y" "u \<noteq> x" "v \<noteq> x"
      using old(2) assms(3) last_not_butlast[OF old(2)] in_set_butlastD[of u ns] ns by auto
    moreover have "linked h (u, v)" using old(1) that by (simp add: list_all_iff)
    ultimately show ?thesis using assms(4,5) by (simp add: linked_def ns)
  qed
  moreover have "linked h' (last ns, x)" "linked h' (x, y)"
    using assms(3-5) last_in_set[OF assms(2)] by (auto simp: linked_def ns)
  ultimately show ?thesis using old(2) assms(3) unfolding ring_def z by (auto simp: list_all_iff)
qed

lemma ring_unsnoc:
  assumes "ring h (ns @ [x])" and "ns \<noteq> []"
    and "pxNext h' = (pxNext h)(last ns := hd ns)" and "pxPrevious h' = (pxPrevious h)(hd ns := last ns)"
  shows "ring h' ns"
proof -
  obtain y ys where ns: "ns = y # ys" using assms(2) by (cases ns) auto
  let ?z = "zip (butlast ns) ys"
  have d: "distinct ns" using assms(1) by (simp add: ring_def)
  have "zip (ns @ [x]) (rotate1 (ns @ [x])) = ?z @ [(last ns, x), (x, y)]" unfolding ns by (rule zip_snoc)
  then have old: "list_all (linked h) ?z" using assms(1) by (simp add: ring_def)
  have z: "zip ns (rotate1 ns) = ?z @ [(last ns, y)]" using zip_shift[of y ys y] by (simp add: ns)
  have "linked h' (u, v)" if "(u, v) \<in> set ?z" for u v
  proof -
    have "u \<in> set (butlast ns)" "v \<in> set ys" using set_zip_leftD[OF that] set_zip_rightD[OF that] .
    then have "u \<noteq> last ns" "v \<noteq> y"
      using d last_not_butlast[OF d] ns by auto
    moreover have "linked h (u, v)" using old that by (simp add: list_all_iff)
    ultimately show ?thesis using assms(3,4) by (simp add: linked_def ns)
  qed
  moreover have "linked h' (last ns, y)" using assms(3,4) by (simp add: linked_def ns)
  ultimately show ?thesis using d unfolding ring_def z by (auto simp: list_all_iff)
qed

text \<open>The same anywhere in the ring.\<close>

lemma ring_between: "ring h (as @ bs) \<Longrightarrow> as \<noteq> [] \<Longrightarrow> pxNext h (last as) = hd (bs @ as) \<and> pxPrevious h (hd (bs @ as)) = last as"
  using ring_ends[OF ring_swap, of h as bs] by simp

lemma ring_insert:
  assumes "ring h (as @ bs)" and "as \<noteq> []" and "x \<notin> set (as @ bs)"
    and "pxNext h' = (pxNext h)(x := hd (bs @ as), last as := x)" and "pxPrevious h' = (pxPrevious h)(x := last as, hd (bs @ as) := x)"
  shows "ring h' (as @ x # bs)"
  using ring_snoc[OF ring_swap[OF assms(1)], of x h'] assms(2-5) ring_swap[of h' bs "as @ [x]"] by simp

lemma ring_delete:
  assumes "ring h (as @ x # bs)" and "as \<noteq> []"
    and "pxNext h' = (pxNext h)(last as := hd (bs @ as))" and "pxPrevious h' = (pxPrevious h)(hd (bs @ as) := last as)"
  shows "ring h' (as @ bs)"
  using ring_unsnoc[of h "bs @ as" x h'] ring_swap[of h "as @ [x]" bs] assms ring_swap[of h' bs as] by simp

lemma ring_around:
  assumes "ring h (as @ x # bs)" and "as \<noteq> []"
  shows "pxPrevious h x = last as" "pxNext h x = hd (bs @ as)"
  using ring_between[of h as "x # bs"] ring_between[of h "as @ [x]" bs] assms by (cases bs; cases as; simp)+

section \<open>Lists as sequences\<close>

text \<open>\<open>L\<close> gives the items of each list that has been initialised.\<close>

definition nodes :: "nat \<Rightarrow> nat list \<Rightarrow> node list" where "nodes l xs = Marker l # map Item xs"

definition holds :: "'o list_store \<Rightarrow> nat \<Rightarrow> nat list \<Rightarrow> bool" where
  "holds h l xs \<longleftrightarrow> ring h (nodes l xs) \<and> uxNumberOfItems h l = of_nat (length xs) \<and> (\<forall>x \<in> set xs. pxContainer h x = Some l) \<and>
     pxIndex h l \<in> set (nodes l xs) \<and> xItemValue h (Marker l) = portMAX_DELAY"

definition store_inv :: "'o list_store \<Rightarrow> (nat \<Rightarrow> nat list option) \<Rightarrow> bool" where
  "store_inv h L \<longleftrightarrow> (\<forall>l xs. L l = Some xs \<longrightarrow> holds h l xs)"

lemma store_invD: "store_inv h L \<Longrightarrow> L l = Some xs \<Longrightarrow> holds h l xs"
  by (simp add: store_inv_def)

text \<open>A change that touches only the nodes of one list keeps the others.\<close>

lemma store_frame:
  assumes "store_inv h L" and "holds h' l xs'" and "L l = Some xs"
    and "\<And>n. n \<notin> set (nodes l xs) \<union> Item ` F \<Longrightarrow> pxNext h' n = pxNext h n \<and> pxPrevious h' n = pxPrevious h n"
    and "\<And>x. x \<notin> F \<Longrightarrow> pxContainer h' x = pxContainer h x" and "\<And>x. x \<in> F \<Longrightarrow> pxContainer h x \<in> {None, Some l}"
    and "\<And>k. k \<noteq> l \<Longrightarrow> uxNumberOfItems h' k = uxNumberOfItems h k \<and> pxIndex h' k = pxIndex h k" and "xItemValue h' = xItemValue h"
  shows "store_inv h' (L(l := Some xs'))"
  unfolding store_inv_def
proof (intro allI impI)
  fix k ys assume k: "(L(l := Some xs')) k = Some ys"
  show "holds h' k ys"
  proof (cases "k = l")
    case False
    then have hk: "holds h k ys" and hl: "holds h l xs" using k assms(1,3) store_invD by fastforce+
    have sep: "n \<notin> set (nodes l xs) \<union> Item ` F" if "n \<in> set (nodes k ys)" for n
    proof (cases n)
      case (Item y)
      then have "y \<in> set ys" using that by (auto simp: nodes_def)
      then have "pxContainer h y = Some k" using hk by (simp add: holds_def)
      then have "y \<notin> set xs" "y \<notin> F" using hl assms(6)[of y] False by (auto simp: holds_def)
      then show ?thesis using Item by (auto simp: nodes_def)
    next
      case (Marker m)
      then show ?thesis using that False by (auto simp: nodes_def)
    qed
    have "y \<notin> F" if "y \<in> set ys" for y using that hk assms(6)[of y] False by (auto simp: holds_def)
    moreover have "ring h' (nodes k ys)"
    proof (rule ring_frame)
      show "ring h (nodes k ys)" using hk by (simp add: holds_def)
      show "pxNext h' n = pxNext h n \<and> pxPrevious h' n = pxPrevious h n" if "n \<in> set (nodes k ys)" for n
        using assms(4)[OF sep[OF that]] .
    qed
    ultimately show ?thesis using hk assms(5,7,8) False by (simp add: holds_def)
  qed (use k assms(2) in simp)
qed

lemma nodes_simps [simp]: "nodes l (xs @ ys) = nodes l xs @ map Item ys" "nodes l xs \<noteq> []"
  by (simp_all add: nodes_def)

text \<open>The store after an item has been linked in behind the node that ends \<open>nodes l as\<close>.\<close>

definition link_in :: "nat \<Rightarrow> nat \<Rightarrow> node \<Rightarrow> node \<Rightarrow> 'o list_store \<Rightarrow> 'o list_store" where
  "link_in l x p q h = h\<lparr>pxNext := (pxNext h)(Item x := q, p := Item x), pxPrevious := (pxPrevious h)(Item x := p, q := Item x),
     pxContainer := (pxContainer h)(x := Some l), uxNumberOfItems := (uxNumberOfItems h)(l := uxNumberOfItems h l + 1)\<rparr>"

lemma link_in_holds:
  assumes "holds h l (as @ bs)" and "pxContainer h x = None"
  shows "holds (link_in l x (last (nodes l as)) (hd (map Item bs @ nodes l as)) h) l (as @ x # bs)"
proof -
  let ?h = "link_in l x (last (nodes l as)) (hd (map Item bs @ nodes l as)) h"
  have x: "Item x \<notin> set (nodes l as @ map Item bs)" using assms by (auto simp: holds_def nodes_def)
  have "ring ?h (nodes l as @ Item x # map Item bs)"
    by (rule ring_insert[OF _ _ x]) (use assms(1) in \<open>simp_all add: holds_def link_in_def\<close>)
  moreover have "pxIndex ?h l \<in> set (nodes l (as @ x # bs))" using assms(1) by (auto simp: holds_def link_in_def nodes_def)
  ultimately show ?thesis using assms(1) by (simp add: holds_def link_in_def)
qed

lemma link_in_inv:
  assumes "store_inv h L" and "L l = Some (as @ bs)" and "pxContainer h x = None"
  shows "store_inv (link_in l x (last (nodes l as)) (hd (map Item bs @ nodes l as)) h) (L(l \<mapsto> as @ x # bs))"
proof (rule store_frame[OF assms(1) link_in_holds[OF store_invD[OF assms(1,2)] assms(3)] assms(2), where F = "{x}"])
  fix n assume n: "n \<notin> set (nodes l (as @ bs)) \<union> Item ` {x}"
  have "last (nodes l as) \<in> set (nodes l (as @ bs))" using last_in_set[of "nodes l as"] by simp
  moreover have "hd (map Item bs @ nodes l as) \<in> set (nodes l (as @ bs))"
    by (cases bs) (auto simp: nodes_def)
  ultimately have "n \<noteq> last (nodes l as)" "n \<noteq> hd (map Item bs @ nodes l as)" "n \<noteq> Item x" using n by auto
  then show "pxNext (link_in l x (last (nodes l as)) (hd (map Item bs @ nodes l as)) h) n = pxNext h n \<and>
      pxPrevious (link_in l x (last (nodes l as)) (hd (map Item bs @ nodes l as)) h) n = pxPrevious h n"
    by (simp add: link_in_def)
qed (use assms(3) in \<open>simp_all add: link_in_def\<close>)

lemma insert_end_link:
  assumes "holds h l (as @ bs)" and "pxContainer h x = None" and "pxIndex h l = hd (map Item bs @ nodes l as)"
  shows "vListInsertEnd l x h = link_in l x (last (nodes l as)) (hd (map Item bs @ nodes l as)) h"
proof -
  let ?q = "hd (map Item bs @ nodes l as)"
  have "pxPrevious h ?q = last (nodes l as)" using ring_between[of h "nodes l as" "map Item bs"] assms(1) by (simp add: holds_def)
  moreover have "Item x \<noteq> ?q" using assms(1,2) by (cases bs) (auto simp: holds_def nodes_def)
  ultimately show ?thesis
    by (simp add: vListInsertEnd_def Let_def assms(3) set_pxNext_def set_pxPrevious_def link_in_def fun_upd_twist)
qed

text \<open>Sorted insertion stops behind the last item whose value is not larger.\<close>

lemma insert_place_stops:
  assumes "holds h l (as @ bs)" and "v < portMAX_DELAY"
  shows "insert_place h v (last (nodes l as)) = Some (last (nodes l (as @ takeWhile (\<lambda>y. xItemValue h (Item y) \<le> v) bs)))"
  using assms(1)
proof (induction bs arbitrary: as)
  case Nil
  have "pxNext h (last (nodes l as)) = Marker l" using ring_between[of h "nodes l as" "[]"] Nil by (simp add: holds_def nodes_def)
  moreover have "\<not> xItemValue h (Marker l) \<le> v" using Nil assms(2) by (simp add: holds_def)
  ultimately show ?case by (simp add: insert_place.simps[of h v "last (nodes l as)"])
next
  case (Cons y bs)
  have n: "pxNext h (last (nodes l as)) = Item y" using ring_between[of h "nodes l as" "map Item (y # bs)"] Cons.prems by (simp add: holds_def)
  have "insert_place h v (Item y) = Some (last (nodes l ((as @ [y]) @ takeWhile (\<lambda>y. xItemValue h (Item y) \<le> v) bs)))"
    using Cons.IH[of "as @ [y]"] Cons.prems by simp
  then show ?case using n by (simp add: insert_place.simps[of h v "last (nodes l as)"])
qed

definition sorted_place :: "('o list_store) \<Rightarrow> u32 \<Rightarrow> nat list \<Rightarrow> nat list \<times> nat list" where
  "sorted_place h v xs = (takeWhile (\<lambda>y. xItemValue h (Item y) \<le> v) xs, dropWhile (\<lambda>y. xItemValue h (Item y) \<le> v) xs)"

lemma max_delay_top: "v \<le> portMAX_DELAY"
proof -
  have "portMAX_DELAY = - 1" by (simp add: portMAX_DELAY_def)
  then show ?thesis using word_n1_ge[of v] by metis
qed

lemma insert_link:
  assumes "holds h l xs" and "pxContainer h x = None" and "sorted_place h (xItemValue h (Item x)) xs = (as, bs)"
  shows "vListInsert l x h = Some (link_in l x (last (nodes l as)) (hd (map Item bs @ nodes l as)) h)"
proof -
  let ?v = "xItemValue h (Item x)" and ?p = "last (nodes l as)" and ?q = "hd (map Item bs @ nodes l as)"
  have xs: "xs = as @ bs" "as = takeWhile (\<lambda>y. xItemValue h (Item y) \<le> ?v) xs" using assms(3) by (auto simp: sorted_place_def)
  have p: "(if ?v = portMAX_DELAY then Some (pxPrevious h (Marker l)) else insert_place h ?v (Marker l)) = Some ?p"
  proof (cases "?v = portMAX_DELAY")
    case True
    then have "as = xs" using xs(2) max_delay_top by simp
    then show ?thesis using True ring_between[of h "nodes l xs" "[]"] assms(1) by (simp add: holds_def nodes_def)
  next
    case False
    then have "?v < portMAX_DELAY" using max_delay_top[of ?v] by simp
    then show ?thesis using False insert_place_stops[of h l "[]" xs ?v] assms(1) xs(2) by (simp add: nodes_def)
  qed
  have n: "pxNext h ?p = ?q" using ring_between[of h "nodes l as" "map Item bs"] assms(1) xs(1) by (simp add: holds_def)
  have "Item x \<noteq> ?p" "Item x \<noteq> ?q"
  proof -
    have "Item x \<notin> set (nodes l xs)" using assms(1,2) by (auto simp: holds_def nodes_def)
    moreover have "?p \<in> set (nodes l xs)" using last_in_set[of "nodes l as"] xs(1) by simp
    moreover have "?q \<in> set (nodes l xs)" using xs(1) by (cases bs) (auto simp: nodes_def)
    ultimately show "Item x \<noteq> ?p" "Item x \<noteq> ?q" by auto
  qed
  then show ?thesis unfolding vListInsert_def Let_def p
    by (simp add: n set_pxNext_def set_pxPrevious_def link_in_def fun_upd_twist)
qed

text \<open>Removal.\<close>

lemma remove_exact:
  assumes "store_inv h L" and "L l = Some (as @ x # bs)"
  shows "\<exists>h'. uxListRemove x h = Some (of_nat (length (as @ bs)), h') \<and> store_inv h' (L(l \<mapsto> as @ bs)) \<and>
    pxContainer h' = (pxContainer h)(x := None) \<and> xItemValue h' = xItemValue h \<and> pvOwner h' = pvOwner h \<and>
    pxIndex h' = (if pxIndex h l = Item x then (pxIndex h)(l := last (nodes l as)) else pxIndex h)"
proof -
  have hl: "holds h l (as @ x # bs)" using store_invD[OF assms] .
  let ?p = "last (nodes l as)" and ?q = "hd (map Item bs @ nodes l as)"
  have r: "ring h (nodes l as @ Item x # map Item bs)" using hl by (simp add: holds_def)
  note a = ring_around[OF r]
  have d: "Item x \<notin> set (nodes l as @ map Item bs)" using r by (simp add: ring_def)
  have mem: "?p \<in> set (nodes l as @ map Item bs)" "?q \<in> set (nodes l as @ map Item bs)"
    using last_in_set[of "nodes l as"] by (simp, cases bs) (auto simp: nodes_def)
  then have ne: "?p \<noteq> Item x" "?q \<noteq> Item x" using d by metis+
  define h' where "h' = h\<lparr>pxNext := (pxNext h)(?p := ?q), pxPrevious := (pxPrevious h)(?q := ?p),
    pxIndex := (if pxIndex h l = Item x then (pxIndex h)(l := ?p) else pxIndex h),
    pxContainer := (pxContainer h)(x := None), uxNumberOfItems := (uxNumberOfItems h)(l := uxNumberOfItems h l - 1)\<rparr>"
  have c: "pxContainer h x = Some l" using hl by (simp add: holds_def)
  have e: "uxListRemove x h = Some (uxNumberOfItems h l - 1, h')"
    using ne a by (simp add: uxListRemove_def c Let_def set_pxNext_def set_pxPrevious_def h'_def)
  have k: "uxNumberOfItems h l - 1 = of_nat (length (as @ bs))" using hl by (simp add: holds_def)
  have "ring h' (nodes l as @ map Item bs)" by (rule ring_delete[OF r]) (simp_all add: h'_def)
  moreover have "pxIndex h' l \<in> set (nodes l (as @ bs))"
    using hl mem(1) by (auto simp: holds_def h'_def)
  moreover have "x \<notin> set (as @ bs)" using d by (auto simp: nodes_def)
  ultimately have "holds h' l (as @ bs)" using hl k by (auto simp: holds_def h'_def)
  then have "store_inv h' (L(l \<mapsto> as @ bs))"
  proof (rule store_frame[OF assms(1) _ assms(2), where F = "{x}"])
    fix n assume "n \<notin> set (nodes l (as @ x # bs)) \<union> Item ` {x}"
    then have "n \<noteq> ?p" "n \<noteq> ?q" using mem by auto
    then show "pxNext h' n = pxNext h n \<and> pxPrevious h' n = pxPrevious h n" by (simp add: h'_def)
  qed (use c in \<open>simp_all add: h'_def\<close>)
  then show ?thesis using e k by (simp add: h'_def)
qed

text \<open>The walk of the index: position 0 is the marker, position \<open>k\<close> the \<open>k\<close>-th item.\<close>

lemma next_entry:
  assumes "holds h l xs" and "xs \<noteq> []" and "pxIndex h l = nodes l xs ! k" and "k \<le> length xs"
  shows "listGET_OWNER_OF_NEXT_ENTRY l h =
    Some (pvOwner h (xs ! (k mod length xs)), h\<lparr>pxIndex := (pxIndex h)(l := nodes l xs ! Suc (k mod length xs))\<rparr>)"
proof -
  obtain y ys where xs: "xs = y # ys" using assms(2) by (cases xs) auto
  have r: "ring h (nodes l xs)" using assms(1) by (simp add: holds_def)
  have nx: "pxNext h (nodes l xs ! j) = Item (xs ! j)" if "j < length xs" for j
  proof -
    have "nodes l xs = nodes l (take j xs) @ map Item (drop j xs)" by (metis append_take_drop_id nodes_simps(1))
    moreover have "last (nodes l (take j xs)) = nodes l xs ! j" using that by (cases j) (auto simp: nodes_def last_map take_Suc_conv_app_nth)
    moreover have "hd (map Item (drop j xs) @ nodes l (take j xs)) = Item (xs ! j)"
      using that by (simp add: hd_append hd_map hd_drop_conv_nth)
    ultimately show ?thesis using ring_between[of h "nodes l (take j xs)" "map Item (drop j xs)"] r by simp
  qed
  have it: "nodes l xs ! Suc j = Item (xs ! j)" if "j < length xs" for j using that by (simp add: nodes_def)
  show ?thesis
  proof (cases "k < length xs")
    case True
    then show ?thesis using nx[OF True] it[OF True] by (simp add: listGET_OWNER_OF_NEXT_ENTRY_def Let_def assms(3))
  next
    case False
    then have k: "k = length xs" using assms(4) by simp
    have "pxNext h (nodes l xs ! k) = Marker l"
    proof -
      have "nodes l xs ! k = last (nodes l xs)" using k by (simp add: nodes_def last_conv_nth)
      then show ?thesis using ring_ends[OF r] by (simp add: nodes_def)
    qed
    moreover have "pxNext h (Marker l) = Item (xs ! 0)" using nx[of 0] xs by (simp add: nodes_def)
    ultimately show ?thesis using k xs it[of 0] by (simp add: listGET_OWNER_OF_NEXT_ENTRY_def Let_def assms(3))
  qed
qed

lemma walk_keeps:
  assumes "store_inv h L" and "L l = Some xs" and "n \<in> set (nodes l xs)"
  shows "store_inv (h\<lparr>pxIndex := (pxIndex h)(l := n)\<rparr>) L"
proof -
  have "store_inv (h\<lparr>pxIndex := (pxIndex h)(l := n)\<rparr>) (L(l \<mapsto> xs))"
  proof (rule store_frame[OF assms(1) _ assms(2), where F = "{}"])
    have "ring h (nodes l xs)" "holds h l xs" using store_invD[OF assms(1,2)] by (simp_all add: holds_def)
    then show "holds (h\<lparr>pxIndex := (pxIndex h)(l := n)\<rparr>) l xs"
      using assms(3) ring_frame[of h "nodes l xs" "h\<lparr>pxIndex := (pxIndex h)(l := n)\<rparr>"] by (simp add: holds_def)
  qed simp_all
  then show ?thesis using assms(2) by (simp add: fun_upd_idem)
qed

fun next_owners :: "nat \<Rightarrow> nat \<Rightarrow> 'o list_store \<Rightarrow> ('o list \<times> 'o list_store) option" where
  "next_owners 0 l h = Some ([], h)"
| "next_owners (Suc n) l h =
     (case listGET_OWNER_OF_NEXT_ENTRY l h of
        None \<Rightarrow> None
      | Some (p, h) \<Rightarrow> (case next_owners n l h of None \<Rightarrow> None | Some (ps, h) \<Rightarrow> Some (p # ps, h)))"

lemma next_owners_walk:
  assumes "store_inv h L" and "L l = Some xs" and "xs \<noteq> []" and "pxIndex h l = nodes l xs ! k" and "k \<le> length xs"
  shows "\<exists>h'. next_owners n l h = Some (map (\<lambda>i. pvOwner h (xs ! ((k + i) mod length xs))) [0..<n], h') \<and> store_inv h' L"
  using assms(1,4,5)
proof (induction n arbitrary: h k)
  case (Suc n)
  let ?j = "k mod length xs"
  let ?h = "h\<lparr>pxIndex := (pxIndex h)(l := nodes l xs ! Suc ?j)\<rparr>"
  have j: "?j < length xs" using assms(3) by simp
  have e: "listGET_OWNER_OF_NEXT_ENTRY l h = Some (pvOwner h (xs ! ?j), ?h)"
    using next_entry[OF store_invD[OF Suc.prems(1) assms(2)] assms(3) Suc.prems(2,3)] .
  have "nodes l xs ! Suc ?j \<in> set (nodes l xs)" using j by (intro nth_mem) (simp add: nodes_def)
  then have inv: "store_inv ?h L" using walk_keeps[OF Suc.prems(1) assms(2)] by simp
  obtain h' where "next_owners n l ?h = Some (map (\<lambda>i. pvOwner h (xs ! ((Suc ?j + i) mod length xs))) [0..<n], h')" "store_inv h' L"
    using Suc.IH[OF inv, of "Suc ?j"] j by auto
  moreover have "(Suc ?j + i) mod length xs = (k + Suc i) mod length xs" for i
    using mod_add_left_eq[of k "length xs" "Suc i"] by simp
  ultimately show ?case using e by (simp add: map_upt_Suc del: upt_Suc)
qed (use assms(1) in simp)

lemma walk_rotate: "n \<le> length xs \<Longrightarrow> map (\<lambda>i. f (xs ! ((k + i) mod length xs))) [0..<n] = map f (take n (rotate k xs))"
  by (rule nth_equalityI) (simp_all add: nth_rotate)

lemma split_before:
  assumes "n \<in> set (nodes l xs)"
  shows "\<exists>as bs. xs = as @ bs \<and> n = hd (map Item bs @ nodes l as)"
proof (cases n)
  case (Item y)
  then have "y \<in> set xs" using assms by (auto simp: nodes_def)
  then obtain as bs where "xs = as @ y # bs" by (meson split_list)
  then show ?thesis using Item by (intro exI[of _ as] exI[of _ "y # bs"]) simp
next
  case (Marker m)
  then show ?thesis using assms by (intro exI[of _ xs] exI[of _ "[]"]) (auto simp: nodes_def)
qed

text \<open>
  C31: the kernel's lists share the processor fairly. Wherever the index of a list of \<open>n\<close> items stands, the next \<open>n\<close> requests for the owner of the next entry
  return the owner of every item exactly once, in the order of the list, starting behind the index; and after an item is inserted at the end, every
  item but the one at the index (the task that is running) comes before it.
\<close>

theorem round_robin:
  assumes "store_inv h L" and "L l = Some xs" and "pxContainer h x = None"
  shows "(\<exists>k h'. k \<le> length xs \<and> pxIndex h l = nodes l xs ! k \<and>
      next_owners (length xs) l h = Some (map (pvOwner h) (rotate k xs), h') \<and> store_inv h' L) \<and>
    (\<exists>ys h'. distinct ys \<and> set ys = {y \<in> set xs. Item y \<noteq> pxIndex h l} \<and>
      next_owners (Suc (length ys)) l (vListInsertEnd l x h) = Some (map (pvOwner h) (ys @ [x]), h'))"
proof
  have hl: "holds h l xs" using store_invD[OF assms(1,2)] .
  then obtain k where k: "k \<le> length xs" "pxIndex h l = nodes l xs ! k"
    by (auto simp: holds_def in_set_conv_nth) (simp add: nodes_def less_Suc_eq_le)
  show "\<exists>k h'. k \<le> length xs \<and> pxIndex h l = nodes l xs ! k \<and>
      next_owners (length xs) l h = Some (map (pvOwner h) (rotate k xs), h') \<and> store_inv h' L"
  proof (cases "xs = []")
    case False
    then show ?thesis using next_owners_walk[OF assms(1,2) False k(2,1), of "length xs"] k walk_rotate[of "length xs" xs "pvOwner h" k] by auto
  qed (use assms(1) k in auto)
  obtain as bs where ab: "xs = as @ bs" "pxIndex h l = hd (map Item bs @ nodes l as)" using split_before hl by (metis holds_def)
  let ?h = "vListInsertEnd l x h" and ?zs = "as @ x # bs" and ?k = "if bs = [] then 0 else Suc (Suc (length as))" and ?ys = "tl bs @ as"
  have e: "?h = link_in l x (last (nodes l as)) (hd (map Item bs @ nodes l as)) h"
    using insert_end_link[OF _ assms(3) ab(2)] hl ab(1) by simp
  have inv: "store_inv ?h (L(l \<mapsto> ?zs))" unfolding e using link_in_inv[OF assms(1) _ assms(3)] assms(2) ab(1) by simp
  have i: "pxIndex ?h l = nodes l ?zs ! ?k"
    unfolding e using ab(2) by (cases bs) (simp_all add: link_in_def nodes_def nth_append)
  have "take (Suc (length ?ys)) (rotate ?k ?zs) = ?ys @ [x]"
  proof (cases bs)
    case (Cons b bs')
    have "rotate (length (as @ [x, b])) ((as @ [x, b]) @ bs') = bs' @ as @ [x, b]" by (rule rotate_append)
    then show ?thesis using Cons by simp
  qed simp
  moreover have "pvOwner ?h = pvOwner h" unfolding e by (simp add: link_in_def)
  ultimately have "\<exists>h'. next_owners (Suc (length ?ys)) l ?h = Some (map (pvOwner h) (?ys @ [x]), h')"
    using next_owners_walk[OF inv _ _ i, of "Suc (length ?ys)"] walk_rotate[of "Suc (length ?ys)" ?zs "pvOwner h" ?k] by (cases bs) auto
  moreover have "distinct ?ys" "set ?ys = {y \<in> set xs. Item y \<noteq> pxIndex h l}"
  proof -
    have "distinct xs" using hl by (simp add: holds_def ring_def nodes_def distinct_map)
    then show "distinct ?ys" "set ?ys = {y \<in> set xs. Item y \<noteq> pxIndex h l}" using ab by (cases bs; auto simp: nodes_def)+
  qed
  ultimately show "\<exists>ys h'. distinct ys \<and> set ys = {y \<in> set xs. Item y \<noteq> pxIndex h l} \<and>
      next_owners (Suc (length ys)) l (vListInsertEnd l x h) = Some (map (pvOwner h) (ys @ [x]), h')" by blast
qed

section \<open>Refinement\<close>

datatype list_cmd = Set_Value nat u32 | Insert nat nat | Insert_End nat nat | Remove nat | Next nat

datatype 'o list_out = Done | Remaining u32 | Owner 'o

fun list_exec :: "list_cmd \<Rightarrow> 'o list_store \<Rightarrow> ('o list_out \<times> 'o list_store) option" where
  "list_exec (Set_Value x v) h = Some (Done, listSET_LIST_ITEM_VALUE x v h)"
| "list_exec (Insert l x) h = map_option (\<lambda>h. (Done, h)) (vListInsert l x h)"
| "list_exec (Insert_End l x) h = Some (Done, vListInsertEnd l x h)"
| "list_exec (Remove x) h = map_option (\<lambda>(n, h). (Remaining n, h)) (uxListRemove x h)"
| "list_exec (Next l) h = map_option (\<lambda>(p, h). (Owner p, h)) (listGET_OWNER_OF_NEXT_ENTRY l h)"

text \<open>
  The specification: sequences of items, the value of each item, the list each item is in, and the node each walk has reached. \<open>None\<close> is a use
  that the kernel must not make: inserting an item that is in a list, changing the value of one that is, removing one
  that is in none, walking in an empty list.
\<close>

record seqs =
  seq :: "nat \<Rightarrow> nat list option"
  val :: "nat \<Rightarrow> u32"
  home :: "nat \<Rightarrow> nat option"
  at_node :: "nat \<Rightarrow> node"

definition put :: "nat \<Rightarrow> nat \<Rightarrow> nat list \<times> nat list \<Rightarrow> seqs \<Rightarrow> seqs" where
  "put l x p a = a\<lparr>seq := (seq a)(l \<mapsto> fst p @ x # snd p), home := (home a)(x \<mapsto> l)\<rparr>"

definition cut_at :: "node \<Rightarrow> nat list \<Rightarrow> nat list \<times> nat list" where
  "cut_at n xs = (takeWhile (\<lambda>y. Item y \<noteq> n) xs, dropWhile (\<lambda>y. Item y \<noteq> n) xs)"

fun walk_to :: "nat list \<Rightarrow> nat list \<times> nat list \<Rightarrow> nat" where
  "walk_to xs (as, y # z # zs) = z"
| "walk_to xs (as, _) = hd xs"

fun seq_exec :: "(nat \<Rightarrow> 'o) \<Rightarrow> list_cmd \<Rightarrow> seqs \<Rightarrow> ('o list_out \<times> seqs) option" where
  "seq_exec own (Set_Value x v) a = (if home a x = None then Some (Done, a\<lparr>val := (val a)(x := v)\<rparr>) else None)"
| "seq_exec own (Insert l x) a =
     (case seq a l of
        Some xs \<Rightarrow> if home a x = None
          then Some (Done, put l x (takeWhile (\<lambda>y. val a y \<le> val a x) xs, dropWhile (\<lambda>y. val a y \<le> val a x) xs) a) else None
      | None \<Rightarrow> None)"
| "seq_exec own (Insert_End l x) a =
     (case seq a l of Some xs \<Rightarrow> if home a x = None then Some (Done, put l x (cut_at (at_node a l) xs) a) else None | None \<Rightarrow> None)"
| "seq_exec own (Remove x) a =
     (case home a x of
        Some l \<Rightarrow> (case seq a l of
            Some xs \<Rightarrow> if x \<in> set xs
              then Some (Remaining (of_nat (length xs - 1)), a\<lparr>seq := (seq a)(l \<mapsto> remove1 x xs), home := (home a)(x := None),
                at_node := (if at_node a l = Item x then (at_node a)(l := last (nodes l (fst (cut_at (Item x) xs)))) else at_node a)\<rparr>)
              else None
          | None \<Rightarrow> None)
      | None \<Rightarrow> None)"
| "seq_exec own (Next l) a =
     (case seq a l of
        Some (x # xs) \<Rightarrow> let y = (case at_node a l of Marker _ \<Rightarrow> x | Item i \<Rightarrow> walk_to (x # xs) (cut_at (Item i) (x # xs)))
          in Some (Owner (own y), a\<lparr>at_node := (at_node a)(l := Item y)\<rparr>)
      | _ \<Rightarrow> None)"

fun run :: "('c \<Rightarrow> 's \<Rightarrow> ('p \<times> 's) option) \<Rightarrow> 'c list \<Rightarrow> 's \<Rightarrow> ('p list \<times> 's) option" where
  "run f [] s = Some ([], s)"
| "run f (c # cs) s = (case f c s of None \<Rightarrow> None | Some (p, s) \<Rightarrow> (case run f cs s of None \<Rightarrow> None | Some (ps, s) \<Rightarrow> Some (p # ps, s)))"

definition list_rel :: "(nat \<Rightarrow> 'o) \<Rightarrow> 'o list_store \<Rightarrow> seqs \<Rightarrow> bool" where
  "list_rel own h a \<longleftrightarrow> store_inv h (seq a) \<and> (\<forall>x. xItemValue h (Item x) = val a x) \<and> pxContainer h = home a \<and> pxIndex h = at_node a \<and> pvOwner h = own"

lemma link_in_rel:
  assumes "list_rel own h a" and "seq a l = Some (as @ bs)" and "home a x = None"
  shows "list_rel own (link_in l x (last (nodes l as)) (hd (map Item bs @ nodes l as)) h) (put l x (as, bs) a)"
  using assms link_in_inv[of h "seq a" l as bs x] by (simp add: list_rel_def put_def) (simp add: link_in_def)

lemma cut_at_node:
  assumes "n \<in> set (nodes l xs)"
  shows "cut_at n xs = (as, bs) \<Longrightarrow> xs = as @ bs \<and> n = hd (map Item bs @ nodes l as)"
proof -
  assume c: "cut_at n xs = (as, bs)"
  then have "xs = as @ bs" by (auto simp: cut_at_def)
  moreover have "n = hd (map Item bs @ nodes l as)"
  proof (cases bs)
    case Nil
    then have "\<forall>y \<in> set xs. Item y \<noteq> n" using c by (auto simp: cut_at_def dropWhile_eq_Nil_conv)
    then show ?thesis using assms Nil by (auto simp: nodes_def)
  next
    case (Cons b bs')
    then show ?thesis using c by (auto simp: cut_at_def dropWhile_eq_Cons_conv)
  qed
  ultimately show ?thesis by simp
qed

lemma exec_value:
  assumes "list_rel own h a" and "home a x = None"
  shows "list_rel own (listSET_LIST_ITEM_VALUE x v h) (a\<lparr>val := (val a)(x := v)\<rparr>)"
proof -
  have "ring (listSET_LIST_ITEM_VALUE x v h) ns = ring h ns" for ns
    by (simp add: ring_def linked_def listSET_LIST_ITEM_VALUE_def cong: list.pred_cong)
  then have "store_inv (listSET_LIST_ITEM_VALUE x v h) (seq a)"
    using assms(1) by (auto simp: list_rel_def store_inv_def holds_def listSET_LIST_ITEM_VALUE_def)
  then show ?thesis using assms(1) by (simp add: list_rel_def listSET_LIST_ITEM_VALUE_def)
qed

lemma exec_next:
  assumes "list_rel own h a" and "seq_exec own (Next l) a = Some (p, a')"
  shows "\<exists>h'. list_exec (Next l) h = Some (p, h') \<and> list_rel own h' a'"
proof -
  obtain x xs where sq: "seq a l = Some (x # xs)" using assms(2) by (auto split: option.splits list.splits)
  define y where "y = (case at_node a l of Marker _ \<Rightarrow> x | Item i \<Rightarrow> walk_to (x # xs) (cut_at (Item i) (x # xs)))"
  have out: "p = Owner (own y)" "a' = a\<lparr>at_node := (at_node a)(l := Item y)\<rparr>" using assms(2) sq by (simp_all add: y_def Let_def)
  have inv: "store_inv h (seq a)" and hl: "holds h l (x # xs)" and idx: "pxIndex h l = at_node a l"
    using assms(1) sq by (auto simp: list_rel_def store_inv_def)
  have mem: "at_node a l \<in> set (nodes l (x # xs))" using hl idx by (simp add: holds_def)
  have "\<exists>k \<le> length (x # xs). at_node a l = nodes l (x # xs) ! k \<and> (x # xs) ! (k mod length (x # xs)) = y"
  proof (cases "at_node a l")
    case (Item i)
    obtain as bs where c: "cut_at (Item i) (x # xs) = (as, bs)" by fastforce
    have s: "x # xs = as @ bs" "Item i = hd (map Item bs @ nodes l as)" using cut_at_node[OF _ c, of l] mem Item by auto
    then obtain bs' where b: "bs = i # bs'" by (cases bs) (auto simp: nodes_def)
    have n: "at_node a l = nodes l (x # xs) ! Suc (length as)" using Item by (simp add: s(1) b nodes_def nth_append)
    show ?thesis
    proof (cases bs')
      case Nil
      then have "(x # xs) ! (Suc (length as) mod length (x # xs)) = y" "Suc (length as) \<le> length (x # xs)"
        using s b c Item by (simp_all add: y_def hd_conv_nth)
      then show ?thesis using n by blast
    next
      case (Cons z zs)
      then have "Suc (length as) < length (x # xs)" using s(1) b by simp
      then have "(x # xs) ! (Suc (length as) mod length (x # xs)) = (as @ i # z # zs) ! Suc (length as)" using s(1) b Cons by simp
      also have "\<dots> = y" using c b Cons Item by (simp add: y_def nth_append)
      finally show ?thesis using n \<open>Suc (length as) < length (x # xs)\<close> by (intro exI[of _ "Suc (length as)"]) simp
    qed
  next
    case (Marker m)
    then show ?thesis using mem by (intro exI[of _ 0]) (auto simp: y_def nodes_def)
  qed
  then obtain k where k: "k \<le> length (x # xs)" "at_node a l = nodes l (x # xs) ! k" "(x # xs) ! (k mod length (x # xs)) = y" by blast
  have it: "nodes l ys ! Suc j = Item (ys ! j)" if "j < length ys" for ys j using that by (simp add: nodes_def)
  have yn: "nodes l (x # xs) ! Suc (k mod length (x # xs)) = Item y" using it[of "k mod length (x # xs)" "x # xs"] k(3) by simp
  have e: "listGET_OWNER_OF_NEXT_ENTRY l h = Some (own y, h\<lparr>pxIndex := (pxIndex h)(l := Item y)\<rparr>)"
    using next_entry[OF hl _ _ k(1)] k(2,3) yn idx assms(1) by (simp add: list_rel_def)
  have "Item y \<in> set (nodes l (x # xs))" using yn nth_mem[of "Suc (k mod length (x # xs))" "nodes l (x # xs)"] by (simp add: nodes_def)
  then have "store_inv (h\<lparr>pxIndex := (pxIndex h)(l := Item y)\<rparr>) (seq a)" using walk_keeps[OF inv sq] by simp
  then show ?thesis using e out assms(1) by (simp add: list_rel_def)
qed

lemma exec_remove:
  assumes "list_rel own h a" and "seq_exec own (Remove x) a = Some (p, a')"
  shows "\<exists>h'. list_exec (Remove x) h = Some (p, h') \<and> list_rel own h' a'"
proof -
  obtain l xs where l: "home a x = Some l" "seq a l = Some xs" "x \<in> set xs" using assms(2) by (auto split: option.splits if_splits)
  obtain as bs where c: "cut_at (Item x) xs = (as, bs)" by fastforce
  have s: "xs = as @ bs" "Item x = hd (map Item bs @ nodes l as)" using cut_at_node[OF _ c, of l] l(3) by (auto simp: nodes_def)
  then obtain bs' where b: "bs = x # bs'" by (cases bs) (auto simp: nodes_def)
  have "x \<notin> set as" using c by (auto simp: cut_at_def dest: set_takeWhileD)
  then have r: "remove1 x xs = as @ bs'" using s(1) b by (simp add: remove1_append)
  have inv: "store_inv h (seq a)" and sq: "seq a l = Some (as @ x # bs')" using assms(1) l(2) s(1) b by (simp_all add: list_rel_def)
  obtain h' where h': "uxListRemove x h = Some (of_nat (length (as @ bs')), h')" "store_inv h' ((seq a)(l \<mapsto> as @ bs'))"
    "pxContainer h' = (pxContainer h)(x := None)" "xItemValue h' = xItemValue h" "pvOwner h' = pvOwner h"
    "pxIndex h' = (if pxIndex h l = Item x then (pxIndex h)(l := last (nodes l as)) else pxIndex h)"
    using remove_exact[OF inv sq] by blast
  have "p = Remaining (of_nat (length (as @ bs')))" using assms(2) l s(1) b by simp
  moreover have "list_rel own h' a'" using assms h' l r c by (auto simp: list_rel_def)
  ultimately show ?thesis using h'(1) by simp
qed

text \<open>
  C27: the linked lists of the kernel refine sequences. Started from a store whose lists are sound, every sequence of uses that the kernel may make returns,
  gives the owners and counts of the specification, and leaves sound lists that hold the sequences of the specification: insertion
  by value is behind every item whose value is not larger, for all values up to the largest, insertion at the end is before the index,
  removal takes out exactly the item and moves the index back if it stood there.
\<close>

theorem lists_refine_sequences:
  assumes "list_rel own h a" and "run (seq_exec own) cs a = Some (ps, a')"
  shows "\<exists>h'. run list_exec cs h = Some (ps, h') \<and> list_rel own h' a'"
  using assms
proof (induction cs arbitrary: h a ps)
  case (Cons c cs)
  obtain p a1 qs where 1: "seq_exec own c a = Some (p, a1)" "run (seq_exec own) cs a1 = Some (qs, a')" "ps = p # qs"
    using Cons.prems(2) by (auto split: option.splits)
  have "\<exists>h1. list_exec c h = Some (p, h1) \<and> list_rel own h1 a1"
  proof (cases c)
    case (Insert l x)
    then obtain xs where xs: "seq a l = Some xs" "home a x = None" using 1(1) by (auto split: option.splits if_splits)
    let ?as = "takeWhile (\<lambda>y. val a y \<le> val a x) xs" and ?bs = "dropWhile (\<lambda>y. val a y \<le> val a x) xs"
    have "vListInsert l x h = Some (link_in l x (last (nodes l ?as)) (hd (map Item ?bs @ nodes l ?as)) h)"
      using insert_link[of h l xs x ?as ?bs] store_invD[of h "seq a" l xs] xs Cons.prems(1) by (simp add: list_rel_def sorted_place_def)
    then show ?thesis using Insert 1(1) xs link_in_rel[OF Cons.prems(1), of l ?as ?bs x] by auto
  next
    case (Insert_End l x)
    then obtain xs where xs: "seq a l = Some xs" "home a x = None" using 1(1) by (auto split: option.splits if_splits)
    obtain as bs where c: "cut_at (at_node a l) xs = (as, bs)" by fastforce
    have h: "holds h l xs" "pxIndex h l = at_node a l" using store_invD[of h "seq a" l xs] xs(1) Cons.prems(1) by (simp_all add: list_rel_def)
    have s: "xs = as @ bs" "at_node a l = hd (map Item bs @ nodes l as)" using cut_at_node[OF _ c, of l] h by (auto simp: holds_def)
    have "vListInsertEnd l x h = link_in l x (last (nodes l as)) (hd (map Item bs @ nodes l as)) h"
      using insert_end_link[of h l as bs x] h s xs(2) Cons.prems(1) by (simp add: list_rel_def)
    then show ?thesis using Insert_End 1(1) xs c s(1) link_in_rel[OF Cons.prems(1), of l as bs x] by auto
  next
    case (Set_Value x v)
    then show ?thesis using exec_value[OF Cons.prems(1), of x v] 1(1) by (auto split: if_splits)
  qed (use exec_remove exec_next Cons.prems(1) 1(1) in blast)+
  then show ?case using Cons.IH[OF _ 1(2)] 1(3) by force
qed simp

lemma initialise_inv:
  assumes "store_inv h L" and "L l = None"
  shows "store_inv (vListInitialise l h) (L(l \<mapsto> []))"
  unfolding store_inv_def
proof (intro allI impI)
  let ?h = "vListInitialise l h"
  fix k xs assume k: "(L(l \<mapsto> [])) k = Some xs"
  show "holds ?h k xs"
  proof (cases "k = l")
    case True
    then show ?thesis using k
      by (simp add: holds_def ring_def linked_def nodes_def vListInitialise_def Let_def set_pxNext_def set_pxPrevious_def)
  next
    case False
    then have hk: "holds h k xs" using k store_invD[OF assms(1)] by simp
    have "ring ?h (nodes k xs)"
    proof (rule ring_frame)
      show "ring h (nodes k xs)" using hk by (simp add: holds_def)
      show "pxNext ?h n = pxNext h n \<and> pxPrevious ?h n = pxPrevious h n" if "n \<in> set (nodes k xs)" for n
        using that False by (auto simp: nodes_def vListInitialise_def Let_def set_pxNext_def set_pxPrevious_def)
    qed
    then show ?thesis using hk False
      by (simp add: holds_def) (simp add: vListInitialise_def Let_def set_pxNext_def set_pxPrevious_def)
  qed
qed

text \<open>Items with equal values keep their order, and a sorted list stays sorted; the head then has the least value.\<close>

lemma sorted_place_sorted:
  assumes "sorted (map f xs)"
  shows "sorted (map f (takeWhile (\<lambda>y. f y \<le> f x) xs @ x # dropWhile (\<lambda>y. f y \<le> f x) xs))"
proof -
  have "sorted (map f (takeWhile (\<lambda>y. f y \<le> f x) xs))" "sorted (map f (dropWhile (\<lambda>y. f y \<le> f x) xs))"
    using assms by (metis takeWhile_dropWhile_id map_append sorted_append)+
  moreover have "f y \<le> f x" if "y \<in> set (takeWhile (\<lambda>y. f y \<le> f x) xs)" for y using set_takeWhileD[OF that] by simp
  moreover have "f x \<le> f z" if "z \<in> set (dropWhile (\<lambda>y. f y \<le> f x) xs)" for z
  proof (cases "dropWhile (\<lambda>y. f y \<le> f x) xs")
    case (Cons d ds)
    then have "\<not> f d \<le> f x" by (auto simp: dropWhile_eq_Cons_conv)
    moreover have "f d \<le> f z" using that Cons \<open>sorted (map f (dropWhile _ xs))\<close> by auto
    ultimately show ?thesis by simp
  next
    case Nil
    then show ?thesis using that unfolding Nil by simp
  qed
  ultimately show ?thesis by (fastforce simp: sorted_append)
qed

text \<open>
  Delayed tasks wake in order. In a list sorted by value, as the kernel keeps its delayed tasks by wake-up time, insertion returns, keeps the list
  sorted and sound, puts the new item behind the items of the same value, and the value of the head entry, at which the kernel wakes the
  first task, is the least of all.
\<close>

theorem insert_keeps_sorted:
  assumes "store_inv h L" and "L l = Some xs" and "pxContainer h x = None" and "sorted (map (\<lambda>y. xItemValue h (Item y)) xs)"
  shows "\<exists>as bs h'. vListInsert l x h = Some h' \<and> xs = as @ bs \<and> store_inv h' (L(l \<mapsto> as @ x # bs)) \<and>
    sorted (map (\<lambda>y. xItemValue h' (Item y)) (as @ x # bs)) \<and> (\<forall>y \<in> set bs. xItemValue h (Item x) < xItemValue h (Item y)) \<and>
    listGET_ITEM_VALUE_OF_HEAD_ENTRY l h' = Min ((\<lambda>y. xItemValue h (Item y)) ` set (x # xs))"
proof -
  let ?f = "\<lambda>y. xItemValue h (Item y)"
  let ?as = "takeWhile (\<lambda>y. ?f y \<le> ?f x) xs" and ?bs = "dropWhile (\<lambda>y. ?f y \<le> ?f x) xs"
  let ?h = "link_in l x (last (nodes l ?as)) (hd (map Item ?bs @ nodes l ?as)) h"
  have ins: "vListInsert l x h = Some ?h" using insert_link[OF store_invD[OF assms(1,2)] assms(3)] by (simp add: sorted_place_def)
  have inv: "store_inv ?h (L(l \<mapsto> ?as @ x # ?bs))" using link_in_inv[OF assms(1) _ assms(3), of l ?as ?bs] assms(2) by simp
  have v: "xItemValue ?h = xItemValue h" by (simp add: link_in_def)
  have so: "sorted (map ?f (?as @ x # ?bs))" using sorted_place_sorted[OF assms(4)] .
  obtain y ys where y: "?as @ x # ?bs = y # ys" by (cases ?as) auto
  have "pxNext ?h (Marker l) = Item y"
    using ring_between[of ?h "[Marker l]" "map Item (?as @ x # ?bs)"] store_invD[OF inv, of l] unfolding y by (simp add: holds_def nodes_def)
  moreover have "Min (?f ` set (x # xs)) = ?f y"
  proof (rule Min_eqI)
    have "set (?as @ ?bs) = set xs" by (simp only: takeWhile_dropWhile_id)
    moreover have "set (us @ x # vs) = insert x (set (us @ vs))" for us vs by simp
    ultimately have "set (?as @ x # ?bs) = insert x (set xs)" by (simp only:)
    then have eq: "set (x # xs) = set (y # ys)" unfolding y by simp
    show "?f y \<le> w" if "w \<in> ?f ` set (x # xs)" for w using that so unfolding y eq by auto
    show "?f y \<in> ?f ` set (x # xs)" unfolding eq by simp
  qed simp
  moreover have "\<forall>z \<in> set ?bs. ?f x < ?f z"
  proof (cases ?bs)
    case (Cons d ds)
    then have d: "?f x < ?f d" by (auto simp: dropWhile_eq_Cons_conv)
    have "sorted (map ?f ?bs)" using assms(4) by (metis takeWhile_dropWhile_id map_append sorted_append)
    then have "\<forall>z \<in> set ds. ?f d \<le> ?f z" unfolding Cons by simp
    then show ?thesis using d unfolding Cons by (auto intro: order_less_le_trans)
  next
    case Nil
    show ?thesis unfolding Nil by simp
  qed
  ultimately show ?thesis using ins inv so v
    by (intro exI[of _ ?as] exI[of _ ?bs] exI[of _ ?h]) (simp add: listGET_ITEM_VALUE_OF_HEAD_ENTRY_def)
qed

definition empty_store :: "nat list_store" where
  "empty_store = vListInitialise 0 \<lparr>pxNext = \<lambda>n. n, pxPrevious = \<lambda>n. n, xItemValue = \<lambda>_. 0, pvOwner = \<lambda>x. 10 * x, pxContainer = \<lambda>_. None,
     uxNumberOfItems = \<lambda>_. 0, pxIndex = \<lambda>l. Marker l\<rparr>"

lemma empty_store_inv: "store_inv empty_store [0 \<mapsto> []]"
  unfolding empty_store_def by (rule initialise_inv) (simp_all add: store_inv_def)

lemma empty_store_rel:
  "list_rel (\<lambda>x. 10 * x) empty_store \<lparr>seq = [0 \<mapsto> []], val = \<lambda>_. 0, home = \<lambda>_. None, at_node = \<lambda>l. Marker l\<rparr>"
  using empty_store_inv by (simp add: list_rel_def) (simp add: empty_store_def vListInitialise_def Let_def set_pxNext_def set_pxPrevious_def fun_eq_iff)

theorem lists_refine_sequences_witness:
  "\<exists>h'. run list_exec [Set_Value 1 5, Insert 0 1, Set_Value 2 3, Insert 0 2, Next 0, Next 0, Next 0, Insert_End 0 3, Remove 2] empty_store =
     Some ([Done, Done, Done, Done, Owner 20, Owner 10, Owner 20, Done, Remaining 2], h')"
  using lists_refine_sequences[OF empty_store_rel, of "[Set_Value 1 5, Insert 0 1, Set_Value 2 3, Insert 0 2, Next 0, Next 0, Next 0, Insert_End 0 3, Remove 2]"]
  by (auto simp: put_def cut_at_def)

lemma empty_store_free: "pxContainer empty_store x = None"
  by (simp add: empty_store_def vListInitialise_def Let_def set_pxNext_def set_pxPrevious_def)

theorem round_robin_witness: "\<exists>h'. next_owners 1 0 (vListInsertEnd 0 7 empty_store) = Some ([70], h')"
proof -
  have "pvOwner empty_store 7 = 70" by (simp add: empty_store_def vListInitialise_def Let_def set_pxNext_def set_pxPrevious_def)
  moreover obtain ys h' where "set ys = {y \<in> set []. Item y \<noteq> pxIndex empty_store 0}"
    "next_owners (Suc (length ys)) 0 (vListInsertEnd 0 7 empty_store) = Some (map (pvOwner empty_store) (ys @ [7]), h')"
    using round_robin[OF empty_store_inv _ empty_store_free, of 0 "[]" 7] by (auto simp del: next_owners.simps)
  ultimately show ?thesis by simp
qed

theorem insert_keeps_sorted_witness: "\<exists>h'. vListInsert 0 4 empty_store = Some h' \<and> store_inv h' [0 \<mapsto> [4]]"
  using insert_keeps_sorted[OF empty_store_inv _ empty_store_free, of 0 "[]" 4] by auto

end
