(* ===== verification/Virtqueue.thy ===== *)
theory Virtqueue
  imports Prelude "HOL-Library.Multiset"
begin

text \<open>
  The virtqueues over which the two processors exchange buffers
  (\<^verbatim>\<open>Middlewares/Third_Party/OpenAMP/open-amp/lib/virtio/virtqueue.c\<close> with the inline functions of
  \<^verbatim>\<open>virtio_ring.h\<close>, and the address translation of \<^verbatim>\<open>libmetal/lib/include/metal/io.h\<close> for a region of one page).

  A ring in shared memory (\<open>vring\<close>) has a table of descriptors, a ring of available descriptors, written by the
  master, and a ring of used descriptors, written by the slave; both have free running 16-bit indices. Each
  side has its own control block (\<open>virtqueue\<close>). The firmware is built without \<^verbatim>\<open>VQUEUE_DEBUG\<close>: the assertions and
  parameter checks of the source are empty, so an index out of range is an access outside the tables
  (\<open>None\<close>). Functions of both roles are modelled; the firmware is the slave.

  The theory shows that the two sides together are a channel: in every interleaving of their operations no
  descriptor is lost or used twice, buffers arrive in the order they were made available, and come back to the
  master in the order they were consumed.
\<close>

type_synonym u64 = "64 word"

section \<open>Address translation\<close>

record metal_io_region =
  io_virt :: u32
  io_physmap :: u32
  io_size :: u32

definition METAL_BAD_OFFSET :: u32 where "METAL_BAD_OFFSET = - 1"
definition METAL_BAD_PHYS :: u32 where "METAL_BAD_PHYS = - 1"
definition METAL_BAD_VA :: u32 where "METAL_BAD_VA = - 1"

definition metal_io_virt :: "metal_io_region \<Rightarrow> u32 \<Rightarrow> u32" where
  "metal_io_virt io offset = (if io_virt io \<noteq> METAL_BAD_VA \<and> offset < io_size io then io_virt io + offset else 0)"

definition metal_io_virt_to_offset :: "metal_io_region \<Rightarrow> u32 \<Rightarrow> u32" where
  "metal_io_virt_to_offset io virt =
     (let offset = virt - io_virt io in if offset < io_size io then offset else METAL_BAD_OFFSET)"

definition metal_io_phys :: "metal_io_region \<Rightarrow> u32 \<Rightarrow> u32" where
  "metal_io_phys io offset = (if offset < io_size io then io_physmap io + offset else METAL_BAD_PHYS)"

definition metal_io_phys_to_offset :: "metal_io_region \<Rightarrow> u32 \<Rightarrow> u32" where
  "metal_io_phys_to_offset io phys =
     (let offset = phys - io_physmap io in if metal_io_phys io offset = phys then offset else METAL_BAD_OFFSET)"

definition metal_io_phys_to_virt :: "metal_io_region \<Rightarrow> u32 \<Rightarrow> u32" where
  "metal_io_phys_to_virt io phys = metal_io_virt io (metal_io_phys_to_offset io phys)"

definition metal_io_virt_to_phys :: "metal_io_region \<Rightarrow> u32 \<Rightarrow> u32" where
  "metal_io_virt_to_phys io virt = metal_io_phys io (metal_io_virt_to_offset io virt)"

section \<open>Rings and control blocks\<close>

record vring_desc =
  d_addr :: u64
  d_len :: u32
  d_flags :: u16
  d_next :: u16

record vring =
  v_num :: nat
  v_desc :: "nat \<Rightarrow> vring_desc"
  avail_flags :: u16
  avail_idx :: u16
  avail_ring :: "nat \<Rightarrow> u16"
  used_event :: u16
  used_flags :: u16
  used_idx :: u16
  used_ring :: "nat \<Rightarrow> u32 \<times> u32"
  avail_event :: u16

datatype role = VIRTIO_DEV_MASTER | VIRTIO_DEV_SLAVE

text \<open>\<open>vq_kicks\<close> counts the notifications sent to the other side.\<close>

record 'c virtqueue =
  vq_role :: role
  vq_event_idx :: bool
  vq_queue_index :: u16
  vq_nentries :: u16
  vq_free_cnt :: u16
  vq_queued_cnt :: u16
  vq_desc_head_idx :: u16
  vq_used_cons_idx :: u16
  vq_available_idx :: u16
  vq_cookie :: "nat \<Rightarrow> 'c option"
  vq_ndescs :: "nat \<Rightarrow> u16"
  vq_kicks :: nat

definition VRING_DESC_F_NEXT :: u16 where "VRING_DESC_F_NEXT = 1"
definition VRING_DESC_F_WRITE :: u16 where "VRING_DESC_F_WRITE = 2"
definition VRING_DESC_F_INDIRECT :: u16 where "VRING_DESC_F_INDIRECT = 4"
definition VRING_USED_F_NO_NOTIFY :: u16 where "VRING_USED_F_NO_NOTIFY = 1"
definition VRING_AVAIL_F_NO_INTERRUPT :: u16 where "VRING_AVAIL_F_NO_INTERRUPT = 1"
definition VQ_RING_DESC_CHAIN_END :: u16 where "VQ_RING_DESC_CHAIN_END = 32768"
definition VQUEUE_SUCCESS :: int where "VQUEUE_SUCCESS = 0"
definition ERROR_VRING_NO_BUFF :: int where "ERROR_VRING_NO_BUFF = - 3007"

lemmas vring_flag_defs = VRING_DESC_F_NEXT_def VRING_DESC_F_WRITE_def VRING_DESC_F_INDIRECT_def

definition in_table :: "u16 \<Rightarrow> vring \<Rightarrow> bool" where
  "in_table i r \<longleftrightarrow> unat i < v_num r"

section \<open>Setting up\<close>

text \<open>
  The addresses of the three parts of a ring at address \<open>p\<close>, and the memory a ring takes. The source
  computes both with 32-bit words (\<open>unsigned int\<close>, \<open>size_t\<close> and \<open>unsigned long\<close> have 32 bits on this core), which
  wrap around; the result of \<open>vring_size\<close> is a C \<open>int\<close>, the same 32 bits read with a sign.
\<close>

definition vring_init :: "u32 \<Rightarrow> u32 \<Rightarrow> u32 \<Rightarrow> u32 \<times> u32 \<times> u32" where
  "vring_init num p align =
     (let desc = p;
          avail = p + num * 16;
          ring_end = avail + 4 + num * 2;
          used = (ring_end + 2 + align - 1) AND NOT (align - 1)
      in (desc, avail, used))"

definition vring_size :: "u32 \<Rightarrow> u32 \<Rightarrow> int" where
  "vring_size num align =
     (let s = num * 16;
          s = s + (4 + num * 2 + 2);
          s = (s + align - 1) AND NOT (align - 1);
          s = s + (4 + num * 8 + 2)
      in sint s)"

definition vq_ring_init :: "'c virtqueue \<Rightarrow> vring \<Rightarrow> vring" where
  "vq_ring_init vq r =
     (let sz = unat (vq_nentries vq);
          r = r\<lparr>v_num := sz\<rparr>
      in if vq_role vq = VIRTIO_DEV_MASTER then
           let r = fold (\<lambda>i r. r\<lparr>v_desc := (v_desc r)(i := (v_desc r i)\<lparr>d_next := of_nat (i + 1)\<rparr>)\<rparr>) [0..<sz - 1] r
           in r\<lparr>v_desc := (v_desc r)(sz - 1 := (v_desc r (sz - 1))\<lparr>d_next := VQ_RING_DESC_CHAIN_END\<rparr>)\<rparr>
         else r)"

definition virtqueue_create :: "u16 \<Rightarrow> u16 \<Rightarrow> 'c virtqueue \<Rightarrow> vring \<Rightarrow> int \<times> 'c virtqueue \<times> vring" where
  "virtqueue_create i num_descs vq r =
     (let vq = vq\<lparr>vq_queue_index := i, vq_nentries := num_descs\<rparr>;
          vq = vq\<lparr>vq_free_cnt := vq_nentries vq\<rparr>
      in (VQUEUE_SUCCESS, vq, vq_ring_init vq r))"

section \<open>The master\<close>

text \<open>Fills the descriptors of a chain from the free chain; the result is the rest of the free chain.\<close>

function vq_ring_add_loop ::
  "metal_io_region \<Rightarrow> nat \<Rightarrow> nat \<Rightarrow> nat \<Rightarrow> (u32 \<times> u32) list \<Rightarrow> u16 \<Rightarrow> vring \<Rightarrow> (u16 \<times> vring) option" where
  "vq_ring_add_loop io i needed readable bufs idx r =
     (if needed \<le> i then Some (idx, r)
      else if \<not> in_table idx r \<or> length bufs \<le> i then None
      else let dp = (v_desc r (unat idx))\<lparr>d_addr := ucast (metal_io_virt_to_phys io (fst (bufs ! i))),
                      d_len := snd (bufs ! i), d_flags := 0\<rparr>;
               dp = (if i < needed - 1 then dp\<lparr>d_flags := d_flags dp OR VRING_DESC_F_NEXT\<rparr> else dp);
               dp = (if readable \<le> i then dp\<lparr>d_flags := d_flags dp OR VRING_DESC_F_WRITE\<rparr> else dp);
               r = r\<lparr>v_desc := (v_desc r)(unat idx := dp)\<rparr>
           in vq_ring_add_loop io (Suc i) needed readable bufs (d_next dp) r)"
  by pat_completeness auto

termination vq_ring_add_loop
  by (relation "measure (\<lambda>(_, i, needed, _). needed - i)") auto

declare vq_ring_add_loop.simps [simp del]

definition vq_ring_add_buffer ::
  "metal_io_region \<Rightarrow> u16 \<Rightarrow> (u32 \<times> u32) list \<Rightarrow> nat \<Rightarrow> nat \<Rightarrow> vring \<Rightarrow> (u16 \<times> vring) option" where
  "vq_ring_add_buffer io head_idx bufs readable writable r =
     vq_ring_add_loop io 0 (readable + writable) readable bufs head_idx r"

definition vq_ring_update_avail :: "'c virtqueue \<Rightarrow> u16 \<Rightarrow> vring \<Rightarrow> 'c virtqueue \<times> vring" where
  "vq_ring_update_avail vq desc_idx r =
     (let i = avail_idx r AND (vq_nentries vq - 1);
          r = r\<lparr>avail_ring := (avail_ring r)(unat i := desc_idx)\<rparr>;
          r = r\<lparr>avail_idx := avail_idx r + 1\<rparr>
      in (vq\<lparr>vq_queued_cnt := vq_queued_cnt vq + 1\<rparr>, r))"

definition virtqueue_add_buffer ::
  "metal_io_region \<Rightarrow> (u32 \<times> u32) list \<Rightarrow> nat \<Rightarrow> nat \<Rightarrow> 'c option \<Rightarrow> 'c virtqueue \<Rightarrow> vring \<Rightarrow>
    (int \<times> 'c virtqueue \<times> vring) option" where
  "virtqueue_add_buffer io buf_list readable writable cookie vq r =
     (let needed = readable + writable;
          head_idx = vq_desc_head_idx vq
      in if \<not> in_table head_idx r then None
         else let vq = vq\<lparr>vq_cookie := (vq_cookie vq)(unat head_idx := cookie),
                          vq_ndescs := (vq_ndescs vq)(unat head_idx := of_nat needed)\<rparr>
              in case vq_ring_add_buffer io head_idx buf_list readable writable r of
                   None \<Rightarrow> None
                 | Some (idx, r) \<Rightarrow>
                     let vq = vq\<lparr>vq_desc_head_idx := idx, vq_free_cnt := vq_free_cnt vq - of_nat needed\<rparr>
                     in case vq_ring_update_avail vq head_idx r of (vq, r) \<Rightarrow> Some (VQUEUE_SUCCESS, vq, r))"

text \<open>Walks to the last descriptor of a chain; the counter counts the descriptors down.\<close>

partial_function (option) free_chain_loop :: "vring \<Rightarrow> u16 \<Rightarrow> u16 \<Rightarrow> (u16 \<times> u16) option" where
  "free_chain_loop r dp ndescs =
     (if \<not> in_table dp r then None
      else if d_flags (v_desc r (unat dp)) AND VRING_DESC_F_NEXT \<noteq> 0
      then free_chain_loop r (d_next (v_desc r (unat dp))) (ndescs - 1)
      else Some (dp, ndescs))"

definition vq_ring_free_chain :: "u16 \<Rightarrow> 'c virtqueue \<Rightarrow> vring \<Rightarrow> ('c virtqueue \<times> vring) option" where
  "vq_ring_free_chain desc_idx vq r =
     (if \<not> in_table desc_idx r then None
      else let dp = v_desc r (unat desc_idx);
               vq = vq\<lparr>vq_free_cnt := vq_free_cnt vq + vq_ndescs vq (unat desc_idx)\<rparr>;
               nd = vq_ndescs vq (unat desc_idx) - 1
           in case (if d_flags dp AND VRING_DESC_F_INDIRECT = 0 then free_chain_loop r desc_idx nd
                    else Some (desc_idx, nd)) of
                None \<Rightarrow> None
              | Some (end, nd) \<Rightarrow>
                  Some (vq\<lparr>vq_ndescs := (vq_ndescs vq)(unat desc_idx := nd), vq_desc_head_idx := desc_idx\<rparr>,
                    r\<lparr>v_desc := (v_desc r)(unat end := (v_desc r (unat end))\<lparr>d_next := vq_desc_head_idx vq\<rparr>)\<rparr>))"

text \<open>The result is the cookie (\<open>None\<close> the null pointer), the length and the position in the used ring.\<close>

definition virtqueue_get_buffer ::
  "'c virtqueue \<Rightarrow> vring \<Rightarrow> (('c \<times> u32 \<times> u16) option \<times> 'c virtqueue \<times> vring) option" where
  "virtqueue_get_buffer vq r =
     (if vq_used_cons_idx vq = used_idx r then Some (None, vq, r)
      else let ui = vq_used_cons_idx vq AND (vq_nentries vq - 1);
               vq = vq\<lparr>vq_used_cons_idx := vq_used_cons_idx vq + 1\<rparr>;
               desc_idx = ucast (fst (used_ring r (unat ui))) :: u16;
               len = snd (used_ring r (unat ui))
           in case vq_ring_free_chain desc_idx vq r of
                None \<Rightarrow> None
              | Some (vq, r) \<Rightarrow>
                  let cookie = vq_cookie vq (unat desc_idx);
                      vq = vq\<lparr>vq_cookie := (vq_cookie vq)(unat desc_idx := None)\<rparr>
                  in Some (map_option (\<lambda>c. (c, len, ui)) cookie, vq, r))"

definition virtqueue_get_buffer_length :: "u16 \<Rightarrow> vring \<Rightarrow> u32 option" where
  "virtqueue_get_buffer_length idx r = (if in_table idx r then Some (d_len (v_desc r (unat idx))) else None)"

section \<open>The slave\<close>

text \<open>The result is the buffer, its descriptor and its length.\<close>

definition virtqueue_get_available_buffer ::
  "metal_io_region \<Rightarrow> 'c virtqueue \<Rightarrow> vring \<Rightarrow> ((u32 \<times> u16 \<times> u32) option \<times> 'c virtqueue) option" where
  "virtqueue_get_available_buffer io vq r =
     (if vq_available_idx vq = avail_idx r then Some (None, vq)
      else let head_idx = vq_available_idx vq AND (vq_nentries vq - 1);
               vq = vq\<lparr>vq_available_idx := vq_available_idx vq + 1\<rparr>;
               ai = avail_ring r (unat head_idx)
           in if \<not> in_table ai r then None
              else let buffer = metal_io_phys_to_virt io (ucast (d_addr (v_desc r (unat ai))));
                       len = d_len (v_desc r (unat ai))
                   in Some (Some (buffer, ai, len), vq))"

definition virtqueue_add_consumed_buffer :: "u16 \<Rightarrow> u32 \<Rightarrow> 'c virtqueue \<Rightarrow> vring \<Rightarrow> int \<times> 'c virtqueue \<times> vring" where
  "virtqueue_add_consumed_buffer head_idx len vq r =
     (if head_idx > vq_nentries vq then (ERROR_VRING_NO_BUFF, vq, r)
      else let ui = used_idx r AND (vq_nentries vq - 1);
               r = r\<lparr>used_ring := (used_ring r)(unat ui := (ucast head_idx, len))\<rparr>;
               r = r\<lparr>used_idx := used_idx r + 1\<rparr>
           in (VQUEUE_SUCCESS, vq\<lparr>vq_queued_cnt := vq_queued_cnt vq + 1\<rparr>, r))"

definition virtqueue_get_desc_size :: "'c virtqueue \<Rightarrow> vring \<Rightarrow> u32 option" where
  "virtqueue_get_desc_size vq r =
     (if vq_available_idx vq = avail_idx r then Some 0
      else let head_idx = vq_available_idx vq AND (vq_nentries vq - 1);
               ai = avail_ring r (unat head_idx)
           in if in_table ai r then Some (d_len (v_desc r (unat ai))) else None)"

section \<open>Notifications\<close>

definition vring_need_event :: "u16 \<Rightarrow> u16 \<Rightarrow> u16 \<Rightarrow> bool" where
  "vring_need_event event_idx new_idx old \<longleftrightarrow> new_idx - event_idx - 1 < new_idx - old"

definition vq_ring_must_notify :: "'c virtqueue \<Rightarrow> vring \<Rightarrow> bool" where
  "vq_ring_must_notify vq r \<longleftrightarrow>
     (if vq_event_idx vq then
        (case vq_role vq of
           VIRTIO_DEV_MASTER \<Rightarrow> vring_need_event (avail_event r) (avail_idx r) (avail_idx r - vq_queued_cnt vq)
         | VIRTIO_DEV_SLAVE \<Rightarrow> vring_need_event (used_event r) (used_idx r) (used_idx r - vq_queued_cnt vq))
      else
        (case vq_role vq of
           VIRTIO_DEV_MASTER \<Rightarrow> used_flags r AND VRING_USED_F_NO_NOTIFY = 0
         | VIRTIO_DEV_SLAVE \<Rightarrow> avail_flags r AND VRING_AVAIL_F_NO_INTERRUPT = 0))"

definition vq_ring_notify :: "'c virtqueue \<Rightarrow> 'c virtqueue" where
  "vq_ring_notify vq = vq\<lparr>vq_kicks := vq_kicks vq + 1\<rparr>"

definition virtqueue_kick :: "'c virtqueue \<Rightarrow> vring \<Rightarrow> 'c virtqueue" where
  "virtqueue_kick vq r = (if vq_ring_must_notify vq r then vq_ring_notify vq else vq)\<lparr>vq_queued_cnt := 0\<rparr>"

definition virtqueue_nused :: "'c virtqueue \<Rightarrow> vring \<Rightarrow> u16" where
  "virtqueue_nused vq r = used_idx r - vq_used_cons_idx vq"

definition virtqueue_navail :: "'c virtqueue \<Rightarrow> vring \<Rightarrow> u16" where
  "virtqueue_navail vq r = avail_idx r - vq_available_idx vq"

definition vq_ring_enable_interrupt :: "u16 \<Rightarrow> 'c virtqueue \<Rightarrow> vring \<Rightarrow> int \<times> vring" where
  "vq_ring_enable_interrupt ndesc vq r =
     (let r = (if vq_event_idx vq then
                 (case vq_role vq of
                    VIRTIO_DEV_MASTER \<Rightarrow> r\<lparr>used_event := vq_used_cons_idx vq + ndesc\<rparr>
                  | VIRTIO_DEV_SLAVE \<Rightarrow> r\<lparr>avail_event := vq_available_idx vq + ndesc\<rparr>)
               else
                 (case vq_role vq of
                    VIRTIO_DEV_MASTER \<Rightarrow> r\<lparr>avail_flags := avail_flags r AND NOT VRING_AVAIL_F_NO_INTERRUPT\<rparr>
                  | VIRTIO_DEV_SLAVE \<Rightarrow> r\<lparr>used_flags := used_flags r AND NOT VRING_USED_F_NO_NOTIFY\<rparr>));
          n = (case vq_role vq of VIRTIO_DEV_MASTER \<Rightarrow> virtqueue_nused vq r | VIRTIO_DEV_SLAVE \<Rightarrow> virtqueue_navail vq r)
      in (if n > ndesc then 1 else 0, r))"

definition virtqueue_enable_cb :: "'c virtqueue \<Rightarrow> vring \<Rightarrow> int \<times> vring" where
  "virtqueue_enable_cb vq r = vq_ring_enable_interrupt 0 vq r"

definition virtqueue_disable_cb :: "'c virtqueue \<Rightarrow> vring \<Rightarrow> vring" where
  "virtqueue_disable_cb vq r =
     (if vq_event_idx vq then
        (case vq_role vq of
           VIRTIO_DEV_MASTER \<Rightarrow> r\<lparr>used_event := vq_used_cons_idx vq - vq_nentries vq - 1\<rparr>
         | VIRTIO_DEV_SLAVE \<Rightarrow> r\<lparr>avail_event := vq_available_idx vq - vq_nentries vq - 1\<rparr>)
      else
        (case vq_role vq of
           VIRTIO_DEV_MASTER \<Rightarrow> r\<lparr>avail_flags := avail_flags r OR VRING_AVAIL_F_NO_INTERRUPT\<rparr>
         | VIRTIO_DEV_SLAVE \<Rightarrow> r\<lparr>used_flags := used_flags r OR VRING_USED_F_NO_NOTIFY\<rparr>))"

section \<open>Rings as windows\<close>

text \<open>The entries of a ring between a free running index and the end of its live part.\<close>

definition window :: "(nat \<Rightarrow> 'e) \<Rightarrow> nat \<Rightarrow> nat \<Rightarrow> nat \<Rightarrow> 'e list" where
  "window ring n start len = map (\<lambda>i. ring ((start + i) mod n)) [0..<len]"

lemma length_window [simp]: "length (window ring n start len) = len"
  by (simp add: window_def)

lemma window_push:
  assumes "len < n"
  shows "window (ring((start + len) mod n := x)) n start (Suc len) = window ring n start len @ [x]"
proof -
  have "(start + i) mod n \<noteq> (start + len) mod n" if "i < len" for i
    using mod_cap_inj[of start i n len] assms that by auto
  then show ?thesis by (auto simp: window_def)
qed

lemma window_pop:
  "window ring n start (Suc len) = ring (start mod n) # window ring n (Suc start) len"
  by (simp add: window_def upt_conv_Cons map_Suc_upt[symmetric] del: upt_Suc)

lemma window_mod:
  assumes "start mod n = start' mod n"
  shows "window ring n start len = window ring n start' len"
proof -
  have "(start + i) mod n = (start' + i) mod n" for i
    using mod_add_left_eq[of start n i] mod_add_left_eq[of start' n i] assms by simp
  then show ?thesis by (simp add: window_def)
qed

text \<open>Ring sizes are powers of two: the mask of the source is a remainder, also across the wrap-around.\<close>

definition ring_size :: "nat \<Rightarrow> u16 \<Rightarrow> bool" where
  "ring_size n w \<longleftrightarrow> unat w = n \<and> (\<exists>k \<le> 15. n = 2 ^ k)"

lemma ring_size_mask:
  assumes "ring_size n w"
  shows "unat (x AND (w - 1)) = unat x mod n" and "n dvd 2 ^ 16" and "0 < n" and "n \<le> 32768"
proof -
  obtain k where k: "k \<le> 15" "n = 2 ^ k" and w: "unat w = n" using assms by (auto simp: ring_size_def)
  show n0: "0 < n" using k by simp
  have "(1 :: u16) \<le> w" using w n0 by (simp add: word_le_nat_alt)
  then have "unat (w - 1) = mask k" using w k by (simp add: unat_sub mask_eq_exp_minus_1)
  then have "unat (x AND (w - 1)) = unat x AND mask k" by (simp add: unsigned_and_eq)
  then show "unat (x AND (w - 1)) = unat x mod n" by (simp add: k(2) flip: take_bit_eq_mask take_bit_eq_mod)
  have "k \<le> 16" using k by simp
  then show "n dvd 2 ^ 16" unfolding k(2) by (rule le_imp_power_dvd)
  show "n \<le> 32768" using power_increasing[OF k(1), of "2 :: nat"] by (simp add: k(2))
qed

lemma ring_size_Suc:
  assumes "ring_size n w"
  shows "unat (x + 1 :: u16) mod n = Suc (unat x) mod n"
  using ring_size_mask(2)[OF assms] by (simp add: unat_word_ariths mod_mod_cancel)

lemma ring_size_add:
  assumes "ring_size n w"
  shows "unat (x + y :: u16) mod n = (unat x + unat y) mod n"
  using ring_size_mask(2)[OF assms] by (simp add: unat_word_ariths mod_mod_cancel)

section \<open>The channel\<close>

text \<open>
  What the two sides agree on: a buffer the master has made available, with the descriptor it went into and the
  cookie the master keeps for it. \<open>F\<close> are the free descriptors, \<open>A\<close> the buffers made available and not yet fetched by
  the slave, \<open>H\<close> those the slave holds, \<open>U\<close> those it has returned (with the length it reported) and the master
  has not yet collected.
\<close>

record 'c entry =
  e_idx :: u16
  e_buf :: u32
  e_len :: u32
  e_cookie :: 'c

record 'c channel =
  ch_free :: "u16 list"
  ch_avail :: "'c entry list"
  ch_held :: "'c entry list"
  ch_used :: "('c entry \<times> u32) list"

definition live :: "'c channel \<Rightarrow> 'c entry list" where
  "live g = ch_avail g @ ch_held g @ map fst (ch_used g)"

fun free_chain :: "vring \<Rightarrow> u16 \<Rightarrow> u16 list \<Rightarrow> bool" where
  "free_chain r h [] \<longleftrightarrow> h = VQ_RING_DESC_CHAIN_END"
| "free_chain r h (i # js) \<longleftrightarrow> h = i \<and> free_chain r (d_next (v_desc r (unat i))) js"

text \<open>A descriptor that carries a buffer, and the master's note of it.\<close>

definition carries :: "metal_io_region \<Rightarrow> 'c virtqueue \<Rightarrow> vring \<Rightarrow> 'c entry \<Rightarrow> bool" where
  "carries io m r e \<longleftrightarrow>
     (let d = v_desc r (unat (e_idx e))
      in metal_io_phys_to_virt io (ucast (d_addr d)) = e_buf e \<and> d_len d = e_len e \<and>
         d_flags d AND VRING_DESC_F_NEXT = 0 \<and> d_flags d AND VRING_DESC_F_INDIRECT = 0) \<and>
     vq_cookie m (unat (e_idx e)) = Some (e_cookie e) \<and> vq_ndescs m (unat (e_idx e)) = 1"

definition vq_inv ::
  "nat \<Rightarrow> metal_io_region \<Rightarrow> 'c channel \<Rightarrow> 'c virtqueue \<Rightarrow> 'd virtqueue \<Rightarrow> vring \<Rightarrow> bool" where
  "vq_inv n io g m s r \<longleftrightarrow>
     ring_size n (vq_nentries m) \<and> ring_size n (vq_nentries s) \<and> v_num r = n \<and>
     free_chain r (vq_desc_head_idx m) (ch_free g) \<and> unat (vq_free_cnt m) = length (ch_free g) \<and>
     window (avail_ring r) n (unat (vq_available_idx s)) (unat (avail_idx r - vq_available_idx s)) =
       map e_idx (ch_avail g) \<and>
     window (used_ring r) n (unat (vq_used_cons_idx m)) (unat (used_idx r - vq_used_cons_idx m)) =
       map (\<lambda>(e, l). (ucast (e_idx e), l)) (ch_used g) \<and>
     distinct (ch_free g @ map e_idx (live g)) \<and>
     (\<forall>i \<in> set (ch_free g @ map e_idx (live g)). unat i < n) \<and>
     length (ch_free g @ map e_idx (live g)) = n \<and>
     (\<forall>e \<in> set (live g). carries io m r e)"

lemma ucast_back [simp]: "(ucast (ucast (x :: u32) :: u64) :: u32) = x" "(ucast (ucast (y :: u16) :: u32) :: u16) = y"
  by (auto intro!: bit_word_eqI simp: bit_ucast_iff)

lemma unat_u16_inj [simp]: "unat (x :: u16) = unat y \<longleftrightarrow> x = y"
  by (auto intro: unsigned_word_eqI)

lemma free_chain_cong:
  assumes "\<And>j. j \<in> set js \<Longrightarrow> d_next (v_desc r' (unat j)) = d_next (v_desc r (unat j))"
  shows "free_chain r' h js = free_chain r h js"
  using assms by (induction js arbitrary: h) auto

text \<open>Writing the next slot of a ring and advancing its index.\<close>

lemma ring_push:
  fixes i c :: u16
  assumes "ring_size n w" "window ring n (unat c) (unat (i - c)) = es" "length es < n"
  shows "window (ring(unat (i AND (w - 1)) := x)) n (unat c) (unat (i + 1 - c)) = es @ [x]"
proof -
  have len: "unat (i - c) = length es" using assms(2) by auto
  have "i + 1 - c = (i - c) + 1" by simp
  then have "unat (i + 1 - c) = unat ((i - c) + 1)" by (rule arg_cong)
  also have "\<dots> = Suc (length es)"
    using assms(3) ring_size_mask(4)[OF assms(1)] len by (simp add: unat_word_ariths)
  finally have 1: "unat (i + 1 - c) = Suc (length es)" .
  have "unat (i AND (w - 1)) = (unat c + length es) mod n"
    using ring_size_mask(1)[OF assms(1), of i] ring_size_add[OF assms(1), of c "i - c"] len by simp
  then show ?thesis using window_push[OF assms(3), of ring "unat c" x] assms(2) len 1 by simp
qed

text \<open>Reading the oldest slot and advancing the reader's index.\<close>

lemma ring_pop:
  fixes i c :: u16
  assumes "ring_size n w" "window ring n (unat c) (unat (i - c)) = e # es"
  shows "c \<noteq> i" and "ring (unat (c AND (w - 1))) = e" and "window ring n (unat (c + 1)) (unat (i - (c + 1))) = es"
proof -
  have len: "unat (i - c) = Suc (length es)" using arg_cong[OF assms(2), of length] by simp
  then show "c \<noteq> i" by auto
  have le: "1 \<le> i - c" using len by (simp add: word_le_nat_alt)
  have "i - (c + 1) = (i - c) - 1" by (simp add: diff_diff_eq)
  then have "unat (i - (c + 1)) = unat ((i - c) - 1)" by (rule arg_cong)
  also have "\<dots> = length es" using le len by (simp add: unat_sub)
  finally have 1: "unat (i - (c + 1)) = length es" .
  have "e # es = ring (unat c mod n) # window ring n (Suc (unat c)) (length es)"
    using assms(2) len window_pop[of ring n "unat c" "length es"] by simp
  then show "ring (unat (c AND (w - 1))) = e" "window ring n (unat (c + 1)) (unat (i - (c + 1))) = es"
    using ring_size_mask(1)[OF assms(1), of c] 1 window_mod[OF ring_size_Suc[OF assms(1), of c], of ring "length es"]
    by simp_all
qed

lemma window_empty:
  fixes i c :: u16
  shows "window ring n (unat c) (unat (i - c)) = [] \<longleftrightarrow> c = i"
  by (auto simp: window_def unsigned_eq_0_iff)

lemma carries_cong:
  assumes "carries io m r e" "v_desc r' (unat (e_idx e)) = v_desc r (unat (e_idx e))"
    "vq_cookie m' (unat (e_idx e)) = vq_cookie m (unat (e_idx e))" "vq_ndescs m' (unat (e_idx e)) = vq_ndescs m (unat (e_idx e))"
  shows "carries io m' r' e"
  using assms by (simp add: carries_def)

lemma add_spec:
  assumes inv: "vq_inv n io g m s r" and free: "ch_free g = i # js" and one: "readable + writable = 1"
    and buf: "metal_io_phys_to_virt io (metal_io_virt_to_phys io buf) = buf"
  shows "\<exists>m' r'. virtqueue_add_buffer io [(buf, len)] readable writable (Some c) m r = Some (VQUEUE_SUCCESS, m', r') \<and>
    vq_inv n io (g\<lparr>ch_free := js, ch_avail := ch_avail g @ [\<lparr>e_idx = i, e_buf = buf, e_len = len, e_cookie = c\<rparr>]\<rparr>) m' s r'"
proof -
  let ?e = "\<lparr>e_idx = i, e_buf = buf, e_len = len, e_cookie = c\<rparr>"
  note I = inv[unfolded vq_inv_def free]
  have head: "vq_desc_head_idx m = i" and chain: "free_chain r (d_next (v_desc r (unat i))) js" using I by simp_all
  have i: "in_table i r" using I by (simp add: in_table_def)
  define fl where "fl = (if readable = 0 then VRING_DESC_F_WRITE else 0)"
  define dp where "dp = (v_desc r (unat i))\<lparr>d_addr := ucast (metal_io_virt_to_phys io buf), d_len := len, d_flags := fl\<rparr>"
  define r' where "r' = r\<lparr>v_desc := (v_desc r)(unat i := dp),
    avail_ring := (avail_ring r)(unat (avail_idx r AND (vq_nentries m - 1)) := i), avail_idx := avail_idx r + 1\<rparr>"
  define m' where "m' = m\<lparr>vq_cookie := (vq_cookie m)(unat i := Some c), vq_ndescs := (vq_ndescs m)(unat i := 1),
    vq_desc_head_idx := d_next dp, vq_free_cnt := vq_free_cnt m - 1, vq_queued_cnt := vq_queued_cnt m + 1\<rparr>"
  have "vq_ring_add_buffer io i [(buf, len)] readable writable r = Some (d_next dp, r\<lparr>v_desc := (v_desc r)(unat i := dp)\<rparr>)"
    unfolding vq_ring_add_buffer_def one
    using i one by (simp add: vq_ring_add_loop.simps Let_def dp_def fl_def)
  then have run: "virtqueue_add_buffer io [(buf, len)] readable writable (Some c) m r = Some (VQUEUE_SUCCESS, m', r')"
    using head i one by (simp add: virtqueue_add_buffer_def Let_def vq_ring_update_avail_def m'_def r'_def)
  have "i \<notin> e_idx ` set (live g)" using I by simp
  then have fresh: "i \<notin> set js" "\<And>e. e \<in> set (live g) \<Longrightarrow> e_idx e \<noteq> i" using I by (simp, blast)
  have "length (ch_avail g) < n" using I by (simp add: live_def)
  then have avail: "window (avail_ring r') n (unat (vq_available_idx s)) (unat (avail_idx r' - vq_available_idx s)) =
      map e_idx (ch_avail g) @ [i]"
    using ring_push[of n "vq_nentries m" "avail_ring r" "vq_available_idx s" "avail_idx r" "map e_idx (ch_avail g)" i] I
    by (simp add: r'_def)
  have "free_chain r' (d_next dp) js"
    using chain fresh(1) free_chain_cong[of js r' r "d_next dp"] by (auto simp: r'_def dp_def)
  moreover have "unat (vq_free_cnt m - 1) = length js" using I by (simp add: unat_sub word_le_nat_alt)
  moreover have "carries io m' r' ?e"
    using buf by (auto simp: carries_def m'_def r'_def dp_def fl_def vring_flag_defs)
  moreover have "carries io m' r' e" if "e \<in> set (live g)" for e
  proof -
    have "carries io m r e" using I that by simp
    then show ?thesis by (rule carries_cong) (use fresh(2)[OF that] in \<open>simp_all add: m'_def r'_def\<close>)
  qed
  ultimately have "vq_inv n io (g\<lparr>ch_free := js, ch_avail := ch_avail g @ [?e]\<rparr>) m' s r'"
    using I avail unfolding vq_inv_def by (auto simp: live_def m'_def r'_def)
  then show ?thesis using run by blast
qed

lemma fetch_empty:
  assumes "vq_inv n io g m s r" "ch_avail g = []"
  shows "virtqueue_get_available_buffer io s r = Some (None, s)"
  using assms window_empty[of "avail_ring r" n "vq_available_idx s" "avail_idx r"]
  by (simp add: vq_inv_def virtqueue_get_available_buffer_def)

lemma fetch_spec:
  assumes inv: "vq_inv n io g m s r" and a: "ch_avail g = e # es"
  shows "\<exists>s'. virtqueue_get_available_buffer io s r = Some (Some (e_buf e, e_idx e, e_len e), s') \<and>
    vq_inv n io (g\<lparr>ch_avail := es, ch_held := e # ch_held g\<rparr>) m s' r"
proof -
  note I = inv[unfolded vq_inv_def]
  have win: "window (avail_ring r) n (unat (vq_available_idx s)) (unat (avail_idx r - vq_available_idx s)) =
      e_idx e # map e_idx es" using I a by simp
  have rs: "ring_size n (vq_nentries s)" using I by simp
  note pop = ring_pop[OF rs win]
  have e: "e \<in> set (live g)" using a by (simp add: live_def)
  have "in_table (e_idx e) r" "carries io m r e" using I e by (auto simp: in_table_def)
  then have "virtqueue_get_available_buffer io s r =
      Some (Some (e_buf e, e_idx e, e_len e), s\<lparr>vq_available_idx := vq_available_idx s + 1\<rparr>)"
    using pop by (simp add: virtqueue_get_available_buffer_def Let_def carries_def)
  moreover have "vq_inv n io (g\<lparr>ch_avail := es, ch_held := e # ch_held g\<rparr>) m (s\<lparr>vq_available_idx := vq_available_idx s + 1\<rparr>) r"
    using I pop(3) a unfolding vq_inv_def by (auto simp: live_def)
  ultimately show ?thesis by blast
qed

lemma consume_spec:
  assumes inv: "vq_inv n io g m s r" and h: "ch_held g = hs @ e # hs'"
  shows "\<exists>s' r'. virtqueue_add_consumed_buffer (e_idx e) len s r = (VQUEUE_SUCCESS, s', r') \<and>
    vq_inv n io (g\<lparr>ch_held := hs @ hs', ch_used := ch_used g @ [(e, len)]\<rparr>) m s' r'"
proof -
  note I = inv[unfolded vq_inv_def]
  let ?g = "g\<lparr>ch_held := hs @ hs', ch_used := ch_used g @ [(e, len)]\<rparr>"
  define r' where "r' = r\<lparr>used_ring := (used_ring r)(unat (used_idx r AND (vq_nentries s - 1)) := (ucast (e_idx e), len)),
    used_idx := used_idx r + 1\<rparr>"
  define s' where "s' = s\<lparr>vq_queued_cnt := vq_queued_cnt s + 1\<rparr>"
  have rs: "ring_size n (vq_nentries s)" using I by simp
  have "unat (e_idx e) < n" using I h by (auto simp: live_def)
  then have "\<not> e_idx e > vq_nentries s" using rs by (simp add: ring_size_def word_less_nat_alt)
  then have run: "virtqueue_add_consumed_buffer (e_idx e) len s r = (VQUEUE_SUCCESS, s', r')"
    by (simp add: virtqueue_add_consumed_buffer_def Let_def s'_def r'_def)
  have "length (ch_used g) < n" using I h by (auto simp: live_def)
  then have used: "window (used_ring r') n (unat (vq_used_cons_idx m)) (unat (used_idx r' - vq_used_cons_idx m)) =
      map (\<lambda>(e, l). (ucast (e_idx e), l)) (ch_used ?g)"
    using ring_push[OF rs, of "used_ring r" "vq_used_cons_idx m" "used_idx r"] I by (simp add: r'_def)
  have perm: "mset (live ?g) = mset (live g)" by (simp add: live_def h)
  note sets = mset_eq_setD[OF perm] mset_eq_length[OF perm]
    mset_eq_imp_distinct_iff[of "map e_idx (live ?g)" "map e_idx (live g)", unfolded mset_map perm, OF refl]
  have "free_chain r' h js = free_chain r h js" for h js by (rule free_chain_cong) (simp add: r'_def)
  moreover have "carries io m r' x = carries io m r x" for x by (simp add: carries_def r'_def)
  ultimately have "free_chain r' (vq_desc_head_idx m) (ch_free ?g)" "\<forall>x \<in> set (live ?g). carries io m r' x"
    using I sets by simp_all
  moreover have "distinct (ch_free ?g @ map e_idx (live ?g))" "\<forall>i \<in> set (ch_free ?g @ map e_idx (live ?g)). unat i < n"
    "length (ch_free ?g @ map e_idx (live ?g)) = n" "unat (vq_free_cnt m) = length (ch_free ?g)"
    using I sets by simp_all
  moreover have "window (avail_ring r') n (unat (vq_available_idx s')) (unat (avail_idx r' - vq_available_idx s')) =
      map e_idx (ch_avail ?g)" "ring_size n (vq_nentries m)" "ring_size n (vq_nentries s')" "v_num r' = n"
    using I by (simp_all add: r'_def s'_def)
  ultimately have "vq_inv n io ?g m s' r'" unfolding vq_inv_def using used by blast
  then show ?thesis using run by blast
qed

lemma collect_empty:
  assumes "vq_inv n io g m s r" "ch_used g = []"
  shows "virtqueue_get_buffer m r = Some (None, m, r)"
  using assms window_empty[of "used_ring r" n "vq_used_cons_idx m" "used_idx r"]
  by (simp add: vq_inv_def virtqueue_get_buffer_def)

lemma collect_spec:
  assumes inv: "vq_inv n io g m s r" and u: "ch_used g = (e, len) # us"
  shows "\<exists>ui m' r'. virtqueue_get_buffer m r = Some (Some (e_cookie e, len, ui), m', r') \<and>
    vq_inv n io (g\<lparr>ch_free := e_idx e # ch_free g, ch_used := us\<rparr>) m' s r'"
proof -
  note I = inv[unfolded vq_inv_def]
  let ?i = "e_idx e" and ?g = "g\<lparr>ch_free := e_idx e # ch_free g, ch_used := us\<rparr>"
  have win: "window (used_ring r) n (unat (vq_used_cons_idx m)) (unat (used_idx r - vq_used_cons_idx m)) =
      (ucast ?i, len) # map (\<lambda>(e, l). (ucast (e_idx e), l)) us" using I u by simp
  have rs: "ring_size n (vq_nentries m)" using I by simp
  note pop = ring_pop[OF rs win]
  have live: "e \<in> set (live g)" using u by (simp add: live_def)
  have tab: "in_table ?i r" and car: "carries io m r e" using I live by (auto simp: in_table_def)
  define r' where "r' = r\<lparr>v_desc := (v_desc r)(unat ?i := (v_desc r (unat ?i))\<lparr>d_next := vq_desc_head_idx m\<rparr>)\<rparr>"
  define m' where "m' = m\<lparr>vq_used_cons_idx := vq_used_cons_idx m + 1, vq_free_cnt := vq_free_cnt m + 1,
    vq_ndescs := (vq_ndescs m)(unat ?i := 0), vq_desc_head_idx := ?i, vq_cookie := (vq_cookie m)(unat ?i := None)\<rparr>"
  have "free_chain_loop r ?i 0 = Some (?i, 0)"
    using tab car by (subst free_chain_loop.simps) (simp add: carries_def Let_def)
  then have run: "virtqueue_get_buffer m r =
      Some (Some (e_cookie e, len, vq_used_cons_idx m AND (vq_nentries m - 1)), m', r')"
    using pop(1,2) tab car
    by (simp add: virtqueue_get_buffer_def vq_ring_free_chain_def Let_def carries_def m'_def r'_def)
  have perm: "mset (map e_idx (live g)) = add_mset ?i (mset (map e_idx (live ?g)))" by (simp add: live_def u)
  have dist: "distinct (map e_idx (live g))" using I by simp
  have fresh: "?i \<notin> set (ch_free g)" using I live by auto
  have d: "distinct (?i # map e_idx (live ?g))"
    using dist mset_eq_imp_distinct_iff[of "map e_idx (live g)" "?i # map e_idx (live ?g)"] perm by simp
  have sets: "set (live g) = insert e (set (live ?g))" using u by (auto simp: live_def)
  have len: "length (live g) = Suc (length (live ?g))" by (simp add: live_def u)
  have "free_chain r' h (ch_free g) = free_chain r h (ch_free g)" for h
    by (rule free_chain_cong) (use fresh in \<open>auto simp: r'_def\<close>)
  then have chain: "free_chain r' (vq_desc_head_idx m') (ch_free ?g)" using I by (simp add: m'_def r'_def)
  have cnt: "unat (vq_free_cnt m') = length (ch_free ?g)"
    using I ring_size_mask(4)[OF rs] u by (auto simp: live_def unat_word_ariths m'_def)
  have car': "carries io m' r' x" if "x \<in> set (live ?g)" for x
  proof -
    have "e_idx x \<in> set (map e_idx (live ?g))" "?i \<notin> set (map e_idx (live ?g))" using that d by simp_all
    then have neq: "e_idx x \<noteq> ?i" by metis
    have "carries io m r x" using I that sets by simp
    then show ?thesis by (rule carries_cong) (use neq in \<open>simp_all add: m'_def r'_def\<close>)
  qed
  have all: "distinct (ch_free ?g @ map e_idx (live ?g))" "\<forall>i \<in> set (ch_free ?g @ map e_idx (live ?g)). unat i < n"
    "length (ch_free ?g @ map e_idx (live ?g)) = n"
  proof -
    have I': "distinct (ch_free g @ map e_idx (live g))" "\<forall>i \<in> set (ch_free g @ map e_idx (live g)). unat i < n"
      "length (ch_free g @ map e_idx (live g)) = n" using I by blast+
    show "distinct (ch_free ?g @ map e_idx (live ?g))" using I'(1) d sets fresh by simp
    show "\<forall>i \<in> set (ch_free ?g @ map e_idx (live ?g)). unat i < n" using I'(2) sets by simp
    show "length (ch_free ?g @ map e_idx (live ?g)) = n" using I'(3) len by simp
  qed
  have "window (avail_ring r') n (unat (vq_available_idx s)) (unat (avail_idx r' - vq_available_idx s)) =
      map e_idx (ch_avail ?g)" using I by (simp add: r'_def)
  moreover have "window (used_ring r') n (unat (vq_used_cons_idx m')) (unat (used_idx r' - vq_used_cons_idx m')) =
      map (\<lambda>(e, l). (ucast (e_idx e), l)) (ch_used ?g)" using pop(3) by (simp add: r'_def m'_def)
  moreover have "ring_size n (vq_nentries m')" "ring_size n (vq_nentries s)" "v_num r' = n"
    using I by (simp_all add: r'_def m'_def)
  ultimately have "vq_inv n io ?g m' s r'"
    unfolding vq_inv_def using chain cnt car' all by blast
  then show ?thesis using run by blast
qed

section \<open>Interleavings\<close>

text \<open>
  The operations of both sides in any order. \<open>Put\<close>, \<open>Collect\<close> and \<open>Count_Used\<close> are the master's, \<open>Fetch\<close>, \<open>Return\<close>,
  \<open>Next_Len\<close> and \<open>Count_Avail\<close> the slave's; the others are offered to both. Each buffer goes in a chain of one
  descriptor, readable or writable for the slave, as \<^verbatim>\<open>rpmsg_virtio.c\<close> uses the queues.
\<close>

datatype 'c vq_cmd = Put bool u32 u32 'c | Fetch | Return u16 u32 | Collect | Kick role | Enable_Cb role
  | Disable_Cb role | Next_Len | Count_Used | Count_Avail

datatype 'c vq_out = Status int | Got "(u32 \<times> u16 \<times> u32) option" | Back "('c \<times> u32) option" | Len u32 | Count u16 | Quiet

type_synonym ('c, 'd) vq_sys = "'c virtqueue \<times> 'd virtqueue \<times> vring"

fun vq_exec :: "metal_io_region \<Rightarrow> 'c vq_cmd \<Rightarrow> ('c, 'd) vq_sys \<Rightarrow> ('c vq_out \<times> ('c, 'd) vq_sys) option" where
  "vq_exec io (Put rd buf len c) (m, s, r) =
     map_option (\<lambda>(x, m, r). (Status x, m, s, r))
       (virtqueue_add_buffer io [(buf, len)] (if rd then 1 else 0) (if rd then 0 else 1) (Some c) m r)"
| "vq_exec io Fetch (m, s, r) = map_option (\<lambda>(x, s). (Got x, m, s, r)) (virtqueue_get_available_buffer io s r)"
| "vq_exec io (Return idx len) (m, s, r) =
     (case virtqueue_add_consumed_buffer idx len s r of (x, s, r) \<Rightarrow> Some (Status x, m, s, r))"
| "vq_exec io Collect (m, s, r) =
     map_option (\<lambda>(x, m, r). (Back (map_option (\<lambda>(c, len, _). (c, len)) x), m, s, r)) (virtqueue_get_buffer m r)"
| "vq_exec io (Kick VIRTIO_DEV_MASTER) (m, s, r) = Some (Quiet, virtqueue_kick m r, s, r)"
| "vq_exec io (Kick VIRTIO_DEV_SLAVE) (m, s, r) = Some (Quiet, m, virtqueue_kick s r, r)"
| "vq_exec io (Enable_Cb VIRTIO_DEV_MASTER) (m, s, r) = Some (Quiet, m, s, snd (virtqueue_enable_cb m r))"
| "vq_exec io (Enable_Cb VIRTIO_DEV_SLAVE) (m, s, r) = Some (Quiet, m, s, snd (virtqueue_enable_cb s r))"
| "vq_exec io (Disable_Cb VIRTIO_DEV_MASTER) (m, s, r) = Some (Quiet, m, s, virtqueue_disable_cb m r)"
| "vq_exec io (Disable_Cb VIRTIO_DEV_SLAVE) (m, s, r) = Some (Quiet, m, s, virtqueue_disable_cb s r)"
| "vq_exec io Next_Len (m, s, r) = map_option (\<lambda>l. (Len l, m, s, r)) (virtqueue_get_desc_size s r)"
| "vq_exec io Count_Used (m, s, r) = Some (Count (virtqueue_nused m r), m, s, r)"
| "vq_exec io Count_Avail (m, s, r) = Some (Count (virtqueue_navail s r), m, s, r)"

fun vq_run :: "metal_io_region \<Rightarrow> 'c vq_cmd list \<Rightarrow> ('c, 'd) vq_sys \<Rightarrow> ('c vq_out list \<times> ('c, 'd) vq_sys) option" where
  "vq_run io [] S = Some ([], S)"
| "vq_run io (c # cs) S =
     (case vq_exec io c S of None \<Rightarrow> None
      | Some (x, S) \<Rightarrow> map_option (\<lambda>(xs, S). (x # xs, S)) (vq_run io cs S))"

text \<open>
  The same commands on the channel. \<open>None\<close> is a client that breaks its obligations: the master puts a buffer while no
  descriptor is free or outside the shared region, or the slave returns a buffer it does not hold.
\<close>

fun ch_exec :: "metal_io_region \<Rightarrow> 'c vq_cmd \<Rightarrow> 'c channel \<Rightarrow> ('c vq_out \<times> 'c channel) option" where
  "ch_exec io (Put rd buf len c) g =
     (case ch_free g of [] \<Rightarrow> None
      | i # js \<Rightarrow>
          if metal_io_phys_to_virt io (metal_io_virt_to_phys io buf) = buf
          then Some (Status VQUEUE_SUCCESS, g\<lparr>ch_free := js,
            ch_avail := ch_avail g @ [\<lparr>e_idx = i, e_buf = buf, e_len = len, e_cookie = c\<rparr>]\<rparr>)
          else None)"
| "ch_exec io Fetch g =
     (case ch_avail g of [] \<Rightarrow> Some (Got None, g)
      | e # es \<Rightarrow> Some (Got (Some (e_buf e, e_idx e, e_len e)), g\<lparr>ch_avail := es, ch_held := e # ch_held g\<rparr>))"
| "ch_exec io (Return idx len) g =
     (case List.extract (\<lambda>e. e_idx e = idx) (ch_held g) of None \<Rightarrow> None
      | Some (hs, e, hs') \<Rightarrow> Some (Status VQUEUE_SUCCESS, g\<lparr>ch_held := hs @ hs', ch_used := ch_used g @ [(e, len)]\<rparr>))"
| "ch_exec io Collect g =
     (case ch_used g of [] \<Rightarrow> Some (Back None, g)
      | (e, len) # us \<Rightarrow> Some (Back (Some (e_cookie e, len)), g\<lparr>ch_free := e_idx e # ch_free g, ch_used := us\<rparr>))"
| "ch_exec io Next_Len g = Some (Len (case ch_avail g of [] \<Rightarrow> 0 | e # _ \<Rightarrow> e_len e), g)"
| "ch_exec io Count_Used g = Some (Count (of_nat (length (ch_used g))), g)"
| "ch_exec io Count_Avail g = Some (Count (of_nat (length (ch_avail g))), g)"
| "ch_exec io _ g = Some (Quiet, g)"

fun ch_run :: "metal_io_region \<Rightarrow> 'c vq_cmd list \<Rightarrow> 'c channel \<Rightarrow> ('c vq_out list \<times> 'c channel) option" where
  "ch_run io [] g = Some ([], g)"
| "ch_run io (c # cs) g =
     (case ch_exec io c g of None \<Rightarrow> None
      | Some (x, g) \<Rightarrow> map_option (\<lambda>(xs, g). (x # xs, g)) (ch_run io cs g))"

definition ch_empty :: "nat \<Rightarrow> 'c channel" where
  "ch_empty n = \<lparr>ch_free = map of_nat [0..<n], ch_avail = [], ch_held = [], ch_used = []\<rparr>"

lemma inv_flags:
  assumes "v_num r' = v_num r" "v_desc r' = v_desc r" "avail_ring r' = avail_ring r" "avail_idx r' = avail_idx r"
    "used_ring r' = used_ring r" "used_idx r' = used_idx r"
  shows "vq_inv n io g m s r' = vq_inv n io g m s r"
proof -
  have "free_chain r' h js = free_chain r h js" for h js by (rule free_chain_cong) (simp add: assms)
  moreover have "carries io m r' e = carries io m r e" for e by (simp add: carries_def assms)
  ultimately show ?thesis by (simp add: vq_inv_def assms)
qed

lemma inv_kick [simp]: "vq_inv n io g (virtqueue_kick m r) s r = vq_inv n io g m s r"
    "vq_inv n io g m (virtqueue_kick s r) r = vq_inv n io g m s r"
  by (simp_all add: vq_inv_def virtqueue_kick_def vq_ring_notify_def carries_def)

lemma inv_callbacks [simp]:
  "vq_inv n io g m s (snd (virtqueue_enable_cb q r)) = vq_inv n io g m s r"
  "vq_inv n io g m s (virtqueue_disable_cb q r) = vq_inv n io g m s r"
  by (rule inv_flags; simp add: virtqueue_enable_cb_def vq_ring_enable_interrupt_def virtqueue_disable_cb_def Let_def
      split: role.splits)+

lemma unat_of_nat_self: "of_nat (unat w) = (w :: 'a :: len word)"
  by simp

lemma counts:
  assumes "vq_inv n io g m s r"
  shows "virtqueue_nused m r = of_nat (length (ch_used g))" and "virtqueue_navail s r = of_nat (length (ch_avail g))"
proof -
  have "unat (used_idx r - vq_used_cons_idx m) = length (ch_used g)"
    "unat (avail_idx r - vq_available_idx s) = length (ch_avail g)"
    using assms unfolding vq_inv_def by (metis length_map length_window)+
  then show "virtqueue_nused m r = of_nat (length (ch_used g))" "virtqueue_navail s r = of_nat (length (ch_avail g))"
    unfolding virtqueue_nused_def virtqueue_navail_def by (metis unat_of_nat_self)+
qed

lemma next_len:
  assumes inv: "vq_inv n io g m s r"
  shows "virtqueue_get_desc_size s r = Some (case ch_avail g of [] \<Rightarrow> 0 | e # _ \<Rightarrow> e_len e)"
proof (cases "ch_avail g")
  case Nil
  then show ?thesis using fetch_empty[OF inv]
    by (auto simp: virtqueue_get_available_buffer_def virtqueue_get_desc_size_def Let_def split: if_splits)
next
  case (Cons e es)
  then show ?thesis using fetch_spec[OF inv Cons]
    by (auto simp: virtqueue_get_available_buffer_def virtqueue_get_desc_size_def Let_def split: if_splits)
qed

lemma exec_refines:
  assumes inv: "vq_inv n io g m s r" and ch: "ch_exec io c g = Some (x, g')"
  shows "\<exists>m' s' r'. vq_exec io c (m, s, r) = Some (x, m', s', r') \<and> vq_inv n io g' m' s' r'"
proof (cases c)
  case (Put rd buf len k)
  with ch obtain i js where F: "ch_free g = i # js" "metal_io_phys_to_virt io (metal_io_virt_to_phys io buf) = buf"
    by (auto split: list.splits if_splits)
  have "(if rd then 1 else 0) + (if rd then 0 else 1) = (1 :: nat)" by simp
  from add_spec[OF inv F(1) this F(2), of len k] show ?thesis using ch Put F by auto
next
  case Fetch
  then show ?thesis using ch inv fetch_empty[OF inv] fetch_spec[OF inv] by (fastforce split: list.splits)
next
  case (Return idx len)
  with ch obtain hs e hs' where H: "ch_held g = hs @ e # hs'" "e_idx e = idx"
    and "x = Status VQUEUE_SUCCESS" "g' = g\<lparr>ch_held := hs @ hs', ch_used := ch_used g @ [(e, len)]\<rparr>"
    by (auto split: option.splits dest: extract_SomeE)
  then show ?thesis using consume_spec[OF inv H(1), of len] Return by auto
next
  case Collect
  then show ?thesis using ch inv collect_empty[OF inv] collect_spec[OF inv] by (fastforce split: list.splits prod.splits)
next
  case (Kick q)
  then show ?thesis using ch inv by (cases q) auto
next
  case (Enable_Cb q)
  then show ?thesis using ch inv by (cases q) auto
next
  case (Disable_Cb q)
  then show ?thesis using ch inv by (cases q) auto
qed (use ch inv counts[OF inv] next_len[OF inv] in auto)

lemma run_refines:
  assumes "vq_inv n io g m s r" and "ch_run io cs g = Some (xs, g')"
  shows "\<exists>m' s' r'. vq_run io cs (m, s, r) = Some (xs, m', s', r') \<and> vq_inv n io g' m' s' r'"
  using assms
proof (induction cs arbitrary: g m s r xs)
  case (Cons c cs)
  obtain x g1 ys where 1: "ch_exec io c g = Some (x, g1)" and 2: "ch_run io cs g1 = Some (ys, g')" and xs: "xs = x # ys"
    using Cons.prems(2) by (auto split: option.splits)
  obtain m1 s1 r1 where 3: "vq_exec io c (m, s, r) = Some (x, m1, s1, r1)" and "vq_inv n io g1 m1 s1 r1"
    using exec_refines[OF Cons.prems(1) 1] by blast
  with Cons.IH[OF this(2) 2] show ?case by (auto simp: xs)
qed auto

section \<open>Creation\<close>

lemma link_descriptors:
  fixes r :: vring
  defines "f \<equiv> \<lambda>i r. r\<lparr>v_desc := (v_desc r)(i := (v_desc r i)\<lparr>d_next := of_nat (i + 1)\<rparr>)\<rparr>"
  shows "fold f [0..<k] r = r\<lparr>v_desc := \<lambda>i. if i < k then (v_desc r i)\<lparr>d_next := of_nat (i + 1)\<rparr> else v_desc r i\<rparr>"
  by (induction k) (auto simp: f_def fun_eq_iff less_Suc_eq)

lemma free_chain_upt:
  assumes "\<And>j. j < n \<Longrightarrow> d_next (v_desc r j) = (if Suc j < n then of_nat (Suc j) else VQ_RING_DESC_CHAIN_END)" "n \<le> 32768"
  shows "free_chain r (if n - k < n then of_nat (n - k) else VQ_RING_DESC_CHAIN_END) (map of_nat [n - k..<n])"
proof (induction k)
  case (Suc k)
  show ?case
  proof (cases "k < n")
    case True
    then have "[n - Suc k..<n] = (n - Suc k) # [n - k..<n]" using upt_conv_Cons[of "n - Suc k" n] by (simp add: Suc_diff_Suc)
    moreover have "unat (of_nat (n - Suc k) :: u16) = n - Suc k" using assms(2) by (simp add: unat_of_nat)
    moreover have "Suc (n - Suc k) = n - k" using True by simp
    ultimately show ?thesis using Suc assms(1)[of "n - Suc k"] True
      by (auto simp del: of_nat_diff of_nat_Suc split: if_splits)
  next
    case False
    then show ?thesis using Suc by (auto split: if_splits)
  qed
qed simp

text \<open>The master creates the queue first, as \<^verbatim>\<open>rproc_virtio_create_vdev\<close> and the rpmsg layers of both sides do it.\<close>

definition vq_create_both ::
  "u16 \<Rightarrow> u16 \<Rightarrow> 'c virtqueue \<Rightarrow> 'd virtqueue \<Rightarrow> vring \<Rightarrow> ('c, 'd) vq_sys" where
  "vq_create_both i nd m s r =
     (case virtqueue_create i nd m r of (_, m, r) \<Rightarrow> case virtqueue_create i nd s r of (_, s, r) \<Rightarrow> (m, s, r))"

text \<open>Control blocks and ring as allocation leaves them: every index is zero.\<close>

definition vq_cleared :: "'c virtqueue \<Rightarrow> 'd virtqueue \<Rightarrow> vring \<Rightarrow> bool" where
  "vq_cleared m s r \<longleftrightarrow> vq_role m = VIRTIO_DEV_MASTER \<and> vq_role s = VIRTIO_DEV_SLAVE \<and> vq_desc_head_idx m = 0 \<and>
     vq_used_cons_idx m = 0 \<and> vq_available_idx s = 0 \<and> avail_idx r = 0 \<and> used_idx r = 0"

lemma create_inv:
  assumes "vq_cleared m0 s0 r0" "ring_size n nd" "vq_create_both i nd m0 s0 r0 = (m, s, r)"
  shows "vq_inv n io (ch_empty n) m s r"
proof -
  note n = ring_size_mask(3,4)[OF assms(2)]
  have nd: "unat nd = n" using assms(2) by (simp add: ring_size_def)
  have m: "m = m0\<lparr>vq_queue_index := i, vq_nentries := nd, vq_free_cnt := nd\<rparr>"
    and s: "s = s0\<lparr>vq_queue_index := i, vq_nentries := nd, vq_free_cnt := nd\<rparr>"
    and r: "r = vq_ring_init s (vq_ring_init m r0)"
    using assms(3) by (auto simp: vq_create_both_def virtqueue_create_def Let_def)
  have role: "vq_role m = VIRTIO_DEV_MASTER" "vq_role s = VIRTIO_DEV_SLAVE" "vq_nentries m = nd" "vq_nentries s = nd"
    using assms(1) by (simp_all add: vq_cleared_def m s)
  have "d_next (v_desc r j) = (if Suc j < n then of_nat (Suc j) else VQ_RING_DESC_CHAIN_END)" if "j < n" for j
    using that n unfolding r vq_ring_init_def Let_def role nd link_descriptors by (auto simp del: of_nat_Suc)
  from free_chain_upt[of n r, OF this n(2), of n] n have chain: "free_chain r 0 (map of_nat [0..<n])" by simp
  have "inj_on (of_nat :: nat \<Rightarrow> u16) {0..<n}"
    by (rule inj_on_inverseI[of _ unat]) (use n in \<open>simp add: unat_of_nat\<close>)
  then have d: "distinct (map of_nat [0..<n] :: u16 list)" by (simp add: distinct_map)
  have "unat (of_nat j :: u16) < n" if "j < n" for j using that n by (simp add: unat_of_nat)
  moreover have "v_num r = n" "avail_idx r = 0" "used_idx r = 0"
    using assms(1) unfolding r vq_ring_init_def Let_def role nd link_descriptors by (simp_all add: vq_cleared_def)
  ultimately show ?thesis using chain d assms(1,2) nd
    by (simp add: vq_inv_def ch_empty_def live_def window_def role vq_cleared_def m s)
qed

section \<open>Properties\<close>

text \<open>
  C4: the two sides of a virtqueue implement a pair of FIFO queues. From the creation of a queue of
  any power-of-two size on, for every interleaving of the operations of master and slave in which the clients keep
  their obligations, every operation returns (no index leaves its table) with exactly the result of the abstract channel:
  the slave fetches the buffers in the order they were put, at the address and with the length of the
  master, the master collects the cookies of the buffers with the reported lengths in the order of their return, the
  counts are the lengths of the queues, whatever notifications are sent and switched. The 16-bit indices may
  wrap around any number of times.
\<close>

theorem virtqueue_refines_channel:
  assumes "vq_cleared m0 s0 r0" and "ring_size n nd" and "ch_run io cs (ch_empty n) = Some (xs, g)"
  shows "\<exists>S. vq_run io cs (vq_create_both i nd m0 s0 r0) = Some (xs, S)"
proof -
  obtain m s r where c: "vq_create_both i nd m0 s0 r0 = (m, s, r)" by (cases "vq_create_both i nd m0 s0 r0")
  from run_refines[OF create_inv[OF assms(1,2) c] assms(3)] c show ?thesis by auto
qed


text \<open>A concrete ring of two descriptors, and a region of 4 KiB.\<close>

definition demo_io :: metal_io_region where
  "demo_io = \<lparr>io_virt = 0x10040000, io_physmap = 0x10040000, io_size = 0x1000\<rparr>"

definition demo_vring :: vring where
  "demo_vring = \<lparr>v_num = 0, v_desc = \<lambda>_. \<lparr>d_addr = 0, d_len = 0, d_flags = 0, d_next = 0\<rparr>, avail_flags = 0, avail_idx = 0,
     avail_ring = \<lambda>_. 0, used_event = 0, used_flags = 0, used_idx = 0, used_ring = \<lambda>_. (0, 0), avail_event = 0\<rparr>"

definition demo_vq :: "role \<Rightarrow> nat virtqueue" where
  "demo_vq q = \<lparr>vq_role = q, vq_event_idx = False, vq_queue_index = 0, vq_nentries = 0, vq_free_cnt = 0, vq_queued_cnt = 0,
     vq_desc_head_idx = 0, vq_used_cons_idx = 0, vq_available_idx = 0, vq_cookie = \<lambda>_. None, vq_ndescs = \<lambda>_. 0,
     vq_kicks = 0\<rparr>"

lemma demo_cleared: "vq_cleared (demo_vq VIRTIO_DEV_MASTER) (demo_vq VIRTIO_DEV_SLAVE) demo_vring"
  by (simp add: vq_cleared_def demo_vq_def demo_vring_def)

lemma demo_size: "ring_size 2 2"
  by (auto simp: ring_size_def intro: exI[of _ 1])

lemma demo_inv:
  obtains m s r where "vq_create_both 0 2 (demo_vq VIRTIO_DEV_MASTER) (demo_vq VIRTIO_DEV_SLAVE) demo_vring = (m, s, r)"
    "vq_inv 2 demo_io (ch_empty 2) m s r"
proof -
  obtain m s r where c: "vq_create_both 0 2 (demo_vq VIRTIO_DEV_MASTER) (demo_vq VIRTIO_DEV_SLAVE) demo_vring = (m, s, r)"
    by (cases "vq_create_both 0 2 (demo_vq VIRTIO_DEV_MASTER) (demo_vq VIRTIO_DEV_SLAVE) demo_vring")
  from that[OF c create_inv[OF demo_cleared demo_size c]] show ?thesis .
qed

lemma demo_region: "metal_io_phys_to_virt demo_io (metal_io_virt_to_phys demo_io 0x10040100) = 0x10040100"
  by (simp add: demo_io_def metal_io_phys_to_virt_def metal_io_virt_to_phys_def metal_io_phys_def metal_io_virt_def
      metal_io_phys_to_offset_def metal_io_virt_to_offset_def METAL_BAD_VA_def Let_def)

theorem virtqueue_refines_channel_witness:
  "\<exists>S. vq_run demo_io [Put True 0x10040100 64 7, Fetch, Return 0 12, Collect]
     (vq_create_both 0 2 (demo_vq VIRTIO_DEV_MASTER) (demo_vq VIRTIO_DEV_SLAVE) demo_vring) =
     Some ([Status 0, Got (Some (0x10040100, 0, 64)), Status 0, Back (Some (7, 12))], S)"
  by (rule virtqueue_refines_channel[OF demo_cleared demo_size,
        of _ _ _ "\<lparr>ch_free = [0, 1], ch_avail = [], ch_held = [], ch_used = []\<rparr>"])
    (simp add: ch_empty_def demo_region VQUEUE_SUCCESS_def extract_Cons_code upt_rec)

lemma sint_u32_small: "unat (w :: u32) < 2 ^ 31 \<Longrightarrow> sint w = int (unat w)"
proof -
  assume "unat w < 2 ^ 31"
  then have "int (unat w) < int (2 ^ 31)" by (simp only: of_nat_less_iff)
  then have "signed_take_bit 31 (uint w) = uint w"
    by (intro signed_take_bit_int_eq_self) (simp_all add: order_trans[OF _ unsigned_greater_eq])
  then show ?thesis by (simp add: sint_uint)
qed

lemma unat_and_not_mask:
  assumes "k < 32"
  shows "unat ((x :: u32) AND NOT (2 ^ k - 1)) = unat x div 2 ^ k * 2 ^ k"
proof -
  have "x AND NOT (mask k) = push_bit k (drop_bit k x)"
    by (rule bit_eqI) (auto simp: bit_simps)
  moreover have "unat (push_bit k (drop_bit k x)) = unat x div 2 ^ k * 2 ^ k"
  proof -
    have "unat x div 2 ^ k * 2 ^ k \<le> unat x" by simp
    then have "unat x div 2 ^ k * 2 ^ k < 2 ^ 32" using unat_u32_less[of x] by (rule le_less_trans)
    then have "take_bit 32 (push_bit k (drop_bit k (unat x))) = unat x div 2 ^ k * 2 ^ k"
      by (simp add: drop_bit_eq_div push_bit_eq_mult take_bit_nat_eq_self)
    then show ?thesis by (simp add: unsigned_push_bit_eq unat_drop_bit_eq)
  qed
  ultimately show ?thesis by (simp add: mask_eq_exp_minus_1)
qed

lemma round_up:
  fixes x p a :: nat
  assumes "0 < a"
  shows "x \<le> (x + (a - 1)) div a * a" and "(x + (a - 1)) div a * a \<le> x + (a - 1)"
    and "a dvd p \<Longrightarrow> (p + x + (a - 1)) div a * a = p + (x + (a - 1)) div a * a"
proof -
  have "x + (a - 1) = (x + (a - 1)) div a * a + (x + (a - 1)) mod a" by simp
  moreover have "(x + (a - 1)) mod a < a" using assms by simp
  ultimately show "x \<le> (x + (a - 1)) div a * a" by linarith
  show "(x + (a - 1)) div a * a \<le> x + (a - 1)" by simp
  assume "a dvd p"
  then obtain q where p: "p = a * q" by (rule dvdE)
  have "(p + x + (a - 1)) div a = ((x + (a - 1)) + a * q) div a" by (simp add: p ac_simps)
  also have "\<dots> = q + (x + (a - 1)) div a" using assms by (subst div_mult_self2) simp_all
  finally show "(p + x + (a - 1)) div a * a = p + (x + (a - 1)) div a * a" by (simp add: p distrib_right)
qed

lemma unat_sums:
  "unat (a :: u32) + unat b < 2 ^ 32 \<Longrightarrow> unat (a + b) = unat a + unat b"
  "unat (a :: u32) * c < 2 ^ 32 \<Longrightarrow> unat (a * of_nat c) = unat a * c"
proof -
  show "unat (a + b) = unat a + unat b" if "unat a + unat b < 2 ^ 32"
    using that by (simp add: unat_word_ariths(1))
  assume c: "unat a * c < 2 ^ 32"
  show "unat (a * of_nat c) = unat a * c"
  proof (cases "unat a = 0")
    case False
    then have "c \<le> unat a * c" by simp
    then have "c < 2 ^ 32" using c by (rule le_less_trans)
    then show ?thesis using c by (simp add: unat_word_ariths(2) unat_of_nat)
  qed (simp add: unat_eq_zero)
qed

text \<open>The words of a ring that fits into the address space are the numbers they stand for.\<close>

lemma aligned_word:
  assumes "align = (2 ^ k :: u32)" and "k < 32" and "unat x + unat align \<le> 2 ^ 32"
  shows "unat ((x + align - 1) AND NOT (align - 1)) = (unat x + (2 ^ k - 1)) div 2 ^ k * 2 ^ k"
proof -
  have a: "unat align = 2 ^ k" using assms(1,2) by (simp add: unat_pow2_u32)
  have "align \<noteq> 0" using a by (metis power_not_zero unsigned_0 zero_neq_numeral)
  then have "unat (align - 1) = 2 ^ k - 1" by (simp add: unat_minus_one a)
  moreover have "unat x + (2 ^ k - 1) < 2 ^ 32"
    using assms(3) zero_less_power[of "2 :: nat" k] unfolding a by linarith
  ultimately have "unat (x + (align - 1)) = unat x + (2 ^ k - 1)" by (simp add: unat_sums(1))
  then show ?thesis using unat_and_not_mask[OF assms(2), of "x + (align - 1)"] assms(1) by (simp add: add_diff_eq)
qed

text \<open>The memory up to the used ring, from the start of the ring.\<close>

definition used_offset :: "nat \<Rightarrow> nat \<Rightarrow> nat" where
  "used_offset n k = (18 * n + 6 + (2 ^ k - 1)) div 2 ^ k * 2 ^ k"

lemma used_offset_bounds:
  "18 * n + 6 \<le> used_offset n k" "used_offset n k < 18 * n + 6 + 2 ^ k"
proof -
  show "18 * n + 6 \<le> used_offset n k" unfolding used_offset_def by (rule round_up) simp
  have "used_offset n k \<le> 18 * n + 6 + (2 ^ k - 1)" unfolding used_offset_def by (rule round_up) simp
  then show "used_offset n k < 18 * n + 6 + 2 ^ k" using zero_less_power[of "2 :: nat" k] by linarith
qed

lemma used_offset_aligned: "2 ^ k dvd used_offset n k"
  by (simp add: used_offset_def)

lemma unat_num_mult:
  assumes "26 * unat num \<le> 2 ^ 31"
  shows "unat (num * 16 :: u32) = 16 * unat num" "unat (num * 2) = 2 * unat num" "unat (num * 8) = 8 * unat num"
  using unat_sums(2)[of num 16] unat_sums(2)[of num 2] unat_sums(2)[of num 8] assms by simp_all

lemma vring_init_value:
  assumes "align = 2 ^ k" and "k < 31" and "2 ^ k dvd unat p" and "26 * unat num \<le> 2 ^ 31"
    and "unat p + 26 * unat num + 12 + 2 ^ k \<le> 2 ^ 32" and "vring_init num p align = (desc, avail, used)"
  shows "desc = p" "unat avail = unat p + 16 * unat num" "unat used = unat p + used_offset (unat num) k"
proof -
  let ?n = "unat num"
  note mul = unat_num_mult[OF assms(4)]
  have av: "unat (p + num * 16) = unat p + 16 * ?n" using assms(5) by (subst unat_sums(1)) (simp_all add: mul)
  have av4: "unat (p + num * 16 + 4) = unat p + 16 * ?n + 4" using assms(5) by (subst unat_sums(1)) (simp_all add: av)
  have av5: "unat (p + num * 16 + 4 + num * 2) = unat p + 18 * ?n + 4"
    using assms(5) by (subst unat_sums(1)) (simp_all add: av4 mul)
  have av6: "unat (p + num * 16 + 4 + num * 2 + 2) = unat p + (18 * ?n + 6)"
    using assms(5) by (subst unat_sums(1)) (simp_all only: av5, simp_all)
  have a: "unat align = 2 ^ k" and k: "k < 32" using assms(1,2) by (simp_all add: unat_pow2_u32)
  have "unat used = (unat p + (18 * ?n + 6) + (2 ^ k - 1)) div 2 ^ k * 2 ^ k"
  proof -
    have "used = (p + num * 16 + 4 + num * 2 + 2 + align - 1) AND NOT (align - 1)"
      using assms(6) unfolding vring_init_def Let_def prod.inject by (elim conjE) (rule sym)
    moreover have "unat (p + num * 16 + 4 + num * 2 + 2) + unat align \<le> 2 ^ 32"
      unfolding av6 a using assms(5) by linarith
    note aligned_word[OF assms(1) k this, unfolded av6]
    ultimately show ?thesis by (simp only:)
  qed
  then show "unat used = unat p + used_offset ?n k"
    using round_up(3)[of "2 ^ k" "unat p" "18 * ?n + 6"] assms(3) by (simp add: used_offset_def)
  have "desc = p" "avail = p + num * 16" using assms(6) by (auto simp: vring_init_def Let_def)
  with av show "desc = p" "unat avail = unat p + 16 * ?n" by simp_all
qed

lemma vring_size_value:
  assumes "align = 2 ^ k" and "k < 31" and "26 * unat num + 12 + 2 ^ k \<le> 2 ^ 31"
  shows "vring_size num align = int (used_offset (unat num) k + (8 * unat num + 6))"
proof -
  let ?n = "unat num"
  let ?r = "used_offset ?n k"
  have mul: "unat (num * 16) = 16 * ?n" "unat (num * 2) = 2 * ?n" "unat (num * 8) = 8 * ?n"
    using unat_num_mult[of num] assms(3) by simp_all
  have a: "unat align = 2 ^ k" and k: "k < 32" using assms(1,2) by (simp_all add: unat_pow2_u32)
  have "unat (4 + num * 2) = 2 * ?n + 4" "unat (4 + num * 8) = 8 * ?n + 4"
    using assms(3) by (subst unat_sums(1); simp add: mul)+
  then have s2: "unat (4 + num * 2 + 2) = 2 * ?n + 6" and s5: "unat (4 + num * 8 + 2) = 8 * ?n + 6"
    using assms(3) by (subst unat_sums(1); simp only:; simp)+
  have s3: "unat (num * 16 + (4 + num * 2 + 2)) = 18 * ?n + 6"
    using assms(3) by (subst unat_sums(1)) (simp_all only: mul s2, simp_all)
  have s4: "unat ((num * 16 + (4 + num * 2 + 2) + align - 1) AND NOT (align - 1)) = ?r"
  proof -
    have "unat (num * 16 + (4 + num * 2 + 2)) + unat align \<le> 2 ^ 32" unfolding s3 a using assms(3) by simp
    note aligned_word[OF assms(1) k this, unfolded s3]
    then show ?thesis by (simp only: used_offset_def)
  qed
  have small: "?r + (8 * ?n + 6) < 2 ^ 31" using used_offset_bounds(2)[of ?n k] assms(3) by linarith
  define w where "w = ((num * 16 + (4 + num * 2 + 2) + align - 1) AND NOT (align - 1)) + (4 + num * 8 + 2)"
  have w: "unat w = ?r + (8 * ?n + 6)"
    unfolding w_def by (subst unat_sums(1); simp only: s4 s5) (use small in simp)
  have "vring_size num align = sint w" unfolding vring_size_def Let_def w_def ..
  also have "\<dots> = int (unat w)" using small unfolding w[symmetric] by (rule sint_u32_small)
  finally show ?thesis by (simp only: w)
qed

text \<open>
  C30: the parts of a ring laid out at an aligned address fit into the memory \<open>vring_size\<close> reserves for it, for every
  alignment \<open>2 ^ k\<close> and every ring whose memory is smaller than 2 GiB (which holds of every 16-bit number of entries,
  as the queues have, and alignment up to 1 GiB) and ends inside the 32-bit address space:
  descriptor table, available ring with its event index and used ring with its event index follow one another
  without overlap and without wrapping around, the used ring is aligned, and the event index of the used ring ends
  exactly where the reserved memory ends.
\<close>

theorem vring_layout:
  assumes "align = 2 ^ k" and "k < 31" and "2 ^ k dvd unat p"
    and "26 * unat num + 12 + 2 ^ k \<le> 2 ^ 31" and "unat p + 26 * unat num + 12 + 2 ^ k \<le> 2 ^ 32"
    and "vring_init num p align = (desc, avail, used)"
  shows "desc = p \<and> unat desc + 16 * unat num = unat avail \<and> unat avail + (4 + 2 * unat num + 2) \<le> unat used \<and>
    2 ^ k dvd unat used \<and> int (unat used + (4 + 8 * unat num + 2)) = int (unat p) + vring_size num align \<and>
    int (unat p) + vring_size num align \<le> 2 ^ 32"
proof -
  have "26 * unat num \<le> 2 ^ 31" using assms(4) by linarith
  note init = vring_init_value[OF assms(1-3) this assms(5,6)]
  note size = vring_size_value[OF assms(1,2,4)]
  let ?u = "used_offset (unat num) k"
  have "unat p + (?u + (8 * unat num + 6)) \<le> 2 ^ 32"
    using used_offset_bounds(2)[of "unat num" k] assms(5) by linarith
  then have "int (unat p) + int (?u + (8 * unat num + 6)) \<le> 2 ^ 32"
    by (simp only: of_nat_add[symmetric] of_nat_le_iff[where 'a = int, symmetric]) simp
  moreover have "2 ^ k dvd unat p + ?u" using assms(3) used_offset_aligned by (rule dvd_add)
  ultimately show ?thesis
    using used_offset_bounds(1)[of "unat num" k] unfolding size init by (simp add: init)
qed

theorem vring_layout_witness:
  "vring_init 16 0x10040000 16 = (0x10040000, 0x10040100, 0x10040130) \<and>
   int (0x10040130 + (4 + 8 * 16 + 2)) = 0x10040000 + vring_size 16 16"
  using vring_layout[of 16 4 "0x10040000" 16 "0x10040000" "0x10040100" "0x10040130"]
  by (simp add: vring_init_def Let_def)

text \<open>
  The bound is needed: with \<open>2 ^ 28\<close> entries the size of the descriptor table wraps around to 0, and the available
  ring lies over the descriptor table.
\<close>

lemma vring_init_wraps: "fst (snd (vring_init 0x10000000 p align)) = p"
  by (simp add: vring_init_def Let_def)

lemma unat_u16_less: "unat (w :: u16) < 65536"
  by (rule order.strict_trans2[OF unsigned_less]) simp

lemma behind_iff:
  fixes d x :: u16
  shows "d - x - 1 < d \<longleftrightarrow> x < d"
proof (cases "x < d")
  case True
  then have u: "unat (d - x) = unat d - unat x" and "1 \<le> d - x"
    by (simp_all add: unat_sub word_less_nat_alt word_le_nat_alt less_imp_le)
  then have "unat (d - x - 1) = unat d - unat x - 1" unfolding u[symmetric] by (simp add: unat_sub)
  then show ?thesis using True by (simp add: word_less_nat_alt)
next
  case False
  then have "d \<le> x" by simp
  have "d - x - 1 = 65535 - (x - d)" by simp
  then have "unat (d - x - 1) = unat (65535 - (x - d))" by (rule arg_cong)
  also have "\<dots> = 65535 - unat (x - d)" 
    using unat_u16_less[of "x - d"] by (subst unat_sub) (simp_all add: word_le_nat_alt)
  also have "\<dots> = 65535 - (unat x - unat d)" using \<open>d \<le> x\<close> by (simp add: unat_sub)
  finally have "unat d \<le> unat (d - x - 1)" using \<open>d \<le> x\<close> unat_u16_less[of x] by (simp add: word_le_nat_alt)
  then show ?thesis using False by (simp add: word_less_nat_alt)
qed

text \<open>
  Whether an event index has been passed. \<open>vring_need_event\<close> holds exactly when the index the other side waits for is
  one of those the last operations moved over, from the old index up to the one before the new index, also when
  the indices wrap around.
\<close>

theorem vring_need_event_iff:
  "vring_need_event event new old \<longleftrightarrow> (\<exists>j < unat (new - old). event = old + of_nat j)"
proof -
  define d x where "d = new - old" and "x = event - old"
  have "new - event - 1 = d - x - 1" by (simp add: d_def x_def)
  moreover have "d - x - 1 < d \<longleftrightarrow> x < d" by (rule behind_iff)
  moreover have "(\<exists>j < unat d. event = old + of_nat j) \<longleftrightarrow> x < d"
  proof
    assume "\<exists>j < unat d. event = old + of_nat j"
    then obtain j where "j < unat d" "x = of_nat j" by (auto simp: x_def)
    then show "x < d" using unat_u16_less[of d] by (auto simp: word_less_nat_alt unat_of_nat)
  next
    assume "x < d"
    then show "\<exists>j < unat d. event = old + of_nat j"
      by (intro exI[of _ "unat x"]) (simp add: word_less_nat_alt x_def)
  qed
  ultimately show ?thesis unfolding vring_need_event_def d_def by metis
qed

text \<open>What one round of the loop writes, and the loop in terms of it.\<close>

definition filled :: "metal_io_region \<Rightarrow> nat \<Rightarrow> nat \<Rightarrow> nat \<Rightarrow> u32 \<times> u32 \<Rightarrow> vring_desc \<Rightarrow> vring_desc" where
  "filled io i needed readable b d = d\<lparr>d_addr := ucast (metal_io_virt_to_phys io (fst b)), d_len := snd b,
     d_flags := (if i < needed - 1 then VRING_DESC_F_NEXT else 0) OR (if readable \<le> i then VRING_DESC_F_WRITE else 0)\<rparr>"

lemma add_loop_end: "vq_ring_add_loop io n n readable bufs idx r = Some (idx, r)"
  by (simp add: vq_ring_add_loop.simps)

lemma add_loop_step:
  assumes "i < needed"
  shows "vq_ring_add_loop io i needed readable bufs idx r =
    (if in_table idx r \<and> i < length bufs
     then vq_ring_add_loop io (Suc i) needed readable bufs (d_next (v_desc r (unat idx)))
            (r\<lparr>v_desc := (v_desc r)(unat idx := filled io i needed readable (bufs ! i) (v_desc r (unat idx)))\<rparr>)
     else None)"
  using assms by (subst vq_ring_add_loop.simps) (simp add: Let_def filled_def)

lemma add_loop_frame:
  assumes "vq_ring_add_loop io i needed readable bufs idx r = Some (idx', r')" "i \<le> needed"
  shows "r' = r\<lparr>v_desc := v_desc r'\<rparr>"
  using assms(2,1)
proof (induction i arbitrary: idx r rule: inc_induct)
  case base
  then show ?case by (simp add: add_loop_end)
next
  case (step i)
  then show ?case by (fastforce simp: add_loop_step split: if_splits)
qed

lemma put_effect:
  assumes "vq_exec io (Put rd buf len c) (m, s, r) = Some (x, m', s', r')"
  shows "s' = s \<and> avail_idx r' = avail_idx r + 1 \<and> avail_event r' = avail_event r \<and> used_flags r' = used_flags r \<and>
    vq_queued_cnt m' = vq_queued_cnt m + 1 \<and> vq_role m' = vq_role m \<and> vq_event_idx m' = vq_event_idx m \<and>
    vq_kicks m' = vq_kicks m"
proof -
  define j k :: nat where "j = (if rd then 1 else 0)" and "k = (if rd then 0 else 1)"
  obtain idx r1 where a: "vq_ring_add_loop io 0 (j + k) j [(buf, len)] (vq_desc_head_idx m) r = Some (idx, r1)"
    and rest: "s' = s" "r' = r1\<lparr>avail_ring := (avail_ring r1)(unat (avail_idx r1 AND (vq_nentries m - 1)) := vq_desc_head_idx m),
      avail_idx := avail_idx r1 + 1\<rparr>" "vq_queued_cnt m' = vq_queued_cnt m + 1" "vq_role m' = vq_role m"
      "vq_event_idx m' = vq_event_idx m" "vq_kicks m' = vq_kicks m"
    using assms unfolding vq_exec.simps j_def[symmetric] k_def[symmetric]
    by (auto simp: virtqueue_add_buffer_def vq_ring_add_buffer_def vq_ring_update_avail_def Let_def split: if_splits option.splits prod.splits)
  have "avail_idx r1 = avail_idx r" "avail_event r1 = avail_event r" "used_flags r1 = used_flags r"
    using arg_cong[OF add_loop_frame[OF a], of avail_idx] arg_cong[OF add_loop_frame[OF a], of avail_event]
      arg_cong[OF add_loop_frame[OF a], of used_flags] by simp_all
  then show ?thesis using rest by simp
qed

lemma puts_effect:
  assumes "vq_run io (map (\<lambda>(rd, buf, len, c). Put rd buf len c) ps) (m, s, r) = Some (xs, m', s', r')"
  shows "avail_idx r' = avail_idx r + of_nat (length ps) \<and> avail_event r' = avail_event r \<and> used_flags r' = used_flags r \<and>
    vq_queued_cnt m' = vq_queued_cnt m + of_nat (length ps) \<and> vq_role m' = vq_role m \<and>
    vq_event_idx m' = vq_event_idx m \<and> vq_kicks m' = vq_kicks m"
  using assms
proof (induction ps arbitrary: m r xs)
  case (Cons p ps)
  obtain rd buf len c where p: "p = (rd, buf, len, c)" by (cases p)
  obtain x m1 s1 r1 ys where 1: "vq_exec io (Put rd buf len c) (m, s, r) = Some (x, m1, s1, r1)"
    and 2: "vq_run io (map (\<lambda>(rd, buf, len, c). Put rd buf len c) ps) (m1, s1, r1) = Some (ys, m', s', r')"
    using Cons.prems unfolding p list.map prod.case vq_run.simps by (auto split: option.splits prod.splits)
  from put_effect[OF 1] have "s1 = s" by simp
  from Cons.IH[OF 2[unfolded this]] put_effect[OF 1] show ?case by simp
qed simp

text \<open>
  C21: no wake-up is lost. When the slave enables its callback and learns that nothing is pending, then the master
  puts any number of buffers and kicks, the kick notifies the slave; with event indices as well as with flags, and
  whatever was queued before without a kick.
\<close>

theorem no_lost_wakeup:
  assumes "virtqueue_enable_cb s r = (0, r1)" and "vq_role s = VIRTIO_DEV_SLAVE" and "vq_role m = VIRTIO_DEV_MASTER"
    and "vq_event_idx m = vq_event_idx s" and "ps \<noteq> []" and "unat (vq_queued_cnt m) + length ps < 65536"
    and "vq_run io (map (\<lambda>(rd, buf, len, c). Put rd buf len c) ps) (m, s, r1) = Some (xs, m', s', r')"
  shows "vq_kicks (virtqueue_kick m' r') = Suc (vq_kicks m)"
proof -
  note E = puts_effect[OF assms(7)]
  have en: "if vq_event_idx s then avail_event r1 = avail_idx r1 else used_flags r1 AND VRING_USED_F_NO_NOTIFY = 0"
    using assms(1,2)
    by (auto simp: virtqueue_enable_cb_def vq_ring_enable_interrupt_def virtqueue_navail_def Let_def word_less_nat_alt
        unsigned_eq_0_iff and.assoc split: if_splits)
  have "vq_ring_must_notify m' r'"
  proof (cases "vq_event_idx s")
    case False
    then show ?thesis using E en assms(3,4) by (simp add: vq_ring_must_notify_def)
  next
    case True
    let ?q = "vq_queued_cnt m + of_nat (length ps)" and ?k = "of_nat (length ps) :: u16"
    have k: "unat ?k = length ps" "unat ?q = unat (vq_queued_cnt m) + length ps"
      using assms(6) by (simp_all add: unat_word_ariths unat_of_nat)
    then have "1 \<le> ?k" using assms(5) by (simp add: word_le_nat_alt Suc_le_eq)
    moreover have "0 < length ps" using assms(5) by simp
    ultimately have "unat (?k - 1) < unat ?q" using k by (simp only: unat_sub unsigned_1)
    then have "vring_need_event (avail_event r') (avail_idx r') (avail_idx r' - vq_queued_cnt m')"
      using E en True by (simp add: vring_need_event_def word_less_nat_alt add.commute)
    then show ?thesis using E True assms(3,4) by (simp add: vq_ring_must_notify_def)
  qed
  then show ?thesis using E by (simp add: virtqueue_kick_def vq_ring_notify_def)
qed

text \<open>
  An address inside the shared region survives the translation to the physical address in a descriptor and
  back; an address outside is turned into the bad physical address.
\<close>

theorem metal_io_round_trip:
  assumes "io_virt io \<noteq> METAL_BAD_VA"
  shows "metal_io_virt_to_phys io buf = (if buf - io_virt io < io_size io then io_physmap io + (buf - io_virt io) else METAL_BAD_PHYS) \<and>
    (buf - io_virt io < io_size io \<longrightarrow> metal_io_phys_to_virt io (metal_io_virt_to_phys io buf) = buf)"
proof -
  have "\<not> METAL_BAD_OFFSET < io_size io" by (simp add: METAL_BAD_OFFSET_def not_less word_order.extremum)
  then show ?thesis using assms
    by (simp add: metal_io_phys_to_virt_def metal_io_virt_to_phys_def metal_io_phys_def metal_io_virt_def
      metal_io_phys_to_offset_def metal_io_virt_to_offset_def Let_def)
qed

theorem metal_io_round_trip_witness:
  "io_virt demo_io \<noteq> METAL_BAD_VA \<and>
   metal_io_phys_to_virt demo_io (metal_io_virt_to_phys demo_io 0x10040FFF) = 0x10040FFF \<and>
   metal_io_virt_to_phys demo_io 0x10041000 = METAL_BAD_PHYS"
proof -
  have h: "io_virt demo_io \<noteq> METAL_BAD_VA" by (simp add: demo_io_def METAL_BAD_VA_def)
  from metal_io_round_trip[OF h, of "0x10040FFF"] metal_io_round_trip[OF h, of "0x10041000"] h
  show ?thesis by (auto simp: demo_io_def)
qed

theorem no_lost_wakeup_witness:
  "\<exists>s r r1 (m :: nat virtqueue) xs m' s' r'. virtqueue_enable_cb s r = (0, r1) \<and>
     vq_run demo_io [Put True 0x10040100 64 7] (m, s :: nat virtqueue, r1) = Some (xs, m', s', r') \<and>
     vq_kicks (virtqueue_kick m' r') = Suc (vq_kicks m)"
proof -
  obtain m s r where c: "vq_create_both 0 2 (demo_vq VIRTIO_DEV_MASTER) (demo_vq VIRTIO_DEV_SLAVE) demo_vring = (m, s, r)"
    and inv: "vq_inv 2 demo_io (ch_empty 2) m s r" by (rule demo_inv)
  have q: "vq_role s = VIRTIO_DEV_SLAVE" "vq_role m = VIRTIO_DEV_MASTER" "vq_event_idx m = vq_event_idx s" "vq_queued_cnt m = 0"
    using c by (auto simp: vq_create_both_def virtqueue_create_def Let_def demo_vq_def)
  obtain x r1 where e: "virtqueue_enable_cb s r = (x, r1)" by (cases "virtqueue_enable_cb s r")
  have x: "x = 0" and i1: "vq_inv 2 demo_io (ch_empty 2) m s r1"
    using e counts(2)[OF inv] inv_callbacks(1)[of 2 demo_io "ch_empty 2" m s s r] inv q(1)
    by (auto simp: virtqueue_enable_cb_def vq_ring_enable_interrupt_def Let_def virtqueue_navail_def ch_empty_def split: if_splits)
  obtain xs m' s' r' where run: "vq_run demo_io (map (\<lambda>(rd, buf, len, c). Put rd buf len c) [(True, 0x10040100, 64, 7)]) (m, s, r1) =
      Some (xs, m', s', r')"
    using run_refines[OF i1, of "[Put True 0x10040100 64 7]"] by (auto simp: ch_empty_def demo_region upt_rec)
  have "vq_kicks (virtqueue_kick m' r') = Suc (vq_kicks m)"
    by (rule no_lost_wakeup[OF e[unfolded x] q(1,2,3) _ _ run]) (simp_all add: q(4))
  then show ?thesis using run e x unfolding list.map prod.case by blast
qed

section \<open>Chains of several descriptors\<close>

text \<open>The loop of \<open>vq_ring_add_buffer\<close> writes the first descriptors of the free chain and stops at the next one.\<close>

lemma add_loop_chain:
  assumes "i \<le> needed" "length js = needed - i" "needed \<le> length bufs" "distinct (js @ rest)"
    "free_chain r idx (js @ rest)" "\<forall>j \<in> set (js @ rest). in_table j r"
  shows "\<exists>idx' r'. vq_ring_add_loop io i needed readable bufs idx r = Some (idx', r') \<and> free_chain r' idx' rest \<and>
    v_num r' = v_num r \<and> (\<forall>k < length js. v_desc r' (unat (js ! k)) =
      filled io (i + k) needed readable (bufs ! (i + k)) (v_desc r (unat (js ! k)))) \<and>
    (\<forall>j. j \<notin> set js \<longrightarrow> v_desc r' (unat j) = v_desc r (unat j))"
  using assms
proof (induction i arbitrary: idx js r rule: inc_induct)
  case base
  then show ?case by (simp add: add_loop_end)
next
  case (step i)
  then obtain j js' where js: "js = j # js'" by (cases js) auto
  let ?d = "filled io i needed readable (bufs ! i) (v_desc r (unat j))"
  let ?r = "r\<lparr>v_desc := (v_desc r)(unat j := ?d)\<rparr>"
  have "free_chain ?r (d_next (v_desc r (unat j))) (js' @ rest) = free_chain r (d_next (v_desc r (unat j))) (js' @ rest)"
    by (rule free_chain_cong) (use step.prems(3) js in auto)
  then have "\<exists>idx' r'. vq_ring_add_loop io (Suc i) needed readable bufs (d_next (v_desc r (unat j))) ?r = Some (idx', r') \<and>
      free_chain r' idx' rest \<and> v_num r' = v_num ?r \<and> (\<forall>k < length js'. v_desc r' (unat (js' ! k)) =
      filled io (Suc i + k) needed readable (bufs ! (Suc i + k)) (v_desc ?r (unat (js' ! k)))) \<and>
      (\<forall>j. j \<notin> set js' \<longrightarrow> v_desc r' (unat j) = v_desc ?r (unat j))"
    by (intro step.IH) (use step.prems js in \<open>auto simp: in_table_def\<close>)
  then obtain idx' r' where R: "vq_ring_add_loop io (Suc i) needed readable bufs (d_next (v_desc r (unat j))) ?r = Some (idx', r')"
    "free_chain r' idx' rest" "v_num r' = v_num r" "\<And>k. k < length js' \<Longrightarrow> v_desc r' (unat (js' ! k)) =
      filled io (Suc i + k) needed readable (bufs ! (Suc i + k)) (v_desc ?r (unat (js' ! k)))"
    "\<And>x. x \<notin> set js' \<Longrightarrow> v_desc r' (unat x) = v_desc ?r (unat x)" by auto
  have "vq_ring_add_loop io i needed readable bufs idx r = Some (idx', r')"
    using step.hyps step.prems R(1) js by (simp add: add_loop_step)
  moreover have "v_desc r' (unat (js ! k)) = filled io (i + k) needed readable (bufs ! (i + k)) (v_desc r (unat (js ! k)))"
    if "k < length js" for k
    using that R(4)[of "k - 1"] R(5)[of j] step.prems(3) js nth_mem[of "k - 1" js'] by (cases k) auto
  moreover have "v_desc r' (unat x) = v_desc r (unat x)" if "x \<notin> set js" for x using that R(5)[of x] js by simp
  ultimately show ?case using R(2,3) by blast
qed

text \<open>The walk over a chain whose flags mark every descriptor but the last.\<close>

lemma free_chain_walk:
  assumes "js \<noteq> []" "\<forall>j \<in> set js. in_table j r"
    "\<And>k. Suc k < length js \<Longrightarrow> d_flags (v_desc r (unat (js ! k))) AND VRING_DESC_F_NEXT \<noteq> 0 \<and> d_next (v_desc r (unat (js ! k))) = js ! Suc k"
    "d_flags (v_desc r (unat (last js))) AND VRING_DESC_F_NEXT = 0"
  shows "free_chain_loop r (hd js) nd = Some (last js, nd - of_nat (length js - 1))"
  using assms
proof (induction js arbitrary: nd)
  case (Cons j js)
  show ?case
  proof (cases js)
    case Nil
    then show ?thesis using Cons.prems by (subst free_chain_loop.simps) simp
  next
    case (Cons j' js')
    have "free_chain_loop r (hd js) (nd - 1) = Some (last js, nd - 1 - of_nat (length js - 1))"
      by (rule Cons.IH) (use Cons.prems(2,4) Cons.prems(3)[of "Suc _"] Cons in auto)
    then show ?thesis using Cons.prems(2) Cons.prems(3)[of 0] Cons by (subst free_chain_loop.simps) (simp add: diff_diff_eq)
  qed
qed simp

lemma free_chain_links:
  assumes "free_chain r h (js @ rest)" "js \<noteq> []"
  shows "hd js = h" and "Suc k < length js \<Longrightarrow> d_next (v_desc r (unat (js ! k))) = js ! Suc k"
    and "free_chain r (d_next (v_desc r (unat (last js)))) rest"
proof -
  have "hd js = h \<and> (\<forall>k. Suc k < length js \<longrightarrow> d_next (v_desc r (unat (js ! k))) = js ! Suc k) \<and>
      free_chain r (d_next (v_desc r (unat (last js)))) rest"
    using assms
  proof (induction js arbitrary: h)
    case (Cons j js)
    show ?case
    proof (cases "js = []")
      case False
      with Cons have IH: "hd js = d_next (v_desc r (unat j))" "\<forall>k. Suc k < length js \<longrightarrow> d_next (v_desc r (unat (js ! k))) = js ! Suc k"
        "free_chain r (d_next (v_desc r (unat (last js)))) rest" by auto
      then have "d_next (v_desc r (unat ((j # js) ! k))) = (j # js) ! Suc k" if "Suc k < length (j # js)" for k
        using that False by (cases k) (auto simp: hd_conv_nth)
      then show ?thesis using IH(3) False Cons.prems by auto
    qed (use Cons.prems in auto)
  qed simp
  then show "hd js = h" "Suc k < length js \<Longrightarrow> d_next (v_desc r (unat (js ! k))) = js ! Suc k"
    "free_chain r (d_next (v_desc r (unat (last js)))) rest" by auto
qed

lemma free_chain_head: "free_chain r h js \<Longrightarrow> free_chain r' h' js \<Longrightarrow> h = h'"
  by (cases js) auto

lemma add_chain_spec:
  assumes ch: "free_chain r (vq_desc_head_idx m) (js @ rest)" and d: "distinct (js @ rest)"
    and tab: "\<forall>j \<in> set (js @ rest). in_table j r" and js: "js \<noteq> []"
    and "length bufs = length js" and "readable + writable = length js"
  obtains m' r' where "virtqueue_add_buffer io bufs readable writable c m r = Some (VQUEUE_SUCCESS, m', r')"
    "vq_free_cnt m' = vq_free_cnt m - of_nat (length js)" "vq_ndescs m' (unat (hd js)) = of_nat (length js)"
    "free_chain r' (vq_desc_head_idx m') rest" "v_num r' = v_num r"
    "\<forall>k < length js. d_flags (v_desc r' (unat (js ! k))) AND VRING_DESC_F_NEXT = (if Suc k < length js then 1 else 0)"
    "\<forall>k < length js. d_flags (v_desc r' (unat (js ! k))) AND VRING_DESC_F_INDIRECT = 0"
    "\<forall>j :: u16. d_next (v_desc r' (unat j)) = d_next (v_desc r (unat j))"
proof -
  have h: "vq_desc_head_idx m = hd js" using free_chain_links(1)[OF ch js] by simp
  have t: "in_table (hd js) r" using tab js by simp
  obtain idx r1 where A: "vq_ring_add_loop io 0 (length js) readable bufs (hd js) r = Some (idx, r1)"
    and c1: "free_chain r1 idx rest" and num: "v_num r1 = v_num r"
    and f: "\<And>k. k < length js \<Longrightarrow> v_desc r1 (unat (js ! k)) = filled io k (length js) readable (bufs ! k) (v_desc r (unat (js ! k)))"
    and o: "\<And>j. j \<notin> set js \<Longrightarrow> v_desc r1 (unat j) = v_desc r (unat j)"
    using add_loop_chain[of 0 "length js" js bufs rest r "hd js" io readable] assms(5) d ch[unfolded h] tab by auto
  define r' where "r' = r1\<lparr>avail_ring := (avail_ring r1)(unat (avail_idx r1 AND (vq_nentries m - 1)) := hd js), avail_idx := avail_idx r1 + 1\<rparr>"
  define m' where "m' = m\<lparr>vq_cookie := (vq_cookie m)(unat (hd js) := c), vq_ndescs := (vq_ndescs m)(unat (hd js) := of_nat (length js)),
    vq_desc_head_idx := idx, vq_free_cnt := vq_free_cnt m - of_nat (length js), vq_queued_cnt := vq_queued_cnt m + 1\<rparr>"
  have desc: "v_desc r' = v_desc r1" by (simp add: r'_def)
  have "free_chain r' h js = free_chain r1 h js" for h js by (rule free_chain_cong) (simp add: desc)
  moreover have "virtqueue_add_buffer io bufs readable writable c m r = Some (VQUEUE_SUCCESS, m', r')"
    using A t unfolding virtqueue_add_buffer_def vq_ring_add_buffer_def assms(6) h
    by (simp add: Let_def vq_ring_update_avail_def m'_def r'_def)
  moreover have "d_flags (v_desc r' (unat (js ! k))) AND VRING_DESC_F_NEXT = (if Suc k < length js then 1 else 0)"
    "d_flags (v_desc r' (unat (js ! k))) AND VRING_DESC_F_INDIRECT = 0" if "k < length js" for k
    using that f[OF that] by (auto simp: desc filled_def vring_flag_defs)
  moreover have "d_next (v_desc r' (unat j)) = d_next (v_desc r (unat j))" for j :: u16
    using f o[of j] by (cases "j \<in> set js") (auto simp: desc filled_def in_set_conv_nth)
  ultimately show ?thesis using that[of m' r'] c1 num by (simp add: m'_def r'_def)
qed

text \<open>
  C23: a chain of several buffers can be added and its descriptors freed again. Given enough free descriptors the
  master writes one descriptor per buffer, and the walk over the chain that frees it ends (its loop has no bound
  of its own: it follows the links the other processor could overwrite), counts exactly the descriptors of the chain,
  and restores the free chain and the free count.
\<close>

theorem chain_free_terminates:
  assumes inv: "vq_inv n io g m s r" and free: "ch_free g = js @ rest" and js: "js \<noteq> []"
    and "length bufs = length js" and "readable + writable = length js"
  shows "\<exists>m' r' m'' r''. virtqueue_add_buffer io bufs readable writable c m r = Some (VQUEUE_SUCCESS, m', r') \<and>
    unat (vq_free_cnt m') = length rest \<and> vq_ring_free_chain (hd js) m' r' = Some (m'', r'') \<and>
    vq_ndescs m'' (unat (hd js)) = 0 \<and> unat (vq_free_cnt m'') = length (js @ rest) \<and>
    free_chain r'' (vq_desc_head_idx m'') (js @ rest)"
proof -
  note I = inv[unfolded vq_inv_def free]
  have ch: "free_chain r (vq_desc_head_idx m) (js @ rest)" and d: "distinct (js @ rest)"
    and tab: "\<forall>j \<in> set (js @ rest). in_table j r" using I by (auto simp: in_table_def)
  note L = free_chain_links[OF ch js]
  obtain m' r' where add: "virtqueue_add_buffer io bufs readable writable c m r = Some (VQUEUE_SUCCESS, m', r')"
    and m': "vq_free_cnt m' = vq_free_cnt m - of_nat (length js)" "vq_ndescs m' (unat (hd js)) = of_nat (length js)"
      "free_chain r' (vq_desc_head_idx m') rest" "v_num r' = v_num r"
    and fl': "\<forall>k < length js. d_flags (v_desc r' (unat (js ! k))) AND VRING_DESC_F_NEXT = (if Suc k < length js then 1 else 0)"
      "\<forall>k < length js. d_flags (v_desc r' (unat (js ! k))) AND VRING_DESC_F_INDIRECT = 0"
    and nx': "\<forall>j :: u16. d_next (v_desc r' (unat j)) = d_next (v_desc r (unat j))"
    by (rule add_chain_spec[OF ch d tab js assms(4,5), of io c])
  note fl = fl'[rule_format] and nx = nx'[rule_format]
  have le: "length js + length rest \<le> 32768" using I ring_size_mask(4)[of n "vq_nentries m"] by simp
  then have u: "unat (of_nat (length js) :: u16) = length js" by (simp add: unat_of_nat)
  have cnt: "unat (vq_free_cnt m') = length rest" using I u by (simp add: m' unat_sub word_le_nat_alt)
  have walk: "free_chain_loop r' (hd js) (of_nat (length js) - 1) = Some (last js, of_nat (length js) - 1 - of_nat (length js - 1))"
    by (rule free_chain_walk) (use js tab fl L(2) nx in \<open>auto simp: m' in_table_def last_conv_nth\<close>)
  define r'' where "r'' = r'\<lparr>v_desc := (v_desc r')(unat (last js) := (v_desc r' (unat (last js)))\<lparr>d_next := vq_desc_head_idx m'\<rparr>)\<rparr>"
  define m'' where "m'' = m'\<lparr>vq_free_cnt := vq_free_cnt m' + of_nat (length js), vq_ndescs := (vq_ndescs m')(unat (hd js) := 0),
    vq_desc_head_idx := hd js\<rparr>"
  have "of_nat (length js) - 1 - of_nat (length js - 1) = (0 :: u16)" using js by (cases js) auto
  moreover have "in_table (hd js) r'" "d_flags (v_desc r' (unat (hd js))) AND VRING_DESC_F_INDIRECT = 0"
    using tab js fl(2)[of 0] by (auto simp: in_table_def m' hd_conv_nth)
  ultimately have fr: "vq_ring_free_chain (hd js) m' r' = Some (m'', r'')"
    using walk m'(2) by (simp add: vq_ring_free_chain_def Let_def m''_def r''_def)
  have "vq_desc_head_idx m' = d_next (v_desc r (unat (last js)))" by (rule free_chain_head[OF m'(3) L(3)])
  then have "free_chain r'' h (js @ rest) = free_chain r h (js @ rest)" for h
    by (intro free_chain_cong) (auto simp: r''_def nx)
  then have "free_chain r'' (vq_desc_head_idx m'') (js @ rest)" using ch L(1) by (simp add: m''_def)
  moreover have "unat (vq_free_cnt m'') = length (js @ rest)"
    using cnt u le by (simp add: m''_def unat_word_ariths)
  moreover have "vq_ndescs m'' (unat (hd js)) = 0" by (simp add: m''_def)
  ultimately show ?thesis using add cnt fr by blast
qed

theorem chain_free_terminates_witness:
  "\<exists>m s r m' r' m'' r''.
     vq_create_both 0 2 (demo_vq VIRTIO_DEV_MASTER) (demo_vq VIRTIO_DEV_SLAVE) demo_vring = (m, s, r) \<and>
     virtqueue_add_buffer demo_io [(0x10040100, 8), (0x10040200, 16)] 1 1 (Some 5) m r = Some (VQUEUE_SUCCESS, m', r') \<and>
     vq_ring_free_chain 0 m' r' = Some (m'', r'') \<and> unat (vq_free_cnt m'') = 2"
proof -
  obtain m s r where c: "vq_create_both 0 2 (demo_vq VIRTIO_DEV_MASTER) (demo_vq VIRTIO_DEV_SLAVE) demo_vring = (m, s, r)"
    and i: "vq_inv 2 demo_io (ch_empty 2) m s r" by (rule demo_inv)
  have "ch_free (ch_empty 2) = [0, 1] @ []" by (simp add: ch_empty_def upt_rec)
  from chain_free_terminates[OF i this, of "[(0x10040100, 8), (0x10040200, 16)]" 1 1 "Some 5"] c show ?thesis by auto
qed

text \<open>
  Without the checks of the debug build the master does not notice that no descriptor is free: the end marker of
  the free chain is used as an index.
\<close>

lemma add_buffer_exhausted:
  assumes "vq_inv n io g m s r" "ch_free g = []"
  shows "virtqueue_add_buffer io bufs readable writable c m r = None"
proof -
  have "vq_desc_head_idx m = VQ_RING_DESC_CHAIN_END" "v_num r = n" "n \<le> 32768"
    using assms ring_size_mask(4)[of n "vq_nentries m"] by (simp_all add: vq_inv_def)
  then show ?thesis by (simp add: virtqueue_add_buffer_def in_table_def VQ_RING_DESC_CHAIN_END_def)
qed

text \<open>
  The slave's check of the index of a consumed buffer. Indices up to the number of entries minus one are
  accepted, indices above the number of entries are refused and nothing changes; the index equal to the number of
  entries, which is no descriptor, passes the check, is published as used, and makes the master leave its tables when it
  collects it.
\<close>

theorem consumed_index_check:
  assumes inv: "vq_inv n io g m s r"
  shows "(vq_nentries s < idx \<longrightarrow> virtqueue_add_consumed_buffer idx len s r = (ERROR_VRING_NO_BUFF, s, r)) \<and>
    (\<not> vq_nentries s < idx \<longrightarrow> fst (virtqueue_add_consumed_buffer idx len s r) = VQUEUE_SUCCESS) \<and>
    (ch_used g = [] \<longrightarrow> (case virtqueue_add_consumed_buffer (vq_nentries s) len s r of
       (_, _, r') \<Rightarrow> virtqueue_get_buffer m r' = None))"
proof (intro conjI impI)
  assume e: "ch_used g = []"
  note I = inv[unfolded vq_inv_def]
  have rs: "ring_size n (vq_nentries s)" and n: "unat (vq_nentries s) = n" "v_num r = n" using I by (simp_all add: ring_size_def)
  define r' where "r' = r\<lparr>used_ring := (used_ring r)(unat (used_idx r AND (vq_nentries s - 1)) := (ucast (vq_nentries s), len)),
    used_idx := used_idx r + 1\<rparr>"
  have w: "window (used_ring r') n (unat (vq_used_cons_idx m)) (unat (used_idx r' - vq_used_cons_idx m)) =
      (ucast (vq_nentries s), len) # []"
    using ring_push[OF rs, of "used_ring r" "vq_used_cons_idx m" "used_idx r" "[]"] I e ring_size_mask(3)[OF rs]
    by (simp add: r'_def)
  have "ring_size n (vq_nentries m)" using I by simp
  note pop = ring_pop[OF this w]
  have "virtqueue_get_buffer m r' = None"
    using pop n by (simp add: virtqueue_get_buffer_def vq_ring_free_chain_def Let_def in_table_def r'_def)
  then show "case virtqueue_add_consumed_buffer (vq_nentries s) len s r of (_, _, r') \<Rightarrow> virtqueue_get_buffer m r' = None"
    by (simp add: virtqueue_add_consumed_buffer_def Let_def r'_def)
qed (simp_all add: virtqueue_add_consumed_buffer_def Let_def)

theorem consumed_index_check_witness:
  "\<exists>m s r. vq_create_both 0 2 (demo_vq VIRTIO_DEV_MASTER) (demo_vq VIRTIO_DEV_SLAVE) demo_vring = (m, s, r) \<and>
     virtqueue_add_consumed_buffer 3 8 s r = (ERROR_VRING_NO_BUFF, s, r) \<and>
     fst (virtqueue_add_consumed_buffer 2 8 s r) = VQUEUE_SUCCESS \<and>
     (case virtqueue_add_consumed_buffer 2 8 s r of (_, _, r') \<Rightarrow> virtqueue_get_buffer m r' = None)"
proof -
  obtain m s r where c: "vq_create_both 0 2 (demo_vq VIRTIO_DEV_MASTER) (demo_vq VIRTIO_DEV_SLAVE) demo_vring = (m, s, r)"
    and i: "vq_inv 2 demo_io (ch_empty 2) m s r" by (rule demo_inv)
  have n: "vq_nentries s = 2" using c by (auto simp: vq_create_both_def virtqueue_create_def Let_def)
  from consumed_index_check[OF i, of 3 8] consumed_index_check[OF i, of 2 8] c show ?thesis
    by (simp add: n ch_empty_def)
qed

end
