(* ===== verification/Rpmsg.thy ===== *)
theory Rpmsg
  imports Prelude
begin

text \<open>
  Endpoints of the message layer (\<^verbatim>\<open>Middlewares/Third_Party/OpenAMP/open-amp/lib/rpmsg/rpmsg.c\<close>,
  \<^verbatim>\<open>rpmsg_internal.h\<close>, the inline functions of \<^verbatim>\<open>rpmsg.h\<close>, and the bitmaps of
  \<^verbatim>\<open>libmetal/lib/include/metal/utilities.h\<close>): allocation of addresses, registration, look-up, and the entry points for
  sending. What a device does with a message is behind the operations of the device (\<open>rpmsg_device_ops\<close>); its
  state is the type parameter \<open>'t\<close>. Endpoint objects belong to the application and are named by numbers; a null
  pointer is \<open>None\<close>. The mutex of the device is not modelled: no function is interrupted inside its critical section.

  The theory shows that the addresses of endpoints are unique, that the bitmap says exactly which are in use, and that a
  message for an address is routed to the one endpoint that has it.
\<close>

section \<open>Bitmaps\<close>

definition METAL_BITS_PER_ULONG :: nat where "METAL_BITS_PER_ULONG = 32"

definition metal_bit :: "nat \<Rightarrow> u32" where "metal_bit b = push_bit b 1"

definition metal_bitmap_set_bit :: "nat \<Rightarrow> u32 list \<Rightarrow> u32 list" where
  "metal_bitmap_set_bit b bm =
     bm[b div METAL_BITS_PER_ULONG :=
       bm ! (b div METAL_BITS_PER_ULONG) OR metal_bit (b AND (METAL_BITS_PER_ULONG - 1))]"

definition metal_bitmap_is_bit_set :: "nat \<Rightarrow> u32 list \<Rightarrow> bool" where
  "metal_bitmap_is_bit_set b bm \<longleftrightarrow>
     bm ! (b div METAL_BITS_PER_ULONG) AND metal_bit (b AND (METAL_BITS_PER_ULONG - 1)) \<noteq> 0"

definition metal_bitmap_clear_bit :: "nat \<Rightarrow> u32 list \<Rightarrow> u32 list" where
  "metal_bitmap_clear_bit b bm =
     bm[b div METAL_BITS_PER_ULONG :=
       bm ! (b div METAL_BITS_PER_ULONG) AND NOT (metal_bit (b AND (METAL_BITS_PER_ULONG - 1)))]"

definition metal_bitmap_is_bit_clear :: "nat \<Rightarrow> u32 list \<Rightarrow> bool" where
  "metal_bitmap_is_bit_clear b bm \<longleftrightarrow> \<not> metal_bitmap_is_bit_set b bm"

function metal_bitmap_next_clear_bit :: "u32 list \<Rightarrow> nat \<Rightarrow> nat \<Rightarrow> nat" where
  "metal_bitmap_next_clear_bit bm b mx =
     (if b < mx \<and> \<not> metal_bitmap_is_bit_clear b bm then metal_bitmap_next_clear_bit bm (Suc b) mx else b)"
  by pat_completeness auto

termination metal_bitmap_next_clear_bit
  by (relation "measure (\<lambda>(_, b, mx). mx - b)") auto

declare metal_bitmap_next_clear_bit.simps [simp del]

section \<open>Addresses\<close>

definition RPMSG_NAME_SIZE :: nat where "RPMSG_NAME_SIZE = 32"
definition RPMSG_ADDR_BMP_SIZE :: nat where "RPMSG_ADDR_BMP_SIZE = 128"
definition RPMSG_NS_EPT_ADDR :: u32 where "RPMSG_NS_EPT_ADDR = 0x35"
definition RPMSG_RESERVED_ADDRESSES :: u32 where "RPMSG_RESERVED_ADDRESSES = 1024"
definition RPMSG_ADDR_ANY :: u32 where "RPMSG_ADDR_ANY = 0xFFFFFFFF"
definition RPMSG_SUCCESS :: int where "RPMSG_SUCCESS = 0"
definition RPMSG_ERR_NO_BUFF :: int where "RPMSG_ERR_NO_BUFF = - 2002"
definition RPMSG_ERR_PARAM :: int where "RPMSG_ERR_PARAM = - 2003"
definition RPMSG_ERR_ADDR :: int where "RPMSG_ERR_ADDR = - 2007"
definition RPMSG_NS_CREATE :: u32 where "RPMSG_NS_CREATE = 0"
definition RPMSG_NS_DESTROY :: u32 where "RPMSG_NS_DESTROY = 1"

lemmas rpmsg_consts = METAL_BITS_PER_ULONG_def RPMSG_ADDR_BMP_SIZE_def RPMSG_RESERVED_ADDRESSES_def RPMSG_ADDR_ANY_def
  RPMSG_SUCCESS_def RPMSG_ERR_PARAM_def RPMSG_ERR_ADDR_def

definition rpmsg_get_address :: "u32 list \<Rightarrow> nat \<Rightarrow> u32 \<times> u32 list" where
  "rpmsg_get_address bm sz =
     (let nextbit = metal_bitmap_next_clear_bit bm 0 sz
      in if nextbit < sz then (RPMSG_RESERVED_ADDRESSES + of_nat nextbit, metal_bitmap_set_bit nextbit bm)
         else (RPMSG_ADDR_ANY, bm))"

text \<open>The three functions below take the address as a signed number.\<close>

definition rpmsg_release_address :: "u32 list \<Rightarrow> nat \<Rightarrow> u32 \<Rightarrow> u32 list" where
  "rpmsg_release_address bm sz addr =
     (let a = sint addr - 1024 in if 0 \<le> a \<and> a < int sz then metal_bitmap_clear_bit (nat a) bm else bm)"

definition rpmsg_is_address_set :: "u32 list \<Rightarrow> nat \<Rightarrow> u32 \<Rightarrow> int" where
  "rpmsg_is_address_set bm sz addr =
     (let a = sint addr - 1024
      in if 0 \<le> a \<and> a < int sz then (if metal_bitmap_is_bit_set (nat a) bm then 1 else 0) else RPMSG_ERR_PARAM)"

definition rpmsg_set_address :: "u32 list \<Rightarrow> nat \<Rightarrow> u32 \<Rightarrow> int \<times> u32 list" where
  "rpmsg_set_address bm sz addr =
     (let a = sint addr - 1024
      in if 0 \<le> a \<and> a < int sz then (RPMSG_SUCCESS, metal_bitmap_set_bit (nat a) bm) else (RPMSG_ERR_PARAM, bm))"

section \<open>Devices and endpoints\<close>

text \<open>
  \<open>'f\<close> names functions of the application (callbacks). A name is kept in an array of 32 characters: the characters before
  its end, cut at 32.
\<close>

record 'f rpmsg_endpoint =
  ept_name :: string
  ept_rdev :: bool
  ept_addr :: u32
  ept_dest :: u32
  ept_cb :: "'f option"
  ept_unbind :: "'f option"

record ('t, 'f) rpmsg_device =
  endpoints :: "nat list"
  epts :: "nat \<Rightarrow> 'f rpmsg_endpoint"
  addr_bitmap :: "u32 list"
  support_ns :: bool
  ns_bind_cb :: "'f option"
  transport :: 't

text \<open>The operations a device offers; \<open>None\<close> is an operation that is not there, and a call that does not return.\<close>

record 't rpmsg_device_ops =
  op_send_offchannel_raw :: "(u32 \<Rightarrow> u32 \<Rightarrow> u8 list \<Rightarrow> int \<Rightarrow> bool \<Rightarrow> 't \<Rightarrow> (int \<times> 't) option) option"
  op_hold_rx_buffer :: "(u32 \<Rightarrow> 't \<Rightarrow> 't option) option"
  op_release_rx_buffer :: "(u32 \<Rightarrow> 't \<Rightarrow> 't option) option"
  op_get_tx_payload_buffer :: "(bool \<Rightarrow> 't \<Rightarrow> ((u32 \<times> u32) option \<times> 't) option) option"
  op_send_offchannel_nocopy :: "(u32 \<Rightarrow> u32 \<Rightarrow> u32 \<Rightarrow> int \<Rightarrow> 't \<Rightarrow> (int \<times> 't) option) option"

definition name_field :: "string \<Rightarrow> string" where
  "name_field s = take RPMSG_NAME_SIZE (takeWhile (\<lambda>c. c \<noteq> CHR 0x00) s)"

definition on_transport :: "('t \<Rightarrow> ('a \<times> 't) option) \<Rightarrow> ('t, 'f) rpmsg_device \<Rightarrow> ('a \<times> ('t, 'f) rpmsg_device) option" where
  "on_transport f d = map_option (\<lambda>(x, t). (x, d\<lparr>transport := t\<rparr>)) (f (transport d))"

definition attached :: "nat option \<Rightarrow> ('t, 'f) rpmsg_device \<Rightarrow> bool" where
  "attached ept d \<longleftrightarrow> (case ept of None \<Rightarrow> False | Some e \<Rightarrow> ept_rdev (epts d e))"

section \<open>Sending\<close>

definition rpmsg_send_offchannel_raw ::
  "'t rpmsg_device_ops \<Rightarrow> nat option \<Rightarrow> u32 \<Rightarrow> u32 \<Rightarrow> u8 list option \<Rightarrow> int \<Rightarrow> bool \<Rightarrow> ('t, 'f) rpmsg_device \<Rightarrow>
    (int \<times> ('t, 'f) rpmsg_device) option" where
  "rpmsg_send_offchannel_raw ops ept src dst data len wait d =
     (if \<not> attached ept d \<or> data = None \<or> dst = RPMSG_ADDR_ANY then Some (RPMSG_ERR_PARAM, d)
      else case op_send_offchannel_raw ops of
             Some f \<Rightarrow> on_transport (f src dst (the data) len wait) d
           | None \<Rightarrow> Some (RPMSG_ERR_PARAM, d))"

definition rpmsg_send ::
  "'t rpmsg_device_ops \<Rightarrow> nat \<Rightarrow> u8 list \<Rightarrow> ('t, 'f) rpmsg_device \<Rightarrow> (int \<times> ('t, 'f) rpmsg_device) option" where
  "rpmsg_send ops e data d =
     rpmsg_send_offchannel_raw ops (Some e) (ept_addr (epts d e)) (ept_dest (epts d e)) (Some data) (int (length data)) True d"

definition rpmsg_sendto ::
  "'t rpmsg_device_ops \<Rightarrow> nat \<Rightarrow> u8 list \<Rightarrow> u32 \<Rightarrow> ('t, 'f) rpmsg_device \<Rightarrow> (int \<times> ('t, 'f) rpmsg_device) option" where
  "rpmsg_sendto ops e data dst d =
     rpmsg_send_offchannel_raw ops (Some e) (ept_addr (epts d e)) dst (Some data) (int (length data)) True d"

definition rpmsg_trysend ::
  "'t rpmsg_device_ops \<Rightarrow> nat \<Rightarrow> u8 list \<Rightarrow> ('t, 'f) rpmsg_device \<Rightarrow> (int \<times> ('t, 'f) rpmsg_device) option" where
  "rpmsg_trysend ops e data d =
     rpmsg_send_offchannel_raw ops (Some e) (ept_addr (epts d e)) (ept_dest (epts d e)) (Some data) (int (length data)) False d"

text \<open>The bytes of a 32-bit field in memory, and of a name service message.\<close>

definition le32 :: "u32 \<Rightarrow> u8 list" where
  "le32 w = map (\<lambda>i. ucast (drop_bit (8 * i) w)) [0..<4]"

definition ns_msg_bytes :: "string \<Rightarrow> u32 \<Rightarrow> u32 \<Rightarrow> u8 list" where
  "ns_msg_bytes name addr flags =
     map (\<lambda>c. of_nat (of_char c)) name @ replicate (RPMSG_NAME_SIZE - length name) 0 @ le32 addr @ le32 flags"

definition rpmsg_send_ns_message ::
  "'t rpmsg_device_ops \<Rightarrow> nat \<Rightarrow> u32 \<Rightarrow> ('t, 'f) rpmsg_device \<Rightarrow> (int \<times> ('t, 'f) rpmsg_device) option" where
  "rpmsg_send_ns_message ops e flags d =
     (let ns_msg = ns_msg_bytes (name_field (ept_name (epts d e))) (ept_addr (epts d e)) flags
      in map_option (\<lambda>(ret, d). (if ret < 0 then ret else RPMSG_SUCCESS, d))
           (rpmsg_send_offchannel_raw ops (Some e) (ept_addr (epts d e)) RPMSG_NS_EPT_ADDR (Some ns_msg)
             (int (length ns_msg)) True d))"

definition rpmsg_hold_rx_buffer ::
  "'t rpmsg_device_ops \<Rightarrow> nat option \<Rightarrow> u32 \<Rightarrow> ('t, 'f) rpmsg_device \<Rightarrow> ('t, 'f) rpmsg_device option" where
  "rpmsg_hold_rx_buffer ops ept rxbuf d =
     (if \<not> attached ept d \<or> rxbuf = 0 then Some d
      else case op_hold_rx_buffer ops of Some f \<Rightarrow> map_option (\<lambda>t. d\<lparr>transport := t\<rparr>) (f rxbuf (transport d)) | None \<Rightarrow> Some d)"

definition rpmsg_release_rx_buffer ::
  "'t rpmsg_device_ops \<Rightarrow> nat option \<Rightarrow> u32 \<Rightarrow> ('t, 'f) rpmsg_device \<Rightarrow> ('t, 'f) rpmsg_device option" where
  "rpmsg_release_rx_buffer ops ept rxbuf d =
     (if \<not> attached ept d \<or> rxbuf = 0 then Some d
      else case op_release_rx_buffer ops of Some f \<Rightarrow> map_option (\<lambda>t. d\<lparr>transport := t\<rparr>) (f rxbuf (transport d)) | None \<Rightarrow> Some d)"

definition rpmsg_get_tx_payload_buffer ::
  "'t rpmsg_device_ops \<Rightarrow> nat option \<Rightarrow> bool \<Rightarrow> ('t, 'f) rpmsg_device \<Rightarrow> ((u32 \<times> u32) option \<times> ('t, 'f) rpmsg_device) option" where
  "rpmsg_get_tx_payload_buffer ops ept wait d =
     (if \<not> attached ept d then Some (None, d)
      else case op_get_tx_payload_buffer ops of Some f \<Rightarrow> on_transport (f wait) d | None \<Rightarrow> Some (None, d))"

definition rpmsg_send_offchannel_nocopy ::
  "'t rpmsg_device_ops \<Rightarrow> nat option \<Rightarrow> u32 \<Rightarrow> u32 \<Rightarrow> u32 \<Rightarrow> int \<Rightarrow> ('t, 'f) rpmsg_device \<Rightarrow>
    (int \<times> ('t, 'f) rpmsg_device) option" where
  "rpmsg_send_offchannel_nocopy ops ept src dst data len d =
     (if \<not> attached ept d \<or> data = 0 \<or> dst = RPMSG_ADDR_ANY then Some (RPMSG_ERR_PARAM, d)
      else case op_send_offchannel_nocopy ops of
             Some f \<Rightarrow> on_transport (f src dst data len) d
           | None \<Rightarrow> Some (RPMSG_ERR_PARAM, d))"

section \<open>Registration\<close>

text \<open>The loop over the endpoints of a device.\<close>

fun get_endpoint_loop :: "(nat \<Rightarrow> 'f rpmsg_endpoint) \<Rightarrow> string option \<Rightarrow> u32 \<Rightarrow> u32 \<Rightarrow> nat list \<Rightarrow> nat option" where
  "get_endpoint_loop eps name addr dest_addr [] = None"
| "get_endpoint_loop eps name addr dest_addr (e # es) =
     (let ept = eps e in
      if addr \<noteq> RPMSG_ADDR_ANY \<and> ept_addr ept = addr then Some e
      else if addr = ept_addr ept \<and> dest_addr = ept_dest ept then Some e
      else let name_match = (case name of Some n \<Rightarrow> name_field (ept_name ept) = name_field n | None \<Rightarrow> False)
           in if name = None \<or> \<not> name_match then get_endpoint_loop eps name addr dest_addr es
              else if dest_addr \<noteq> RPMSG_ADDR_ANY \<and> ept_dest ept = dest_addr then Some e
              else if addr = RPMSG_ADDR_ANY \<and> ept_dest ept = RPMSG_ADDR_ANY then Some e
              else get_endpoint_loop eps name addr dest_addr es)"

definition rpmsg_get_endpoint :: "('t, 'f) rpmsg_device \<Rightarrow> string option \<Rightarrow> u32 \<Rightarrow> u32 \<Rightarrow> nat option" where
  "rpmsg_get_endpoint d name addr dest_addr = get_endpoint_loop (epts d) name addr dest_addr (endpoints d)"

definition rpmsg_get_ept_from_addr :: "('t, 'f) rpmsg_device \<Rightarrow> u32 \<Rightarrow> nat option" where
  "rpmsg_get_ept_from_addr d addr = rpmsg_get_endpoint d None addr RPMSG_ADDR_ANY"

definition rpmsg_unregister_endpoint :: "nat \<Rightarrow> ('t, 'f) rpmsg_device \<Rightarrow> ('t, 'f) rpmsg_device" where
  "rpmsg_unregister_endpoint e d =
     (let d = (if ept_addr (epts d e) \<noteq> RPMSG_ADDR_ANY
               then d\<lparr>addr_bitmap := rpmsg_release_address (addr_bitmap d) RPMSG_ADDR_BMP_SIZE (ept_addr (epts d e))\<rparr>
               else d);
          d = d\<lparr>endpoints := remove1 e (endpoints d)\<rparr>
      in d\<lparr>epts := (epts d)(e := (epts d e)\<lparr>ept_rdev := False\<rparr>)\<rparr>)"

definition rpmsg_register_endpoint :: "nat \<Rightarrow> ('t, 'f) rpmsg_device \<Rightarrow> ('t, 'f) rpmsg_device" where
  "rpmsg_register_endpoint e d =
     (let d = d\<lparr>epts := (epts d)(e := (epts d e)\<lparr>ept_rdev := True\<rparr>)\<rparr>
      in d\<lparr>endpoints := endpoints d @ [e]\<rparr>)"

definition rpmsg_initialize_ept ::
  "nat \<Rightarrow> string option \<Rightarrow> u32 \<Rightarrow> u32 \<Rightarrow> 'f option \<Rightarrow> 'f option \<Rightarrow> ('t, 'f) rpmsg_device \<Rightarrow> ('t, 'f) rpmsg_device" where
  "rpmsg_initialize_ept e name src dest cb unbind d =
     d\<lparr>epts := (epts d)(e := (epts d e)\<lparr>ept_name := name_field (case name of Some n \<Rightarrow> n | None \<Rightarrow> []),
       ept_addr := src, ept_dest := dest, ept_cb := cb, ept_unbind := unbind\<rparr>)\<rparr>"

text \<open>The address an endpoint gets: an error, or the address and the bitmap in which it is taken.\<close>

definition choose_address :: "u32 \<Rightarrow> u32 list \<Rightarrow> int + u32 \<times> u32 list" where
  "choose_address src bm =
     (if src = RPMSG_ADDR_ANY then
        (case rpmsg_get_address bm RPMSG_ADDR_BMP_SIZE of
           (addr, bm) \<Rightarrow> if addr = RPMSG_ADDR_ANY then Inl RPMSG_ERR_ADDR else Inr (addr, bm))
      else if src \<ge> RPMSG_RESERVED_ADDRESSES then
        (let status = rpmsg_is_address_set bm RPMSG_ADDR_BMP_SIZE src
         in if status = 0 then Inr (src, snd (rpmsg_set_address bm RPMSG_ADDR_BMP_SIZE src))
            else if status > 0 then Inl RPMSG_ERR_ADDR
            else Inl status)
      else Inr (src, bm))"

definition rpmsg_create_ept ::
  "'t rpmsg_device_ops \<Rightarrow> nat option \<Rightarrow> string option \<Rightarrow> u32 \<Rightarrow> u32 \<Rightarrow> 'f option \<Rightarrow> 'f option \<Rightarrow>
    ('t, 'f) rpmsg_device \<Rightarrow> (int \<times> ('t, 'f) rpmsg_device) option" where
  "rpmsg_create_ept ops ept name src dest cb unbind d =
     (case ept of None \<Rightarrow> Some (RPMSG_ERR_PARAM, d)
      | Some e \<Rightarrow>
          case choose_address src (addr_bitmap d) of
            Inl status \<Rightarrow> Some (status, d)
          | Inr (addr, bm) \<Rightarrow>
              let d = rpmsg_register_endpoint e (rpmsg_initialize_ept e name addr dest cb unbind (d\<lparr>addr_bitmap := bm\<rparr>))
              in case (if ept_name (epts d e) \<noteq> [] \<and> support_ns d \<and> ept_dest (epts d e) = RPMSG_ADDR_ANY
                       then rpmsg_send_ns_message ops e RPMSG_NS_CREATE d else Some (RPMSG_SUCCESS, d)) of
                   None \<Rightarrow> None
                 | Some (status, d) \<Rightarrow>
                     Some (status, if status \<noteq> RPMSG_SUCCESS then rpmsg_unregister_endpoint e d else d))"

definition rpmsg_destroy_ept :: "'t rpmsg_device_ops \<Rightarrow> nat option \<Rightarrow> ('t, 'f) rpmsg_device \<Rightarrow> ('t, 'f) rpmsg_device option" where
  "rpmsg_destroy_ept ops ept d =
     (if \<not> attached ept d then Some d
      else let e = the ept
           in map_option (\<lambda>(_, d). rpmsg_unregister_endpoint e d)
                (if ept_name (epts d e) \<noteq> [] \<and> support_ns d \<and> ept_addr (epts d e) \<ge> RPMSG_RESERVED_ADDRESSES
                 then rpmsg_send_ns_message ops e RPMSG_NS_DESTROY d else Some (RPMSG_SUCCESS, d)))"

section \<open>Bitmaps as sets\<close>

text \<open>A bitmap for the addresses of a device has four words.\<close>

abbreviation taken :: "u32 list \<Rightarrow> nat \<Rightarrow> bool" where
  "taken bm i \<equiv> metal_bitmap_is_bit_set i bm"

lemma and_31: "i AND 31 = i mod 32" for i :: nat
  using take_bit_eq_mask[of 5 i] by (simp add: take_bit_eq_mod mask_eq_exp_minus_1)

lemma taken_iff: "taken bm i \<longleftrightarrow> bit (bm ! (i div 32)) (i mod 32)"
  by (simp add: metal_bitmap_is_bit_set_def metal_bit_def METAL_BITS_PER_ULONG_def and_31 bit_iff_and_push_bit_not_eq_0
      del: push_bit_of_1)

lemma length_bitmaps [simp]: "length (metal_bitmap_set_bit i bm) = length bm" "length (metal_bitmap_clear_bit i bm) = length bm"
  by (simp_all add: metal_bitmap_set_bit_def metal_bitmap_clear_bit_def)

lemma taken_set [simp]:
  assumes "length bm = 4" "i < 128" "j < 128"
  shows "taken (metal_bitmap_set_bit i bm) j \<longleftrightarrow> j = i \<or> taken bm j"
proof -
  have "i div 32 < 4" "j div 32 < 4" using assms by auto
  moreover have "j = i \<longleftrightarrow> j div 32 = i div 32 \<and> j mod 32 = i mod 32" by (metis div_mult_mod_eq)
  ultimately show ?thesis
    using assms by (auto simp: taken_iff metal_bitmap_set_bit_def metal_bit_def METAL_BITS_PER_ULONG_def and_31 nth_list_update bit_simps)
qed

lemma taken_clear [simp]:
  assumes "length bm = 4" "i < 128" "j < 128"
  shows "taken (metal_bitmap_clear_bit i bm) j \<longleftrightarrow> j \<noteq> i \<and> taken bm j"
proof -
  have "i div 32 < 4" "j div 32 < 4" using assms by auto
  moreover have "j = i \<longleftrightarrow> j div 32 = i div 32 \<and> j mod 32 = i mod 32" by (metis div_mult_mod_eq)
  ultimately show ?thesis
    using assms by (auto simp: taken_iff metal_bitmap_clear_bit_def metal_bit_def METAL_BITS_PER_ULONG_def and_31 nth_list_update bit_simps)
qed

lemma next_clear_bit:
  "b \<le> mx \<Longrightarrow> b \<le> metal_bitmap_next_clear_bit bm b mx \<and> metal_bitmap_next_clear_bit bm b mx \<le> mx \<and>
    (\<forall>j. b \<le> j \<and> j < metal_bitmap_next_clear_bit bm b mx \<longrightarrow> taken bm j) \<and>
    (metal_bitmap_next_clear_bit bm b mx < mx \<longrightarrow> \<not> taken bm (metal_bitmap_next_clear_bit bm b mx))"
proof (induction bm b mx rule: metal_bitmap_next_clear_bit.induct)
  case (1 bm b mx)
  show ?case
  proof (cases "b < mx \<and> taken bm b")
    case True
    then have "metal_bitmap_next_clear_bit bm b mx = metal_bitmap_next_clear_bit bm (Suc b) mx"
      by (subst metal_bitmap_next_clear_bit.simps) (simp add: metal_bitmap_is_bit_clear_def)
    moreover have "b \<le> j \<and> j < n \<longrightarrow> j = b \<or> Suc b \<le> j \<and> j < n" for j n by auto
    moreover have "\<not> metal_bitmap_is_bit_clear b bm" "Suc b \<le> mx" using True by (simp_all add: metal_bitmap_is_bit_clear_def)
    ultimately show ?thesis using 1(1) True by (metis Suc_leD)
  next
    case False
    then have "metal_bitmap_next_clear_bit bm b mx = b"
      by (subst metal_bitmap_next_clear_bit.simps) (auto simp: metal_bitmap_is_bit_clear_def)
    then show ?thesis using 1(2) False by auto
  qed
qed

text \<open>Addresses from 1024 on are places of the bitmap.\<close>

definition dyn :: "nat \<Rightarrow> u32" where "dyn i = RPMSG_RESERVED_ADDRESSES + of_nat i"

lemma unat_dyn:
  assumes "i < 128"
  shows "unat (dyn i) = 1024 + i"
proof -
  have "dyn i = of_nat (1024 + i)" by (simp add: dyn_def RPMSG_RESERVED_ADDRESSES_def)
  then have "unat (dyn i) = (1024 + i) mod 2 ^ 32" by (simp only: unat_of_nat) simp
  also have "\<dots> = 1024 + i" by (rule mod_less) (use assms in simp)
  finally show ?thesis .
qed

lemma dyn_inj: "i < 128 \<Longrightarrow> j < 128 \<Longrightarrow> dyn i = dyn j \<longleftrightarrow> i = j"
  by (metis unat_dyn add_left_cancel)

lemma dyn_not_any [simp]: "i < 128 \<Longrightarrow> dyn i \<noteq> RPMSG_ADDR_ANY"
proof
  assume i: "i < 128" and "dyn i = RPMSG_ADDR_ANY"
  then have "1024 + i = unat RPMSG_ADDR_ANY" using unat_dyn[OF i] by simp
  also have "\<dots> = 4294967295" by (simp add: RPMSG_ADDR_ANY_def)
  finally show False using i by simp
qed

lemma dyn_ge [simp]:
  assumes "i < 128"
  shows "RPMSG_RESERVED_ADDRESSES \<le> dyn i"
  unfolding word_le_nat_alt unat_dyn[OF assms] by (simp add: RPMSG_RESERVED_ADDRESSES_def)

lemma sint_unat_small:
  assumes "unat (w :: u32) < 2 ^ 31"
  shows "sint w = int (unat w)"
proof -
  have u: "uint w = int (unat w)" by simp
  have "int (unat w) < 2 ^ 31" using assms by (metis of_nat_less_iff of_nat_numeral of_nat_power)
  moreover have "- (2 ^ 31) \<le> int (unat w)" by (rule order_trans[of _ 0]) simp_all
  ultimately have "signed_take_bit 31 (int (unat w)) = int (unat w)" by (intro signed_take_bit_int_eq_self)
  then show ?thesis unfolding sint_uint u by simp
qed

lemma sint_dyn: "i < 128 \<Longrightarrow> sint (dyn i) = 1024 + int i"
  by (subst sint_unat_small; simp only: unat_dyn) simp_all

text \<open>The signed range test of the source selects exactly these addresses.\<close>

lemma in_bitmap_iff:
  assumes "0 \<le> sint addr - 1024" "sint addr - 1024 < 128"
  shows "addr = dyn (nat (sint addr - 1024))"
proof -
  have i: "nat (sint addr - 1024) < 128" using assms by linarith
  have "sint (dyn (nat (sint addr - 1024))) = sint addr" using sint_dyn[OF i] assms by simp
  then show ?thesis by (metis signed_word_eqI)
qed

lemma address_calls [simp]:
  assumes "i < 128"
  shows "rpmsg_release_address bm RPMSG_ADDR_BMP_SIZE (dyn i) = metal_bitmap_clear_bit i bm"
    and "rpmsg_is_address_set bm RPMSG_ADDR_BMP_SIZE (dyn i) = (if taken bm i then 1 else 0)"
    and "rpmsg_set_address bm RPMSG_ADDR_BMP_SIZE (dyn i) = (RPMSG_SUCCESS, metal_bitmap_set_bit i bm)"
  using assms by (simp_all add: rpmsg_release_address_def rpmsg_is_address_set_def rpmsg_set_address_def sint_dyn
      RPMSG_ADDR_BMP_SIZE_def Let_def)

lemma address_calls_outside:
  assumes "\<And>i. i < 128 \<Longrightarrow> addr \<noteq> dyn i"
  shows "rpmsg_release_address bm RPMSG_ADDR_BMP_SIZE addr = bm"
    and "rpmsg_is_address_set bm RPMSG_ADDR_BMP_SIZE addr = RPMSG_ERR_PARAM"
proof -
  have "\<not> (0 \<le> sint addr - 1024 \<and> sint addr - 1024 < 128)"
    using in_bitmap_iff[of addr] assms[of "nat (sint addr - 1024)"] by fastforce
  then show "rpmsg_release_address bm RPMSG_ADDR_BMP_SIZE addr = bm"
    "rpmsg_is_address_set bm RPMSG_ADDR_BMP_SIZE addr = RPMSG_ERR_PARAM"
    by (auto simp: rpmsg_release_address_def rpmsg_is_address_set_def RPMSG_ADDR_BMP_SIZE_def Let_def)
qed

section \<open>The addresses in use\<close>

definition dev_inv :: "('t, 'f) rpmsg_device \<Rightarrow> bool" where
  "dev_inv d \<longleftrightarrow> length (addr_bitmap d) = 4 \<and> distinct (endpoints d) \<and>
     (\<forall>e. ept_rdev (epts d e) \<longleftrightarrow> e \<in> set (endpoints d)) \<and>
     (\<forall>e \<in> set (endpoints d). ept_addr (epts d e) < RPMSG_RESERVED_ADDRESSES \<or> (\<exists>i < 128. ept_addr (epts d e) = dyn i)) \<and>
     (\<forall>i < 128. taken (addr_bitmap d) i \<longleftrightarrow> (\<exists>e \<in> set (endpoints d). ept_addr (epts d e) = dyn i)) \<and>
     (\<forall>e \<in> set (endpoints d). \<forall>e' \<in> set (endpoints d).
        ept_addr (epts d e) = ept_addr (epts d e') \<longrightarrow> RPMSG_RESERVED_ADDRESSES \<le> ept_addr (epts d e) \<longrightarrow> e = e')"

lemma dev_inv_transport [simp]: "dev_inv (d\<lparr>transport := t\<rparr>) = dev_inv d"
  by (simp add: dev_inv_def)

lemma send_frame:
  assumes "rpmsg_send_offchannel_raw ops ept src dst data len wait d = Some (ret, d')"
  shows "\<exists>t. d' = d\<lparr>transport := t\<rparr>"
  using assms by (auto simp: rpmsg_send_offchannel_raw_def on_transport_def split: if_splits option.splits)
    (metis rpmsg_device.surjective rpmsg_device.update_convs(6))+

lemma ns_frame:
  assumes "rpmsg_send_ns_message ops e flags d = Some (ret, d')"
  shows "\<exists>t. d' = d\<lparr>transport := t\<rparr>" and "ret \<le> 0"
  using assms by (auto simp: rpmsg_send_ns_message_def Let_def RPMSG_SUCCESS_def dest: send_frame split: if_splits)

text \<open>What \<open>choose_address\<close> returns: a reserved address as it is, otherwise a free place of the bitmap.\<close>

lemma choose_any:
  assumes "length bm = 4"
  shows "(\<forall>i < 128. taken bm i) \<Longrightarrow> choose_address RPMSG_ADDR_ANY bm = Inl RPMSG_ERR_ADDR"
    and "i < 128 \<Longrightarrow> \<not> taken bm i \<Longrightarrow> (\<forall>j < i. taken bm j) \<Longrightarrow>
      choose_address RPMSG_ADDR_ANY bm = Inr (dyn i, metal_bitmap_set_bit i bm)"
proof -
  note n = next_clear_bit[of 0 128 bm, simplified]
  show "choose_address RPMSG_ADDR_ANY bm = Inl RPMSG_ERR_ADDR" if "\<forall>i < 128. taken bm i"
    using n that by (auto simp: choose_address_def rpmsg_get_address_def RPMSG_ADDR_BMP_SIZE_def Let_def)
  assume i: "i < 128" "\<not> taken bm i" "\<forall>j < i. taken bm j"
  have "metal_bitmap_next_clear_bit bm 0 128 = i"
    using n i by (metis le_neq_implies_less linorder_neqE_nat not_less)
  then show "choose_address RPMSG_ADDR_ANY bm = Inr (dyn i, metal_bitmap_set_bit i bm)"
    using i(1) dyn_not_any[OF i(1)] by (simp add: choose_address_def rpmsg_get_address_def RPMSG_ADDR_BMP_SIZE_def Let_def dyn_def)
qed

lemma choose_spec:
  assumes "length bm = 4" "choose_address src bm = Inr (addr, bm')"
  obtains "addr < RPMSG_RESERVED_ADDRESSES" "bm' = bm"
  | i where "i < 128" "addr = dyn i" "\<not> taken bm i" "bm' = metal_bitmap_set_bit i bm"
proof (cases "src = RPMSG_ADDR_ANY")
  case True
  have "\<not> (\<forall>i < 128. taken bm i)" using choose_any(1)[OF assms(1)] assms(2) True by auto
  then have "\<exists>i. i < 128 \<and> \<not> taken bm i" by blast
  then obtain i where i: "i < 128 \<and> \<not> taken bm i" and least: "\<forall>j < i. \<not> (j < 128 \<and> \<not> taken bm j)"
    using exists_least_iff[of "\<lambda>i. i < 128 \<and> \<not> taken bm i"] by blast
  then have "\<forall>j < i. taken bm j" by auto
  then have "choose_address RPMSG_ADDR_ANY bm = Inr (dyn i, metal_bitmap_set_bit i bm)"
    using choose_any(2)[OF assms(1), of i] i by blast
  then show ?thesis using that(2)[of i] i assms(2) True by simp
next
  case False
  show ?thesis
  proof (cases "src < RPMSG_RESERVED_ADDRESSES")
    case True
    then have "\<not> RPMSG_RESERVED_ADDRESSES \<le> src" by simp
    then have "choose_address src bm = Inr (src, bm)" unfolding choose_address_def if_not_P[OF False] by (rule if_not_P)
    then show ?thesis using that(1) assms(2) True by simp
  next
    case ge: False
    then have st: "rpmsg_is_address_set bm RPMSG_ADDR_BMP_SIZE src = 0"
      using assms(2) False by (auto simp: choose_address_def Let_def not_less split: if_splits)
    then obtain i where i: "i < 128" "src = dyn i"
      using address_calls_outside(2)[of src bm] by (auto simp: RPMSG_ERR_PARAM_def)
    then show ?thesis using that(2)[of i] st assms(2) False ge by (auto simp: choose_address_def not_less split: if_splits)
  qed
qed

lemma registered_simps [simp]:
  fixes d :: "('t, 'f) rpmsg_device"
  shows "endpoints (rpmsg_register_endpoint e (rpmsg_initialize_ept e name addr dest cb unbind d)) = endpoints d @ [e]"
    "addr_bitmap (rpmsg_register_endpoint e (rpmsg_initialize_ept e name addr dest cb unbind d)) = addr_bitmap d"
    "support_ns (rpmsg_register_endpoint e (rpmsg_initialize_ept e name addr dest cb unbind d)) = support_ns d"
    "epts (rpmsg_register_endpoint e (rpmsg_initialize_ept e name addr dest cb unbind d)) = (epts d)(e := (epts d e)
      \<lparr>ept_name := name_field (case name of Some n \<Rightarrow> n | None \<Rightarrow> []), ept_addr := addr, ept_dest := dest,
       ept_cb := cb, ept_unbind := unbind, ept_rdev := True\<rparr>)"
  by (simp_all add: rpmsg_register_endpoint_def rpmsg_initialize_ept_def Let_def)

lemma unregistered_simps [simp]:
  fixes d :: "('t, 'f) rpmsg_device"
  shows "endpoints (rpmsg_unregister_endpoint e d) = remove1 e (endpoints d)"
    "epts (rpmsg_unregister_endpoint e d) = (epts d)(e := (epts d e)\<lparr>ept_rdev := False\<rparr>)"
    "transport (rpmsg_unregister_endpoint e d) = transport d"
    "support_ns (rpmsg_unregister_endpoint e d) = support_ns d"
  by (simp_all add: rpmsg_unregister_endpoint_def Let_def)

lemma register_inv:
  assumes inv: "dev_inv d" and e: "e \<notin> set (endpoints d)" and ch: "choose_address src (addr_bitmap d) = Inr (addr, bm)"
  shows "dev_inv (rpmsg_register_endpoint e (rpmsg_initialize_ept e name addr dest cb unbind (d\<lparr>addr_bitmap := bm\<rparr>)))"
proof -
  note I = inv[unfolded dev_inv_def]
  have len: "length (addr_bitmap d) = 4" using I by simp
  let ?d = "rpmsg_register_endpoint e (rpmsg_initialize_ept e name addr dest cb unbind (d\<lparr>addr_bitmap := bm\<rparr>))"
  have A: "ept_addr (epts ?d x) = (if x = e then addr else ept_addr (epts d x))" for x by simp
  have new: "(addr < RPMSG_RESERVED_ADDRESSES \<or> (\<exists>i < 128. addr = dyn i)) \<and> length bm = 4 \<and>
      (\<forall>j < 128. taken bm j \<longleftrightarrow> addr = dyn j \<or> taken (addr_bitmap d) j) \<and>
      (\<forall>x \<in> set (endpoints d). RPMSG_RESERVED_ADDRESSES \<le> addr \<longrightarrow> ept_addr (epts d x) \<noteq> addr)"
    using len ch
  proof (cases rule: choose_spec)
    case 1
    then have "addr \<noteq> dyn j" if "j < 128" for j using dyn_ge[OF that] by auto
    then show ?thesis using 1 len by auto
  next
    case (2 i)
    then have "ept_addr (epts d x) \<noteq> addr" if "x \<in> set (endpoints d)" for x using I that by auto
    moreover have "addr = dyn j \<longleftrightarrow> j = i" if "j < 128" for j using 2 that dyn_inj[of i j] by auto
    ultimately show ?thesis using 2 len by auto
  qed
  have "length (addr_bitmap ?d) = 4" "distinct (endpoints ?d)" using I new e by simp_all
  moreover have "\<forall>x. ept_rdev (epts ?d x) \<longleftrightarrow> x \<in> set (endpoints ?d)" using I by simp
  moreover have "\<forall>x \<in> set (endpoints ?d). ept_addr (epts ?d x) < RPMSG_RESERVED_ADDRESSES \<or> (\<exists>i < 128. ept_addr (epts ?d x) = dyn i)"
    using I new unfolding A by simp
  moreover have "\<forall>i < 128. taken (addr_bitmap ?d) i \<longleftrightarrow> (\<exists>x \<in> set (endpoints ?d). ept_addr (epts ?d x) = dyn i)"
    using I new e unfolding A by auto
  moreover have "\<forall>x \<in> set (endpoints ?d). \<forall>y \<in> set (endpoints ?d). ept_addr (epts ?d x) = ept_addr (epts ?d y) \<longrightarrow>
      RPMSG_RESERVED_ADDRESSES \<le> ept_addr (epts ?d x) \<longrightarrow> x = y"
    using I new e unfolding A by auto
  ultimately show ?thesis unfolding dev_inv_def by blast
qed

lemma unregister_bitmap:
  "addr_bitmap (rpmsg_unregister_endpoint e d) = rpmsg_release_address (addr_bitmap d) RPMSG_ADDR_BMP_SIZE (ept_addr (epts d e))"
proof -
  have "rpmsg_release_address bm RPMSG_ADDR_BMP_SIZE RPMSG_ADDR_ANY = bm" for bm
    using address_calls_outside(1)[of RPMSG_ADDR_ANY bm] dyn_not_any by metis
  then show ?thesis by (simp add: rpmsg_unregister_endpoint_def Let_def)
qed

lemma unregister_inv:
  assumes inv: "dev_inv d" and e: "e \<in> set (endpoints d)"
  shows "dev_inv (rpmsg_unregister_endpoint e d)"
proof -
  note I = inv[unfolded dev_inv_def]
  let ?bm = "addr_bitmap (rpmsg_unregister_endpoint e d)"
  have rest: "set (remove1 e (endpoints d)) = set (endpoints d) - {e}" using I by simp
  have bm: "length ?bm = 4 \<and> (\<forall>j < 128. taken ?bm j \<longleftrightarrow> taken (addr_bitmap d) j \<and> ept_addr (epts d e) \<noteq> dyn j)"
  proof (cases "\<exists>i < 128. ept_addr (epts d e) = dyn i")
    case True
    then obtain i where "i < 128" "ept_addr (epts d e) = dyn i" by blast
    then show ?thesis using I dyn_inj[of i] by (auto simp: unregister_bitmap)
  next
    case False
    then show ?thesis using I address_calls_outside(1)[of "ept_addr (epts d e)" "addr_bitmap d"] by (auto simp: unregister_bitmap)
  qed
  have "taken ?bm j \<longleftrightarrow> (\<exists>x \<in> set (endpoints d) - {e}. ept_addr (epts d x) = dyn j)" if "j < 128" for j
    using bm I that e dyn_ge[OF that] by (metis DiffD1 DiffD2 DiffI insertI1 singletonD)
  then show ?thesis using I bm unfolding dev_inv_def by (auto simp: rest)
qed

text \<open>
  What happens to a device: endpoints that are not registered are created, endpoints are destroyed, the remote address of an
  endpoint is learnt or forgotten, and the transport moves on.
\<close>

inductive rpmsg_step :: "'t rpmsg_device_ops \<Rightarrow> ('t, 'f) rpmsg_device \<Rightarrow> ('t, 'f) rpmsg_device \<Rightarrow> bool" for ops where
  create: "e \<notin> set (endpoints d) \<Longrightarrow> rpmsg_create_ept ops (Some e) name src dest cb unbind d = Some (status, d') \<Longrightarrow>
    rpmsg_step ops d d'"
| destroy: "rpmsg_destroy_ept ops ept d = Some d' \<Longrightarrow> rpmsg_step ops d d'"
| rebind: "rpmsg_step ops d (d\<lparr>epts := (epts d)(e := (epts d e)\<lparr>ept_dest := a\<rparr>)\<rparr>)"
| traffic: "rpmsg_step ops d (d\<lparr>transport := t\<rparr>)"

inductive_cases rpmsg_stepE: "rpmsg_step ops d d'"

lemma create_cases:
  assumes ch: "choose_address src (addr_bitmap d) = Inr (addr, bm)"
    and run: "rpmsg_create_ept ops (Some e) name src dest cb unbind d = Some (status, d')"
  defines "d1 \<equiv> rpmsg_register_endpoint e (rpmsg_initialize_ept e name addr dest cb unbind (d\<lparr>addr_bitmap := bm\<rparr>))"
  obtains t where "d' = (if status = RPMSG_SUCCESS then d1\<lparr>transport := t\<rparr> else rpmsg_unregister_endpoint e (d1\<lparr>transport := t\<rparr>))"
proof -
  let ?X = "if ept_name (epts d1 e) \<noteq> [] \<and> support_ns d1 \<and> ept_dest (epts d1 e) = RPMSG_ADDR_ANY
    then rpmsg_send_ns_message ops e RPMSG_NS_CREATE d1 else Some (RPMSG_SUCCESS, d1)"
  have "(case ?X of None \<Rightarrow> None | Some (status, d) \<Rightarrow> Some (status, if status \<noteq> RPMSG_SUCCESS then rpmsg_unregister_endpoint e d else d))
      = Some (status, d')"
    using run unfolding rpmsg_create_ept_def Let_def option.case ch sum.case prod.case d1_def .
  then obtain d2 where X: "?X = Some (status, d2)"
    and d': "d' = (if status \<noteq> RPMSG_SUCCESS then rpmsg_unregister_endpoint e d2 else d2)"
    by (cases ?X) (auto simp del: if_split_asm split: prod.splits)
  have "\<exists>t. d2 = d1\<lparr>transport := t\<rparr>"
  proof (cases "ept_name (epts d1 e) \<noteq> [] \<and> support_ns d1 \<and> ept_dest (epts d1 e) = RPMSG_ADDR_ANY")
    case True
    show ?thesis by (rule ns_frame(1)[OF X[unfolded if_P[OF True]]])
  next
    case False
    show ?thesis using X[unfolded if_not_P[OF False]] by (intro exI[of _ "transport d1"]) simp
  qed
  then obtain t where "d2 = d1\<lparr>transport := t\<rparr>" by blast
  then show ?thesis using that[of t] d' by (cases "status = RPMSG_SUCCESS") simp_all
qed

lemma ept_create_inv:
  assumes inv: "dev_inv d" and e: "e \<notin> set (endpoints d)"
    and run: "rpmsg_create_ept ops (Some e) name src dest cb unbind d = Some (status, d')"
  shows "dev_inv d'"
proof (cases "choose_address src (addr_bitmap d)")
  case (Inl x)
  then show ?thesis using inv run by (simp add: rpmsg_create_ept_def)
next
  case (Inr p)
  obtain addr bm where p: "p = (addr, bm)" by (cases p)
  let ?d = "rpmsg_register_endpoint e (rpmsg_initialize_ept e name addr dest cb unbind (d\<lparr>addr_bitmap := bm\<rparr>))"
  have i: "dev_inv ?d" by (rule register_inv[OF inv e Inr[unfolded p]])
  obtain t where "d' = (if status = RPMSG_SUCCESS then ?d\<lparr>transport := t\<rparr> else rpmsg_unregister_endpoint e (?d\<lparr>transport := t\<rparr>))"
    by (rule create_cases[OF Inr[unfolded p] run])
  then show ?thesis using i unregister_inv[of "?d\<lparr>transport := t\<rparr>" e] by auto
qed

lemma destroy_inv:
  assumes inv: "dev_inv d" and run: "rpmsg_destroy_ept ops ept d = Some d'"
  shows "dev_inv d'"
proof (cases "attached ept d")
  case False
  then show ?thesis using inv run by (simp add: rpmsg_destroy_ept_def)
next
  case True
  then obtain e where e: "ept = Some e" "ept_rdev (epts d e)" by (cases ept) (auto simp: attached_def)
  obtain t where "d' = rpmsg_unregister_endpoint e (d\<lparr>transport := t\<rparr>)"
    using run True e ns_frame(1)[of ops e RPMSG_NS_DESTROY d] unfolding rpmsg_destroy_ept_def Let_def
    by (auto split: if_splits) (metis rpmsg_device.surjective rpmsg_device.update_convs(6))+
  moreover have "e \<in> set (endpoints d)" using inv e(2) by (simp add: dev_inv_def)
  ultimately show ?thesis using inv unregister_inv[of "d\<lparr>transport := t\<rparr>" e] by simp
qed

lemma step_inv:
  assumes "rpmsg_step ops d d'" "dev_inv d"
  shows "dev_inv d'"
  using assms
proof (cases rule: rpmsg_step.cases)
  case (rebind e a)
  then show ?thesis using assms(2) by (auto simp: dev_inv_def)
qed (use assms(2) in \<open>auto intro: ept_create_inv destroy_inv\<close>)

lemma steps_inv:
  assumes "(rpmsg_step ops)\<^sup>*\<^sup>* d d'" "dev_inv d"
  shows "dev_inv d'"
  using assms by (induction rule: rtranclp_induct) (auto intro: step_inv)

text \<open>A device as \<^verbatim>\<open>rpmsg_init_vdev\<close> leaves it before the name service is registered.\<close>

definition fresh_device :: "('t, 'f) rpmsg_device \<Rightarrow> bool" where
  "fresh_device d \<longleftrightarrow> endpoints d = [] \<and> addr_bitmap d = [0, 0, 0, 0] \<and> (\<forall>e. \<not> ept_rdev (epts d e))"

lemma less_4: "(i :: nat) < 4 \<Longrightarrow> i = 0 \<or> i = 1 \<or> i = 2 \<or> i = 3"
  by auto

lemma fresh_inv:
  assumes "fresh_device d"
  shows "dev_inv d"
proof -
  have "\<not> taken [0, 0, 0, 0] i" if "i < 128" for i
  proof -
    have "i div 32 < 4" using that by (simp add: div_less_iff_less_mult)
    from less_4[OF this] show ?thesis by (auto simp: taken_iff)
  qed
  then show ?thesis using assms by (auto simp: dev_inv_def fresh_device_def)
qed

text \<open>Look-up by address finds the first endpoint that has it.\<close>

lemma get_ept_from_addr:
  assumes "addr \<noteq> RPMSG_ADDR_ANY"
  shows "rpmsg_get_ept_from_addr d addr = find (\<lambda>e. ept_addr (epts d e) = addr) (endpoints d)"
proof -
  have "get_endpoint_loop eps None addr RPMSG_ADDR_ANY es = find (\<lambda>e. ept_addr (eps e) = addr) es" for eps es
    using assms by (induction es) (auto simp: Let_def)
  then show ?thesis by (simp add: rpmsg_get_ept_from_addr_def rpmsg_get_endpoint_def)
qed

section \<open>Properties\<close>

text \<open>
  C9: addresses identify endpoints. After any sequence of creations, destructions, changes of the remote address and
  traffic, whatever the device answers to the announcements, the bitmap marks exactly the addresses in use,
  no two registered endpoints share an address from 1024 on, and a message for such an address is routed to the one
  endpoint that has it, or to none.
\<close>

theorem endpoint_addresses_unique:
  assumes "fresh_device d0" and "(rpmsg_step ops)\<^sup>*\<^sup>* d0 d"
  shows "(\<forall>i < 128. taken (addr_bitmap d) i \<longleftrightarrow> (\<exists>e \<in> set (endpoints d). ept_addr (epts d e) = dyn i)) \<and>
    (\<forall>i < 128. rpmsg_get_ept_from_addr d (dyn i) = Some e \<longleftrightarrow> e \<in> set (endpoints d) \<and> ept_addr (epts d e) = dyn i)"
proof -
  have I: "dev_inv d" by (rule steps_inv[OF assms(2) fresh_inv[OF assms(1)]])
  have "rpmsg_get_ept_from_addr d (dyn i) = Some e \<longleftrightarrow> e \<in> set (endpoints d) \<and> ept_addr (epts d e) = dyn i" if i: "i < 128" for i
  proof
    assume "rpmsg_get_ept_from_addr d (dyn i) = Some e"
    then show "e \<in> set (endpoints d) \<and> ept_addr (epts d e) = dyn i"
      using i by (auto simp: get_ept_from_addr find_Some_iff)
  next
    assume e: "e \<in> set (endpoints d) \<and> ept_addr (epts d e) = dyn i"
    then have "rpmsg_get_ept_from_addr d (dyn i) \<noteq> None" using i by (auto simp: get_ept_from_addr find_None_iff)
    then obtain e' where e': "rpmsg_get_ept_from_addr d (dyn i) = Some e'" by auto
    then have "e' \<in> set (endpoints d)" "ept_addr (epts d e') = dyn i" using i by (auto simp: get_ept_from_addr find_Some_iff)
    then show "rpmsg_get_ept_from_addr d (dyn i) = Some e" using e e' I dyn_ge[OF i] unfolding dev_inv_def by metis
  qed
  then show ?thesis using I unfolding dev_inv_def by blast
qed

text \<open>
  Creating an endpoint without a given address. While one of the 128 addresses is free the endpoint gets the
  lowest free one and is the last of the list; when none is free the result is an error and nothing changes. If
  the announcement fails, the endpoint is taken out again, its address is free again, and the error is returned.
\<close>

theorem create_endpoint_any:
  assumes inv: "dev_inv d" and e: "e \<notin> set (endpoints d)"
    and run: "rpmsg_create_ept ops (Some e) name RPMSG_ADDR_ANY dest cb unbind d = Some (status, d')"
  shows "(if \<forall>i < 128. taken (addr_bitmap d) i then status = RPMSG_ERR_ADDR \<and> d' = d
    else if status = RPMSG_SUCCESS then endpoints d' = endpoints d @ [e] \<and> ept_dest (epts d' e) = dest \<and>
      ept_addr (epts d' e) = dyn (LEAST i. \<not> taken (addr_bitmap d) i)
    else endpoints d' = endpoints d \<and> \<not> ept_rdev (epts d' e) \<and>
      (\<forall>j < 128. taken (addr_bitmap d') j = taken (addr_bitmap d) j))"
proof (cases "\<forall>i < 128. taken (addr_bitmap d) i")
  case True
  then show ?thesis using choose_any(1)[of "addr_bitmap d"] inv run by (simp add: rpmsg_create_ept_def dev_inv_def)
next
  case False
  let ?bm = "addr_bitmap d"
  define i where "i = (LEAST i. \<not> taken ?bm i)"
  have len: "length ?bm = 4" using inv by (simp add: dev_inv_def)
  obtain k where k: "k < 128" "\<not> taken ?bm k" using False by blast
  have nt: "\<not> taken ?bm i" unfolding i_def by (rule LeastI[of _ k]) (rule k(2))
  have i: "i < 128" using Least_le[of "\<lambda>i. \<not> taken ?bm i", OF k(2)] k(1) by (simp add: i_def)
  have "taken ?bm j" if "j < i" for j
    using not_less_Least[OF that[unfolded i_def]] by blast
  then have ch: "choose_address RPMSG_ADDR_ANY ?bm = Inr (dyn i, metal_bitmap_set_bit i ?bm)"
    using choose_any(2)[OF len i] nt by blast
  let ?d = "rpmsg_register_endpoint e (rpmsg_initialize_ept e name (dyn i) dest cb unbind (d\<lparr>addr_bitmap := metal_bitmap_set_bit i ?bm\<rparr>))"
  obtain t where t: "d' = (if status = RPMSG_SUCCESS then ?d\<lparr>transport := t\<rparr> else rpmsg_unregister_endpoint e (?d\<lparr>transport := t\<rparr>))"
    by (rule create_cases[OF ch run])
  have restored: "remove1 e (endpoints d @ [e]) = endpoints d" using e by (simp add: remove1_append)
  show ?thesis
  proof (cases "status = RPMSG_SUCCESS")
    case True
    then show ?thesis unfolding if_not_P[OF False] if_P[OF True] t i_def[symmetric] by simp
  next
    case st: False
    have "taken (addr_bitmap d') j = taken ?bm j" if "j < 128" for j
      using that i nt len unfolding t if_not_P[OF st] by (auto simp: unregister_bitmap)
    then show ?thesis unfolding if_not_P[OF False] if_not_P[OF st] using t restored st by simp
  qed
qed

text \<open>A device without announcements, and its first endpoint.\<close>

definition silent_ops :: "unit rpmsg_device_ops" where
  "silent_ops = \<lparr>op_send_offchannel_raw = None, op_hold_rx_buffer = None, op_release_rx_buffer = None,
     op_get_tx_payload_buffer = None, op_send_offchannel_nocopy = None\<rparr>"

definition blank_device :: "(unit, unit) rpmsg_device" where
  "blank_device = \<lparr>endpoints = [], epts = \<lambda>_. \<lparr>ept_name = [], ept_rdev = False, ept_addr = 0, ept_dest = 0, ept_cb = None,
     ept_unbind = None\<rparr>, addr_bitmap = [0, 0, 0, 0], support_ns = False, ns_bind_cb = None, transport = ()\<rparr>"

lemma blank_fresh: "fresh_device blank_device"
  by (simp add: fresh_device_def blank_device_def)

lemma blank_create:
  "\<exists>d'. rpmsg_create_ept silent_ops (Some 0) (Some ''log'') RPMSG_ADDR_ANY RPMSG_ADDR_ANY None None blank_device = Some (RPMSG_SUCCESS, d')"
proof -
  have "\<not> taken [0, 0, 0, 0] 0" by (simp add: taken_iff)
  then have "choose_address RPMSG_ADDR_ANY [0, 0, 0, 0] = Inr (dyn 0, metal_bitmap_set_bit 0 [0, 0, 0, 0])"
    using choose_any(2)[of "[0, 0, 0, 0]" 0] by simp
  then show ?thesis by (simp add: rpmsg_create_ept_def blank_device_def Let_def)
qed

theorem create_endpoint_any_witness:
  "\<exists>d'. rpmsg_create_ept silent_ops (Some 0) (Some ''log'') RPMSG_ADDR_ANY RPMSG_ADDR_ANY None None blank_device = Some (RPMSG_SUCCESS, d') \<and>
    endpoints d' = [0] \<and> ept_addr (epts d' 0) = 1024"
proof -
  obtain d' where run: "rpmsg_create_ept silent_ops (Some 0) (Some ''log'') RPMSG_ADDR_ANY RPMSG_ADDR_ANY None None blank_device =
    Some (RPMSG_SUCCESS, d')" using blank_create by blast
  have n: "\<not> taken (addr_bitmap blank_device) 0" by (simp add: taken_iff blank_device_def)
  have e: "0 \<notin> set (endpoints blank_device)" by (simp add: blank_device_def)
  have l: "(LEAST i. \<not> taken (addr_bitmap blank_device) i) = 0" by (rule Least_equality) (use n in auto)
  have "\<not> (\<forall>i < 128. taken (addr_bitmap blank_device) i)" using n by (metis zero_less_numeral)
  with create_endpoint_any[OF fresh_inv[OF blank_fresh] e run] l have "endpoints d' = [0]" "ept_addr (epts d' 0) = dyn 0"
    by (simp_all add: blank_device_def)
  then show ?thesis using run by (simp add: dyn_def RPMSG_RESERVED_ADDRESSES_def)
qed

theorem endpoint_addresses_unique_witness:
  "\<exists>d. (rpmsg_step silent_ops)\<^sup>*\<^sup>* blank_device d \<and> rpmsg_get_ept_from_addr d 1024 = Some 0 \<and> taken (addr_bitmap d) 0"
proof -
  obtain d' where run: "rpmsg_create_ept silent_ops (Some 0) (Some ''log'') RPMSG_ADDR_ANY RPMSG_ADDR_ANY None None blank_device =
    Some (RPMSG_SUCCESS, d')" using blank_create by blast
  have "rpmsg_step silent_ops blank_device d'" by (rule rpmsg_step.create[OF _ run]) (simp add: blank_device_def)
  then have st: "(rpmsg_step silent_ops)\<^sup>*\<^sup>* blank_device d'" by blast
  have "\<not> taken [0, 0, 0, 0] 0" by (simp add: taken_iff)
  then have "choose_address RPMSG_ADDR_ANY [0, 0, 0, 0] = Inr (dyn 0, metal_bitmap_set_bit 0 [0, 0, 0, 0])"
    using choose_any(2)[of "[0, 0, 0, 0]" 0] by simp
  then have "endpoints d' = [0]" "ept_addr (epts d' 0) = dyn 0"
    using run by (auto simp: rpmsg_create_ept_def blank_device_def Let_def)
  then have "taken (addr_bitmap d') 0 \<and> rpmsg_get_ept_from_addr d' (dyn 0) = Some 0"
    using endpoint_addresses_unique[OF blank_fresh st, of 0] by auto
  then show ?thesis using st by (auto simp: dyn_def RPMSG_RESERVED_ADDRESSES_def)
qed

end
