(* ===== verification/Rpmsg_Virtio.thy ===== *)
theory Rpmsg_Virtio
  imports Virtqueue Rpmsg
begin

text \<open>
  Messages over virtqueues (\<^verbatim>\<open>Middlewares/Third_Party/OpenAMP/open-amp/lib/rpmsg/rpmsg_virtio.c\<close>, the block access of
  \<^verbatim>\<open>libmetal/lib/io.c\<close>), as the firmware is built: \<^verbatim>\<open>VIRTIO_SLAVE_ONLY\<close>, so the branches of the master are not there.
  The device of the previous theory has this transport: the two queues of the slave with their rings and the shared
  buffers.

  A shared buffer is named by the address of its header; it has the fields of \<^verbatim>\<open>struct rpmsg_hdr\<close> and its payload. The
  code reaches buffers only through the addresses in descriptors and 16 bytes behind them; different buffers do not
  overlap. \<open>None\<close> is a failed assertion or a crash.

  The theory shows that a message sent arrives unchanged at the other side's end of the queue, that the wait for a
  buffer is bounded and succeeds when one becomes free in time, and that the receive callback delivers all messages that
  are there, each once and in order, to the endpoint it is addressed to, and returns every buffer.
\<close>

record rpmsg_buf =
  h_src :: u32
  h_dst :: u32
  h_reserved :: u32
  h_len :: u16
  h_flags :: u16
  h_data :: "u8 list"

record rpmsg_virtio =
  rv_io :: metal_io_region
  rv_rvq :: "unit virtqueue"
  rv_svq :: "unit virtqueue"
  rv_rring :: vring
  rv_sring :: vring
  rv_shm :: "u32 \<Rightarrow> rpmsg_buf"
  rv_status :: u8

definition VIRTIO_CONFIG_STATUS_DRIVER_OK :: u8 where "VIRTIO_CONFIG_STATUS_DRIVER_OK = 0x04"
definition VIRTIO_CONFIG_STATUS_NEEDS_RESET :: u8 where "VIRTIO_CONFIG_STATUS_NEEDS_RESET = 0x40"
definition RPMSG_BUF_HELD :: u32 where "RPMSG_BUF_HELD = 0x80000000"
definition RPMSG_TICK_COUNT :: nat where "RPMSG_TICK_COUNT = 15000000"
definition RPMSG_TICKS_PER_INTERVAL :: nat where "RPMSG_TICKS_PER_INTERVAL = 1000"
definition sizeof_hdr :: u32 where "sizeof_hdr = 16"
definition sizeof_ns_msg :: u16 where "sizeof_ns_msg = 40"
definition ERANGE :: int where "ERANGE = 34"

definition RPMSG_LOCATE_HDR :: "u32 \<Rightarrow> u32" where "RPMSG_LOCATE_HDR p = p - sizeof_hdr"
definition RPMSG_LOCATE_DATA :: "u32 \<Rightarrow> u32" where "RPMSG_LOCATE_DATA p = p + sizeof_hdr"

lemma locate_back [simp]: "RPMSG_LOCATE_HDR (RPMSG_LOCATE_DATA p) = p"
  by (simp add: RPMSG_LOCATE_HDR_def RPMSG_LOCATE_DATA_def)

section \<open>Block access\<close>

text \<open>The number of bytes a block access of \<open>len\<close> bytes moves, or its error.\<close>

definition metal_io_block_len :: "metal_io_region \<Rightarrow> u32 \<Rightarrow> int \<Rightarrow> int" where
  "metal_io_block_len io offset len =
     (if metal_io_virt io offset = 0 then - ERANGE
      else if offset + of_int len > io_size io then sint (io_size io - offset)
      else len)"

text \<open>Writing the header of a buffer.\<close>

definition write_hdr :: "metal_io_region \<Rightarrow> u32 \<Rightarrow> (rpmsg_buf \<Rightarrow> rpmsg_buf) \<Rightarrow> (u32 \<Rightarrow> rpmsg_buf) \<Rightarrow> (u32 \<Rightarrow> rpmsg_buf) option" where
  "write_hdr io hdr f shm =
     (let status = metal_io_block_len io (metal_io_virt_to_offset io hdr) 16
      in if status \<noteq> 16 then None else Some (shm(hdr := f (shm hdr))))"

text \<open>Copying \<open>len\<close> bytes of \<open>data\<close> behind the header. A negative length and a length beyond the data run out of the source.\<close>

definition write_data :: "metal_io_region \<Rightarrow> u32 \<Rightarrow> u8 list \<Rightarrow> int \<Rightarrow> (u32 \<Rightarrow> rpmsg_buf) \<Rightarrow> (u32 \<Rightarrow> rpmsg_buf) option" where
  "write_data io buffer data len shm =
     (let status = metal_io_block_len io (metal_io_virt_to_offset io buffer) len;
          hdr = RPMSG_LOCATE_HDR buffer
      in if status \<noteq> len \<or> len < 0 \<or> int (length data) < len then None
         else Some (shm(hdr := (shm hdr)\<lparr>h_data := take (nat len) data @ drop (nat len) (h_data (shm hdr))\<rparr>)))"

section \<open>Buffers of the queues\<close>

definition rpmsg_virtio_return_buffer :: "u32 \<Rightarrow> u16 \<Rightarrow> rpmsg_virtio \<Rightarrow> rpmsg_virtio" where
  "rpmsg_virtio_return_buffer len idx t =
     (case virtqueue_add_consumed_buffer idx len (rv_rvq t) (rv_rring t) of
        (_, q, r) \<Rightarrow> t\<lparr>rv_rvq := q, rv_rring := r\<rparr>)"

definition rpmsg_virtio_enqueue_buffer :: "u32 \<Rightarrow> u16 \<Rightarrow> rpmsg_virtio \<Rightarrow> int \<times> rpmsg_virtio" where
  "rpmsg_virtio_enqueue_buffer len idx t =
     (case virtqueue_add_consumed_buffer idx len (rv_svq t) (rv_sring t) of
        (x, q, r) \<Rightarrow> (x, t\<lparr>rv_svq := q, rv_sring := r\<rparr>))"

text \<open>A buffer address of zero is the null pointer: no buffer for the caller, though it has left the queue.\<close>

definition non_null :: "(u32 \<times> u16 \<times> u32) option \<Rightarrow> (u32 \<times> u16 \<times> u32) option" where
  "non_null x = (case x of Some (b, i, l) \<Rightarrow> if b = 0 then None else x | None \<Rightarrow> None)"

definition rpmsg_virtio_get_tx_buffer :: "rpmsg_virtio \<Rightarrow> ((u32 \<times> u16 \<times> u32) option \<times> rpmsg_virtio) option" where
  "rpmsg_virtio_get_tx_buffer t =
     map_option (\<lambda>(x, q). (non_null x, t\<lparr>rv_svq := q\<rparr>)) (virtqueue_get_available_buffer (rv_io t) (rv_svq t) (rv_sring t))"

definition rpmsg_virtio_get_rx_buffer :: "rpmsg_virtio \<Rightarrow> ((u32 \<times> u16 \<times> u32) option \<times> rpmsg_virtio) option" where
  "rpmsg_virtio_get_rx_buffer t =
     map_option (\<lambda>(x, q). (non_null x, t\<lparr>rv_rvq := q\<rparr>)) (virtqueue_get_available_buffer (rv_io t) (rv_rvq t) (rv_rring t))"

definition rpmsg_virtio_get_buffer_size :: "rpmsg_virtio \<Rightarrow> int option" where
  "rpmsg_virtio_get_buffer_size t =
     map_option (\<lambda>sz. let length = sint (sz - sizeof_hdr) in if length < 0 then 0 else length)
       (virtqueue_get_desc_size (rv_svq t) (rv_sring t))"

definition rpmsg_virtio_hold_rx_buffer :: "u32 \<Rightarrow> rpmsg_virtio \<Rightarrow> rpmsg_virtio option" where
  "rpmsg_virtio_hold_rx_buffer rxbuf t =
     (let hdr = RPMSG_LOCATE_HDR rxbuf
      in Some (t\<lparr>rv_shm := (rv_shm t)(hdr := (rv_shm t hdr)\<lparr>h_reserved := h_reserved (rv_shm t hdr) OR RPMSG_BUF_HELD\<rparr>)\<rparr>))"

definition rpmsg_virtio_release_rx_buffer :: "u32 \<Rightarrow> rpmsg_virtio \<Rightarrow> rpmsg_virtio option" where
  "rpmsg_virtio_release_rx_buffer rxbuf t =
     (let hdr = RPMSG_LOCATE_HDR rxbuf;
          idx = ucast (h_reserved (rv_shm t hdr) AND NOT RPMSG_BUF_HELD) :: u16
      in map_option (\<lambda>len. rpmsg_virtio_return_buffer len idx t) (virtqueue_get_buffer_length idx (rv_rring t)))"

section \<open>Sending\<close>

text \<open>
  The wait for a buffer. \<open>sleep k\<close> is what happens on the other side while the function sleeps with \<open>k\<close> ticks left.
\<close>

primrec tx_wait ::
  "(nat \<Rightarrow> rpmsg_virtio \<Rightarrow> rpmsg_virtio) \<Rightarrow> nat \<Rightarrow> rpmsg_virtio \<Rightarrow> ((u32 \<times> u16 \<times> u32) option \<times> rpmsg_virtio) option" where
  "tx_wait sleep 0 t = rpmsg_virtio_get_tx_buffer t"
| "tx_wait sleep (Suc tick_count) t =
     (case rpmsg_virtio_get_tx_buffer t of
        None \<Rightarrow> None
      | Some (Some x, t) \<Rightarrow> Some (Some x, t)
      | Some (None, t) \<Rightarrow> tx_wait sleep tick_count (sleep (Suc tick_count) t))"

definition rpmsg_virtio_get_tx_payload_buffer ::
  "(nat \<Rightarrow> rpmsg_virtio \<Rightarrow> rpmsg_virtio) \<Rightarrow> bool \<Rightarrow> rpmsg_virtio \<Rightarrow> ((u32 \<times> u32) option \<times> rpmsg_virtio) option" where
  "rpmsg_virtio_get_tx_payload_buffer sleep wait t =
     (if rv_status t AND VIRTIO_CONFIG_STATUS_DRIVER_OK = 0 then Some (None, t)
      else case tx_wait sleep (if wait then RPMSG_TICK_COUNT div RPMSG_TICKS_PER_INTERVAL else 0) t of
             None \<Rightarrow> None
           | Some (None, t) \<Rightarrow> Some (None, t)
           | Some (Some (rp_hdr, idx, len), t) \<Rightarrow>
               let t = t\<lparr>rv_shm := (rv_shm t)(rp_hdr := (rv_shm t rp_hdr)\<lparr>h_reserved := ucast idx\<rparr>)\<rparr>
               in Some (Some (RPMSG_LOCATE_DATA rp_hdr, len - sizeof_hdr), t))"

definition rpmsg_virtio_send_offchannel_nocopy ::
  "u32 \<Rightarrow> u32 \<Rightarrow> u32 \<Rightarrow> int \<Rightarrow> rpmsg_virtio \<Rightarrow> (int \<times> rpmsg_virtio) option" where
  "rpmsg_virtio_send_offchannel_nocopy src dst data len t =
     (let hdr = RPMSG_LOCATE_HDR data;
          idx = ucast (h_reserved (rv_shm t hdr)) :: u16
      in case write_hdr (rv_io t) hdr (\<lambda>b. b\<lparr>h_dst := dst, h_src := src, h_len := of_int len, h_reserved := 0, h_flags := 0\<rparr>)
                (rv_shm t) of
           None \<Rightarrow> None
         | Some shm \<Rightarrow>
             let t = t\<lparr>rv_shm := shm\<rparr>
             in case virtqueue_get_buffer_length idx (rv_sring t) of
                  None \<Rightarrow> None
                | Some buff_len \<Rightarrow>
                    case rpmsg_virtio_enqueue_buffer buff_len idx t of
                      (status, t) \<Rightarrow>
                        if status \<noteq> VQUEUE_SUCCESS then None
                        else Some (len, t\<lparr>rv_svq := virtqueue_kick (rv_svq t) (rv_sring t)\<rparr>))"

definition rpmsg_virtio_send_offchannel_raw ::
  "(nat \<Rightarrow> rpmsg_virtio \<Rightarrow> rpmsg_virtio) \<Rightarrow> u32 \<Rightarrow> u32 \<Rightarrow> u8 list \<Rightarrow> int \<Rightarrow> bool \<Rightarrow> rpmsg_virtio \<Rightarrow> (int \<times> rpmsg_virtio) option" where
  "rpmsg_virtio_send_offchannel_raw sleep src dst data len wait t =
     (case rpmsg_virtio_get_tx_payload_buffer sleep wait t of
        None \<Rightarrow> None
      | Some (None, t) \<Rightarrow> Some (RPMSG_ERR_NO_BUFF, t)
      | Some (Some (buffer, buff_len), t) \<Rightarrow>
          let len = (if len > sint buff_len then sint buff_len else len)
          in case write_data (rv_io t) buffer data len (rv_shm t) of
               None \<Rightarrow> None
             | Some shm \<Rightarrow> rpmsg_virtio_send_offchannel_nocopy src dst buffer len (t\<lparr>rv_shm := shm\<rparr>))"

definition rpmsg_virtio_ops :: "(nat \<Rightarrow> rpmsg_virtio \<Rightarrow> rpmsg_virtio) \<Rightarrow> rpmsg_virtio rpmsg_device_ops" where
  "rpmsg_virtio_ops sleep =
     \<lparr>op_send_offchannel_raw = Some (rpmsg_virtio_send_offchannel_raw sleep),
      op_hold_rx_buffer = Some rpmsg_virtio_hold_rx_buffer,
      op_release_rx_buffer = Some rpmsg_virtio_release_rx_buffer,
      op_get_tx_payload_buffer = Some (rpmsg_virtio_get_tx_payload_buffer sleep),
      op_send_offchannel_nocopy = Some rpmsg_virtio_send_offchannel_nocopy\<rparr>"

section \<open>Receiving\<close>

text \<open>
  Functions that endpoints and devices point to: the name service callback of this file, and functions of the application,
  whose effect is a parameter.
\<close>

datatype 'a rpmsg_fun = NS_Callback | App 'a

type_synonym 'a rdev = "(rpmsg_virtio, 'a rpmsg_fun) rpmsg_device"

record 'a rpmsg_app =
  app_cb :: "'a \<Rightarrow> nat \<Rightarrow> u32 \<Rightarrow> u16 \<Rightarrow> u32 \<Rightarrow> 'a rdev \<Rightarrow> (int \<times> 'a rdev) option"
  app_unbind :: "'a \<Rightarrow> nat \<Rightarrow> 'a rdev \<Rightarrow> 'a rdev option"
  app_bind :: "'a \<Rightarrow> string \<Rightarrow> u32 \<Rightarrow> 'a rdev \<Rightarrow> 'a rdev option"

abbreviation shm :: "'a rdev \<Rightarrow> u32 \<Rightarrow> rpmsg_buf" where
  "shm d \<equiv> rv_shm (transport d)"

definition set_dest :: "nat \<Rightarrow> u32 \<Rightarrow> 'a rdev \<Rightarrow> 'a rdev" where
  "set_dest e a d = d\<lparr>epts := (epts d)(e := (epts d e)\<lparr>ept_dest := a\<rparr>)\<rparr>"

definition of_le32 :: "u8 list \<Rightarrow> u32" where
  "of_le32 bs = foldr (\<lambda>b w. push_bit 8 w OR ucast b) (take 4 bs) 0"

definition rpmsg_virtio_ns_callback :: "'a rpmsg_app \<Rightarrow> u32 \<Rightarrow> u16 \<Rightarrow> 'a rdev \<Rightarrow> (int \<times> 'a rdev) option" where
  "rpmsg_virtio_ns_callback app data len d =
     (if len \<noteq> sizeof_ns_msg then Some (RPMSG_SUCCESS, d)
      else let bytes = h_data (shm d (RPMSG_LOCATE_HDR data))
           in if length bytes < 40 \<or>
                 metal_io_block_len (rv_io (transport d)) (metal_io_virt_to_offset (rv_io (transport d)) data) 32 \<noteq> 32 then None
              else let name = name_field (map (\<lambda>b. char_of (unat b)) (take 32 bytes));
                       dest = of_le32 (drop 32 bytes);
                       flags = of_le32 (drop 36 bytes);
                       ept = rpmsg_get_endpoint d (Some name) RPMSG_ADDR_ANY dest
                   in map_option (\<lambda>d. (RPMSG_SUCCESS, d))
                        (if flags AND RPMSG_NS_DESTROY \<noteq> 0 then
                           (case ept of None \<Rightarrow> Some d
                            | Some e \<Rightarrow>
                                let d = set_dest e RPMSG_ADDR_ANY d
                                in case ept_unbind (epts d e) of
                                     None \<Rightarrow> Some d | Some (App f) \<Rightarrow> app_unbind app f e d | Some NS_Callback \<Rightarrow> None)
                         else
                           (case ept of
                              None \<Rightarrow> (case ns_bind_cb d of
                                         None \<Rightarrow> Some d | Some (App f) \<Rightarrow> app_bind app f name dest d | Some NS_Callback \<Rightarrow> None)
                            | Some e \<Rightarrow> Some (set_dest e dest d))))"

definition rpmsg_call ::
  "'a rpmsg_app \<Rightarrow> 'a rpmsg_fun option \<Rightarrow> nat \<Rightarrow> u32 \<Rightarrow> u16 \<Rightarrow> u32 \<Rightarrow> 'a rdev \<Rightarrow> (int \<times> 'a rdev) option" where
  "rpmsg_call app f e data len src d =
     (case f of None \<Rightarrow> None
      | Some NS_Callback \<Rightarrow> rpmsg_virtio_ns_callback app data len d
      | Some (App g) \<Rightarrow> app_cb app g e data len src d)"

text \<open>
  One received buffer: the message is handed to its endpoint, if there is one. The first result lists the call that was made:
  endpoint, source, length and bytes of the message.
\<close>

type_synonym delivery = "nat \<times> u32 \<times> u16 \<times> u8 list"

definition rx_deliver :: "'a rpmsg_app \<Rightarrow> u32 \<Rightarrow> 'a rdev \<Rightarrow> (delivery list \<times> 'a rdev) option" where
  "rx_deliver app rp_hdr d =
     (let b = shm d rp_hdr
      in case rpmsg_get_ept_from_addr d (h_dst b) of
           None \<Rightarrow> Some ([], d)
         | Some e \<Rightarrow>
             let d = (if ept_dest (epts d e) = RPMSG_ADDR_ANY then set_dest e (h_src b) d else d)
             in case rpmsg_call app (ept_cb (epts d e)) e (RPMSG_LOCATE_DATA rp_hdr) (h_len b) (h_src b) d of
                  None \<Rightarrow> None
                | Some (status, d) \<Rightarrow>
                    if status < 0 then None
                    else Some ([(e, h_src b, h_len b, take (unat (h_len b)) (h_data b))], d))"

definition rx_buffer :: "'a rpmsg_app \<Rightarrow> u32 \<times> u16 \<times> u32 \<Rightarrow> 'a rdev \<Rightarrow> (delivery list \<times> 'a rdev) option" where
  "rx_buffer app x d =
     (case x of (rp_hdr, idx, len) \<Rightarrow>
        let d = d\<lparr>transport := (transport d)\<lparr>rv_shm := (shm d)(rp_hdr := (shm d rp_hdr)\<lparr>h_reserved := ucast idx\<rparr>)\<rparr>\<rparr>
        in case rx_deliver app rp_hdr d of
             None \<Rightarrow> None
           | Some (cs, d) \<Rightarrow>
               Some (cs, if h_reserved (shm d rp_hdr) AND RPMSG_BUF_HELD = 0
                         then d\<lparr>transport := rpmsg_virtio_return_buffer len idx (transport d)\<rparr> else d))"

partial_function (option) rx_loop ::
  "'a rpmsg_app \<Rightarrow> (u32 \<times> u16 \<times> u32) option \<Rightarrow> delivery list \<Rightarrow> 'a rdev \<Rightarrow> (delivery list \<times> 'a rdev) option" where
  "rx_loop app x calls d =
     (case x of
        None \<Rightarrow> Some (calls, d)
      | Some x \<Rightarrow>
          case rx_buffer app x d of
            None \<Rightarrow> None
          | Some (cs, d) \<Rightarrow>
              case rpmsg_virtio_get_rx_buffer (transport d) of
                None \<Rightarrow> None
              | Some (y, t) \<Rightarrow>
                  let t = (if y = None then t\<lparr>rv_rvq := virtqueue_kick (rv_rvq t) (rv_rring t)\<rparr> else t)
                  in rx_loop app y (calls @ cs) (d\<lparr>transport := t\<rparr>))"

definition rpmsg_virtio_rx_callback :: "'a rpmsg_app \<Rightarrow> 'a rdev \<Rightarrow> (delivery list \<times> 'a rdev) option" where
  "rpmsg_virtio_rx_callback app d =
     (case rpmsg_virtio_get_rx_buffer (transport d) of
        None \<Rightarrow> None
      | Some (x, t) \<Rightarrow> rx_loop app x [] (d\<lparr>transport := t\<rparr>))"

section \<open>Lemmas on sending\<close>

text \<open>A region that does not reach the ends of the address space, and a buffer with room for a header and more.\<close>

definition region_ok :: "metal_io_region \<Rightarrow> bool" where
  "region_ok io \<longleftrightarrow> 0 < unat (io_virt io) \<and> unat (io_virt io) + unat (io_size io) < 2 ^ 32"

definition buffer_ok :: "metal_io_region \<Rightarrow> u32 \<Rightarrow> u32 \<Rightarrow> bool" where
  "buffer_ok io b len \<longleftrightarrow> 16 < unat len \<and> unat len < 2 ^ 31 \<and> unat (b - io_virt io) + unat len \<le> unat (io_size io)"

lemma unat_plus: "unat (a :: u32) + unat b < 2 ^ 32 \<Longrightarrow> unat (a + b) = unat a + unat b"
  by (simp add: unat_word_ariths)

lemma region_offset:
  assumes "region_ok io" "unat off < unat (io_size io)"
  shows "metal_io_virt_to_offset io (io_virt io + off) = off" and "metal_io_virt io off \<noteq> 0"
proof -
  have u: "unat (io_virt io + off) = unat (io_virt io) + unat off"
    using assms by (intro unat_plus) (simp add: region_ok_def)
  have "io_virt io \<noteq> METAL_BAD_VA"
  proof
    assume "io_virt io = METAL_BAD_VA"
    then have "unat (io_virt io) = 4294967295" by (simp add: METAL_BAD_VA_def unsigned_minus_1_eq_mask mask_eq_exp_minus_1)
    then show False using assms by (simp add: region_ok_def)
  qed
  moreover have "io_virt io + off \<noteq> 0" using u assms(1) by (intro notI) (simp add: region_ok_def)
  ultimately show "metal_io_virt io off \<noteq> 0" using assms(2) by (simp add: metal_io_virt_def word_less_nat_alt)
  show "metal_io_virt_to_offset io (io_virt io + off) = off"
    using assms(2) by (simp add: metal_io_virt_to_offset_def Let_def word_less_nat_alt)
qed

lemma block_len:
  assumes "region_ok io" "unat off + k \<le> unat (io_size io)" "unat off < unat (io_size io)"
  shows "metal_io_block_len io (metal_io_virt_to_offset io (io_virt io + off)) (int k) = int k"
proof -
  have k: "k < 2 ^ 32" using assms(1,2) by (simp add: region_ok_def)
  then have "unat (of_nat k :: u32) = k" by (simp add: unat_of_nat)
  then have "unat (off + of_nat k) = unat off + k" using assms(1,2) by (subst unat_plus) (simp_all add: region_ok_def)
  then have "\<not> off + of_int (int k) > io_size io" using assms(2) by (simp add: word_less_nat_alt)
  then show ?thesis using region_offset[OF assms(1,3)] by (simp add: metal_io_block_len_def)
qed

lemma buffer_offsets:
  assumes "region_ok io" "buffer_ok io b len"
  shows "metal_io_block_len io (metal_io_virt_to_offset io b) 16 = 16"
    and "k \<le> unat len - 16 \<Longrightarrow> metal_io_block_len io (metal_io_virt_to_offset io (RPMSG_LOCATE_DATA b)) (int k) = int k"
    and "b \<noteq> 0" and "sint (len - sizeof_hdr) = int (unat len - 16)"
proof -
  let ?off = "b - io_virt io"
  have b: "b = io_virt io + ?off" by simp
  have o: "16 < unat len" "unat len < 2 ^ 31" "unat ?off + unat len \<le> unat (io_size io)" using assms(2) by (simp_all add: buffer_ok_def)
  show "metal_io_block_len io (metal_io_virt_to_offset io b) 16 = 16"
    using block_len[OF assms(1), of ?off 16] o by simp
  have "b = io_virt io + ?off" by simp
  then have "unat b = unat (io_virt io) + unat ?off" using unat_plus[of "io_virt io" ?off] o assms(1) by (simp add: region_ok_def)
  then show "b \<noteq> 0" using assms(1) by (intro notI) (simp add: region_ok_def)
  have u: "unat (?off + 16) = unat ?off + 16" using unat_plus[of ?off 16] o assms(1) by (simp add: region_ok_def)
  have d: "RPMSG_LOCATE_DATA b = io_virt io + (?off + 16)" by (simp add: RPMSG_LOCATE_DATA_def sizeof_hdr_def)
  show "metal_io_block_len io (metal_io_virt_to_offset io (RPMSG_LOCATE_DATA b)) (int k) = int k" if "k \<le> unat len - 16"
    unfolding d by (rule block_len[OF assms(1)]; use that u o in linarith)
  have "unat (len - sizeof_hdr) = unat len - 16" using o by (simp add: sizeof_hdr_def unat_sub word_le_nat_alt)
  then show "sint (len - sizeof_hdr) = int (unat len - 16)"
    using sint_unat_small[of "len - sizeof_hdr"] o by simp
qed

lemma held_length:
  assumes "vq_inv n io g m q r" "e \<in> set (ch_held g)"
  shows "virtqueue_get_buffer_length (e_idx e) r = Some (e_len e)"
proof -
  have "e \<in> set (live g)" using assms(2) by (simp add: live_def)
  then have "unat (e_idx e) < v_num r" "carries io m r e" using assms(1) by (auto simp: vq_inv_def)
  then show ?thesis by (simp add: virtqueue_get_buffer_length_def in_table_def carries_def Let_def)
qed

lemma get_tx_buffer:
  assumes "vq_inv n (rv_io t) g m (rv_svq t) (rv_sring t)"
  shows "ch_avail g = [] \<Longrightarrow> rpmsg_virtio_get_tx_buffer t = Some (None, t)"
    and "ch_avail g = e # es \<Longrightarrow> e_buf e \<noteq> 0 \<Longrightarrow> \<exists>q. rpmsg_virtio_get_tx_buffer t =
      Some (Some (e_buf e, e_idx e, e_len e), t\<lparr>rv_svq := q\<rparr>) \<and>
      vq_inv n (rv_io t) (g\<lparr>ch_avail := es, ch_held := e # ch_held g\<rparr>) m q (rv_sring t)"
  using fetch_empty[OF assms] fetch_spec[OF assms, of e es]
  by (auto simp: rpmsg_virtio_get_tx_buffer_def non_null_def)

lemma nocopy_spec:
  assumes inv: "vq_inv n (rv_io t) g m (rv_svq t) (rv_sring t)" and h: "ch_held g = e # hs"
    and io: "region_ok (rv_io t)" "buffer_ok (rv_io t) (e_buf e) (e_len e)"
    and idx: "h_reserved (rv_shm t (e_buf e)) = ucast (e_idx e)"
  shows "\<exists>q r. rpmsg_virtio_send_offchannel_nocopy src dst (RPMSG_LOCATE_DATA (e_buf e)) len t =
      Some (len, t\<lparr>rv_svq := q, rv_sring := r, rv_shm := (rv_shm t)(e_buf e := (rv_shm t (e_buf e))
        \<lparr>h_dst := dst, h_src := src, h_len := of_int len, h_reserved := 0, h_flags := 0\<rparr>)\<rparr>) \<and>
    vq_inv n (rv_io t) (g\<lparr>ch_held := hs, ch_used := ch_used g @ [(e, e_len e)]\<rparr>) m q r"
proof -
  have len: "virtqueue_get_buffer_length (e_idx e) (rv_sring t) = Some (e_len e)" using held_length[OF inv] h by simp
  have "ch_held g = [] @ e # hs" using h by simp
  from consume_spec[OF inv this, of "e_len e"] obtain q r where
    c: "virtqueue_add_consumed_buffer (e_idx e) (e_len e) (rv_svq t) (rv_sring t) = (VQUEUE_SUCCESS, q, r)"
    and i: "vq_inv n (rv_io t) (g\<lparr>ch_held := hs, ch_used := ch_used g @ [(e, e_len e)]\<rparr>) m q r" by auto
  have "rpmsg_virtio_send_offchannel_nocopy src dst (RPMSG_LOCATE_DATA (e_buf e)) len t =
      Some (len, t\<lparr>rv_svq := virtqueue_kick q r, rv_sring := r, rv_shm := (rv_shm t)(e_buf e := (rv_shm t (e_buf e))
        \<lparr>h_dst := dst, h_src := src, h_len := of_int len, h_reserved := 0, h_flags := 0\<rparr>)\<rparr>)"
    using len c buffer_offsets(1)[OF io]
    by (simp add: rpmsg_virtio_send_offchannel_nocopy_def write_hdr_def Let_def idx rpmsg_virtio_enqueue_buffer_def)
  then show ?thesis using i by (metis inv_kick(2))
qed

lemma buf_fields:
  "b\<lparr>h_data := x, h_dst := dst, h_src := src, h_len := l, h_reserved := i, h_flags := f\<rparr> =
    \<lparr>h_src = src, h_dst = dst, h_reserved = i, h_len = l, h_flags = f, h_data = x\<rparr>"
  by (cases b) simp

lemma raw_send_spec:
  assumes inv: "vq_inv n (rv_io t) g m (rv_svq t) (rv_sring t)" and a: "ch_avail g = e # es"
    and io: "region_ok (rv_io t)" "buffer_ok (rv_io t) (e_buf e) (e_len e)"
    and ok: "rv_status t AND VIRTIO_CONFIG_STATUS_DRIVER_OK \<noteq> 0"
    and k_def: "k = min (length data) (unat (e_len e) - 16)"
  shows "\<exists>q r. rpmsg_virtio_send_offchannel_raw sleep src dst data (int (length data)) wait t =
      Some (int k, t\<lparr>rv_svq := q, rv_sring := r, rv_shm := (rv_shm t)(e_buf e :=
        \<lparr>h_src = src, h_dst = dst, h_reserved = 0, h_len = of_nat k, h_flags = 0,
         h_data = take k data @ drop k (h_data (rv_shm t (e_buf e)))\<rparr>)\<rparr>) \<and>
    vq_inv n (rv_io t) (g\<lparr>ch_avail := es, ch_used := ch_used g @ [(e, e_len e)]\<rparr>) m q r"
proof -
  note B = buffer_offsets[OF io]
  obtain q1 where g1: "rpmsg_virtio_get_tx_buffer t = Some (Some (e_buf e, e_idx e, e_len e), t\<lparr>rv_svq := q1\<rparr>)"
    and i1: "vq_inv n (rv_io t) (g\<lparr>ch_avail := es, ch_held := e # ch_held g\<rparr>) m q1 (rv_sring t)"
    using get_tx_buffer(2)[OF inv a B(3)] by blast
  have w: "tx_wait sleep c t = Some (Some (e_buf e, e_idx e, e_len e), t\<lparr>rv_svq := q1\<rparr>)" for c
    using g1 by (cases c) simp_all
  let ?b = "rv_shm t (e_buf e)"
  define t1 where "t1 = t\<lparr>rv_svq := q1, rv_shm := (rv_shm t)(e_buf e := ?b\<lparr>h_reserved := ucast (e_idx e),
    h_data := take k data @ drop k (h_data ?b)\<rparr>)\<rparr>"
  have len: "(if int (length data) > sint (e_len e - sizeof_hdr) then sint (e_len e - sizeof_hdr) else int (length data)) = int k"
    by (simp add: B(4) k_def)
  have "k \<le> unat (e_len e) - 16" by (simp add: k_def)
  then have "write_data (rv_io t) (RPMSG_LOCATE_DATA (e_buf e)) data (int k) ((rv_shm t)(e_buf e := ?b\<lparr>h_reserved := ucast (e_idx e)\<rparr>)) =
      Some (rv_shm t1)"
    using B(2)[of k] by (simp add: write_data_def Let_def t1_def k_def)
  then have send: "rpmsg_virtio_send_offchannel_raw sleep src dst data (int (length data)) wait t =
      rpmsg_virtio_send_offchannel_nocopy src dst (RPMSG_LOCATE_DATA (e_buf e)) (int k) t1"
    using ok w unfolding rpmsg_virtio_send_offchannel_raw_def rpmsg_virtio_get_tx_payload_buffer_def
    by (simp add: Let_def len[symmetric]) (simp add: t1_def len)
  have "vq_inv n (rv_io t1) (g\<lparr>ch_avail := es, ch_held := e # ch_held g\<rparr>) m (rv_svq t1) (rv_sring t1)"
    using i1 by (simp add: t1_def)
  from nocopy_spec[OF this, of e "ch_held g" src dst "int k"] io
  obtain q r where "rpmsg_virtio_send_offchannel_nocopy src dst (RPMSG_LOCATE_DATA (e_buf e)) (int k) t1 =
      Some (int k, t1\<lparr>rv_svq := q, rv_sring := r, rv_shm := (rv_shm t1)(e_buf e := (rv_shm t1 (e_buf e))
        \<lparr>h_dst := dst, h_src := src, h_len := of_int (int k), h_reserved := 0, h_flags := 0\<rparr>)\<rparr>)"
    "vq_inv n (rv_io t) (g\<lparr>ch_avail := es, ch_used := ch_used g @ [(e, e_len e)]\<rparr>) m q r"
    by (auto simp: t1_def)
  then show ?thesis unfolding send by (intro exI[of _ q] exI[of _ r]) (simp add: t1_def buf_fields)
qed

text \<open>The state after \<open>j\<close> sleeps of a wait that began with \<open>c\<close> ticks.\<close>

primrec slept :: "(nat \<Rightarrow> rpmsg_virtio \<Rightarrow> rpmsg_virtio) \<Rightarrow> nat \<Rightarrow> nat \<Rightarrow> rpmsg_virtio \<Rightarrow> rpmsg_virtio" where
  "slept sleep c 0 t = t"
| "slept sleep c (Suc j) t = sleep (c - j) (slept sleep c j t)"

lemma tx_wait_slept:
  assumes "k \<le> c" "\<And>j. j < k \<Longrightarrow> rpmsg_virtio_get_tx_buffer (slept sleep c j t) = Some (None, slept sleep c j t)"
  shows "tx_wait sleep c t = tx_wait sleep (c - k) (slept sleep c k t)"
  using assms
proof (induction k)
  case (Suc k)
  have "c - k = Suc (c - Suc k)" using Suc.prems(1) by simp
  then have "tx_wait sleep (c - k) (slept sleep c k t) = tx_wait sleep (c - Suc k) (slept sleep c (Suc k) t)"
    using Suc.prems(2)[of k] by simp
  then show ?case using Suc by simp
qed simp

text \<open>No buffer is there for the slave: the master has made none available.\<close>

definition tx_empty :: "rpmsg_virtio \<Rightarrow> bool" where
  "tx_empty t \<longleftrightarrow> vq_available_idx (rv_svq t) = avail_idx (rv_sring t)"

lemma tx_empty_get: "tx_empty t \<Longrightarrow> rpmsg_virtio_get_tx_buffer t = Some (None, t)"
  by (simp add: tx_empty_def rpmsg_virtio_get_tx_buffer_def virtqueue_get_available_buffer_def non_null_def)

section \<open>Properties of sending\<close>

text \<open>
  C5: a message sent on an endpoint reaches the master. The call returns the number of bytes sent, which is the length of
  the data or what fits into the next buffer; the header in the buffer names the endpoint, its remote address and
  that number, and the payload begins with the data; the queue then holds this buffer behind all earlier ones, and a master
  that has collected those collects it, at its full length. Nothing else of the shared memory changes.
\<close>

theorem message_reaches_master:
  assumes "ept_rdev (epts d p)" and "ept_dest (epts d p) \<noteq> RPMSG_ADDR_ANY" and "t = transport d"
    and "vq_inv n (rv_io t) g m (rv_svq t) (rv_sring t)" and "ch_avail g = e # es"
    and "region_ok (rv_io t)" and "buffer_ok (rv_io t) (e_buf e) (e_len e)"
    and "rv_status t AND VIRTIO_CONFIG_STATUS_DRIVER_OK \<noteq> 0" and "k = min (length data) (unat (e_len e) - 16)"
  shows "\<exists>d'. rpmsg_send (rpmsg_virtio_ops sleep) p data d = Some (int k, d') \<and>
    rv_shm (transport d') = (rv_shm t)(e_buf e := \<lparr>h_src = ept_addr (epts d p), h_dst = ept_dest (epts d p), h_reserved = 0,
      h_len = of_nat k, h_flags = 0, h_data = take k data @ drop k (h_data (rv_shm t (e_buf e)))\<rparr>) \<and>
    vq_inv n (rv_io t) (g\<lparr>ch_avail := es, ch_used := ch_used g @ [(e, e_len e)]\<rparr>) m (rv_svq (transport d')) (rv_sring (transport d')) \<and>
    (ch_used g = [] \<longrightarrow> (\<exists>ui m' r'. virtqueue_get_buffer m (rv_sring (transport d')) = Some (Some (e_cookie e, e_len e, ui), m', r')))"
proof -
  from raw_send_spec[OF assms(4-9), of sleep "ept_addr (epts d p)" "ept_dest (epts d p)" True]
  obtain q r where S: "rpmsg_virtio_send_offchannel_raw sleep (ept_addr (epts d p)) (ept_dest (epts d p)) data (int (length data)) True t =
      Some (int k, t\<lparr>rv_svq := q, rv_sring := r, rv_shm := (rv_shm t)(e_buf e :=
        \<lparr>h_src = ept_addr (epts d p), h_dst = ept_dest (epts d p), h_reserved = 0, h_len = of_nat k, h_flags = 0,
         h_data = take k data @ drop k (h_data (rv_shm t (e_buf e)))\<rparr>)\<rparr>)"
    and I: "vq_inv n (rv_io t) (g\<lparr>ch_avail := es, ch_used := ch_used g @ [(e, e_len e)]\<rparr>) m q r" by blast
  have "\<exists>ui m' r'. virtqueue_get_buffer m r = Some (Some (e_cookie e, e_len e, ui), m', r')" if "ch_used g = []"
    using collect_spec[OF I, of e "e_len e" "[]"] that by auto
  then show ?thesis using S I assms(1-3)
    by (simp add: rpmsg_send_def rpmsg_send_offchannel_raw_def attached_def rpmsg_virtio_ops_def on_transport_def)
qed

text \<open>
  The wait for a buffer is bounded and ends as soon as possible. If the master makes a buffer available during one of
  the 15000 sleeps of a millisecond, the caller gets it at once, with the room behind the header; if it never does, the
  caller gets none after the last sleep, and with no wait after the first look.
\<close>

theorem tx_buffer_wait:
  assumes "c = (if wait then 15000 else 0)" and "rv_status t AND VIRTIO_CONFIG_STATUS_DRIVER_OK \<noteq> 0"
    and "k \<le> c" and "\<forall>j < k. tx_empty (slept sleep c j t)" and "u = slept sleep c k t"
  shows "(vq_inv n (rv_io u) g m (rv_svq u) (rv_sring u) \<and> ch_avail g = e # es \<and> e_buf e \<noteq> 0 \<longrightarrow>
      (\<exists>t'. rpmsg_virtio_get_tx_payload_buffer sleep wait t =
        Some (Some (RPMSG_LOCATE_DATA (e_buf e), e_len e - sizeof_hdr), t'))) \<and>
    (k = c \<and> tx_empty u \<longrightarrow> rpmsg_virtio_get_tx_payload_buffer sleep wait t = Some (None, u))"
proof -
  have c: "(if wait then RPMSG_TICK_COUNT div RPMSG_TICKS_PER_INTERVAL else 0) = c"
    by (simp add: assms(1) RPMSG_TICK_COUNT_def RPMSG_TICKS_PER_INTERVAL_def)
  have w: "tx_wait sleep c t = tx_wait sleep (c - k) u"
    unfolding assms(5) by (rule tx_wait_slept[OF assms(3)]) (use assms(4) tx_empty_get in blast)
  have "tx_wait sleep (c - k) u = Some (Some x, u')" if "rpmsg_virtio_get_tx_buffer u = Some (Some x, u')" for x u'
    using that by (cases "c - k") simp_all
  then have "\<exists>u'. tx_wait sleep c t = Some (Some (e_buf e, e_idx e, e_len e), u')"
    if "vq_inv n (rv_io u) g m (rv_svq u) (rv_sring u) \<and> ch_avail g = e # es \<and> e_buf e \<noteq> 0"
    using get_tx_buffer(2)[of n u g m e es] that w by auto
  moreover have "tx_wait sleep c t = Some (None, u)" if "k = c" "tx_empty u" using w that tx_empty_get by simp
  ultimately show ?thesis using assms(2) unfolding rpmsg_virtio_get_tx_payload_buffer_def c by (auto simp: Let_def)
qed

section \<open>Well-behaved applications\<close>

text \<open>
  What receiving relies on. The receive buffers \<open>R\<close> lie in the region and are large enough for the length in their header
  (\<open>rx_ready\<close>). Functions of the application return, report no error, and may send, but leave the receive queue, the receive
  buffers and the registered endpoints alone (\<open>keeps\<close>); in particular they do not hold a buffer back.
\<close>

definition rx_ready :: "u32 set \<Rightarrow> 'a rdev \<Rightarrow> bool" where
  "rx_ready R d \<longleftrightarrow> region_ok (rv_io (transport d)) \<and>
     (\<forall>b \<in> R. unat (h_len (shm d b)) \<le> length (h_data (shm d b)) \<and>
        unat (b - io_virt (rv_io (transport d))) + 16 + unat (h_len (shm d b)) \<le> unat (io_size (rv_io (transport d)))) \<and>
     (\<forall>e \<in> set (endpoints d). ept_cb (epts d e) \<noteq> None \<and> ept_unbind (epts d e) \<noteq> Some NS_Callback) \<and> ns_bind_cb d \<noteq> Some NS_Callback"

definition keeps :: "u32 set \<Rightarrow> 'a rdev \<Rightarrow> 'a rdev \<Rightarrow> bool" where
  "keeps R d d' \<longleftrightarrow> endpoints d' = endpoints d \<and> ns_bind_cb d' = ns_bind_cb d \<and>
     (\<forall>e. ept_addr (epts d' e) = ept_addr (epts d e) \<and> ept_cb (epts d' e) = ept_cb (epts d e) \<and>
        ept_unbind (epts d' e) = ept_unbind (epts d e)) \<and>
     rv_io (transport d') = rv_io (transport d) \<and> rv_rvq (transport d') = rv_rvq (transport d) \<and>
     rv_rring (transport d') = rv_rring (transport d) \<and> (\<forall>b \<in> R. shm d' b = shm d b)"

lemma keeps_refl [simp]: "keeps R d d"
  by (simp add: keeps_def)

lemma keeps_trans: "keeps R d d' \<Longrightarrow> keeps R d' d'' \<Longrightarrow> keeps R d d''"
  by (simp add: keeps_def)

lemma keeps_set_dest [simp]: "keeps R d (set_dest e a d)"
  by (simp add: keeps_def set_dest_def)

lemma keeps_ready: "keeps R d d' \<Longrightarrow> rx_ready R d \<Longrightarrow> rx_ready R d'"
  by (simp add: keeps_def rx_ready_def)

text \<open>What a buffer of the receive queue gives rise to, and devices that agree on it.\<close>

definition deliveries :: "'a rdev \<Rightarrow> u32 \<Rightarrow> delivery list" where
  "deliveries d b = (case rpmsg_get_ept_from_addr d (h_dst (shm d b)) of None \<Rightarrow> []
     | Some e \<Rightarrow> [(e, h_src (shm d b), h_len (shm d b), take (unat (h_len (shm d b))) (h_data (shm d b)))])"

definition same_msgs :: "u32 set \<Rightarrow> 'a rdev \<Rightarrow> 'a rdev \<Rightarrow> bool" where
  "same_msgs R d d' \<longleftrightarrow> endpoints d' = endpoints d \<and> ns_bind_cb d' = ns_bind_cb d \<and>
     (\<forall>e. ept_addr (epts d' e) = ept_addr (epts d e) \<and> ept_cb (epts d' e) = ept_cb (epts d e) \<and>
        ept_unbind (epts d' e) = ept_unbind (epts d e)) \<and>
     rv_io (transport d') = rv_io (transport d) \<and>
     (\<forall>b \<in> R. h_src (shm d' b) = h_src (shm d b) \<and> h_dst (shm d' b) = h_dst (shm d b) \<and>
        h_len (shm d' b) = h_len (shm d b) \<and> h_data (shm d' b) = h_data (shm d b))"

lemma same_trans: "same_msgs R d d' \<Longrightarrow> same_msgs R d' d'' \<Longrightarrow> same_msgs R d d''"
  by (simp add: same_msgs_def)

lemma keeps_same: "keeps R d d' \<Longrightarrow> same_msgs R d d'"
  by (simp add: keeps_def same_msgs_def)

lemma same_ready: "same_msgs R d d' \<Longrightarrow> rx_ready R d \<Longrightarrow> rx_ready R d'"
  by (simp add: same_msgs_def rx_ready_def)

lemma index_not_held: "(ucast (i :: u16) :: u32) AND RPMSG_BUF_HELD = 0"
proof -
  have h: "RPMSG_BUF_HELD = push_bit 31 1" by (simp add: RPMSG_BUF_HELD_def)
  have "\<not> bit (ucast i :: u32) 31" using bit_u16_less[of i 31] by (auto simp: bit_simps)
  then show ?thesis unfolding h by (simp add: bit_iff_and_push_bit_not_eq_0 del: push_bit_of_1)
qed

lemma ch_reorder: "g\<lparr>ch_used := u, ch_avail := a, ch_held := h\<rparr> = g\<lparr>ch_avail := a, ch_held := h, ch_used := u\<rparr>"
  by (cases g) simp

lemma ch_nothing:
  assumes "ch_avail g = []"
  shows "g\<lparr>ch_avail := []\<rparr> = g"
  using assms by (cases g) simp

lemma loop_find:
  "a \<noteq> RPMSG_ADDR_ANY \<or> (\<forall>e \<in> set es. ept_addr (eps e) \<noteq> RPMSG_ADDR_ANY) \<Longrightarrow>
    get_endpoint_loop eps None a RPMSG_ADDR_ANY es = find (\<lambda>e. ept_addr (eps e) = a) es"
  by (induction es) (auto simp: Let_def)

lemma loop_mem: "get_endpoint_loop eps nm a dst es = Some e \<Longrightarrow> e \<in> set es"
  by (induction es) (auto simp: Let_def split: if_splits)

lemma get_ept_same:
  assumes "endpoints d' = endpoints d" "\<And>e. ept_addr (epts d' e) = ept_addr (epts d e)"
    "a \<noteq> RPMSG_ADDR_ANY \<or> (\<forall>e \<in> set (endpoints d). ept_addr (epts d e) \<noteq> RPMSG_ADDR_ANY)"
  shows "rpmsg_get_ept_from_addr d' a = rpmsg_get_ept_from_addr d a"
  using assms loop_find[of a "endpoints d" "epts d"] loop_find[of a "endpoints d" "epts d'"]
  by (simp add: rpmsg_get_ept_from_addr_def rpmsg_get_endpoint_def)

definition no_any :: "'a rdev \<Rightarrow> bool" where
  "no_any d \<longleftrightarrow> (\<forall>e \<in> set (endpoints d). ept_addr (epts d e) \<noteq> RPMSG_ADDR_ANY)"

lemma same_deliveries:
  assumes "same_msgs R d d'" "no_any d" "b \<in> R"
  shows "deliveries d' b = deliveries d b" and "no_any d'"
  using assms get_ept_same[of d' d "h_dst (shm d b)"] by (auto simp: same_msgs_def deliveries_def no_any_def split: option.splits)

locale rx_client =
  fixes R :: "u32 set" and app :: "'a rpmsg_app"
  assumes cb: "rx_ready R d \<Longrightarrow> b \<in> R \<Longrightarrow> \<exists>st d'. app_cb app f e (RPMSG_LOCATE_DATA b) (h_len (shm d b)) (h_src (shm d b)) d = Some (st, d') \<and>
      0 \<le> st \<and> keeps R d d'"
    and unbind: "rx_ready R d \<Longrightarrow> \<exists>d'. app_unbind app f e d = Some d' \<and> keeps R d d'"
    and bind: "rx_ready R d \<Longrightarrow> \<exists>d'. app_bind app f name a d = Some d' \<and> keeps R d d'"
begin

lemma ns_callback_ok:
  assumes ready: "rx_ready R d" and b: "b \<in> R"
  shows "\<exists>d'. rpmsg_virtio_ns_callback app (RPMSG_LOCATE_DATA b) (h_len (shm d b)) d = Some (RPMSG_SUCCESS, d') \<and> keeps R d d'"
proof (cases "h_len (shm d b) = sizeof_ns_msg")
  case False
  then show ?thesis by (intro exI[of _ d]) (simp add: rpmsg_virtio_ns_callback_def)
next
  case True
  let ?io = "rv_io (transport d)" and ?bytes = "h_data (shm d b)"
  let ?off = "b - io_virt ?io"
  have r: "region_ok ?io" and l: "40 \<le> length ?bytes" and o: "unat ?off + 56 \<le> unat (io_size ?io)"
    using ready b True by (auto simp: rx_ready_def sizeof_ns_msg_def)
  have u: "unat (?off + 16) = unat ?off + 16" using unat_plus[of ?off 16] o r by (simp add: region_ok_def)
  have "RPMSG_LOCATE_DATA b = io_virt ?io + (?off + 16)" by (simp add: RPMSG_LOCATE_DATA_def sizeof_hdr_def)
  then have blk: "metal_io_block_len ?io (metal_io_virt_to_offset ?io (RPMSG_LOCATE_DATA b)) 32 = 32"
    using block_len[OF r, of "?off + 16" 32] u o by simp
  define name dest where "name = name_field (map (\<lambda>b. char_of (unat b)) (take 32 ?bytes))" and "dest = of_le32 (drop 32 ?bytes)"
  define ept where "ept = rpmsg_get_endpoint d (Some name) RPMSG_ADDR_ANY dest"
  have mem: "e \<in> set (endpoints d)" if "ept = Some e" for e
    using that loop_mem by (auto simp: ept_def rpmsg_get_endpoint_def)
  let ?act = "if of_le32 (drop 36 ?bytes) AND RPMSG_NS_DESTROY \<noteq> 0 then
      (case ept of None \<Rightarrow> Some d | Some e \<Rightarrow> let d = set_dest e RPMSG_ADDR_ANY d in
         case ept_unbind (epts d e) of None \<Rightarrow> Some d | Some (App f) \<Rightarrow> app_unbind app f e d | Some NS_Callback \<Rightarrow> None)
    else (case ept of None \<Rightarrow> (case ns_bind_cb d of None \<Rightarrow> Some d | Some (App f) \<Rightarrow> app_bind app f name dest d | Some NS_Callback \<Rightarrow> None)
      | Some e \<Rightarrow> Some (set_dest e dest d))"
  have run: "rpmsg_virtio_ns_callback app (RPMSG_LOCATE_DATA b) (h_len (shm d b)) d = map_option (\<lambda>d. (RPMSG_SUCCESS, d)) ?act"
    using l blk True unfolding rpmsg_virtio_ns_callback_def name_def dest_def ept_def Let_def locate_back by simp
  have "\<exists>d'. ?act = Some d' \<and> keeps R d d'"
  proof (cases ept)
    case None
    then show ?thesis using ready bind[OF ready, of _ name dest]
      by (auto simp: rx_ready_def split: option.splits rpmsg_fun.splits)
  next
    case (Some e)
    have d1: "rx_ready R (set_dest e RPMSG_ADDR_ANY d)" by (rule keeps_ready[OF keeps_set_dest ready])
    have "ept_unbind (epts (set_dest e RPMSG_ADDR_ANY d) e) \<noteq> Some NS_Callback"
      using mem[OF Some] ready by (simp add: rx_ready_def set_dest_def)
    then show ?thesis using Some unbind[OF d1, of _ e] keeps_trans[OF keeps_set_dest]
      by (auto simp: Let_def split: option.splits rpmsg_fun.splits) blast
  qed
  then show ?thesis using run by auto
qed

lemma call_ok:
  assumes "rx_ready R d" "b \<in> R" "f \<noteq> None"
  shows "\<exists>st d'. rpmsg_call app f e (RPMSG_LOCATE_DATA b) (h_len (shm d b)) (h_src (shm d b)) d = Some (st, d') \<and> 0 \<le> st \<and> keeps R d d'"
  using assms ns_callback_ok[OF assms(1,2)] cb[OF assms(1,2), of _ e]
  by (cases f) (auto simp: rpmsg_call_def RPMSG_SUCCESS_def split: rpmsg_fun.splits)

lemma deliver_ok:
  assumes ready: "rx_ready R d" and b: "b \<in> R"
  shows "\<exists>d'. rx_deliver app b d = Some (deliveries d b, d') \<and> keeps R d d'"
proof (cases "rpmsg_get_ept_from_addr d (h_dst (shm d b))")
  case None
  then show ?thesis by (simp add: rx_deliver_def deliveries_def)
next
  case (Some e)
  define d1 where "d1 = (if ept_dest (epts d e) = RPMSG_ADDR_ANY then set_dest e (h_src (shm d b)) d else d)"
  have k1: "keeps R d d1" by (simp add: d1_def)
  then have same: "shm d1 b = shm d b" using b by (simp add: keeps_def)
  have "e \<in> set (endpoints d)" using Some loop_mem by (auto simp: rpmsg_get_ept_from_addr_def rpmsg_get_endpoint_def)
  then have "ept_cb (epts d1 e) \<noteq> None" using ready k1 by (auto simp: rx_ready_def keeps_def)
  from call_ok[OF keeps_ready[OF k1 ready] b this, of e] obtain st d' where
    "rpmsg_call app (ept_cb (epts d1 e)) e (RPMSG_LOCATE_DATA b) (h_len (shm d b)) (h_src (shm d b)) d1 = Some (st, d')"
    "0 \<le> st" "keeps R d1 d'" by (auto simp: same)
  then show ?thesis using Some keeps_trans[OF k1] by (auto simp: rx_deliver_def deliveries_def Let_def d1_def)
qed

lemma buffer_handled:
  assumes ready: "rx_ready R d" and b: "e_buf e \<in> R" and na: "no_any d"
    and inv: "vq_inv n (rv_io (transport d)) g m (rv_rvq (transport d)) (rv_rring (transport d))" and h: "ch_held g = e # hs"
  shows "\<exists>d'. rx_buffer app (e_buf e, e_idx e, e_len e) d = Some (deliveries d (e_buf e), d') \<and> same_msgs R d d' \<and>
    vq_inv n (rv_io (transport d')) (g\<lparr>ch_held := hs, ch_used := ch_used g @ [(e, e_len e)]\<rparr>) m (rv_rvq (transport d')) (rv_rring (transport d'))"
proof -
  let ?b = "e_buf e"
  define d1 where "d1 = d\<lparr>transport := (transport d)\<lparr>rv_shm := (shm d)(?b := (shm d ?b)\<lparr>h_reserved := ucast (e_idx e)\<rparr>)\<rparr>\<rparr>"
  have s1: "same_msgs R d d1" by (simp add: same_msgs_def d1_def)
  have t1: "rv_io (transport d1) = rv_io (transport d)" "rv_rvq (transport d1) = rv_rvq (transport d)"
    "rv_rring (transport d1) = rv_rring (transport d)" "h_reserved (shm d1 ?b) = ucast (e_idx e)" by (simp_all add: d1_def)
  obtain d2 where r: "rx_deliver app ?b d1 = Some (deliveries d ?b, d2)" and k: "keeps R d1 d2"
    using deliver_ok[OF same_ready[OF s1 ready] b] same_deliveries(1)[OF s1 na b] by auto
  have res: "h_reserved (shm d2 ?b) AND RPMSG_BUF_HELD = 0"
    using k b t1(4) by (simp add: keeps_def index_not_held)
  have inv2: "vq_inv n (rv_io (transport d2)) g m (rv_rvq (transport d2)) (rv_rring (transport d2))"
    using inv k t1 by (simp add: keeps_def)
  have "ch_held g = [] @ e # hs" using h by simp
  from consume_spec[OF inv2 this, of "e_len e"] obtain q rr where
    c: "virtqueue_add_consumed_buffer (e_idx e) (e_len e) (rv_rvq (transport d2)) (rv_rring (transport d2)) = (VQUEUE_SUCCESS, q, rr)"
    and i: "vq_inv n (rv_io (transport d2)) (g\<lparr>ch_held := hs, ch_used := ch_used g @ [(e, e_len e)]\<rparr>) m q rr" by auto
  let ?d = "d2\<lparr>transport := (transport d2)\<lparr>rv_rvq := q, rv_rring := rr\<rparr>\<rparr>"
  have "rx_buffer app (?b, e_idx e, e_len e) d = Some (deliveries d ?b, ?d)"
    using r res c by (simp add: rx_buffer_def Let_def rpmsg_virtio_return_buffer_def flip: d1_def)
  moreover have "same_msgs R d ?d" using same_trans[OF s1 keeps_same[OF k]] by (simp add: same_msgs_def)
  ultimately show ?thesis using i by auto
qed

lemma loop_delivers:
  assumes "rx_ready R d" "no_any d" "\<forall>x \<in> set (e # es). e_buf x \<in> R \<and> e_buf x \<noteq> 0"
    "vq_inv n (rv_io (transport d)) g m (rv_rvq (transport d)) (rv_rring (transport d))" "ch_held g = e # hs" "ch_avail g = es"
  shows "\<exists>d'. rx_loop app (Some (e_buf e, e_idx e, e_len e)) calls d =
      Some (calls @ concat (map (\<lambda>x. deliveries d (e_buf x)) (e # es)), d') \<and> same_msgs R d d' \<and>
    vq_inv n (rv_io (transport d')) (g\<lparr>ch_avail := [], ch_held := hs, ch_used := ch_used g @ map (\<lambda>x. (x, e_len x)) (e # es)\<rparr>) m
      (rv_rvq (transport d')) (rv_rring (transport d'))"
  using assms
proof (induction es arbitrary: e g d calls)
  case Nil
  obtain d1 where b: "rx_buffer app (e_buf e, e_idx e, e_len e) d = Some (deliveries d (e_buf e), d1)" and s: "same_msgs R d d1"
    and i: "vq_inv n (rv_io (transport d1)) (g\<lparr>ch_held := hs, ch_used := ch_used g @ [(e, e_len e)]\<rparr>) m (rv_rvq (transport d1)) (rv_rring (transport d1))"
    using buffer_handled[OF Nil.prems(1) _ Nil.prems(2,4,5)] Nil.prems(3) by auto
  have "virtqueue_get_available_buffer (rv_io (transport d1)) (rv_rvq (transport d1)) (rv_rring (transport d1)) = Some (None, rv_rvq (transport d1))"
    by (rule fetch_empty[OF i]) (simp add: Nil.prems(6))
  then have get: "rpmsg_virtio_get_rx_buffer (transport d1) = Some (None, transport d1)"
    by (simp add: rpmsg_virtio_get_rx_buffer_def non_null_def)
  let ?d = "d1\<lparr>transport := (transport d1)\<lparr>rv_rvq := virtqueue_kick (rv_rvq (transport d1)) (rv_rring (transport d1))\<rparr>\<rparr>"
  have "rx_loop app (Some (e_buf e, e_idx e, e_len e)) calls d = rx_loop app None (calls @ deliveries d (e_buf e)) ?d"
    using b get by (subst rx_loop.simps) simp
  also have "\<dots> = Some (calls @ deliveries d (e_buf e), ?d)" by (subst rx_loop.simps) simp
  finally have "rx_loop app (Some (e_buf e, e_idx e, e_len e)) calls d = Some (calls @ deliveries d (e_buf e), ?d)" .
  moreover have "same_msgs R d ?d" using s by (simp add: same_msgs_def)
  moreover have "vq_inv n (rv_io (transport ?d)) (g\<lparr>ch_avail := [], ch_held := hs, ch_used := ch_used g @ [(e, e_len e)]\<rparr>) m
      (rv_rvq (transport ?d)) (rv_rring (transport ?d))" using i unfolding ch_nothing[OF Nil.prems(6)] by simp
  ultimately show ?case by (intro exI[of _ ?d]) simp
next
  case (Cons x es)
  obtain d1 where b: "rx_buffer app (e_buf e, e_idx e, e_len e) d = Some (deliveries d (e_buf e), d1)" and s: "same_msgs R d d1"
    and i: "vq_inv n (rv_io (transport d1)) (g\<lparr>ch_held := hs, ch_used := ch_used g @ [(e, e_len e)]\<rparr>) m (rv_rvq (transport d1)) (rv_rring (transport d1))"
    using buffer_handled[OF Cons.prems(1) _ Cons.prems(2,4,5)] Cons.prems(3) by auto
  have av: "ch_avail (g\<lparr>ch_held := hs, ch_used := ch_used g @ [(e, e_len e)]\<rparr>) = x # es" using Cons.prems(6) by simp
  from fetch_spec[OF i av] obtain q where
    f: "virtqueue_get_available_buffer (rv_io (transport d1)) (rv_rvq (transport d1)) (rv_rring (transport d1)) = Some (Some (e_buf x, e_idx x, e_len x), q)"
    and i2: "vq_inv n (rv_io (transport d1)) (g\<lparr>ch_avail := es, ch_held := x # hs, ch_used := ch_used g @ [(e, e_len e)]\<rparr>) m q (rv_rring (transport d1))"
    by (auto simp: ch_reorder)
  let ?d = "d1\<lparr>transport := (transport d1)\<lparr>rv_rvq := q\<rparr>\<rparr>" and ?g = "g\<lparr>ch_avail := es, ch_held := x # hs, ch_used := ch_used g @ [(e, e_len e)]\<rparr>"
  have sd: "same_msgs R d ?d" using s by (simp add: same_msgs_def)
  have loop: "rx_loop app (Some (e_buf e, e_idx e, e_len e)) calls d = rx_loop app (Some (e_buf x, e_idx x, e_len x)) (calls @ deliveries d (e_buf e)) ?d"
    using b f Cons.prems(3) by (subst rx_loop.simps) (simp add: rpmsg_virtio_get_rx_buffer_def non_null_def)
  have na: "no_any ?d" using same_deliveries(2)[OF sd Cons.prems(2), of "e_buf e"] Cons.prems(3) by simp
  have "\<exists>d'. rx_loop app (Some (e_buf x, e_idx x, e_len x)) (calls @ deliveries d (e_buf e)) ?d =
      Some ((calls @ deliveries d (e_buf e)) @ concat (map (\<lambda>y. deliveries ?d (e_buf y)) (x # es)), d') \<and> same_msgs R ?d d' \<and>
      vq_inv n (rv_io (transport d')) (?g\<lparr>ch_avail := [], ch_held := hs, ch_used := ch_used ?g @ map (\<lambda>y. (y, e_len y)) (x # es)\<rparr>) m
        (rv_rvq (transport d')) (rv_rring (transport d'))"
    by (rule Cons.IH[OF same_ready[OF sd Cons.prems(1)] na]) (use Cons.prems(3) i2 in auto)
  then obtain d' where D: "rx_loop app (Some (e_buf x, e_idx x, e_len x)) (calls @ deliveries d (e_buf e)) ?d =
      Some ((calls @ deliveries d (e_buf e)) @ concat (map (\<lambda>y. deliveries ?d (e_buf y)) (x # es)), d')" "same_msgs R ?d d'"
    "vq_inv n (rv_io (transport d')) (?g\<lparr>ch_avail := [], ch_held := hs, ch_used := ch_used ?g @ map (\<lambda>y. (y, e_len y)) (x # es)\<rparr>) m
        (rv_rvq (transport d')) (rv_rring (transport d'))" by blast
  have eq: "map (\<lambda>y. deliveries ?d (e_buf y)) (x # es) = map (\<lambda>y. deliveries d (e_buf y)) (x # es)"
    by (rule map_cong[OF refl], rule same_deliveries(1)[OF sd Cons.prems(2)]) (use Cons.prems(3) in auto)
  show ?case unfolding loop D(1) eq by (intro exI[of _ d']) (use D(3) same_trans[OF sd D(2)] in simp)
qed

lemma rx_callback_delivers:
  assumes "rx_ready R d" "no_any d" "\<forall>x \<in> set (ch_avail g). e_buf x \<in> R \<and> e_buf x \<noteq> 0"
    and inv: "vq_inv n (rv_io (transport d)) g m (rv_rvq (transport d)) (rv_rring (transport d))"
  shows "\<exists>d'. rpmsg_virtio_rx_callback app d = Some (concat (map (\<lambda>x. deliveries d (e_buf x)) (ch_avail g)), d') \<and> same_msgs R d d' \<and>
    vq_inv n (rv_io (transport d')) (g\<lparr>ch_avail := [], ch_used := ch_used g @ map (\<lambda>x. (x, e_len x)) (ch_avail g)\<rparr>) m
      (rv_rvq (transport d')) (rv_rring (transport d'))"
proof (cases "ch_avail g")
  case Nil
  have "rpmsg_virtio_get_rx_buffer (transport d) = Some (None, transport d)"
    using fetch_empty[OF inv Nil] by (simp add: rpmsg_virtio_get_rx_buffer_def non_null_def)
  moreover have "rx_loop app None [] d = Some ([], d)" by (subst rx_loop.simps) simp
  moreover have "vq_inv n (rv_io (transport d)) (g\<lparr>ch_avail := []\<rparr>) m (rv_rvq (transport d)) (rv_rring (transport d))"
    using inv unfolding ch_nothing[OF Nil] .
  ultimately show ?thesis using Nil by (intro exI[of _ d]) (simp add: rpmsg_virtio_rx_callback_def same_msgs_def)
next
  case (Cons e es)
  from fetch_spec[OF inv Cons] obtain q where
    f: "virtqueue_get_available_buffer (rv_io (transport d)) (rv_rvq (transport d)) (rv_rring (transport d)) = Some (Some (e_buf e, e_idx e, e_len e), q)"
    and i: "vq_inv n (rv_io (transport d)) (g\<lparr>ch_avail := es, ch_held := e # ch_held g\<rparr>) m q (rv_rring (transport d))" by auto
  let ?d = "d\<lparr>transport := (transport d)\<lparr>rv_rvq := q\<rparr>\<rparr>" and ?g = "g\<lparr>ch_avail := es, ch_held := e # ch_held g\<rparr>"
  have same: "same_msgs R d ?d" by (simp add: same_msgs_def)
  have run: "rpmsg_virtio_rx_callback app d = rx_loop app (Some (e_buf e, e_idx e, e_len e)) [] ?d"
    using f assms(3) Cons by (simp add: rpmsg_virtio_rx_callback_def rpmsg_virtio_get_rx_buffer_def non_null_def)
  have na: "no_any ?d" using assms(2) by (simp add: no_any_def)
  have "\<exists>d'. rx_loop app (Some (e_buf e, e_idx e, e_len e)) [] ?d = Some ([] @ concat (map (\<lambda>x. deliveries ?d (e_buf x)) (e # es)), d') \<and>
      same_msgs R ?d d' \<and> vq_inv n (rv_io (transport d')) (?g\<lparr>ch_avail := [], ch_held := ch_held g,
        ch_used := ch_used ?g @ map (\<lambda>x. (x, e_len x)) (e # es)\<rparr>) m (rv_rvq (transport d')) (rv_rring (transport d'))"
    by (rule loop_delivers[OF same_ready[OF same assms(1)] na]) (use assms(3) Cons i in auto)
  then obtain d' where D: "rx_loop app (Some (e_buf e, e_idx e, e_len e)) [] ?d = Some ([] @ concat (map (\<lambda>x. deliveries ?d (e_buf x)) (e # es)), d')"
    "same_msgs R ?d d'" "vq_inv n (rv_io (transport d')) (?g\<lparr>ch_avail := [], ch_held := ch_held g,
        ch_used := ch_used ?g @ map (\<lambda>x. (x, e_len x)) (e # es)\<rparr>) m (rv_rvq (transport d')) (rv_rring (transport d'))" by blast
  have eq: "map (\<lambda>y. deliveries ?d (e_buf y)) (e # es) = map (\<lambda>y. deliveries d (e_buf y)) (e # es)"
    by (rule map_cong[OF refl], rule same_deliveries(1)[OF same assms(2)]) (use assms(3) Cons in auto)
  show ?thesis unfolding run D(1) eq Cons by (intro exI[of _ d']) (use D(3) same_trans[OF same D(2)] in simp)
qed

end

text \<open>An application whose functions only look, and one that answers at its endpoints like the name service.\<close>

definition quiet_app :: "'a rpmsg_app" where
  "quiet_app = \<lparr>app_cb = \<lambda>_ _ _ _ _ d. Some (0, d), app_unbind = \<lambda>_ _ d. Some d, app_bind = \<lambda>_ _ _ d. Some d\<rparr>"

definition ns_app :: "'a rpmsg_app" where
  "ns_app = quiet_app\<lparr>app_cb := \<lambda>_ _ data len _ d. rpmsg_virtio_ns_callback quiet_app data len d\<rparr>"

interpretation quiet: rx_client R quiet_app for R
  by unfold_locales (auto simp: quiet_app_def)

interpretation ns: rx_client R ns_app for R
proof (unfold_locales, goal_cases)
  case (1 d b f e)
  then show ?case using quiet.ns_callback_ok[of R d b] by (auto simp: ns_app_def RPMSG_SUCCESS_def)
qed (auto simp: ns_app_def quiet_app_def)

section \<open>Properties of receiving\<close>

text \<open>
  C11: the receive callback returns and delivers everything. With \<open>g\<close> the state of the receive queue, for an application that
  does not hold buffers, the callback hands each message that is available to the endpoint with its destination
  address, in the order in which the master put them, with its source, length and bytes, and drops those for which there is no
  endpoint; all buffers are returned to the master in that order, with their full lengths, and none is left.
\<close>

theorem rx_callback_delivers_in_order:
  assumes "rx_client R app" and "rx_ready R d" and "no_any d"
    and "vq_inv n (rv_io (transport d)) g m (rv_rvq (transport d)) (rv_rring (transport d))"
    and "\<forall>x \<in> set (ch_avail g). e_buf x \<in> R \<and> e_buf x \<noteq> 0"
  shows "\<exists>d'. rpmsg_virtio_rx_callback app d = Some (concat (map (\<lambda>x. deliveries d (e_buf x)) (ch_avail g)), d') \<and>
    vq_inv n (rv_io (transport d')) (g\<lparr>ch_avail := [], ch_used := ch_used g @ map (\<lambda>x. (x, e_len x)) (ch_avail g)\<rparr>) m
      (rv_rvq (transport d')) (rv_rring (transport d'))"
  using rx_client.rx_callback_delivers[OF assms(1-3,5,4)] by blast

section \<open>A concrete device\<close>

definition demo_slave :: "unit virtqueue" where
  "demo_slave = \<lparr>vq_role = VIRTIO_DEV_SLAVE, vq_event_idx = False, vq_queue_index = 0, vq_nentries = 0, vq_free_cnt = 0,
     vq_queued_cnt = 0, vq_desc_head_idx = 0, vq_used_cons_idx = 0, vq_available_idx = 0, vq_cookie = \<lambda>_. None,
     vq_ndescs = \<lambda>_. 0, vq_kicks = 0\<rparr>"

definition demo_entry :: "nat entry" where
  "demo_entry = \<lparr>e_idx = 0, e_buf = 0x10040100, e_len = 512, e_cookie = 7\<rparr>"

definition demo_channel :: "nat channel" where
  "demo_channel = \<lparr>ch_free = [1], ch_avail = [demo_entry], ch_held = [], ch_used = []\<rparr>"

lemma demo_put:
  obtains m s r m' r' where "vq_inv 2 demo_io (ch_empty 2 :: nat channel) m (s :: unit virtqueue) r"
    "vq_inv 2 demo_io demo_channel m' s r'"
proof -
  have c: "vq_cleared (demo_vq VIRTIO_DEV_MASTER) demo_slave demo_vring"
    by (simp add: vq_cleared_def demo_vq_def demo_vring_def demo_slave_def)
  obtain m s r where k: "vq_create_both 0 2 (demo_vq VIRTIO_DEV_MASTER) demo_slave demo_vring = (m, s, r)"
    by (cases "vq_create_both 0 2 (demo_vq VIRTIO_DEV_MASTER) demo_slave demo_vring")
  note i = create_inv[OF c demo_size k, of demo_io]
  have "ch_free (ch_empty 2 :: nat channel) = 0 # [1]" by (simp add: ch_empty_def upt_rec)
  from add_spec[OF i this, of 0 1 "0x10040100" 512 7] obtain m' r' where
    "vq_inv 2 demo_io ((ch_empty 2)\<lparr>ch_free := [1], ch_avail := ch_avail (ch_empty 2) @ [demo_entry]\<rparr>) m' s r'"
    using demo_region by (auto simp: demo_entry_def)
  moreover have "(ch_empty 2 :: nat channel)\<lparr>ch_free := [1], ch_avail := ch_avail (ch_empty 2) @ [demo_entry]\<rparr> = demo_channel"
    by (simp add: ch_empty_def demo_channel_def)
  ultimately show ?thesis using that i by metis
qed

definition demo_msg :: rpmsg_buf where
  "demo_msg = \<lparr>h_src = 5, h_dst = 1024, h_reserved = 0, h_len = 2, h_flags = 0, h_data = [0xAA, 0xBB]\<rparr>"

definition demo_transport :: "unit virtqueue \<Rightarrow> vring \<Rightarrow> rpmsg_virtio" where
  "demo_transport q r = \<lparr>rv_io = demo_io, rv_rvq = q, rv_svq = q, rv_rring = r, rv_sring = r, rv_shm = \<lambda>_. demo_msg, rv_status = 4\<rparr>"

definition demo_device :: "unit virtqueue \<Rightarrow> vring \<Rightarrow> unit rdev" where
  "demo_device q r = \<lparr>endpoints = [0], epts = \<lambda>_. \<lparr>ept_name = [], ept_rdev = True, ept_addr = 1024, ept_dest = 9,
     ept_cb = Some (App ()), ept_unbind = None\<rparr>, addr_bitmap = [1, 0, 0, 0], support_ns = False, ns_bind_cb = None,
     transport = demo_transport q r\<rparr>"

lemma demo_region_ok: "region_ok demo_io" and demo_buffer_ok: "buffer_ok demo_io 0x10040100 512"
  by (simp_all add: region_ok_def buffer_ok_def demo_io_def)

theorem message_reaches_master_witness:
  "\<exists>q r d'. rpmsg_send (rpmsg_virtio_ops (\<lambda>_ t. t)) 0 [1, 2, 3] (demo_device q r) = Some (3, d') \<and>
    h_src (rv_shm (transport d') 0x10040100) = 1024 \<and> h_dst (rv_shm (transport d') 0x10040100) = 9 \<and>
    take 3 (h_data (rv_shm (transport d') 0x10040100)) = [1, 2, 3]"
proof -
  obtain m and s :: "unit virtqueue" and r where i: "vq_inv 2 demo_io demo_channel m s r" using demo_put by blast
  let ?d = "demo_device s r"
  have "\<exists>d'. rpmsg_send (rpmsg_virtio_ops (\<lambda>_ t. t)) 0 [1, 2, 3] ?d = Some (int 3, d') \<and>
    rv_shm (transport d') = (rv_shm (transport ?d))(e_buf demo_entry := \<lparr>h_src = ept_addr (epts ?d 0), h_dst = ept_dest (epts ?d 0),
      h_reserved = 0, h_len = of_nat 3, h_flags = 0, h_data = take 3 [1, 2, 3] @ drop 3 (h_data (rv_shm (transport ?d) (e_buf demo_entry)))\<rparr>) \<and>
    vq_inv 2 (rv_io (transport ?d)) (demo_channel\<lparr>ch_avail := [], ch_used := ch_used demo_channel @ [(demo_entry, e_len demo_entry)]\<rparr>) m
      (rv_svq (transport d')) (rv_sring (transport d')) \<and>
    (ch_used demo_channel = [] \<longrightarrow> (\<exists>ui m' r'. virtqueue_get_buffer m (rv_sring (transport d')) =
      Some (Some (e_cookie demo_entry, e_len demo_entry, ui), m', r')))"
    by (rule message_reaches_master)
      (use i demo_region_ok demo_buffer_ok in \<open>simp_all add: demo_device_def demo_transport_def demo_channel_def demo_entry_def
        RPMSG_ADDR_ANY_def VIRTIO_CONFIG_STATUS_DRIVER_OK_def\<close>)
  then obtain d' where "rpmsg_send (rpmsg_virtio_ops (\<lambda>_ t. t)) 0 [1, 2, 3] ?d = Some (3, d')"
    and b: "rv_shm (transport d') 0x10040100 = \<lparr>h_src = ept_addr (epts ?d 0), h_dst = ept_dest (epts ?d 0),
      h_reserved = 0, h_len = of_nat 3, h_flags = 0, h_data = take 3 [1, 2, 3] @ drop 3 (h_data (rv_shm (transport ?d) (e_buf demo_entry)))\<rparr>"
    by (auto simp: demo_entry_def)
  moreover have "ept_addr (epts ?d 0) = 1024" "ept_dest (epts ?d 0) = 9" by (simp_all add: demo_device_def)
  ultimately show ?thesis by (intro exI[of _ s] exI[of _ r] exI[of _ d']) simp
qed

theorem tx_buffer_wait_witness:
  "\<exists>t sleep t'. tx_empty t \<and> rpmsg_virtio_get_tx_payload_buffer sleep True t = Some (Some (0x10040110, 496), t')"
proof -
  obtain m m' and s :: "unit virtqueue" and r r' where
    i: "vq_inv 2 demo_io (ch_empty 2 :: nat channel) m s r" "vq_inv 2 demo_io demo_channel m' s r'" using demo_put by blast
  let ?t = "demo_transport s r" and ?sleep = "\<lambda>_ t. t\<lparr>rv_sring := r'\<rparr>"
  have e: "tx_empty ?t" using i(1) window_empty[of "avail_ring r" 2 "vq_available_idx s" "avail_idx r"]
    by (simp add: tx_empty_def demo_transport_def vq_inv_def ch_empty_def)
  have u: "slept ?sleep 15000 1 ?t = ?t\<lparr>rv_sring := r'\<rparr>" by simp
  have "(vq_inv 2 (rv_io (?t\<lparr>rv_sring := r'\<rparr>)) demo_channel m' (rv_svq (?t\<lparr>rv_sring := r'\<rparr>)) (rv_sring (?t\<lparr>rv_sring := r'\<rparr>)) \<and>
      ch_avail demo_channel = demo_entry # [] \<and> e_buf demo_entry \<noteq> 0 \<longrightarrow>
      (\<exists>t'. rpmsg_virtio_get_tx_payload_buffer ?sleep True ?t =
        Some (Some (RPMSG_LOCATE_DATA (e_buf demo_entry), e_len demo_entry - sizeof_hdr), t'))) \<and>
    (1 = (15000 :: nat) \<and> tx_empty (?t\<lparr>rv_sring := r'\<rparr>) \<longrightarrow> rpmsg_virtio_get_tx_payload_buffer ?sleep True ?t = Some (None, ?t\<lparr>rv_sring := r'\<rparr>))"
    by (rule tx_buffer_wait) (use e in \<open>simp_all add: demo_transport_def VIRTIO_CONFIG_STATUS_DRIVER_OK_def\<close>)
  then have "\<exists>t'. rpmsg_virtio_get_tx_payload_buffer ?sleep True ?t = Some (Some (0x10040110, 496), t')"
    using i(2) by (simp add: demo_transport_def demo_channel_def demo_entry_def RPMSG_LOCATE_DATA_def sizeof_hdr_def)
  then show ?thesis using e by blast
qed

theorem rx_callback_delivers_in_order_witness:
  "\<exists>q r d'. rpmsg_virtio_rx_callback quiet_app (demo_device q r) = Some ([(0, 5, 2, [0xAA, 0xBB])], d')"
proof -
  obtain m and s :: "unit virtqueue" and r where i: "vq_inv 2 demo_io demo_channel m s r" using demo_put by blast
  let ?d = "demo_device s r"
  have c: "rx_client {0x10040100} (quiet_app :: unit rpmsg_app)" by unfold_locales
  have "\<exists>d'. rpmsg_virtio_rx_callback quiet_app ?d = Some (concat (map (\<lambda>x. deliveries ?d (e_buf x)) (ch_avail demo_channel)), d') \<and>
    vq_inv 2 (rv_io (transport d')) (demo_channel\<lparr>ch_avail := [], ch_used := ch_used demo_channel @ map (\<lambda>x. (x, e_len x)) (ch_avail demo_channel)\<rparr>) m
      (rv_rvq (transport d')) (rv_rring (transport d'))"
    by (rule rx_callback_delivers_in_order[OF c])
      (use i in \<open>simp_all add: demo_device_def demo_transport_def demo_channel_def demo_entry_def rx_ready_def region_ok_def
        demo_io_def demo_msg_def no_any_def RPMSG_ADDR_ANY_def\<close>)
  moreover have "rpmsg_get_ept_from_addr ?d 1024 = Some 0"
    by (subst get_ept_from_addr) (simp_all add: RPMSG_ADDR_ANY_def demo_device_def)
  then have "deliveries ?d 0x10040100 = [(0, 5, 2, [0xAA, 0xBB])]"
    by (simp add: deliveries_def) (simp add: demo_device_def demo_transport_def demo_msg_def)
  ultimately show ?thesis by (auto simp: demo_channel_def demo_entry_def)
qed

end
