(* ===== verification/Hal_Ipcc.thy ===== *)
theory Hal_Ipcc
  imports Bsp_Disco
begin

text \<open>
  The driver of the inter-processor communication controller
  (\<^verbatim>\<open>Drivers/STM32MP1xx_HAL_Driver/Src/stm32mp1xx_hal_ipcc.c\<close>) as built for the Cortex-M4
  (\<^verbatim>\<open>CORE_CM4\<close>: the own register bank is \<^verbatim>\<open>IPCC_C2\<close>), with the board hooks \<^verbatim>\<open>HAL_IPCC_MspInit\<close> and
  \<^verbatim>\<open>HAL_IPCC_MspDeInit\<close> of \<^verbatim>\<open>CM4/Core/Src/stm32mp1xx_hal_msp.c\<close>.

  The controller has, for each of the two processors, a control, a mask and a status register. A bit of the
  status register of a processor says that the processor has posted something on that channel which the
  other one has not retrieved. Writing the set/clear register of a processor sets bits of its own status
  register (upper half) and clears bits of the status register of the other one (lower half); it reads as 0.

  Callbacks are data (\<open>ChannelCb\<close>); what they do is the parameter \<open>call\<close> of the interrupt handlers. \<open>None\<close> is
  an access outside the callback tables or a handler that never returns; the theory shows that the handlers
  return, and equal to a reference that serves the pending channels in order.
\<close>

section \<open>The controller\<close>

datatype HAL_IPCC_StateTypeDef = HAL_IPCC_STATE_RESET | HAL_IPCC_STATE_READY | HAL_IPCC_STATE_BUSY
datatype IPCC_CHANNELDirTypeDef = IPCC_CHANNEL_DIR_TX | IPCC_CHANNEL_DIR_RX
datatype IPCC_CHANNELStatusTypeDef = IPCC_CHANNEL_STATUS_FREE | IPCC_CHANNEL_STATUS_OCCUPIED

datatype 'c ChannelCb = HAL_IPCC_RxCallback | HAL_IPCC_TxCallback | Client 'c

record 'c ipcc_board = board +
  ipcc_clk :: bool
  ip_CR :: "core \<Rightarrow> u32"
  ip_MR :: "core \<Rightarrow> u32"
  ip_SR :: "core \<Rightarrow> u32"
  ChannelCallbackRx :: "nat \<Rightarrow> 'c ChannelCb option"
  ChannelCallbackTx :: "nat \<Rightarrow> 'c ChannelCb option"
  callbackRequest :: u32
  ip_State :: HAL_IPCC_StateTypeDef

definition IPCC_ALL_RX_BUF :: u32 where "IPCC_ALL_RX_BUF = 0x3F"
definition IPCC_ALL_TX_BUF :: u32 where "IPCC_ALL_TX_BUF = 0x3F0000"
definition CHANNEL_INDEX_Msk :: u32 where "CHANNEL_INDEX_Msk = 0xF"
definition IPCC_CR_RXOIE :: u32 where "IPCC_CR_RXOIE = 1"
definition IPCC_CR_TXFIE :: u32 where "IPCC_CR_TXFIE = 0x10000"
definition IPCC_CHANNEL_NUMBER :: nat where "IPCC_CHANNEL_NUMBER = 6"
definition IPCC_CHANNEL_1 :: u32 where "IPCC_CHANNEL_1 = 0"
definition IPCC_CHANNEL_2 :: u32 where "IPCC_CHANNEL_2 = 1"
definition IPCC_RX1_IRQn :: nat where "IPCC_RX1_IRQn = 103"
definition IPCC_TX1_IRQn :: nat where "IPCC_TX1_IRQn = 104"

fun other :: "core \<Rightarrow> core" where
  "other CA7 = CM4"
| "other CM4 = CA7"

definition write_SCR :: "core \<Rightarrow> u32 \<Rightarrow> ('c, 'z) ipcc_board_scheme \<Rightarrow> ('c, 'z) ipcc_board_scheme" where
  "write_SCR c v s = s\<lparr>ip_SR := (ip_SR s)
     (c := ip_SR s c OR (drop_bit 16 v AND 0x3F), other c := ip_SR s (other c) AND NOT (v AND 0x3F))\<rparr>"

text \<open>The bit of a channel: in the mask register (and for setting) the upper half belongs to transmission.\<close>

definition dir_pos :: "IPCC_CHANNELDirTypeDef \<Rightarrow> nat" where
  "dir_pos dir = (case dir of IPCC_CHANNEL_DIR_TX \<Rightarrow> 16 | IPCC_CHANNEL_DIR_RX \<Rightarrow> 0)"

definition channel_shift :: "u32 \<Rightarrow> nat" where
  "channel_shift ChannelIndex = unat (ChannelIndex AND CHANNEL_INDEX_Msk)"

definition mr_bit :: "IPCC_CHANNELDirTypeDef \<Rightarrow> u32 \<Rightarrow> u32" where
  "mr_bit dir ChannelIndex = push_bit (channel_shift ChannelIndex) (push_bit (dir_pos dir) 1)"

section \<open>Private functions\<close>

definition IPCC_MaskInterrupt ::
  "u32 \<Rightarrow> IPCC_CHANNELDirTypeDef \<Rightarrow> ('c, 'z) ipcc_board_scheme \<Rightarrow> ('c, 'z) ipcc_board_scheme" where
  "IPCC_MaskInterrupt ChannelIndex dir s =
     s\<lparr>ip_MR := (ip_MR s)(CM4 := ip_MR s CM4 OR mr_bit dir ChannelIndex)\<rparr>"

definition IPCC_UnmaskInterrupt ::
  "u32 \<Rightarrow> IPCC_CHANNELDirTypeDef \<Rightarrow> ('c, 'z) ipcc_board_scheme \<Rightarrow> ('c, 'z) ipcc_board_scheme" where
  "IPCC_UnmaskInterrupt ChannelIndex dir s =
     s\<lparr>ip_MR := (ip_MR s)(CM4 := ip_MR s CM4 AND NOT (mr_bit dir ChannelIndex))\<rparr>"

definition IPCC_SetDefaultCallbacks :: "('c, 'z) ipcc_board_scheme \<Rightarrow> ('c, 'z) ipcc_board_scheme" where
  "IPCC_SetDefaultCallbacks s =
     fold (\<lambda>i s. s\<lparr>ChannelCallbackRx := (ChannelCallbackRx s)(i := Some HAL_IPCC_RxCallback),
                   ChannelCallbackTx := (ChannelCallbackTx s)(i := Some HAL_IPCC_TxCallback)\<rparr>)
       [0..<IPCC_CHANNEL_NUMBER] s"

definition IPCC_Reset_Register :: "core \<Rightarrow> ('c, 'z) ipcc_board_scheme \<Rightarrow> ('c, 'z) ipcc_board_scheme" where
  "IPCC_Reset_Register c s =
     write_SCR c IPCC_ALL_RX_BUF
       (s\<lparr>ip_CR := (ip_CR s)(c := 0), ip_MR := (ip_MR s)(c := IPCC_ALL_TX_BUF OR IPCC_ALL_RX_BUF)\<rparr>)"

section \<open>Setting up\<close>

definition HAL_IPCC_MspInit :: "('c, 'z) ipcc_board_scheme \<Rightarrow> ('c, 'z) ipcc_board_scheme" where
  "HAL_IPCC_MspInit s =
     (let s = s\<lparr>ipcc_clk := True\<rparr>;
          s = HAL_NVIC_SetPriority IPCC_RX1_IRQn 5 0 s;
          s = HAL_NVIC_EnableIRQ IPCC_RX1_IRQn s;
          s = HAL_NVIC_SetPriority IPCC_TX1_IRQn 5 0 s
      in HAL_NVIC_EnableIRQ IPCC_TX1_IRQn s)"

definition HAL_IPCC_MspDeInit :: "('c, 'z) ipcc_board_scheme \<Rightarrow> ('c, 'z) ipcc_board_scheme" where
  "HAL_IPCC_MspDeInit s =
     HAL_NVIC_DisableIRQ IPCC_TX1_IRQn (HAL_NVIC_DisableIRQ IPCC_RX1_IRQn (s\<lparr>ipcc_clk := False\<rparr>))"

text \<open>The argument says whether the handle pointer is not null.\<close>

definition HAL_IPCC_Init :: "bool \<Rightarrow> ('c, 'z) ipcc_board_scheme \<Rightarrow> HAL_StatusTypeDef \<times> ('c, 'z) ipcc_board_scheme" where
  "HAL_IPCC_Init hipcc s =
     (if hipcc then
        let s = (if ip_State s = HAL_IPCC_STATE_RESET then HAL_IPCC_MspInit s else s);
            s = IPCC_Reset_Register CM4 s;
            s = s\<lparr>ip_CR := (ip_CR s)(CM4 := ip_CR s CM4 OR (IPCC_CR_RXOIE OR IPCC_CR_TXFIE))\<rparr>;
            s = IPCC_SetDefaultCallbacks s;
            s = s\<lparr>callbackRequest := 0\<rparr>
        in (HAL_OK, s\<lparr>ip_State := HAL_IPCC_STATE_READY\<rparr>)
      else (HAL_ERROR, s))"

definition HAL_IPCC_DeInit :: "bool \<Rightarrow> ('c, 'z) ipcc_board_scheme \<Rightarrow> HAL_StatusTypeDef \<times> ('c, 'z) ipcc_board_scheme" where
  "HAL_IPCC_DeInit hipcc s =
     (if hipcc then
        let s = s\<lparr>ip_State := HAL_IPCC_STATE_BUSY\<rparr>;
            s = IPCC_Reset_Register CM4 s;
            s = IPCC_SetDefaultCallbacks s;
            s = s\<lparr>callbackRequest := 0\<rparr>;
            s = HAL_IPCC_MspDeInit s
        in (HAL_OK, s\<lparr>ip_State := HAL_IPCC_STATE_RESET\<rparr>)
      else (HAL_ERROR, s))"

definition MX_IPCC_Init :: "('c, 'z) ipcc_board_scheme \<Rightarrow> ('c, 'z) ipcc_board_scheme may_hang" where
  "MX_IPCC_Init s = (case HAL_IPCC_Init True s of (r, s) \<Rightarrow> if r \<noteq> HAL_OK then None else Some s)"

section \<open>Notifications\<close>

definition set_callback ::
  "IPCC_CHANNELDirTypeDef \<Rightarrow> u32 \<Rightarrow> 'c ChannelCb option \<Rightarrow> ('c, 'z) ipcc_board_scheme \<Rightarrow> ('c, 'z) ipcc_board_scheme" where
  "set_callback dir ChannelIndex cb s =
     (case dir of
        IPCC_CHANNEL_DIR_TX \<Rightarrow> s\<lparr>ChannelCallbackTx := (ChannelCallbackTx s)(unat ChannelIndex := cb)\<rparr>
      | IPCC_CHANNEL_DIR_RX \<Rightarrow> s\<lparr>ChannelCallbackRx := (ChannelCallbackRx s)(unat ChannelIndex := cb)\<rparr>)"

definition HAL_IPCC_ActivateNotification ::
  "bool \<Rightarrow> u32 \<Rightarrow> IPCC_CHANNELDirTypeDef \<Rightarrow> 'c ChannelCb option \<Rightarrow> ('c, 'z) ipcc_board_scheme \<Rightarrow>
    (HAL_StatusTypeDef \<times> ('c, 'z) ipcc_board_scheme) option" where
  "HAL_IPCC_ActivateNotification hipcc ChannelIndex dir cb s =
     (if \<not> hipcc \<or> ip_State s \<noteq> HAL_IPCC_STATE_READY then Some (HAL_ERROR, s)
      else if IPCC_CHANNEL_NUMBER \<le> unat ChannelIndex then None
      else let s = set_callback dir ChannelIndex cb s;
               s = s\<lparr>callbackRequest := callbackRequest s OR mr_bit dir ChannelIndex\<rparr>
           in Some (HAL_OK, if dir = IPCC_CHANNEL_DIR_RX then IPCC_UnmaskInterrupt ChannelIndex dir s else s))"

definition HAL_IPCC_DeActivateNotification ::
  "bool \<Rightarrow> u32 \<Rightarrow> IPCC_CHANNELDirTypeDef \<Rightarrow> ('c, 'z) ipcc_board_scheme \<Rightarrow>
    (HAL_StatusTypeDef \<times> ('c, 'z) ipcc_board_scheme) option" where
  "HAL_IPCC_DeActivateNotification hipcc ChannelIndex dir s =
     (if \<not> hipcc \<or> ip_State s \<noteq> HAL_IPCC_STATE_READY then Some (HAL_ERROR, s)
      else if IPCC_CHANNEL_NUMBER \<le> unat ChannelIndex then None
      else let default = (case dir of IPCC_CHANNEL_DIR_TX \<Rightarrow> HAL_IPCC_TxCallback | IPCC_CHANNEL_DIR_RX \<Rightarrow> HAL_IPCC_RxCallback);
               s = set_callback dir ChannelIndex (Some default) s;
               s = s\<lparr>callbackRequest := callbackRequest s AND NOT (mr_bit dir ChannelIndex)\<rparr>
           in Some (HAL_OK, IPCC_MaskInterrupt ChannelIndex dir s))"

definition HAL_IPCC_GetChannelStatus ::
  "u32 \<Rightarrow> IPCC_CHANNELDirTypeDef \<Rightarrow> ('c, 'z) ipcc_board_scheme \<Rightarrow> IPCC_CHANNELStatusTypeDef" where
  "HAL_IPCC_GetChannelStatus ChannelIndex dir s =
     (let bank = (case dir of IPCC_CHANNEL_DIR_TX \<Rightarrow> CM4 | IPCC_CHANNEL_DIR_RX \<Rightarrow> CA7);
          channel_state = ip_SR s bank AND push_bit (channel_shift ChannelIndex) 1
      in if channel_state = 0 then IPCC_CHANNEL_STATUS_FREE else IPCC_CHANNEL_STATUS_OCCUPIED)"

definition HAL_IPCC_NotifyCPU ::
  "u32 \<Rightarrow> IPCC_CHANNELDirTypeDef \<Rightarrow> ('c, 'z) ipcc_board_scheme \<Rightarrow> HAL_StatusTypeDef \<times> ('c, 'z) ipcc_board_scheme" where
  "HAL_IPCC_NotifyCPU ChannelIndex dir s =
     (if ip_State s = HAL_IPCC_STATE_READY then
        let s = write_SCR CM4 (push_bit (channel_shift ChannelIndex) (push_bit (dir_pos dir) 1)) s;
            msk = mr_bit dir ChannelIndex
        in (HAL_OK, if callbackRequest s AND msk = msk then IPCC_UnmaskInterrupt ChannelIndex dir s else s)
      else (HAL_ERROR, s))"

section \<open>Interrupt handlers\<close>

type_synonym ('c, 'z) cb_call =
  "'c ChannelCb \<Rightarrow> u32 \<Rightarrow> IPCC_CHANNELDirTypeDef \<Rightarrow> ('c, 'z) ipcc_board_scheme \<Rightarrow> ('c, 'z) ipcc_board_scheme"

definition serve_channel ::
  "('c, 'z) cb_call \<Rightarrow> IPCC_CHANNELDirTypeDef \<Rightarrow> u32 \<Rightarrow> ('c, 'z) ipcc_board_scheme \<Rightarrow> ('c, 'z) ipcc_board_scheme" where
  "serve_channel call dir ch_count s =
     (let s = s\<lparr>ip_MR := (ip_MR s)(CM4 := ip_MR s CM4 OR mr_bit dir ch_count)\<rparr>;
          cb = (case dir of IPCC_CHANNEL_DIR_TX \<Rightarrow> ChannelCallbackTx s (unat ch_count)
                          | IPCC_CHANNEL_DIR_RX \<Rightarrow> ChannelCallbackRx s (unat ch_count))
      in case cb of None \<Rightarrow> s | Some f \<Rightarrow> call f ch_count dir s)"

partial_function (option) irq_loop ::
  "('c, 'z) cb_call \<Rightarrow> IPCC_CHANNELDirTypeDef \<Rightarrow> u32 \<Rightarrow> u32 \<Rightarrow> ('c, 'z) ipcc_board_scheme \<Rightarrow>
    ('c, 'z) ipcc_board_scheme option" where
  "irq_loop call dir irqmask ch_count s =
     (if irqmask = 0 then Some s
      else if irqmask AND mr_bit dir ch_count \<noteq> 0 then
        (if IPCC_CHANNEL_NUMBER \<le> unat ch_count then None
         else irq_loop call dir (irqmask AND NOT (mr_bit dir ch_count)) (ch_count + 1) (serve_channel call dir ch_count s))
      else irq_loop call dir irqmask (ch_count + 1) s)"

definition HAL_IPCC_TX_IRQHandler ::
  "('c, 'z) cb_call \<Rightarrow> ('c, 'z) ipcc_board_scheme \<Rightarrow> ('c, 'z) ipcc_board_scheme option" where
  "HAL_IPCC_TX_IRQHandler call s =
     (let irqmask = NOT (ip_MR s CM4) AND IPCC_ALL_TX_BUF;
          irqmask = irqmask AND NOT (push_bit 16 (ip_SR s CM4))
      in irq_loop call IPCC_CHANNEL_DIR_TX irqmask 0 s)"

definition HAL_IPCC_RX_IRQHandler ::
  "('c, 'z) cb_call \<Rightarrow> ('c, 'z) ipcc_board_scheme \<Rightarrow> ('c, 'z) ipcc_board_scheme option" where
  "HAL_IPCC_RX_IRQHandler call s =
     (let irqmask = NOT (ip_MR s CM4) AND IPCC_ALL_RX_BUF;
          irqmask = irqmask AND ip_SR s CA7
      in irq_loop call IPCC_CHANNEL_DIR_RX irqmask 0 s)"

definition HAL_IPCC_GetState :: "('c, 'z) ipcc_board_scheme \<Rightarrow> HAL_IPCC_StateTypeDef" where
  "HAL_IPCC_GetState s = ip_State s"

section \<open>What the handlers do\<close>

lemma channel_shift_small:
  assumes "k < 16"
  shows "channel_shift (of_nat k) = k"
proof -
  have "(0xF :: u32) = mask 4" by (simp add: mask_eq_exp_minus_1)
  then have "channel_shift (of_nat k) = unat (take_bit 4 (of_nat k :: u32))"
    by (simp add: channel_shift_def CHANNEL_INDEX_Msk_def take_bit_eq_mask)
  also have "\<dots> = take_bit 4 (unat (of_nat k :: u32))" by (simp add: unsigned_take_bit_eq)
  also have "\<dots> = k" using assms by (simp add: unat_of_nat take_bit_eq_mod)
  finally show ?thesis .
qed

lemma bit_mr_bit: "k < 6 \<Longrightarrow> bit (mr_bit dir (of_nat k)) n \<longleftrightarrow> n = dir_pos dir + k"
  by (cases dir) (auto simp: mr_bit_def channel_shift_small dir_pos_def push_bit_push_bit bit_push_bit_iff bit_1_iff
      simp del: push_bit_of_1)

lemma mr_bit_and: "k < 6 \<Longrightarrow> (w AND mr_bit dir (of_nat k) \<noteq> 0) = bit w (dir_pos dir + k)"
proof -
  assume "k < 6"
  then have "bit (w AND mr_bit dir (of_nat k)) n \<longleftrightarrow> bit w (dir_pos dir + k) \<and> n = dir_pos dir + k" for n
    by (auto simp: bit_and_iff bit_mr_bit)
  then show ?thesis by (metis bit_0_eq bit_eqI bot_apply bot_bool_def)
qed

text \<open>
  The loop serves the channels whose bit is set, in ascending order, and returns: it clears a bit of the
  local mask for each channel it serves, and no bit is set beyond channel 6.
\<close>

lemma irq_loop_from:
  assumes "k \<le> 6" "\<And>n. bit m n \<Longrightarrow> dir_pos dir + k \<le> n \<and> n < dir_pos dir + 6"
  shows "irq_loop call dir m (of_nat k) s =
    Some (fold (\<lambda>c. serve_channel call dir (of_nat c)) (filter (\<lambda>c. bit m (dir_pos dir + c)) [k..<6]) s)"
  using assms
proof (induction "6 - k" arbitrary: k m s)
  case 0
  then have "m = 0" by (metis bit_eq_iff bit_0_eq bot_apply bot_bool_def diff_is_0_eq le_antisym not_le)
  then show ?case using 0 by (simp add: irq_loop.simps)
next
  case (Suc d)
  then have k: "k < 6" and d: "d = 6 - Suc k" by simp_all
  have upt: "[k..<6] = k # [Suc k..<6]" using k by (simp add: upt_rec)
  have num: "unat (of_nat k :: u32) = k" using k by (simp add: unat_of_nat)
  show ?case
  proof (cases "bit m (dir_pos dir + k)")
    case True
    let ?m = "m AND NOT (mr_bit dir (of_nat k))"
    have bits: "bit ?m n \<longleftrightarrow> bit m n \<and> n \<noteq> dir_pos dir + k" for n
      using bit_u32_less[of m n] by (auto simp: bit_simps bit_mr_bit[OF k])
    have "irq_loop call dir ?m (of_nat (Suc k)) (serve_channel call dir (of_nat k) s) =
        Some (fold (\<lambda>c. serve_channel call dir (of_nat c)) (filter (\<lambda>c. bit ?m (dir_pos dir + c)) [Suc k..<6])
          (serve_channel call dir (of_nat k) s))"
    proof (rule Suc.hyps(1)[OF d])
      show "Suc k \<le> 6" using k by simp
      show "dir_pos dir + Suc k \<le> n \<and> n < dir_pos dir + 6" if "bit ?m n" for n
        using that Suc.prems(2)[of n] by (auto simp: bits)
    qed
    moreover have "filter (\<lambda>c. bit ?m (dir_pos dir + c)) [Suc k..<6] = filter (\<lambda>c. bit m (dir_pos dir + c)) [Suc k..<6]"
      by (rule filter_cong) (auto simp: bits)
    moreover have "m \<noteq> 0" using True by auto
    ultimately show ?thesis
      using True k num mr_bit_and[OF k, of m dir] unfolding upt
      by (subst irq_loop.simps) (simp add: IPCC_CHANNEL_NUMBER_def add.commute)
  next
    case False
    have range: "dir_pos dir + Suc k \<le> n \<and> n < dir_pos dir + 6" if "bit m n" for n
      using that Suc.prems(2)[of n] False by (cases "n = dir_pos dir + k") auto
    have "irq_loop call dir m (of_nat (Suc k)) s =
        Some (fold (\<lambda>c. serve_channel call dir (of_nat c)) (filter (\<lambda>c. bit m (dir_pos dir + c)) [Suc k..<6]) s)"
      using Suc.hyps(1)[OF d _ range] k by simp
    moreover have "m = 0 \<Longrightarrow> ?thesis" by (subst irq_loop.simps) simp
    ultimately show ?thesis
      using False mr_bit_and[OF k, of m dir] unfolding upt
      by (subst irq_loop.simps) (auto simp: add.commute)
  qed
qed

lemma bit_all_buf:
  "bit IPCC_ALL_RX_BUF n \<longleftrightarrow> n < 6" "bit IPCC_ALL_TX_BUF n \<longleftrightarrow> 16 \<le> n \<and> n < 22"
proof -
  have rx: "IPCC_ALL_RX_BUF = mask 6" and tx: "IPCC_ALL_TX_BUF = push_bit 16 (mask 6)"
    by (simp_all add: IPCC_ALL_RX_BUF_def IPCC_ALL_TX_BUF_def mask_eq_exp_minus_1)
  show "bit IPCC_ALL_RX_BUF n \<longleftrightarrow> n < 6" unfolding rx by (auto simp: bit_mask_iff)
  show "bit IPCC_ALL_TX_BUF n \<longleftrightarrow> 16 \<le> n \<and> n < 22" unfolding tx by (auto simp: bit_push_bit_iff bit_mask_iff)
qed

text \<open>The channels an interrupt handler has to serve.\<close>

definition rx_pending :: "('c, 'z) ipcc_board_scheme \<Rightarrow> nat \<Rightarrow> bool" where
  "rx_pending s c \<longleftrightarrow> bit (ip_SR s CA7) c \<and> \<not> bit (ip_MR s CM4) c"

definition tx_pending :: "('c, 'z) ipcc_board_scheme \<Rightarrow> nat \<Rightarrow> bool" where
  "tx_pending s c \<longleftrightarrow> \<not> bit (ip_SR s CM4) c \<and> \<not> bit (ip_MR s CM4) (16 + c)"

lemma rx_handler_serves:
  "HAL_IPCC_RX_IRQHandler call s =
    Some (fold (\<lambda>c. serve_channel call IPCC_CHANNEL_DIR_RX (of_nat c)) (filter (rx_pending s) [0..<6]) s)"
proof -
  let ?m = "NOT (ip_MR s CM4) AND IPCC_ALL_RX_BUF AND ip_SR s CA7"
  have bits: "bit ?m n \<longleftrightarrow> n < 6 \<and> rx_pending s n" for n
    by (auto simp: bit_simps bit_all_buf rx_pending_def)
  have "irq_loop call IPCC_CHANNEL_DIR_RX ?m (of_nat 0) s = Some (fold (\<lambda>c. serve_channel call IPCC_CHANNEL_DIR_RX (of_nat c))
      (filter (\<lambda>c. bit ?m (dir_pos IPCC_CHANNEL_DIR_RX + c)) [0..<6]) s)"
    by (rule irq_loop_from) (auto simp: bits dir_pos_def)
  moreover have "filter (\<lambda>c. bit ?m (dir_pos IPCC_CHANNEL_DIR_RX + c)) [0..<6] = filter (rx_pending s) [0..<6]"
    by (rule filter_cong) (auto simp: bits dir_pos_def)
  ultimately show ?thesis by (simp add: HAL_IPCC_RX_IRQHandler_def and.assoc)
qed

lemma tx_handler_serves:
  "HAL_IPCC_TX_IRQHandler call s =
    Some (fold (\<lambda>c. serve_channel call IPCC_CHANNEL_DIR_TX (of_nat c)) (filter (tx_pending s) [0..<6]) s)"
proof -
  let ?m = "NOT (ip_MR s CM4) AND IPCC_ALL_TX_BUF AND NOT (push_bit 16 (ip_SR s CM4))"
  have bits: "bit ?m n \<longleftrightarrow> 16 \<le> n \<and> n < 22 \<and> tx_pending s (n - 16)" for n
    by (auto simp: bit_simps bit_all_buf tx_pending_def)
  have "irq_loop call IPCC_CHANNEL_DIR_TX ?m (of_nat 0) s = Some (fold (\<lambda>c. serve_channel call IPCC_CHANNEL_DIR_TX (of_nat c))
      (filter (\<lambda>c. bit ?m (dir_pos IPCC_CHANNEL_DIR_TX + c)) [0..<6]) s)"
    by (rule irq_loop_from) (auto simp: bits dir_pos_def)
  moreover have "filter (\<lambda>c. bit ?m (dir_pos IPCC_CHANNEL_DIR_TX + c)) [0..<6] = filter (tx_pending s) [0..<6]"
    by (rule filter_cong) (auto simp: bits dir_pos_def)
  ultimately show ?thesis by (simp add: HAL_IPCC_TX_IRQHandler_def and.assoc)
qed

section \<open>Properties\<close>

text \<open>Both interrupt handlers of the controller always return, whatever the registers hold: they serve exactly
  the channels that are unmasked and occupied by the other processor (receive) or unmasked and free
  (transmit), each once and in ascending order. Serving masks the interrupt of the channel and then calls
  its callback. The loop never reads a callback table out of its bounds.\<close>

theorem irq_handlers_serve:
  "HAL_IPCC_RX_IRQHandler call s =
      Some (fold (\<lambda>c. serve_channel call IPCC_CHANNEL_DIR_RX (of_nat c)) (filter (rx_pending s) [0..<6]) s) \<and>
   HAL_IPCC_TX_IRQHandler call s =
      Some (fold (\<lambda>c. serve_channel call IPCC_CHANNEL_DIR_TX (of_nat c)) (filter (tx_pending s) [0..<6]) s)"
  using rx_handler_serves tx_handler_serves by blast

end
