(* ===== verification/Mailbox.thy ===== *)
theory Mailbox
  imports Hal_Ipcc
begin

text \<open>
  The mailbox of the Cortex-M4 (\<^verbatim>\<open>CM4/OPENAMP/mbox_ipcc.c\<close>): channel 1 carries messages to the application
  processor and its "buffer free" answers, channel 2 messages from it. The interrupt callbacks only note
  what happened in two flags; \<^verbatim>\<open>MAILBOX_Poll\<close>, called from the main loop, hands them on to the virtqueues.

  Processing a virtqueue (\<^verbatim>\<open>rproc_virtio_notified\<close>) is a parameter that transforms the whole state, so that it can
  stand for anything that happens meanwhile, interrupts included. Waiting for a free channel depends on
  the other processor: \<open>env k\<close> is what happens between two reads of the status.

  The steps of the two processors are an inductive relation (\<open>mbox_step\<close>).
\<close>

section \<open>The mailbox\<close>

datatype mbox_cb = IPCC_channel1_callback | IPCC_channel2_callback

record mbox = "mbox_cb ipcc_board" +
  msg_received_ch1 :: int
  msg_received_ch2 :: int

definition MBOX_NO_MSG :: int where "MBOX_NO_MSG = 0"
definition MBOX_NEW_MSG :: int where "MBOX_NEW_MSG = 1"
definition MBOX_BUF_FREE :: int where "MBOX_BUF_FREE = 2"
definition VRING0_ID :: u32 where "VRING0_ID = 0"
definition VRING1_ID :: u32 where "VRING1_ID = 1"

lemmas mbox_defs = MBOX_NO_MSG_def MBOX_NEW_MSG_def MBOX_BUF_FREE_def VRING0_ID_def VRING1_ID_def
  IPCC_CHANNEL_1_def IPCC_CHANNEL_2_def

definition channel1_callback :: "u32 \<Rightarrow> 'z mbox_scheme \<Rightarrow> 'z mbox_scheme" where
  "channel1_callback ChannelIndex s =
     snd (HAL_IPCC_NotifyCPU ChannelIndex IPCC_CHANNEL_DIR_RX (s\<lparr>msg_received_ch1 := MBOX_BUF_FREE\<rparr>))"

definition channel2_callback :: "u32 \<Rightarrow> 'z mbox_scheme \<Rightarrow> 'z mbox_scheme" where
  "channel2_callback ChannelIndex s =
     snd (HAL_IPCC_NotifyCPU ChannelIndex IPCC_CHANNEL_DIR_RX (s\<lparr>msg_received_ch2 := MBOX_NEW_MSG\<rparr>))"

fun mbox_call :: "mbox_cb ChannelCb \<Rightarrow> u32 \<Rightarrow> IPCC_CHANNELDirTypeDef \<Rightarrow> 'z mbox_scheme \<Rightarrow> 'z mbox_scheme" where
  "mbox_call (Client IPCC_channel1_callback) ch dir s = channel1_callback ch s"
| "mbox_call (Client IPCC_channel2_callback) ch dir s = channel2_callback ch s"
| "mbox_call _ ch dir s = s"

definition IPCC_RX1_IRQHandler :: "'z mbox_scheme \<Rightarrow> 'z mbox_scheme option" where
  "IPCC_RX1_IRQHandler s = HAL_IPCC_RX_IRQHandler mbox_call s"

definition IPCC_TX1_IRQHandler :: "'z mbox_scheme \<Rightarrow> 'z mbox_scheme option" where
  "IPCC_TX1_IRQHandler s = HAL_IPCC_TX_IRQHandler mbox_call s"

definition MAILBOX_Init :: "'z mbox_scheme \<Rightarrow> (int \<times> 'z mbox_scheme) option" where
  "MAILBOX_Init s =
     (case HAL_IPCC_ActivateNotification True IPCC_CHANNEL_1 IPCC_CHANNEL_DIR_RX (Some (Client IPCC_channel1_callback)) s of
        None \<Rightarrow> None
      | Some (r, s) \<Rightarrow>
          if r \<noteq> HAL_OK then Some (- 1, s)
          else (case HAL_IPCC_ActivateNotification True IPCC_CHANNEL_2 IPCC_CHANNEL_DIR_RX
                       (Some (Client IPCC_channel2_callback)) s of
                  None \<Rightarrow> None
                | Some (r, s) \<Rightarrow> if r \<noteq> HAL_OK then Some (- 1, s) else Some (0, s)))"

definition MAILBOX_Poll :: "(u32 \<Rightarrow> 'z mbox_scheme \<Rightarrow> 'z mbox_scheme) \<Rightarrow> 'z mbox_scheme \<Rightarrow> int \<times> 'z mbox_scheme" where
  "MAILBOX_Poll rproc_virtio_notified s =
     (let (ret, s) = (if msg_received_ch1 s = MBOX_BUF_FREE
                      then (0, (rproc_virtio_notified VRING0_ID s)\<lparr>msg_received_ch1 := MBOX_NO_MSG\<rparr>)
                      else (- 1, s))
      in if msg_received_ch2 s = MBOX_NEW_MSG
         then (0, (rproc_virtio_notified VRING1_ID s)\<lparr>msg_received_ch2 := MBOX_NO_MSG\<rparr>)
         else (ret, s))"

partial_function (option) wait_free ::
  "(nat \<Rightarrow> 'z mbox_scheme \<Rightarrow> 'z mbox_scheme) \<Rightarrow> u32 \<Rightarrow> nat \<Rightarrow> 'z mbox_scheme \<Rightarrow> 'z mbox_scheme option" where
  "wait_free env channel k s =
     (if HAL_IPCC_GetChannelStatus channel IPCC_CHANNEL_DIR_TX s = IPCC_CHANNEL_STATUS_OCCUPIED
      then wait_free env channel (Suc k) (env k s) else Some s)"

definition MAILBOX_Notify ::
  "(nat \<Rightarrow> 'z mbox_scheme \<Rightarrow> 'z mbox_scheme) \<Rightarrow> u32 \<Rightarrow> 'z mbox_scheme \<Rightarrow> (int \<times> 'z mbox_scheme) may_hang" where
  "MAILBOX_Notify env vq s =
     (let channel = (if vq = VRING0_ID then Some IPCC_CHANNEL_1
                     else if vq = VRING1_ID then Some IPCC_CHANNEL_2 else None)
      in case channel of
           None \<Rightarrow> Some (- 1, s)
         | Some ch \<Rightarrow>
             (case wait_free env ch 0 s of
                None \<Rightarrow> None
              | Some s \<Rightarrow> Some (0, snd (HAL_IPCC_NotifyCPU ch IPCC_CHANNEL_DIR_TX s))))"

section \<open>Steps of the two processors\<close>

text \<open>
  The application processor posts on a channel only while it is free, and retrieves what the Cortex-M4 posted.
  \<open>c\<close> is the channel, 0 or 1.
\<close>

inductive mbox_step :: "(u32 \<Rightarrow> 'z mbox_scheme \<Rightarrow> 'z mbox_scheme) \<Rightarrow> 'z mbox_scheme \<Rightarrow> 'z mbox_scheme \<Rightarrow> bool"
  for notified where
  a7_post: "c < 2 \<Longrightarrow> \<not> bit (ip_SR s CA7) c \<Longrightarrow> mbox_step notified s (write_SCR CA7 (push_bit (16 + c) 1) s)"
| a7_retrieve: "c < 2 \<Longrightarrow> bit (ip_SR s CM4) c \<Longrightarrow> mbox_step notified s (write_SCR CA7 (push_bit c 1) s)"
| rx_irq: "IPCC_RX1_IRQHandler s = Some s' \<Longrightarrow> mbox_step notified s s'"
| tx_irq: "IPCC_TX1_IRQHandler s = Some s' \<Longrightarrow> mbox_step notified s s'"
| poll: "MAILBOX_Poll notified s = (r, s') \<Longrightarrow> mbox_step notified s s'"
| notify: "MAILBOX_Notify (\<lambda>_ t. t) vq s = Some (r, s') \<Longrightarrow> mbox_step notified s s'"

inductive_cases mbox_stepE: "mbox_step notified s t"

section \<open>The mailbox stays operational\<close>

definition mbox_ready :: "'z mbox_scheme \<Rightarrow> bool" where
  "mbox_ready s \<longleftrightarrow> ip_State s = HAL_IPCC_STATE_READY \<and>
     ChannelCallbackRx s 0 = Some (Client IPCC_channel1_callback) \<and>
     ChannelCallbackRx s 1 = Some (Client IPCC_channel2_callback) \<and>
     (\<forall>c < 6. bit (ip_MR s CM4) c \<longleftrightarrow> 2 \<le> c) \<and> (\<forall>c < 6. bit (ip_MR s CM4) (16 + c)) \<and>
     bit (callbackRequest s) 0 \<and> bit (callbackRequest s) 1 \<and> (\<forall>c < 6. \<not> bit (callbackRequest s) (16 + c)) \<and>
     msg_received_ch1 s \<in> {MBOX_NO_MSG, MBOX_BUF_FREE} \<and> msg_received_ch2 s \<in> {MBOX_NO_MSG, MBOX_NEW_MSG}"

lemma mr_bit_num: "mr_bit IPCC_CHANNEL_DIR_RX 0 = 1" "mr_bit IPCC_CHANNEL_DIR_RX 1 = 2"
  "mr_bit IPCC_CHANNEL_DIR_TX 0 = 0x10000" "mr_bit IPCC_CHANNEL_DIR_TX 1 = 0x20000"
  by (simp_all add: mr_bit_def channel_shift_def CHANNEL_INDEX_Msk_def dir_pos_def)

lemma unset_01: "(w :: u32) AND - 2 = unset_bit 0 w" "(w :: u32) AND - 3 = unset_bit 1 w"
  using unset_bit_eq_and_not[of 0 w] unset_bit_eq_and_not[of 1 w] by simp_all

lemma set_01: "(w :: u32) OR 1 = set_bit 0 w" "(w :: u32) OR 2 = set_bit 1 w"
  using set_bit_eq_or[of 0 w] set_bit_eq_or[of 1 w] by simp_all

lemma test_01: "((w :: u32) AND 1 = 1) = bit w 0" "((w :: u32) AND 2 = 2) = bit w 1"
proof -
  have "(w AND push_bit n 1 = push_bit n 1) = bit w n" if "n < 32" for n
  proof
    assume "w AND push_bit n 1 = push_bit n 1"
    then have "bit (w AND push_bit n 1) n = bit (push_bit n 1 :: u32) n" by (rule arg_cong)
    then show "bit w n" using that by (simp add: bit_and_iff bit_push_bit_iff bit_1_iff del: push_bit_of_1)
  next
    assume "bit w n"
    then show "w AND push_bit n 1 = push_bit n 1"
      by (intro bit_word_eqI) (auto simp: bit_and_iff bit_push_bit_iff bit_1_iff simp del: push_bit_of_1)
  qed
  from this[of 0] this[of 1] show "(w AND 1 = 1) = bit w 0" "(w AND 2 = 2) = bit w 1" by simp_all
qed

lemma write_SCR_clear:
  "write_SCR CM4 1 s = s\<lparr>ip_SR := (ip_SR s)(CA7 := unset_bit 0 (ip_SR s CA7))\<rparr>"
  "write_SCR CM4 2 s = s\<lparr>ip_SR := (ip_SR s)(CA7 := unset_bit 1 (ip_SR s CA7))\<rparr>"
  by (simp_all add: write_SCR_def unset_01)

lemma mask_unmask: "\<not> bit (w :: u32) c \<Longrightarrow> unset_bit c (set_bit c w) = w"
  by (auto intro!: bit_eqI simp: bit_simps)

text \<open>A callback notes the event, frees the channel and unmasks the interrupt that the handler masked.\<close>

lemma serve_ch1:
  assumes "mbox_ready s"
  shows "serve_channel mbox_call IPCC_CHANNEL_DIR_RX 0 s =
    s\<lparr>ip_SR := (ip_SR s)(CA7 := unset_bit 0 (ip_SR s CA7)), msg_received_ch1 := MBOX_BUF_FREE\<rparr>"
proof -
  have "\<not> bit (ip_MR s CM4) 0" "ip_State s = HAL_IPCC_STATE_READY"
    "ChannelCallbackRx s 0 = Some (Client IPCC_channel1_callback)" "bit (callbackRequest s) 0"
    using assms by (auto simp: mbox_ready_def)
  then show ?thesis
    by (simp add: serve_channel_def Let_def channel1_callback_def HAL_IPCC_NotifyCPU_def IPCC_UnmaskInterrupt_def
        mr_bit_num set_01 unset_01 test_01 mask_unmask channel_shift_def dir_pos_def write_SCR_clear)
qed

lemma serve_ch2:
  assumes "mbox_ready s"
  shows "serve_channel mbox_call IPCC_CHANNEL_DIR_RX 1 s =
    s\<lparr>ip_SR := (ip_SR s)(CA7 := unset_bit 1 (ip_SR s CA7)), msg_received_ch2 := MBOX_NEW_MSG\<rparr>"
proof -
  have "\<not> bit (ip_MR s CM4) 1" "ip_State s = HAL_IPCC_STATE_READY"
    "ChannelCallbackRx s 1 = Some (Client IPCC_channel2_callback)" "bit (callbackRequest s) 1"
    using assms by (auto simp: mbox_ready_def)
  then show ?thesis
    by (simp add: serve_channel_def Let_def channel2_callback_def HAL_IPCC_NotifyCPU_def IPCC_UnmaskInterrupt_def
        mr_bit_num set_01 unset_01 test_01 mask_unmask channel_shift_def CHANNEL_INDEX_Msk_def dir_pos_def write_SCR_clear)
qed

lemma ready_serve_ch1:
  "mbox_ready s \<Longrightarrow> mbox_ready (s\<lparr>ip_SR := sr, msg_received_ch1 := MBOX_BUF_FREE\<rparr>)"
  by (simp add: mbox_ready_def)

lemma rx_irq_effect:
  assumes "mbox_ready s"
  shows "IPCC_RX1_IRQHandler s = Some (s\<lparr>ip_SR := (ip_SR s)(CA7 := unset_bit 0 (unset_bit 1 (ip_SR s CA7))),
    msg_received_ch1 := (if bit (ip_SR s CA7) 0 then MBOX_BUF_FREE else msg_received_ch1 s),
    msg_received_ch2 := (if bit (ip_SR s CA7) 1 then MBOX_NEW_MSG else msg_received_ch2 s)\<rparr>)"
proof -
  have masked: "rx_pending s c \<longleftrightarrow> bit (ip_SR s CA7) c \<and> c < 2" if "c < 6" for c
    using assms that by (auto simp: rx_pending_def mbox_ready_def)
  have "[0..<6] = [0, 1, 2, 3, 4, 5]" by (simp add: upt_rec)
  then have todo: "filter (rx_pending s) [0..<6] =
      (if bit (ip_SR s CA7) 0 then [0] else []) @ (if bit (ip_SR s CA7) 1 then [1] else [])"
    by (simp add: masked)
  have free: "\<not> bit w c \<Longrightarrow> unset_bit c w = w" for w :: u32 and c
    by (auto intro!: bit_eqI simp: bit_simps)
  have swap: "unset_bit 1 (unset_bit 0 w) = unset_bit 0 (unset_bit 1 w)" for w :: u32
    by (auto intro!: bit_eqI simp: bit_simps)
  have one: "(of_nat 1 :: u32) = 1" by simp
  show ?thesis
    using serve_ch1[OF assms] serve_ch2[OF assms] serve_ch2[OF ready_serve_ch1[OF assms]]
    by (auto simp: IPCC_RX1_IRQHandler_def rx_handler_serves todo free swap bit_unset_bit_iff
        simp flip: One_nat_def)
qed

lemma tx_irq_effect: "mbox_ready s \<Longrightarrow> IPCC_TX1_IRQHandler s = Some s"
  by (auto simp: IPCC_TX1_IRQHandler_def tx_handler_serves mbox_ready_def tx_pending_def filter_empty_conv)

lemma ready_rx_irq: "mbox_ready s \<Longrightarrow> IPCC_RX1_IRQHandler s = Some s' \<Longrightarrow> mbox_ready s'"
  by (auto simp: rx_irq_effect mbox_ready_def split: if_splits)

lemma ready_write_SCR: "mbox_ready (write_SCR c v s) \<longleftrightarrow> mbox_ready s"
  by (simp add: mbox_ready_def write_SCR_def)

text \<open>Posting a message: without a request for the "free" interrupt the mask does not change.\<close>

lemma notify_tx:
  assumes "mbox_ready s" "c < 2"
  shows "HAL_IPCC_NotifyCPU (of_nat c) IPCC_CHANNEL_DIR_TX s = (HAL_OK, write_SCR CM4 (push_bit (16 + c) 1) s)"
proof -
  have "\<not> bit (callbackRequest s) 16" "\<not> bit (callbackRequest s) (16 + 1)" "ip_State s = HAL_IPCC_STATE_READY"
    using assms(1) by (auto simp: mbox_ready_def dest: spec[of _ 0] spec[of _ 1])
  moreover have "callbackRequest s AND mr_bit IPCC_CHANNEL_DIR_TX (of_nat c) = 0" if "\<not> bit (callbackRequest s) (16 + c)"
    using mr_bit_and[of c "callbackRequest s" IPCC_CHANNEL_DIR_TX] assms(2) that by (simp add: dir_pos_def)
  moreover have "c = 0 \<or> c = 1" using assms(2) by auto
  moreover have "push_bit (channel_shift (of_nat c)) (push_bit (dir_pos IPCC_CHANNEL_DIR_TX) (1 :: u32)) = push_bit (16 + c) 1"
    using assms(2) by (simp add: channel_shift_small dir_pos_def push_bit_push_bit add.commute del: push_bit_of_1)
  ultimately show ?thesis
    by (auto simp: HAL_IPCC_NotifyCPU_def Let_def write_SCR_def mr_bit_num)
qed

lemma wait_free_now:
  "HAL_IPCC_GetChannelStatus ch IPCC_CHANNEL_DIR_TX s = IPCC_CHANNEL_STATUS_FREE \<Longrightarrow> wait_free env ch k s = Some s"
  by (subst wait_free.simps) simp

lemma status_iff:
  assumes "c < 6"
  shows "HAL_IPCC_GetChannelStatus (of_nat c) IPCC_CHANNEL_DIR_TX s = IPCC_CHANNEL_STATUS_OCCUPIED \<longleftrightarrow> bit (ip_SR s CM4) c"
    "HAL_IPCC_GetChannelStatus (of_nat c) IPCC_CHANNEL_DIR_RX s = IPCC_CHANNEL_STATUS_OCCUPIED \<longleftrightarrow> bit (ip_SR s CA7) c"
  using assms mr_bit_and[of c "ip_SR s CM4" IPCC_CHANNEL_DIR_RX] mr_bit_and[of c "ip_SR s CA7" IPCC_CHANNEL_DIR_RX]
  by (auto simp: HAL_IPCC_GetChannelStatus_def Let_def mr_bit_def dir_pos_def)

text \<open>The wait ends with the first read that finds the channel free.\<close>

primrec after :: "(nat \<Rightarrow> 's \<Rightarrow> 's) \<Rightarrow> nat \<Rightarrow> nat \<Rightarrow> 's \<Rightarrow> 's" where
  "after env k 0 s = s"
| "after env k (Suc n) s = after env (Suc k) n (env k s)"

lemma wait_free_at:
  assumes "c < 6" "\<not> bit (ip_SR (after env k n s) CM4) c" "\<And>j. j < n \<Longrightarrow> bit (ip_SR (after env k j s) CM4) c"
  shows "wait_free env (of_nat c) k s = Some (after env k n s)"
  using assms(2,3)
proof (induction n arbitrary: k s)
  case 0
  then show ?case by (subst wait_free.simps) (simp add: status_iff[OF assms(1)])
next
  case (Suc n)
  have "bit (ip_SR s CM4) c" using Suc.prems(2)[of 0] by simp
  moreover have "bit (ip_SR (after env (Suc k) j (env k s)) CM4) c" if "j < n" for j
    using Suc.prems(2)[of "Suc j"] that by simp
  ultimately show ?case
    using Suc.IH[of "Suc k" "env k s"] Suc.prems(1) by (subst wait_free.simps) (simp add: status_iff[OF assms(1)])
qed

definition freed_at :: "(nat \<Rightarrow> 'z mbox_scheme \<Rightarrow> 'z mbox_scheme) \<Rightarrow> u32 \<Rightarrow> nat \<Rightarrow> 'z mbox_scheme \<Rightarrow> 'z mbox_scheme \<Rightarrow> bool" where
  "freed_at env ch k s t \<longleftrightarrow> (\<exists>n. t = after env k n s) \<and>
     HAL_IPCC_GetChannelStatus ch IPCC_CHANNEL_DIR_TX t = IPCC_CHANNEL_STATUS_FREE"

lemma wait_free_Some: "wait_free env ch k s = Some t \<Longrightarrow> freed_at env ch k s t"
proof (rule wait_free.raw_induct[where P = freed_at], assumption?)
  fix wf env ch k s t
  assume IH: "\<And>env ch k s t. wf env ch k s = Some t \<Longrightarrow> freed_at env ch k s t"
    and run: "(if HAL_IPCC_GetChannelStatus ch IPCC_CHANNEL_DIR_TX s = IPCC_CHANNEL_STATUS_OCCUPIED
      then wf env ch (Suc k) (env k s) else Some s) = Some (t :: 'a mbox_scheme)"
  show "freed_at env ch k s t"
  proof (cases "HAL_IPCC_GetChannelStatus ch IPCC_CHANNEL_DIR_TX s")
    case IPCC_CHANNEL_STATUS_OCCUPIED
    then have "freed_at env ch (Suc k) (env k s) t" using IH run by simp
    then show ?thesis using after.simps(2)[of env k] unfolding freed_at_def by metis
  next
    case IPCC_CHANNEL_STATUS_FREE
    then show ?thesis using run by (auto simp: freed_at_def intro!: exI[of _ 0])
  qed
qed

lemma mailbox_init_ready:
  assumes "MX_IPCC_Init s0 = Some s1" "msg_received_ch1 s0 = MBOX_NO_MSG" "msg_received_ch2 s0 = MBOX_NO_MSG"
  shows "\<exists>mr rx s. MAILBOX_Init s1 = Some (0, s) \<and> mbox_ready s \<and> ip_SR s = ip_SR s1 \<and>
    s = s1\<lparr>ip_MR := mr, callbackRequest := 3, ChannelCallbackRx := rx\<rparr>"
proof -
  have mr: "ip_MR s1 CM4 = IPCC_ALL_TX_BUF OR IPCC_ALL_RX_BUF" and st: "ip_State s1 = HAL_IPCC_STATE_READY"
    "callbackRequest s1 = 0" "msg_received_ch1 s1 = MBOX_NO_MSG" "msg_received_ch2 s1 = MBOX_NO_MSG"
    using assms by (auto simp: MX_IPCC_Init_def HAL_IPCC_Init_def Let_def IPCC_SetDefaultCallbacks_def IPCC_CHANNEL_NUMBER_def
        IPCC_Reset_Register_def write_SCR_def HAL_IPCC_MspInit_def HAL_NVIC_SetPriority_def HAL_NVIC_EnableIRQ_def upt_rec)
  let ?s = "s1\<lparr>ip_MR := (ip_MR s1)(CM4 := unset_bit 1 (unset_bit 0 (ip_MR s1 CM4))), callbackRequest := 3,
    ChannelCallbackRx := (ChannelCallbackRx s1)(0 := Some (Client IPCC_channel1_callback),
      1 := Some (Client IPCC_channel2_callback))\<rparr>"
  have "MAILBOX_Init s1 = Some (0, ?s)"
    using st by (simp add: MAILBOX_Init_def HAL_IPCC_ActivateNotification_def IPCC_CHANNEL_1_def IPCC_CHANNEL_2_def
        IPCC_CHANNEL_NUMBER_def Let_def set_callback_def IPCC_UnmaskInterrupt_def mr_bit_num unset_01)
  moreover have "mbox_ready ?s"
  proof -
    have "bit (3 :: u32) 0" "bit (3 :: u32) 1" "\<forall>c < 6. \<not> bit (3 :: u32) (16 + c)"
      by (auto simp: less_Suc_eq numeral_eq_Suc)
    then show ?thesis
      using st by (auto simp: mbox_ready_def mr bit_simps bit_all_buf)
  qed
  moreover have "ip_SR ?s = ip_SR s1" by simp
  ultimately show ?thesis by blast
qed

lemma ready_notify:
  assumes "mbox_ready s" "MAILBOX_Notify (\<lambda>_ t. t) vq s = Some (r, s')"
  shows "mbox_ready s'"
proof -
  have id: "after (\<lambda>_ t. t) k n s = s" for k n by (induction n arbitrary: k) simp_all
  have *: "t = s" if "wait_free (\<lambda>_ t. t) ch 0 s = Some t" for ch t
    using wait_free_Some[OF that] id by (auto simp: freed_at_def)
  have "HAL_IPCC_NotifyCPU 0 IPCC_CHANNEL_DIR_TX s = (HAL_OK, write_SCR CM4 (push_bit 16 1) s)"
    "HAL_IPCC_NotifyCPU 1 IPCC_CHANNEL_DIR_TX s = (HAL_OK, write_SCR CM4 (push_bit (16 + 1) 1) s)"
    using notify_tx[OF assms(1), of 0] notify_tx[OF assms(1), of 1] by simp_all
  then show ?thesis
    using assms by (auto simp: MAILBOX_Notify_def Let_def mbox_defs ready_write_SCR split: if_splits option.splits dest!: *)
qed

lemma ready_poll:
  fixes s :: "'z mbox_scheme"
  assumes "mbox_ready s" "\<And>i t. mbox_ready t \<Longrightarrow> mbox_ready (notified i t)"
  shows "mbox_ready (snd (MAILBOX_Poll notified s))"
proof -
  have *: "mbox_ready (t\<lparr>msg_received_ch1 := MBOX_NO_MSG\<rparr>)" "mbox_ready (t\<lparr>msg_received_ch2 := MBOX_NO_MSG\<rparr>)"
    if "mbox_ready t" for t :: "'z mbox_scheme" using that by (simp_all add: mbox_ready_def)
  define u where "u = (if msg_received_ch1 s = MBOX_BUF_FREE
    then (notified VRING0_ID s)\<lparr>msg_received_ch1 := MBOX_NO_MSG\<rparr> else s)"
  have "mbox_ready u" using assms(1) assms(2)[of s VRING0_ID] * by (simp add: u_def)
  moreover have "snd (MAILBOX_Poll notified s) = (if msg_received_ch2 u = MBOX_NEW_MSG
      then (notified VRING1_ID u)\<lparr>msg_received_ch2 := MBOX_NO_MSG\<rparr> else u)"
    by (simp add: MAILBOX_Poll_def u_def)
  ultimately show ?thesis using assms(2)[of u VRING1_ID] * by simp
qed

lemma ready_step:
  assumes "mbox_step notified s t" "\<And>i t. mbox_ready t \<Longrightarrow> mbox_ready (notified i t)" "mbox_ready s"
  shows "mbox_ready t"
  using assms(1)
proof cases
  case (poll r)
  then show ?thesis using ready_poll[where notified = notified, OF assms(3,2)] by simp
qed (use assms(3) in \<open>auto simp: ready_write_SCR tx_irq_effect intro: ready_rx_irq ready_notify\<close>)

lemma ready_steps:
  assumes "(mbox_step notified)\<^sup>*\<^sup>* s t" "\<And>i t. mbox_ready t \<Longrightarrow> mbox_ready (notified i t)" "mbox_ready s"
  shows "mbox_ready t"
  using assms(1) by (induction rule: rtranclp_induct) (auto intro: ready_step assms(2,3))

section \<open>Properties\<close>

text \<open>A state as it is after reset, for the witnesses.\<close>

definition blank_mbox :: mbox where
  "blank_mbox = ipcc_board.extend (board.extend blank_board
     (ipcc_board.fields False (\<lambda>_. 0) (\<lambda>_. 0) (\<lambda>_. 0) (\<lambda>_. None) (\<lambda>_. None) 0 HAL_IPCC_STATE_RESET))
     (mbox.fields 0 0)"

lemma blank_mbox_init:
  obtains s1 s where "MX_IPCC_Init blank_mbox = Some s1" "msg_received_ch1 blank_mbox = MBOX_NO_MSG"
    "msg_received_ch2 blank_mbox = MBOX_NO_MSG" "MAILBOX_Init s1 = Some (0, s)" "mbox_ready s" "ip_SR s = (\<lambda>_. 0)"
proof -
  obtain s1 where s1: "MX_IPCC_Init blank_mbox = Some s1"
    by (simp add: MX_IPCC_Init_def HAL_IPCC_Init_def Let_def)
  then have sr: "ip_SR s1 = (\<lambda>_. 0)"
    by (auto simp: MX_IPCC_Init_def HAL_IPCC_Init_def Let_def IPCC_SetDefaultCallbacks_def IPCC_CHANNEL_NUMBER_def fun_eq_iff
        IPCC_Reset_Register_def write_SCR_def HAL_IPCC_MspInit_def HAL_NVIC_SetPriority_def HAL_NVIC_EnableIRQ_def upt_rec
        blank_mbox_def IPCC_ALL_RX_BUF_def ipcc_board.defs mbox.defs board.defs)
  have z: "msg_received_ch1 blank_mbox = MBOX_NO_MSG" "msg_received_ch2 blank_mbox = MBOX_NO_MSG"
    by (simp_all add: blank_mbox_def mbox_defs ipcc_board.defs mbox.defs board.defs)
  show thesis using mailbox_init_ready[OF s1 z] that[OF s1 z] sr by metis
qed

text \<open>C7: After the controller and the mailbox were set up, and after any sequence of messages posted and retrieved by
  the application processor, interrupts, polls and notifications, the mailbox still receives: if something is
  posted on channel 1 or 2, the receive interrupt handler returns, notes it in the flag of that channel, frees
  both channels, leaves what the Cortex-M4 has posted alone and leaves the interrupt of no served channel
  masked. Processing a virtqueue must keep the set-up of the mailbox.\<close>

theorem mailbox_keeps_receiving:
  assumes "MX_IPCC_Init s0 = Some s1" "msg_received_ch1 s0 = MBOX_NO_MSG" "msg_received_ch2 s0 = MBOX_NO_MSG"
    "MAILBOX_Init s1 = Some (r, s)" "\<And>i t. mbox_ready t \<Longrightarrow> mbox_ready (notified i t)"
    "(mbox_step notified)\<^sup>*\<^sup>* s t"
  shows "r = 0 \<and> (\<exists>u. IPCC_RX1_IRQHandler t = Some u \<and> \<not> bit (ip_SR u CA7) 0 \<and> \<not> bit (ip_SR u CA7) 1 \<and>
    (bit (ip_SR t CA7) 0 \<longrightarrow> msg_received_ch1 u = MBOX_BUF_FREE) \<and>
    (bit (ip_SR t CA7) 1 \<longrightarrow> msg_received_ch2 u = MBOX_NEW_MSG) \<and>
    ip_SR u CM4 = ip_SR t CM4 \<and> \<not> bit (ip_MR u CM4) 0 \<and> \<not> bit (ip_MR u CM4) 1)"
proof -
  have r: "r = 0" "mbox_ready s" using mailbox_init_ready[OF assms(1-3)] assms(4) by auto
  have t: "mbox_ready t" by (rule ready_steps[OF assms(6) assms(5) r(2)])
  then have "\<not> bit (ip_MR t CM4) 0" "\<not> bit (ip_MR t CM4) 1" by (auto simp: mbox_ready_def)
  then show ?thesis using r(1) rx_irq_effect[OF t] by (simp add: bit_simps)
qed

theorem mailbox_keeps_receiving_witness:
  "\<exists>s1 s u. MX_IPCC_Init blank_mbox = Some s1 \<and> MAILBOX_Init s1 = Some (0, s) \<and>
    IPCC_RX1_IRQHandler (write_SCR CA7 (push_bit (16 + 1) 1) s) = Some u \<and> msg_received_ch2 u = MBOX_NEW_MSG"
proof -
  obtain s1 s where s: "MX_IPCC_Init blank_mbox = Some s1" "msg_received_ch1 blank_mbox = MBOX_NO_MSG"
    "msg_received_ch2 blank_mbox = MBOX_NO_MSG" "MAILBOX_Init s1 = Some (0, s)" and sr: "ip_SR s = (\<lambda>_. 0)"
    by (rule blank_mbox_init)
  have step: "(mbox_step (\<lambda>_ t. t))\<^sup>*\<^sup>* s (write_SCR CA7 (push_bit (16 + 1) 1) s)"
    using mbox_step.a7_post[of 1 s "\<lambda>_ t. t"] sr by auto
  have "bit (ip_SR (write_SCR CA7 (push_bit (16 + 1) 1) s) CA7) 1"
    by (simp add: write_SCR_def bit_simps)
  then show ?thesis using s mailbox_keeps_receiving[OF s _ step] by blast
qed

text \<open>C24: \<^verbatim>\<open>MAILBOX_Notify\<close> posts on the channel of the virtqueue exactly when the other processor has emptied it: it
  returns after the first read that finds the channel free, with the channel occupied and nothing else
  changed; it never overwrites a notification that was not retrieved, and waits for ever if the channel is
  never emptied. A virtqueue number without a channel is refused.\<close>

theorem mailbox_notify_waits:
  assumes "c < 2" "\<And>n. mbox_ready (after env 0 n s)"
  shows "MAILBOX_Notify env (of_nat c) s = (if \<exists>n. \<not> bit (ip_SR (after env 0 n s) CM4) c
      then Some (0, write_SCR CM4 (push_bit (16 + c) 1) (after env 0 (LEAST n. \<not> bit (ip_SR (after env 0 n s) CM4) c) s))
      else None) \<and>
    (vq \<noteq> VRING0_ID \<and> vq \<noteq> VRING1_ID \<longrightarrow> MAILBOX_Notify env vq s = Some (- 1, s))"
proof
  have c6: "c < 6" using assms(1) by simp
  have ch: "(if (of_nat c :: u32) = VRING0_ID then Some IPCC_CHANNEL_1
      else if (of_nat c :: u32) = VRING1_ID then Some IPCC_CHANNEL_2 else None) = Some (of_nat c)"
    using assms(1) by (auto simp: mbox_defs less_Suc_eq numeral_2_eq_2)
  show "MAILBOX_Notify env (of_nat c) s = (if \<exists>n. \<not> bit (ip_SR (after env 0 n s) CM4) c
      then Some (0, write_SCR CM4 (push_bit (16 + c) 1) (after env 0 (LEAST n. \<not> bit (ip_SR (after env 0 n s) CM4) c) s))
      else None)"
  proof (cases "\<exists>n. \<not> bit (ip_SR (after env 0 n s) CM4) c")
    case True
    let ?n = "LEAST n. \<not> bit (ip_SR (after env 0 n s) CM4) c"
    have "wait_free env (of_nat c) 0 s = Some (after env 0 ?n s)"
    proof (rule wait_free_at[OF c6])
      show "\<not> bit (ip_SR (after env 0 ?n s) CM4) c" using True by (rule LeastI_ex)
      show "bit (ip_SR (after env 0 j s) CM4) c" if "j < ?n" for j using not_less_Least[OF that] by simp
    qed
    then show ?thesis
      using True notify_tx[OF assms(2)[of ?n] assms(1)] unfolding MAILBOX_Notify_def Let_def ch by simp
  next
    case False
    have "wait_free env (of_nat c) 0 s = None"
    proof (cases "wait_free env (of_nat c) 0 s")
      case None
      then show ?thesis .
    next
      case (Some t)
      obtain n where "HAL_IPCC_GetChannelStatus (of_nat c) IPCC_CHANNEL_DIR_TX (after env 0 n s) = IPCC_CHANNEL_STATUS_FREE"
        using wait_free_Some[OF Some] by (auto simp: freed_at_def)
      then show ?thesis using False status_iff(1)[OF c6, of "after env 0 n s"] by simp
    qed
    then show ?thesis using False unfolding MAILBOX_Notify_def Let_def ch by simp
  qed
  show "vq \<noteq> VRING0_ID \<and> vq \<noteq> VRING1_ID \<longrightarrow> MAILBOX_Notify env vq s = Some (- 1, s)"
    by (simp add: MAILBOX_Notify_def)
qed

theorem mailbox_notify_waits_witness:
  "\<exists>s t :: mbox. mbox_ready s \<and> MAILBOX_Notify (\<lambda>_ t. t) (of_nat 0) s = Some (0, t) \<and>
    MAILBOX_Notify (\<lambda>_ t. t) (of_nat 0) t = None \<and> MAILBOX_Notify (\<lambda>_ t. t) 7 t = Some (- 1, t)"
proof -
  obtain s1 s :: mbox where s: "mbox_ready s" and sr: "ip_SR s = (\<lambda>_. 0)" by (rule blank_mbox_init)
  have id: "after (\<lambda>_ t. t) k n u = u" for k n and u :: mbox by (induction n arbitrary: k) simp_all
  define t where "t = write_SCR CM4 (push_bit (16 + 0) 1) s"
  have t: "mbox_ready t" "bit (ip_SR t CM4) 0" using s by (simp_all add: t_def ready_write_SCR) (simp add: write_SCR_def sr)
  have "MAILBOX_Notify (\<lambda>_ t. t) (of_nat 0) s = Some (0, t)"
    using mailbox_notify_waits[of 0 "\<lambda>_ t. t" s] s sr by (simp add: id t_def)
  moreover have "MAILBOX_Notify (\<lambda>_ t. t) (of_nat 0) t = None" "MAILBOX_Notify (\<lambda>_ t. t) 7 t = Some (- 1, t)"
    using mailbox_notify_waits[of 0 "\<lambda>_ t. t" t 7] t by (simp_all add: id mbox_defs)
  ultimately show ?thesis using s by blast
qed

text \<open>A poll hands every noted event on: with flags that the processing of a virtqueue leaves alone, the virtqueue of
  each flagged channel is processed once, that of channel 1 first, both flags are cleared and the result says
  whether there was anything to do.\<close>

theorem mailbox_poll_hands_on:
  assumes "mbox_ready s"
    "\<And>i t. msg_received_ch1 (notified i t) = msg_received_ch1 t \<and> msg_received_ch2 (notified i t) = msg_received_ch2 t"
  shows "MAILBOX_Poll notified s =
      (let flagged1 = (msg_received_ch1 s = MBOX_BUF_FREE); flagged2 = (msg_received_ch2 s = MBOX_NEW_MSG);
           u = (if flagged1 then (notified VRING0_ID s)\<lparr>msg_received_ch1 := MBOX_NO_MSG\<rparr> else s)
       in (if flagged1 \<or> flagged2 then 0 else - 1,
           if flagged2 then (notified VRING1_ID u)\<lparr>msg_received_ch2 := MBOX_NO_MSG\<rparr> else u)) \<and>
    msg_received_ch1 (snd (MAILBOX_Poll notified s)) = MBOX_NO_MSG \<and>
    msg_received_ch2 (snd (MAILBOX_Poll notified s)) = MBOX_NO_MSG"
proof -
  have "msg_received_ch1 s \<in> {MBOX_NO_MSG, MBOX_BUF_FREE}" "msg_received_ch2 s \<in> {MBOX_NO_MSG, MBOX_NEW_MSG}"
    using assms(1) by (simp_all add: mbox_ready_def)
  then show ?thesis using assms(2)
    by (auto simp: MAILBOX_Poll_def Let_def MBOX_NO_MSG_def MBOX_BUF_FREE_def MBOX_NEW_MSG_def)
qed

theorem mailbox_poll_hands_on_witness:
  "\<exists>s :: mbox. mbox_ready s \<and> MAILBOX_Poll (\<lambda>i t. t\<lparr>ipcc_clk := (i = VRING1_ID)\<rparr>) (s\<lparr>msg_received_ch2 := MBOX_NEW_MSG\<rparr>) =
    (0, s\<lparr>ipcc_clk := True, msg_received_ch2 := MBOX_NO_MSG\<rparr>) \<and> msg_received_ch1 s = MBOX_NO_MSG"
proof -
  obtain s1 s0 :: mbox where r: "mbox_ready s0" by (rule blank_mbox_init)
  define s where "s = s0\<lparr>msg_received_ch1 := MBOX_NO_MSG\<rparr>"
  have s: "mbox_ready s" "mbox_ready (s\<lparr>msg_received_ch2 := MBOX_NEW_MSG\<rparr>)" "msg_received_ch1 s = MBOX_NO_MSG"
    using r by (simp_all add: s_def mbox_ready_def)
  have "MBOX_NO_MSG \<noteq> MBOX_BUF_FREE" by (simp add: mbox_defs)
  with mailbox_poll_hands_on[OF s(2), of "\<lambda>i t. t\<lparr>ipcc_clk := (i = VRING1_ID)\<rparr>"] s(1,3) show ?thesis
    by (auto simp: Let_def)
qed

text \<open>An event that the interrupt handler notes while a poll is still processing the virtqueue of channel 2 (\<open>w\<close> is the
  state when the message is posted, \<open>late\<close> the state when processing ends) is forgotten: the channel was already
  released and the flag set, but the poll clears the flag after processing, and the next poll finds nothing
  to do.\<close>

theorem mailbox_poll_drops_late_event:
  assumes "msg_received_ch1 s = MBOX_NO_MSG" "msg_received_ch2 s = MBOX_NEW_MSG"
    "mbox_ready w" "msg_received_ch1 w = MBOX_NO_MSG" "\<not> bit (ip_SR w CA7) 0"
    "IPCC_RX1_IRQHandler (write_SCR CA7 (push_bit (16 + 1) 1) w) = Some late"
  shows "msg_received_ch2 late = MBOX_NEW_MSG \<and> \<not> bit (ip_SR late CA7) 1 \<and>
    MAILBOX_Poll (\<lambda>_ _. late) s = (0, late\<lparr>msg_received_ch2 := MBOX_NO_MSG\<rparr>) \<and>
    MAILBOX_Poll notified (late\<lparr>msg_received_ch2 := MBOX_NO_MSG\<rparr>) = (- 1, late\<lparr>msg_received_ch2 := MBOX_NO_MSG\<rparr>)"
proof -
  have "msg_received_ch2 late = MBOX_NEW_MSG" "\<not> bit (ip_SR late CA7) 1" "msg_received_ch1 late = MBOX_NO_MSG"
    using assms(4-6) rx_irq_effect[OF iffD2[OF ready_write_SCR assms(3)], of CA7 "push_bit (16 + 1) 1"]
    by (auto simp: bit_simps write_SCR_def)
  then show ?thesis using assms(1,2)
    by (auto simp: MAILBOX_Poll_def Let_def MBOX_NO_MSG_def MBOX_BUF_FREE_def MBOX_NEW_MSG_def)
qed

theorem mailbox_poll_drops_late_event_witness:
  "\<exists>s late :: mbox. msg_received_ch2 late = MBOX_NEW_MSG \<and>
    MAILBOX_Poll (\<lambda>_ _. late) s = (0, late\<lparr>msg_received_ch2 := MBOX_NO_MSG\<rparr>)"
proof -
  obtain s1 s0 :: mbox where r: "mbox_ready s0" and sr: "ip_SR s0 = (\<lambda>_. 0)" by (rule blank_mbox_init)
  define w where "w = s0\<lparr>msg_received_ch1 := MBOX_NO_MSG, msg_received_ch2 := MBOX_NEW_MSG\<rparr>"
  have w: "mbox_ready w" "msg_received_ch1 w = MBOX_NO_MSG" "msg_received_ch2 w = MBOX_NEW_MSG" "\<not> bit (ip_SR w CA7) 0"
    using r sr by (simp_all add: w_def mbox_ready_def)
  obtain late where "IPCC_RX1_IRQHandler (write_SCR CA7 (push_bit (16 + 1) 1) w) = Some late"
    using rx_irq_effect[OF iffD2[OF ready_write_SCR w(1)]] by blast
  from mailbox_poll_drops_late_event[OF w(2,3,1,2,4) this] show ?thesis by blast
qed

end
