(* ===== verification/Openamp.thy ===== *)
theory Openamp
  imports Rpmsg_Virtio Mailbox
begin

text \<open>
  Bringing the channel up and down (\<^verbatim>\<open>CM4/OPENAMP/openamp.c\<close>, \<^verbatim>\<open>rsc_table.c\<close>, \<^verbatim>\<open>openamp_log.c\<close>;
  \<^verbatim>\<open>open-amp/lib/remoteproc/remoteproc_virtio.c\<close>, \<^verbatim>\<open>virtio/virtio.c\<close> and \<^verbatim>\<open>rpmsg_init_vdev\<close> of \<^verbatim>\<open>rpmsg_virtio.c\<close>;
  \<^verbatim>\<open>libmetal/lib/device.c\<close> and \<^verbatim>\<open>init.c\<close>), for the slave as the firmware is built.

  The device's part of the resource table is what the master writes into it. The waits for the master read its
  status byte again and again: \<open>st k\<close> is what the \<open>k\<close>-th read gives. Allocation is a parameter: \<open>alloc k\<close> says whether
  the \<open>k\<close>-th request is granted. \<open>None\<close> is a wait without end or a crash.

  The theory shows when the initialisation comes back, with which result, and in which state the device then is.
\<close>

section \<open>Devices of libmetal\<close>

record metal_state =
  bus_list :: "(string \<times> bool) list"
  generic_device_list :: "(string \<times> nat) list"

definition EINVAL :: int where "EINVAL = 22"
definition ENOENT :: int where "ENOENT = 2"
definition ENODEV :: int where "ENODEV = 19"
definition EEXIST :: int where "EEXIST = 17"
definition METAL_MAX_DEVICE_REGIONS :: nat where "METAL_MAX_DEVICE_REGIONS = 32"

text \<open>\<open>want\<close> is whether the caller passes a place for the result; a bus is found only then.\<close>

definition metal_bus_find :: "string \<Rightarrow> bool \<Rightarrow> metal_state \<Rightarrow> int \<times> (string \<times> bool) option" where
  "metal_bus_find name want s =
     (case find (\<lambda>bus. fst bus = name \<and> want) (bus_list s) of Some bus \<Rightarrow> (0, Some bus) | None \<Rightarrow> (- ENOENT, None))"

definition metal_bus_register :: "string \<times> bool \<Rightarrow> metal_state \<Rightarrow> int \<times> metal_state" where
  "metal_bus_register bus s =
     (if fst bus = [] then (- EINVAL, s)
      else if fst (metal_bus_find (fst bus) False s) = 0 then (- EEXIST, s)
      else (0, s\<lparr>bus_list := bus_list s @ [bus]\<rparr>))"

definition metal_sys_init :: "metal_state \<Rightarrow> int \<times> metal_state" where
  "metal_sys_init s = (0, snd (metal_bus_register (''generic'', True) s))"

definition metal_init :: "metal_state \<Rightarrow> int \<times> metal_state" where
  "metal_init s = metal_sys_init (s\<lparr>bus_list := [], generic_device_list := []\<rparr>)"

definition metal_bus_unregister :: "string \<Rightarrow> metal_state \<Rightarrow> metal_state" where
  "metal_bus_unregister name s = s\<lparr>bus_list := filter (\<lambda>bus. fst bus \<noteq> name) (bus_list s)\<rparr>"

definition metal_finish :: "metal_state \<Rightarrow> metal_state" where
  "metal_finish s = (metal_bus_unregister ''generic'' s)\<lparr>bus_list := [], generic_device_list := []\<rparr>"

definition metal_register_generic_device :: "string \<times> nat \<Rightarrow> metal_state \<Rightarrow> int \<times> metal_state" where
  "metal_register_generic_device dev s =
     (if fst dev = [] \<or> snd dev > METAL_MAX_DEVICE_REGIONS then (- EINVAL, s)
      else (0, s\<lparr>generic_device_list := generic_device_list s @ [dev]\<rparr>))"

definition metal_generic_dev_open :: "string \<Rightarrow> metal_state \<Rightarrow> int \<times> (string \<times> nat) option" where
  "metal_generic_dev_open dev_name s =
     (case find (\<lambda>dev. fst dev = dev_name) (generic_device_list s) of Some dev \<Rightarrow> (0, Some dev) | None \<Rightarrow> (- ENODEV, None))"

definition metal_device_open :: "string \<Rightarrow> string \<Rightarrow> metal_state \<Rightarrow> int \<times> (string \<times> nat) option" where
  "metal_device_open bus_name dev_name s =
     (if bus_name = [] \<or> dev_name = [] then (- EINVAL, None)
      else case metal_bus_find bus_name True s of
             (_, None) \<Rightarrow> (- ENOENT, None)
           | (_, Some bus) \<Rightarrow> if \<not> snd bus then (- ENODEV, None) else metal_generic_dev_open dev_name s)"

definition metal_device_io_region :: "string \<times> nat \<Rightarrow> nat \<Rightarrow> nat option" where
  "metal_device_io_region dev i = (if i < snd dev then Some i else None)"

definition metal_io_init :: "u32 \<Rightarrow> u32 \<Rightarrow> u32 \<Rightarrow> metal_io_region" where
  "metal_io_init virt physmap_0 sz = \<lparr>io_virt = virt, io_physmap = physmap_0, io_size = sz\<rparr>"

section \<open>The resource table\<close>

record fw_rsc_vdev_vring =
  da :: u32
  rsc_align :: u32
  rsc_num :: u32
  rsc_notifyid :: u32

record fw_rsc_vdev =
  dfeatures :: u32
  gfeatures :: u32
  num_of_vrings :: nat

record shared_resource_table =
  rsc_vdev :: fw_rsc_vdev
  rsc_vring0 :: fw_rsc_vdev_vring
  rsc_vring1 :: fw_rsc_vdev_vring

definition VRING_TX_ADDRESS :: u32 where "VRING_TX_ADDRESS = - 1"
definition VRING_RX_ADDRESS :: u32 where "VRING_RX_ADDRESS = - 1"
definition VRING_ALIGNMENT :: u32 where "VRING_ALIGNMENT = 16"
definition VRING_NUM_BUFFS :: u32 where "VRING_NUM_BUFFS = 16"
definition VRING_COUNT :: nat where "VRING_COUNT = 2"
definition VDEV_ID :: u32 where "VDEV_ID = 0xFF"
definition RPMSG_IPU_C0_FEATURES :: u32 where "RPMSG_IPU_C0_FEATURES = 1"
definition RSC_NOTIFY_ID_ANY :: u32 where "RSC_NOTIFY_ID_ANY = 0xFFFFFFFF"
definition RPROC_EINVAL :: int where "RPROC_EINVAL = 2"
definition ERROR_VQUEUE_INVLD_PARAM :: int where "ERROR_VQUEUE_INVLD_PARAM = - 3008"
definition VIRTIO_RPMSG_F_NS :: nat where "VIRTIO_RPMSG_F_NS = 0"
definition VIRTIO_RING_F_EVENT_IDX :: u32 where "VIRTIO_RING_F_EVENT_IDX = push_bit 29 1"
definition RPMSG_NUM_VRINGS :: nat where "RPMSG_NUM_VRINGS = 2"
definition SHM_DEVICE_NAME :: string where "SHM_DEVICE_NAME = ''STM32_SHM''"

text \<open>The table of the image; the master fills in the features it grants and the addresses of the rings.\<close>

definition resource_table :: shared_resource_table where
  "resource_table =
     \<lparr>rsc_vdev = \<lparr>dfeatures = RPMSG_IPU_C0_FEATURES, gfeatures = 0, num_of_vrings = VRING_COUNT\<rparr>,
      rsc_vring0 = \<lparr>da = VRING_TX_ADDRESS, rsc_align = VRING_ALIGNMENT, rsc_num = VRING_NUM_BUFFS, rsc_notifyid = VRING0_ID\<rparr>,
      rsc_vring1 = \<lparr>da = VRING_RX_ADDRESS, rsc_align = VRING_ALIGNMENT, rsc_num = VRING_NUM_BUFFS, rsc_notifyid = VRING1_ID\<rparr>\<rparr>"

definition rsc_granted :: "u32 \<Rightarrow> u32 \<Rightarrow> u32 \<Rightarrow> shared_resource_table" where
  "rsc_granted gf a0 a1 = resource_table\<lparr>rsc_vdev := (rsc_vdev resource_table)\<lparr>gfeatures := gf\<rparr>,
     rsc_vring0 := (rsc_vring0 resource_table)\<lparr>da := a0\<rparr>, rsc_vring1 := (rsc_vring1 resource_table)\<lparr>da := a1\<rparr>\<rparr>"

section \<open>The virtio device\<close>

text \<open>
  Control blocks of queues are kept in a store under their address; address 0 is the null pointer. The memory of the rings is
  \<open>om_rings\<close>. \<open>om_dev\<close> is the rpmsg device; it is \<open>None\<close> once a callback has not come back.
\<close>

record virtio_vring_info =
  vi_vq :: nat
  vi_notifyid :: u32
  vi_vaddr :: u32
  vi_align :: u32
  vi_num_descs :: u16

record virtio_device =
  vd_notifyid :: u32
  vd_role :: role
  vd_features :: u32
  vrings_info :: "virtio_vring_info list"

record 'a openamp = mbox +
  om_metal :: metal_state
  om_shm_io :: metal_io_region
  om_rsc :: shared_resource_table
  om_vqs :: "nat \<Rightarrow> unit virtqueue"
  om_rings :: "nat \<Rightarrow> vring"
  om_vdev :: virtio_device
  om_rvq :: nat
  om_svq :: nat
  om_dev :: "'a rdev option"
  om_calls :: "delivery list"

definition rproc_virtio_get_features :: "('a, 'z) openamp_scheme \<Rightarrow> u32" where
  "rproc_virtio_get_features s = dfeatures (rsc_vdev (om_rsc s)) AND gfeatures (rsc_vdev (om_rsc s))"

text \<open>A control block as \<^verbatim>\<open>virtqueue_allocate\<close> clears it.\<close>

definition zero_vq :: "unit virtqueue" where
  "zero_vq = \<lparr>vq_role = VIRTIO_DEV_MASTER, vq_event_idx = False, vq_queue_index = 0, vq_nentries = 0, vq_free_cnt = 0,
     vq_queued_cnt = 0, vq_desc_head_idx = 0, vq_used_cons_idx = 0, vq_available_idx = 0, vq_cookie = \<lambda>_. None, vq_ndescs = \<lambda>_. 0,
     vq_kicks = 0\<rparr>"

definition zero_vring_info :: virtio_vring_info where
  "zero_vring_info = \<lparr>vi_vq = 0, vi_notifyid = 0, vi_vaddr = 0, vi_align = 0, vi_num_descs = 0\<rparr>"

text \<open>The loop over the rings: whether all queues were allocated, and the table as far as it was filled.\<close>

function create_vdev_loop ::
  "(nat \<Rightarrow> nat) \<Rightarrow> nat \<Rightarrow> nat \<Rightarrow> virtio_vring_info list \<Rightarrow> (nat \<Rightarrow> unit virtqueue) \<Rightarrow>
    bool \<times> virtio_vring_info list \<times> (nat \<Rightarrow> unit virtqueue)" where
  "create_vdev_loop alloc i n infos vqs =
     (if i < n then
        let vq = alloc (2 + i)
        in if vq = 0 then (False, infos, vqs)
           else create_vdev_loop alloc (Suc i) n (infos[i := (infos ! i)\<lparr>vi_vq := vq\<rparr>]) (vqs(vq := zero_vq))
      else (True, infos, vqs))"
  by pat_completeness auto
termination by (relation "measure (\<lambda>(_, i, n, _, _). n - i)") auto

declare create_vdev_loop.simps [simp del]

text \<open>
  \<open>alloc k\<close> is the address the \<open>k\<close>-th request for memory gets, 0 if it is refused, and \<open>junk i\<close> the old contents of the memory
  of the \<open>i\<close>-th entry of the table. The second result lists the addresses that are freed.
\<close>

definition rproc_virtio_create_vdev ::
  "(nat \<Rightarrow> nat) \<Rightarrow> (nat \<Rightarrow> virtio_vring_info) \<Rightarrow> role \<Rightarrow> u32 \<Rightarrow> ('a, 'z) openamp_scheme \<Rightarrow>
    virtio_device option \<times> nat list \<times> ('a, 'z) openamp_scheme" where
  "rproc_virtio_create_vdev alloc junk role notifyid s =
     (let num_vrings = num_of_vrings (rsc_vdev (om_rsc s));
          rpvdev = alloc 0; infos_p = alloc 1
      in if rpvdev = 0 then (None, [], s)
         else if infos_p = 0 then (None, [rpvdev], s)
         else let infos = (map junk [0..<num_vrings])[0 := zero_vring_info]
              in case create_vdev_loop alloc 0 num_vrings infos (om_vqs s) of
                   (True, infos, vqs) \<Rightarrow>
                     (Some \<lparr>vd_notifyid = notifyid, vd_role = role, vd_features = 0, vrings_info = infos\<rparr>, [], s\<lparr>om_vqs := vqs\<rparr>)
                 | (False, infos, vqs) \<Rightarrow>
                     (None, filter (\<lambda>p. p \<noteq> 0) (map vi_vq infos) @ [infos_p, rpvdev], s\<lparr>om_vqs := vqs\<rparr>))"

text \<open>What is freed when a device is removed.\<close>

definition rproc_virtio_remove_vdev :: "virtio_device option \<Rightarrow> nat \<Rightarrow> nat \<Rightarrow> nat list" where
  "rproc_virtio_remove_vdev vdev infos_p rpvdev =
     (case vdev of None \<Rightarrow> [] | Some v \<Rightarrow> filter (\<lambda>p. p \<noteq> 0) (map vi_vq (vrings_info v)) @ [infos_p, rpvdev])"

definition rproc_virtio_init_vring ::
  "nat \<Rightarrow> u32 \<Rightarrow> u32 \<Rightarrow> u32 \<Rightarrow> u32 \<Rightarrow> virtio_device \<Rightarrow> int \<times> virtio_device" where
  "rproc_virtio_init_vring index notifyid va num_descs align vdev =
     (if index \<ge> length (vrings_info vdev) then (- RPROC_EINVAL, vdev)
      else (0, vdev\<lparr>vrings_info := (vrings_info vdev)[index := (vrings_info vdev ! index)\<lparr>vi_notifyid := notifyid, vi_vaddr := va,
        vi_num_descs := ucast num_descs, vi_align := align\<rparr>]\<rparr>))"

text \<open>The waits for the master: the status byte at read \<open>k\<close> is \<open>st k\<close>; the result is the number of the next read.\<close>

partial_function (option) status_wait :: "(nat \<Rightarrow> u8) \<Rightarrow> nat \<Rightarrow> nat option" where
  "status_wait st k =
     (if st k AND VIRTIO_CONFIG_STATUS_DRIVER_OK \<noteq> 0 then Some (Suc k) else status_wait st (Suc k))"

definition rproc_virtio_wait_remote_ready :: "(nat \<Rightarrow> u8) \<Rightarrow> nat \<Rightarrow> virtio_device \<Rightarrow> nat option" where
  "rproc_virtio_wait_remote_ready st k vdev = (if vd_role vdev = VIRTIO_DEV_MASTER then Some k else status_wait st k)"

text \<open>A slave has no function to set the status: \<^verbatim>\<open>rpmsg_virtio_set_status\<close> calls a null pointer.\<close>

partial_function (option) rpmsg_virtio_wait_remote_ready :: "(nat \<Rightarrow> u8) \<Rightarrow> nat \<Rightarrow> nat option" where
  "rpmsg_virtio_wait_remote_ready st k =
     (if st k AND VIRTIO_CONFIG_STATUS_NEEDS_RESET \<noteq> 0 then None
      else if st k AND VIRTIO_CONFIG_STATUS_DRIVER_OK \<noteq> 0 then Some (Suc k)
      else rpmsg_virtio_wait_remote_ready st (Suc k))"

section \<open>The rpmsg device\<close>

text \<open>The first ring is created first; the queue learns the role and the features of the device it belongs to.\<close>

definition create_virtqueue_at :: "nat \<Rightarrow> ('a, 'z) openamp_scheme \<Rightarrow> ('a, 'z) openamp_scheme" where
  "create_virtqueue_at i s =
     (let info = vrings_info (om_vdev s) ! i;
          vq = (om_vqs s (vi_vq info))\<lparr>vq_role := vd_role (om_vdev s),
            vq_event_idx := vd_features (om_vdev s) AND VIRTIO_RING_F_EVENT_IDX \<noteq> 0\<rparr>
      in case virtqueue_create (of_nat i) (vi_num_descs info) vq (om_rings s i) of
           (_, vq, r) \<Rightarrow> s\<lparr>om_vqs := (om_vqs s)(vi_vq info := vq), om_rings := (om_rings s)(i := r)\<rparr>)"

definition virtio_create_virtqueues :: "nat \<Rightarrow> ('a, 'z) openamp_scheme \<Rightarrow> int \<times> ('a, 'z) openamp_scheme" where
  "virtio_create_virtqueues nvqs s =
     (if nvqs > length (vrings_info (om_vdev s)) then (ERROR_VQUEUE_INVLD_PARAM, s)
      else (0, fold create_virtqueue_at [0..<nvqs] s))"

text \<open>The endpoint of the name service is a member of the device; \<open>NS_EPT\<close> stands for its address.\<close>

definition NS_EPT :: nat where "NS_EPT = 0"

definition zero_ept :: "'f rpmsg_endpoint" where
  "zero_ept = \<lparr>ept_name = [], ept_rdev = False, ept_addr = 0, ept_dest = 0, ept_cb = None, ept_unbind = None\<rparr>"

definition rpmsg_init_vdev ::
  "(nat \<Rightarrow> u8) \<Rightarrow> nat \<Rightarrow> 'a option \<Rightarrow> 'a rdev \<Rightarrow> ('a, 'z) openamp_scheme \<Rightarrow> (int \<times> ('a, 'z) openamp_scheme) option" where
  "rpmsg_init_vdev st k bind d s =
     (let d = d\<lparr>endpoints := [], epts := (epts d)(NS_EPT := zero_ept), addr_bitmap := [0, 0, 0, 0], support_ns := False,
            ns_bind_cb := map_option App bind\<rparr>
      in case (if vd_role (om_vdev s) = VIRTIO_DEV_SLAVE then rpmsg_virtio_wait_remote_ready st k else Some k) of
           None \<Rightarrow> None
         | Some k \<Rightarrow>
             let s = s\<lparr>om_vdev := (om_vdev s)\<lparr>vd_features := rproc_virtio_get_features s\<rparr>\<rparr>;
                 d = d\<lparr>support_ns := vd_features (om_vdev s) AND push_bit VIRTIO_RPMSG_F_NS 1 \<noteq> 0\<rparr>;
                 s = (if vd_role (om_vdev s) = VIRTIO_DEV_SLAVE
                      then s\<lparr>om_rvq := vi_vq (vrings_info (om_vdev s) ! 1), om_svq := vi_vq (vrings_info (om_vdev s) ! 0)\<rparr> else s)
             in case virtio_create_virtqueues RPMSG_NUM_VRINGS s of
                  (status, s) \<Rightarrow>
                    if status \<noteq> RPMSG_SUCCESS then Some (status, s\<lparr>om_dev := Some d\<rparr>)
                    else let s = s\<lparr>om_rings := (om_rings s)(0 := virtqueue_disable_cb (om_vqs s (om_svq s)) (om_rings s 0))\<rparr>;
                             d = d\<lparr>transport := (transport d)\<lparr>rv_io := om_shm_io s, rv_rvq := om_vqs s (om_rvq s),
                               rv_svq := om_vqs s (om_svq s), rv_rring := om_rings s 1, rv_sring := om_rings s 0,
                               rv_status := st (k - 1)\<rparr>\<rparr>;
                             d = (if support_ns d then
                                    rpmsg_register_endpoint NS_EPT (rpmsg_initialize_ept NS_EPT (Some ''NS'') RPMSG_NS_EPT_ADDR
                                      RPMSG_NS_EPT_ADDR (Some NS_Callback) None d)
                                  else d)
                         in Some (status, s\<lparr>om_dev := Some d\<rparr>))"

partial_function (option) deinit_loop :: "'t rpmsg_device_ops \<Rightarrow> ('t, 'f) rpmsg_device \<Rightarrow> ('t, 'f) rpmsg_device option" where
  "deinit_loop ops d =
     (case endpoints d of
        [] \<Rightarrow> Some d
      | e # es \<Rightarrow> (case rpmsg_destroy_ept ops (Some e) d of None \<Rightarrow> None | Some d \<Rightarrow> deinit_loop ops d))"

definition rpmsg_deinit_vdev ::
  "rpmsg_virtio rpmsg_device_ops \<Rightarrow> 'a rdev \<Rightarrow> ('a, 'z) openamp_scheme \<Rightarrow> ('a, 'z) openamp_scheme option" where
  "rpmsg_deinit_vdev ops d s = map_option (\<lambda>d. s\<lparr>om_dev := Some d, om_rvq := 0, om_svq := 0\<rparr>) (deinit_loop ops d)"

section \<open>Notifications\<close>

text \<open>
  The callback of the first queue does nothing, that of the second receives. A notification with the number of the device
  itself is ignored.
\<close>

definition virtqueue_notification :: "'a rpmsg_app \<Rightarrow> nat \<Rightarrow> ('a, 'z) openamp_scheme \<Rightarrow> ('a, 'z) openamp_scheme" where
  "virtqueue_notification app i s =
     (if i \<noteq> 1 then s
      else case om_dev s of
             None \<Rightarrow> s
           | Some d \<Rightarrow>
               (case (if om_rvq s = 0 then None else rpmsg_virtio_rx_callback app d) of
                  None \<Rightarrow> s\<lparr>om_dev := None\<rparr>
                | Some (cs, d) \<Rightarrow> s\<lparr>om_dev := Some d, om_calls := om_calls s @ cs\<rparr>))"

definition rproc_virtio_notified :: "'a rpmsg_app \<Rightarrow> u32 \<Rightarrow> ('a, 'z) openamp_scheme \<Rightarrow> int \<times> ('a, 'z) openamp_scheme" where
  "rproc_virtio_notified app notifyid s =
     (if vd_notifyid (om_vdev s) = notifyid then (0, s)
      else (0, fold (\<lambda>i s. if vi_notifyid (vrings_info (om_vdev s) ! i) = notifyid \<or> notifyid = RSC_NOTIFY_ID_ANY
                           then virtqueue_notification app i s else s) [0..<length (vrings_info (om_vdev s))] s))"

section \<open>The interface of the firmware\<close>

definition OPENAMP_shmem_init :: "u32 \<Rightarrow> u32 \<Rightarrow> ('a, 'z) openamp_scheme \<Rightarrow> int \<times> ('a, 'z) openamp_scheme" where
  "OPENAMP_shmem_init SHM_START_ADDRESS SHM_SIZE s =
     (let s = s\<lparr>om_metal := snd (metal_init (om_metal s))\<rparr>
      in case metal_register_generic_device (SHM_DEVICE_NAME, 2) (om_metal s) of
           (status, m) \<Rightarrow>
             let s = s\<lparr>om_metal := m\<rparr>
             in if status \<noteq> 0 then (status, s)
                else case metal_device_open ''generic'' SHM_DEVICE_NAME (om_metal s) of
                       (status, None) \<Rightarrow> (status, s)
                     | (status, Some device) \<Rightarrow>
                         if status \<noteq> 0 then (status, s)
                         else let s = s\<lparr>om_shm_io := metal_io_init SHM_START_ADDRESS SHM_START_ADDRESS SHM_SIZE\<rparr>
                              in if metal_device_io_region device 0 = None then (- 1, s)
                                 else if metal_device_io_region device 1 = None then (- 1, s)
                                 else (0, s))"

text \<open>
  What the environment decides: the bounds of the shared memory (linker script), the memory allocator, the old contents of what
  it returns, the status byte at each read, and the table as the master has filled it in when the wait for it ends.
\<close>

record openamp_env =
  shm_start :: u32
  shm_size :: u32
  allocator :: "nat \<Rightarrow> nat"
  old_memory :: "nat \<Rightarrow> virtio_vring_info"
  status_at :: "nat \<Rightarrow> u8"

definition MX_OPENAMP_Init ::
  "openamp_env \<Rightarrow> role \<Rightarrow> 'a option \<Rightarrow> 'a rdev \<Rightarrow> ('a, 'z) openamp_scheme \<Rightarrow> (int \<times> ('a, 'z) openamp_scheme) option" where
  "MX_OPENAMP_Init env RPMsgRole bind rvdev s =
     (case MAILBOX_Init s of
        None \<Rightarrow> None
      | Some (_, s) \<Rightarrow>
          case OPENAMP_shmem_init (shm_start env) (shm_size env) s of
            (status, s) \<Rightarrow>
              if status \<noteq> 0 then Some (status, s)
              else case rproc_virtio_create_vdev (allocator env) (old_memory env) RPMsgRole VDEV_ID s of
                     (None, _, s) \<Rightarrow> Some (- 1, s)
                   | (Some vdev, _, s) \<Rightarrow>
                       case rproc_virtio_wait_remote_ready (status_at env) 0 vdev of
                         None \<Rightarrow> None
                       | Some k \<Rightarrow>
                           let r0 = rsc_vring0 (om_rsc s); r1 = rsc_vring1 (om_rsc s)
                           in case rproc_virtio_init_vring 0 (rsc_notifyid r0) (da r0) (rsc_num r0) (rsc_align r0) vdev of
                                (status, vdev) \<Rightarrow>
                                  if status \<noteq> 0 then Some (status, s\<lparr>om_vdev := vdev\<rparr>)
                                  else case rproc_virtio_init_vring 1 (rsc_notifyid r1) (da r1) (rsc_num r1) (rsc_align r1) vdev of
                                         (status, vdev) \<Rightarrow>
                                           if status \<noteq> 0 then Some (status, s\<lparr>om_vdev := vdev\<rparr>)
                                           else map_option (\<lambda>(_, s). (0, s))
                                                  (rpmsg_init_vdev (status_at env) k bind rvdev (s\<lparr>om_vdev := vdev\<rparr>)))"

definition OPENAMP_DeInit ::
  "rpmsg_virtio rpmsg_device_ops \<Rightarrow> 'a rdev \<Rightarrow> ('a, 'z) openamp_scheme \<Rightarrow> ('a, 'z) openamp_scheme option" where
  "OPENAMP_DeInit ops d s =
     (case rpmsg_deinit_vdev ops d s of None \<Rightarrow> None | Some s \<Rightarrow> Some (s\<lparr>om_metal := metal_finish (om_metal s)\<rparr>))"

definition OPENAMP_create_endpoint ::
  "rpmsg_virtio rpmsg_device_ops \<Rightarrow> nat option \<Rightarrow> string option \<Rightarrow> u32 \<Rightarrow> 'a rpmsg_fun option \<Rightarrow> 'a rpmsg_fun option \<Rightarrow>
    'a rdev \<Rightarrow> (int \<times> 'a rdev) option" where
  "OPENAMP_create_endpoint ops ept name dest cb unbind_cb d = rpmsg_create_ept ops ept name RPMSG_ADDR_ANY dest cb unbind_cb d"

definition OPENAMP_check_for_message :: "'a rpmsg_app \<Rightarrow> ('a, 'z) openamp_scheme \<Rightarrow> ('a, 'z) openamp_scheme" where
  "OPENAMP_check_for_message app s = snd (MAILBOX_Poll (\<lambda>i s. snd (rproc_virtio_notified app i s)) s)"

definition is_rpmsg_ept_ready :: "nat option \<Rightarrow> 'a rdev \<Rightarrow> bool" where
  "is_rpmsg_ept_ready ept d \<longleftrightarrow> (case ept of None \<Rightarrow> False | Some e \<Rightarrow> ept_rdev (epts d e) \<and> ept_dest (epts d e) \<noteq> RPMSG_ADDR_ANY)"

text \<open>\<open>irq k\<close> is what interrupts and the master do before the \<open>k\<close>-th poll.\<close>

partial_function (option) OPENAMP_Wait_EndPointready ::
  "'a rpmsg_app \<Rightarrow> (nat \<Rightarrow> ('a, 'z) openamp_scheme \<Rightarrow> ('a, 'z) openamp_scheme) \<Rightarrow> nat option \<Rightarrow> nat \<Rightarrow> ('a, 'z) openamp_scheme \<Rightarrow>
    ('a, 'z) openamp_scheme option" where
  "OPENAMP_Wait_EndPointready app irq rp_ept k s =
     (case om_dev s of
        None \<Rightarrow> None
      | Some d \<Rightarrow> if is_rpmsg_ept_ready rp_ept d then Some s
                  else OPENAMP_Wait_EndPointready app irq rp_ept (Suc k) (OPENAMP_check_for_message app (irq k s)))"

section \<open>The log buffer\<close>

definition SYSTEM_TRACE_BUF_SZ :: nat where "SYSTEM_TRACE_BUF_SZ = 2048"

text \<open>The buffer and the static offset; \<open>None\<close> is a write outside the buffer.\<close>

definition log_buff :: "char \<Rightarrow> string \<times> nat \<Rightarrow> (string \<times> nat) option" where
  "log_buff ch = (\<lambda>(buf, offset).
     let offset = (if offset + 1 \<ge> SYSTEM_TRACE_BUF_SZ then 0 else offset)
     in if offset + 1 < length buf then Some (buf[offset := ch, offset + 1 := CHR 0x00], offset + 1) else None)"

fun log_all :: "string \<Rightarrow> string \<times> nat \<Rightarrow> (string \<times> nat) option" where
  "log_all [] b = Some b"
| "log_all (c # cs) b = (case log_buff c b of None \<Rightarrow> None | Some b \<Rightarrow> log_all cs b)"

section \<open>Lemmas on the start\<close>

lemma status_wait_first:
  assumes "st (k + n) AND VIRTIO_CONFIG_STATUS_DRIVER_OK \<noteq> 0" "\<forall>j < n. st (k + j) AND VIRTIO_CONFIG_STATUS_DRIVER_OK = 0"
  shows "status_wait st k = Some (Suc (k + n))"
  using assms
proof (induction n arbitrary: k)
  case 0
  then show ?case by (subst status_wait.simps) simp
next
  case (Suc n)
  have "st k AND VIRTIO_CONFIG_STATUS_DRIVER_OK = 0" using Suc.prems(2)[rule_format, of 0] by simp
  moreover have "\<forall>j < n. st (Suc k + j) AND VIRTIO_CONFIG_STATUS_DRIVER_OK = 0"
    using Suc.prems(2)[rule_format, of "Suc _"] by auto
  ultimately show ?case using Suc.IH[of "Suc k"] Suc.prems(1) by (subst status_wait.simps) simp
qed

lemma status_wait_never:
  assumes "\<forall>j. st j AND VIRTIO_CONFIG_STATUS_DRIVER_OK = 0"
  shows "status_wait st k = None"
proof -
  have "False" if "status_wait st k = Some y" for y k
    by (rule status_wait.raw_induct[where P = "\<lambda>s k y. s = st \<longrightarrow> False", OF _ that, simplified])
      (use assms in \<open>auto split: if_splits\<close>)
  then show ?thesis by (cases "status_wait st k") auto
qed

lemma shmem_init_ok:
  "OPENAMP_shmem_init a n s = (0, s\<lparr>om_metal := (om_metal s)\<lparr>bus_list := [(''generic'', True)],
     generic_device_list := [(SHM_DEVICE_NAME, 2)]\<rparr>, om_shm_io := \<lparr>io_virt = a, io_physmap = a, io_size = n\<rparr>\<rparr>)"
  by (simp add: OPENAMP_shmem_init_def metal_init_def metal_sys_init_def metal_bus_register_def metal_bus_find_def Let_def
      metal_register_generic_device_def SHM_DEVICE_NAME_def METAL_MAX_DEVICE_REGIONS_def metal_device_open_def ENOENT_def
      metal_generic_dev_open_def metal_device_io_region_def metal_io_init_def)

text \<open>Both queues allocated, at different places.\<close>

lemma create_vdev_ok:
  assumes "alloc 0 \<noteq> 0" "alloc 1 \<noteq> 0" "alloc 2 \<noteq> 0" "alloc 3 \<noteq> 0" and "num_of_vrings (rsc_vdev (om_rsc s)) = 2"
  shows "rproc_virtio_create_vdev alloc junk q i s =
    (Some \<lparr>vd_notifyid = i, vd_role = q, vd_features = 0,
       vrings_info = [zero_vring_info\<lparr>vi_vq := alloc 2\<rparr>, (junk 1)\<lparr>vi_vq := alloc 3\<rparr>]\<rparr>,
     [], s\<lparr>om_vqs := (om_vqs s)(alloc 2 := zero_vq, alloc 3 := zero_vq)\<rparr>)"
  using assms by (simp add: rproc_virtio_create_vdev_def create_vdev_loop.simps Let_def upt_rec numeral_2_eq_2 numeral_3_eq_3)

text \<open>The invariant of a queue speaks of the slave's block only through its size and its position.\<close>

lemma vq_inv_slave:
  assumes "vq_nentries s' = vq_nentries s" "vq_available_idx s' = vq_available_idx s"
  shows "vq_inv n io g m s' r = vq_inv n io g m s r"
  by (simp add: vq_inv_def assms)

text \<open>What a ready slave's queues look like, and the device.\<close>

definition slave_vq :: "u32 \<Rightarrow> nat \<Rightarrow> u16 \<Rightarrow> unit virtqueue" where
  "slave_vq f i n = zero_vq\<lparr>vq_role := VIRTIO_DEV_SLAVE, vq_event_idx := f AND VIRTIO_RING_F_EVENT_IDX \<noteq> 0, vq_queue_index := of_nat i,
     vq_nentries := n, vq_free_cnt := n\<rparr>"

definition cleared_device :: "u32 \<Rightarrow> 'a option \<Rightarrow> rpmsg_virtio \<Rightarrow> 'a rdev \<Rightarrow> 'a rdev" where
  "cleared_device f bind t d = d\<lparr>endpoints := [], epts := (epts d)(NS_EPT := zero_ept), addr_bitmap := [0, 0, 0, 0],
     ns_bind_cb := map_option App bind, support_ns := odd f, transport := t\<rparr>"

definition ready_device :: "u32 \<Rightarrow> 'a option \<Rightarrow> rpmsg_virtio \<Rightarrow> 'a rdev \<Rightarrow> 'a rdev" where
  "ready_device f bind t d =
     (let d = cleared_device f bind t d
      in if odd f then rpmsg_register_endpoint NS_EPT (rpmsg_initialize_ept NS_EPT (Some ''NS'') RPMSG_NS_EPT_ADDR
           RPMSG_NS_EPT_ADDR (Some NS_Callback) None d) else d)"

lemma ns_feature: "(f :: u32) AND 2 ^ VIRTIO_RPMSG_F_NS \<noteq> 0 \<longleftrightarrow> odd f"
  by (simp add: VIRTIO_RPMSG_F_NS_def and_one_eq odd_iff_mod_2_eq_one)

lemma rpmsg_init_spec:
  assumes vd: "vrings_info (om_vdev s) = [I0, I1]" "vd_role (om_vdev s) = VIRTIO_DEV_SLAVE" and "vi_vq I0 \<noteq> vi_vq I1"
    and "om_vqs s (vi_vq I0) = zero_vq" "om_vqs s (vi_vq I1) = zero_vq"
    and wait: "rpmsg_virtio_wait_remote_ready st k = Some (Suc k')" and f: "f = rproc_virtio_get_features s"
  shows "\<exists>s'. rpmsg_init_vdev st k bind d s = Some (0, s') \<and> (mbox_ready s' \<longleftrightarrow> mbox_ready s) \<and> om_calls s' = om_calls s \<and>
    om_rvq s' = vi_vq I1 \<and> om_vdev s' = (om_vdev s)\<lparr>vd_features := f\<rparr> \<and>
    om_dev s' = Some (ready_device f bind ((transport d)\<lparr>rv_io := om_shm_io s, rv_rvq := slave_vq f 1 (vi_num_descs I1),
      rv_svq := slave_vq f 0 (vi_num_descs I0), rv_rring := (om_rings s 1)\<lparr>v_num := unat (vi_num_descs I1)\<rparr>,
      rv_sring := virtqueue_disable_cb (slave_vq f 0 (vi_num_descs I0)) ((om_rings s 0)\<lparr>v_num := unat (vi_num_descs I0)\<rparr>),
      rv_status := st k'\<rparr>) d)"
  using assms
  by (simp add: rpmsg_init_vdev_def virtio_create_virtqueues_def create_virtqueue_at_def virtqueue_create_def vq_ring_init_def Let_def
      RPMSG_NUM_VRINGS_def upt_rec numeral_2_eq_2 slave_vq_def VQUEUE_SUCCESS_def RPMSG_SUCCESS_def ready_device_def cleared_device_def
      ns_feature mbox_ready_def)

lemma ready_device_simps [simp]:
  "transport (ready_device f bind t d) = t" "support_ns (ready_device f bind t d) = odd f"
  "endpoints (ready_device f bind t d) = (if odd f then [NS_EPT] else [])"
  "addr_bitmap (ready_device f bind t d) = [0, 0, 0, 0]"
  by (simp_all add: ready_device_def cleared_device_def Let_def rpmsg_register_endpoint_def rpmsg_initialize_ept_def)

lemma ready_device_inv:
  assumes "\<forall>e. e \<noteq> NS_EPT \<longrightarrow> \<not> ept_rdev (epts d e)"
  shows "dev_inv (ready_device f bind t d)"
proof -
  let ?c = "cleared_device f bind t d"
  have inv: "dev_inv ?c"
    by (rule fresh_inv) (use assms in \<open>simp add: fresh_device_def cleared_device_def zero_ept_def\<close>)
  have c: "?c\<lparr>addr_bitmap := [0, 0, 0, 0]\<rparr> = ?c" "endpoints ?c = []" "addr_bitmap ?c = [0, 0, 0, 0]"
    by (simp_all add: cleared_device_def)
  have "choose_address RPMSG_NS_EPT_ADDR [0, 0, 0, 0] = Inr (RPMSG_NS_EPT_ADDR, [0, 0, 0, 0])"
    by (simp add: choose_address_def RPMSG_NS_EPT_ADDR_def RPMSG_ADDR_ANY_def RPMSG_RESERVED_ADDRESSES_def)
  then have "dev_inv (rpmsg_register_endpoint NS_EPT (rpmsg_initialize_ept NS_EPT name RPMSG_NS_EPT_ADDR dest cb unbind ?c))"
    for name dest cb unbind
    using register_inv[of ?c NS_EPT RPMSG_NS_EPT_ADDR RPMSG_NS_EPT_ADDR "[0, 0, 0, 0]"] inv unfolding c by simp
  then show ?thesis using inv by (simp add: ready_device_def Let_def)
qed

lemma slave_ring_inv:
  assumes "vq_inv n io g m (zero_vq\<lparr>vq_nentries := nd\<rparr>) r"
  shows "vq_inv n io g m (slave_vq f i nd) (r\<lparr>v_num := unat nd\<rparr>)"
proof -
  have "unat nd = v_num r" using assms by (simp add: vq_inv_def ring_size_def)
  then have "r\<lparr>v_num := unat nd\<rparr> = r" by simp
  then show ?thesis using assms vq_inv_slave[of "slave_vq f i nd" "zero_vq\<lparr>vq_nentries := nd\<rparr>" n io g m r]
    by (simp add: slave_vq_def)
qed

lemma init_vring_2:
  "rproc_virtio_init_vring 0 id0 a0 n0 al0 \<lparr>vd_notifyid = v, vd_role = q, vd_features = f, vrings_info = [I0, I1]\<rparr> =
     (0, \<lparr>vd_notifyid = v, vd_role = q, vd_features = f,
        vrings_info = [I0\<lparr>vi_notifyid := id0, vi_vaddr := a0, vi_num_descs := ucast n0, vi_align := al0\<rparr>, I1]\<rparr>)"
  "rproc_virtio_init_vring 1 id0 a0 n0 al0 \<lparr>vd_notifyid = v, vd_role = q, vd_features = f, vrings_info = [I0, I1]\<rparr> =
     (0, \<lparr>vd_notifyid = v, vd_role = q, vd_features = f,
        vrings_info = [I0, I1\<lparr>vi_notifyid := id0, vi_vaddr := a0, vi_num_descs := ucast n0, vi_align := al0\<rparr>]\<rparr>)"
  by (simp_all add: rproc_virtio_init_vring_def)

text \<open>The initialisation up to the second wait.\<close>

definition good_alloc :: "(nat \<Rightarrow> nat) \<Rightarrow> bool" where
  "good_alloc alloc \<longleftrightarrow> (\<forall>k < 4. alloc k \<noteq> 0) \<and> alloc 2 \<noteq> alloc 3"

definition started :: "openamp_env \<Rightarrow> ('a, 'z) openamp_scheme \<Rightarrow> ('a, 'z) openamp_scheme" where
  "started env s = s\<lparr>om_metal := (om_metal s)\<lparr>bus_list := [(''generic'', True)], generic_device_list := [(SHM_DEVICE_NAME, 2)]\<rparr>,
     om_shm_io := \<lparr>io_virt = shm_start env, io_physmap = shm_start env, io_size = shm_size env\<rparr>,
     om_vqs := (om_vqs s)(allocator env 2 := zero_vq, allocator env 3 := zero_vq),
     om_vdev := \<lparr>vd_notifyid = VDEV_ID, vd_role = VIRTIO_DEV_SLAVE, vd_features = 0, vrings_info =
       [\<lparr>vi_vq = allocator env 2, vi_notifyid = VRING0_ID, vi_vaddr = da (rsc_vring0 (om_rsc s)), vi_align = VRING_ALIGNMENT, vi_num_descs = 16\<rparr>,
        \<lparr>vi_vq = allocator env 3, vi_notifyid = VRING1_ID, vi_vaddr = da (rsc_vring1 (om_rsc s)), vi_align = VRING_ALIGNMENT, vi_num_descs = 16\<rparr>]\<rparr>\<rparr>"

lemma init_until_wait:
  assumes "MAILBOX_Init s0 = Some (r, s)" and al: "good_alloc (allocator env)" and rsc: "om_rsc s = rsc_granted gf a0 a1"
  shows "MX_OPENAMP_Init env VIRTIO_DEV_SLAVE bind d s0 =
    (case status_wait (status_at env) 0 of None \<Rightarrow> None
     | Some k \<Rightarrow> map_option (\<lambda>(_, s). (0, s)) (rpmsg_init_vdev (status_at env) k bind d (started env s)))"
proof -
  have n: "allocator env 0 \<noteq> 0" "allocator env 1 \<noteq> 0" "allocator env 2 \<noteq> 0" "allocator env 3 \<noteq> 0" "allocator env 2 \<noteq> allocator env 3"
    using al by (auto simp: good_alloc_def)
  have num: "num_of_vrings (rsc_vdev (om_rsc s)) = 2" by (simp add: rsc rsc_granted_def resource_table_def VRING_COUNT_def)
  let ?io = "\<lparr>io_virt = shm_start env, io_physmap = shm_start env, io_size = shm_size env\<rparr>"
  let ?m = "(om_metal s)\<lparr>bus_list := [(''generic'', True)], generic_device_list := [(SHM_DEVICE_NAME, 2)]\<rparr>"
  have "ucast (16 :: u32) = (16 :: u16)" by simp
  moreover obtain b1 b2 b3 b4 b5 where
    "old_memory env 1 = \<lparr>vi_vq = b1, vi_notifyid = b2, vi_vaddr = b3, vi_align = b4, vi_num_descs = b5\<rparr>"
    by (cases "old_memory env 1") simp
  ultimately show ?thesis
    using create_vdev_ok[OF n(1-4), of "s\<lparr>om_metal := ?m, om_shm_io := ?io\<rparr>" "old_memory env" VIRTIO_DEV_SLAVE VDEV_ID] num rsc
    by (simp add: MX_OPENAMP_Init_def assms(1) shmem_init_ok rproc_virtio_wait_remote_ready_def init_vring_2 Let_def started_def
        zero_vring_info_def rsc_granted_def resource_table_def VRING_NUM_BUFFS_def VRING_COUNT_def init_vring_2[unfolded One_nat_def] split: option.split)
qed

lemma get_features_granted: "om_rsc s = rsc_granted gf a0 a1 \<Longrightarrow> rproc_virtio_get_features (started env s) = 1 AND gf"
  by (simp add: rproc_virtio_get_features_def started_def rsc_granted_def resource_table_def RPMSG_IPU_C0_FEATURES_def)

lemma init_result:
  assumes mb: "MAILBOX_Init s0 = Some (r, s)" "mbox_ready s" "om_rsc s = rsc_granted gf a0 a1" and al: "good_alloc (allocator env)"
    and wait: "status_wait (status_at env) 0 = Some k" "rpmsg_virtio_wait_remote_ready (status_at env) k = Some (Suc k')"
  shows "\<exists>s'. MX_OPENAMP_Init env VIRTIO_DEV_SLAVE bind d s0 = Some (0, s') \<and> mbox_ready s' \<and> om_calls s' = om_calls s \<and>
    om_rvq s' = allocator env 3 \<and> om_vdev s' = (om_vdev (started env s))\<lparr>vd_features := 1 AND gf\<rparr> \<and>
    om_dev s' = Some (ready_device (1 AND gf) bind ((transport d)\<lparr>
      rv_io := \<lparr>io_virt = shm_start env, io_physmap = shm_start env, io_size = shm_size env\<rparr>,
      rv_rvq := slave_vq (1 AND gf) 1 16, rv_svq := slave_vq (1 AND gf) 0 16, rv_rring := (om_rings s 1)\<lparr>v_num := 16\<rparr>,
      rv_sring := virtqueue_disable_cb (slave_vq (1 AND gf) 0 16) ((om_rings s 0)\<lparr>v_num := 16\<rparr>), rv_status := status_at env k'\<rparr>) d)"
proof -
  have "allocator env 2 \<noteq> allocator env 3" using al by (simp add: good_alloc_def)
  from rpmsg_init_spec[OF _ _ _ _ _ wait(2) get_features_granted[OF mb(3), of env, symmetric], of _ _ bind d] this
  show ?thesis
    using init_until_wait[OF mb(1) al mb(3), of bind d] wait(1) mb(2) by (auto simp: started_def mbox_ready_def)
qed

section \<open>Lemmas on announcements\<close>

lemma length_le32 [simp]: "length (le32 w) = 4"
  by (simp add: le32_def)

lemma le32_back: "of_le32 (le32 w @ xs) = w"
proof -
  have "[0..<4] = [0, 1, 2, 3 :: nat]" by (simp add: upt_rec)
  then have "le32 w = [ucast w, ucast (drop_bit 8 w), ucast (drop_bit 16 w), ucast (drop_bit 24 w)]" by (simp add: le32_def)
  then have "of_le32 (le32 w @ xs) = push_bit 8 (push_bit 8 (push_bit 8 (push_bit 8 0 OR ucast (ucast (drop_bit 24 w) :: u8)) OR
      ucast (ucast (drop_bit 16 w) :: u8)) OR ucast (ucast (drop_bit 8 w) :: u8)) OR ucast (ucast w :: u8)"
    by (simp add: of_le32_def)
  also have "\<dots> = w"
  proof (rule bit_word_eqI)
    fix n assume "n < LENGTH(32)"
    then consider "n < 8" | "8 \<le> n" "n < 16" | "16 \<le> n" "n < 24" | "24 \<le> n" "n < 32" by fastforce
    then show "bit (push_bit 8 (push_bit 8 (push_bit 8 (push_bit 8 0 OR ucast (ucast (drop_bit 24 w) :: u8)) OR
      ucast (ucast (drop_bit 16 w) :: u8)) OR ucast (ucast (drop_bit 8 w) :: u8)) OR ucast (ucast w :: u8) :: u32) n = bit w n"
      by cases (auto simp: bit_or_iff bit_push_bit_iff bit_drop_bit_eq bit_unsigned_iff)
  qed
  finally show ?thesis .
qed

lemma name_field_idem:
  "name_field (name_field s) = name_field s" "length (name_field s) \<le> 32" "CHR 0x00 \<notin> set (name_field s)"
proof -
  have *: "\<forall>c \<in> set (name_field s). c \<noteq> CHR 0x00"
    by (auto simp: name_field_def dest!: in_set_takeD set_takeWhileD)
  then show "CHR 0x00 \<notin> set (name_field s)" by blast
  show l: "length (name_field s) \<le> 32" by (simp add: name_field_def RPMSG_NAME_SIZE_def)
  from * have "takeWhile (\<lambda>c. c \<noteq> CHR 0x00) (name_field s) = name_field s"
    unfolding takeWhile_eq_all_conv by blast
  then show "name_field (name_field s) = name_field s"
    using l unfolding name_field_def[of "name_field s"] by (metis RPMSG_NAME_SIZE_def take_all)
qed

lemma name_bytes_back:
  assumes "CHR 0x00 \<notin> set s" "length s \<le> 32"
  shows "name_field (map (\<lambda>b. char_of (unat (b :: u8))) (take 32 (map (\<lambda>c. of_nat (of_char c)) s @ replicate (32 - length s) 0 @ xs))) = s"
proof -
  have c: "char_of (unat (of_nat (of_char c) :: u8)) = c" for c
  proof -
    have "(of_char c :: nat) < 256" by simp
    then show ?thesis by (simp add: unat_of_nat)
  qed
  have "map (\<lambda>b. char_of (unat (b :: u8))) (take 32 (map (\<lambda>c. of_nat (of_char c)) s @ replicate (32 - length s) 0 @ xs)) =
      s @ replicate (32 - length s) (char_of (0 :: nat))"
    using assms(2) by (simp add: c o_def)
  moreover have "takeWhile (\<lambda>c. c \<noteq> CHR 0x00) (s @ replicate n (char_of (0 :: nat))) = s" for n
  proof -
    have "char_of (0 :: nat) = CHR 0x00" by (simp add: char_of_def)
    then show ?thesis using assms(1) by (subst takeWhile_append2) (auto simp: takeWhile_replicate)
  qed
  ultimately show ?thesis using assms(2) by (simp add: name_field_def RPMSG_NAME_SIZE_def)
qed

lemma ns_msg_decode:
  fixes name :: string and addr flags :: u32
  defines "b \<equiv> ns_msg_bytes (name_field name) addr flags"
  shows "length b = 40" "name_field (map (\<lambda>b. char_of (unat b)) (take 32 (b @ xs))) = name_field name"
    "of_le32 (drop 32 (b @ xs)) = addr" "of_le32 (drop 36 (b @ xs)) = flags"
proof -
  note n = name_field_idem[of name]
  let ?p = "map (\<lambda>c. of_nat (of_char c)) (name_field name) @ replicate (32 - length (name_field name)) 0 :: u8 list"
  have p: "length ?p = 32" using n(2) by simp
  have b: "b @ xs = ?p @ le32 addr @ le32 flags @ xs" by (simp add: b_def ns_msg_bytes_def RPMSG_NAME_SIZE_def)
  show "length b = 40" using n(2) by (simp add: b_def ns_msg_bytes_def RPMSG_NAME_SIZE_def)
  show "name_field (map (\<lambda>b. char_of (unat b)) (take 32 (b @ xs))) = name_field name"
    using name_bytes_back[OF n(3,2), of "le32 addr @ le32 flags @ xs"] unfolding b append_assoc by simp
  show "of_le32 (drop 32 (b @ xs)) = addr" unfolding b using p le32_back by (simp add: drop_append)
  have "drop 36 (b @ xs) = le32 flags @ xs" unfolding b append_assoc[symmetric]
    using p by (simp add: drop_append)
  then show "of_le32 (drop 36 (b @ xs)) = flags" by (simp add: le32_back)
qed

section \<open>Lemmas on the end\<close>

text \<open>
  A send queue in good order: the buffers that the master has made available lie in the shared memory and have room for a
  header. The master may do during a sleep whatever keeps this.
\<close>

definition tx_sound :: "rpmsg_virtio \<Rightarrow> bool" where
  "tx_sound t \<longleftrightarrow> region_ok (rv_io t) \<and> rv_status t AND VIRTIO_CONFIG_STATUS_DRIVER_OK \<noteq> 0 \<and>
     (\<exists>n (g :: nat channel) m. vq_inv n (rv_io t) g m (rv_svq t) (rv_sring t) \<and>
       (\<forall>x \<in> set (ch_avail g). buffer_ok (rv_io t) (e_buf x) (e_len x)))"

definition tx_safe :: "rpmsg_virtio \<Rightarrow> bool" where
  "tx_safe t \<longleftrightarrow> rv_status t AND VIRTIO_CONFIG_STATUS_DRIVER_OK = 0 \<or> tx_sound t"

lemma tx_wait_cases:
  assumes sl: "\<forall>k t. tx_sound t \<longrightarrow> tx_sound (sleep k t)" and "tx_sound t"
  shows "(\<exists>u. tx_wait sleep c t = Some (None, u) \<and> tx_sound u) \<or>
    (\<exists>u n m g e es. (\<forall>c'. tx_wait sleep c t = tx_wait sleep c' u) \<and> tx_sound u \<and> vq_inv n (rv_io u) (g :: nat channel) m (rv_svq u) (rv_sring u) \<and>
      ch_avail g = e # es \<and> (\<forall>x \<in> set (ch_avail g). buffer_ok (rv_io u) (e_buf x) (e_len x)))"
  using assms(2)
proof (induction c arbitrary: t)
  case (0 t)
  then obtain n g m where q: "vq_inv n (rv_io t) (g :: nat channel) m (rv_svq t) (rv_sring t)"
    "\<forall>x \<in> set (ch_avail g). buffer_ok (rv_io t) (e_buf x) (e_len x)" by (auto simp: tx_sound_def)
  show ?case
  proof (cases "ch_avail g")
    case Nil
    then show ?thesis using get_tx_buffer(1)[OF q(1)] 0 by auto
  next
    case (Cons e es)
    have "e_buf e \<noteq> 0" using buffer_offsets(3)[of "rv_io t" "e_buf e" "e_len e"] q(2) 0 Cons by (auto simp: tx_sound_def)
    from get_tx_buffer(2)[OF q(1) Cons this] have "tx_wait sleep 0 t = tx_wait sleep c' t" for c' by (cases c') auto
    then show ?thesis using q Cons 0 by blast
  qed
next
  case (Suc c t)
  then obtain n g m where q: "vq_inv n (rv_io t) (g :: nat channel) m (rv_svq t) (rv_sring t)"
    "\<forall>x \<in> set (ch_avail g). buffer_ok (rv_io t) (e_buf x) (e_len x)" by (auto simp: tx_sound_def)
  show ?case
  proof (cases "ch_avail g")
    case Nil
    have "tx_wait sleep (Suc c) t = tx_wait sleep c (sleep (Suc c) t)" using get_tx_buffer(1)[OF q(1) Nil] by simp
    then show ?thesis using Suc.IH[of "sleep (Suc c) t"] sl Suc.prems by simp
  next
    case (Cons e es)
    have "e_buf e \<noteq> 0" using buffer_offsets(3)[of "rv_io t" "e_buf e" "e_len e"] q(2) Suc.prems Cons by (auto simp: tx_sound_def)
    from get_tx_buffer(2)[OF q(1) Cons this] have "tx_wait sleep (Suc c) t = tx_wait sleep c' t" for c' by (cases c') auto
    then show ?thesis using q Cons Suc.prems by blast
  qed
qed

lemma raw_send_returns:
  assumes sl: "\<forall>k t. tx_sound t \<longrightarrow> tx_sound (sleep k t)" and "tx_safe t"
  shows "\<exists>r t'. rpmsg_virtio_send_offchannel_raw sleep src dst data (int (length data)) True t = Some (r, t') \<and> tx_safe t'"
proof (cases "rv_status t AND VIRTIO_CONFIG_STATUS_DRIVER_OK = 0")
  case True
  then show ?thesis by (simp add: rpmsg_virtio_send_offchannel_raw_def rpmsg_virtio_get_tx_payload_buffer_def tx_safe_def)
next
  case False
  then have t: "tx_sound t" using assms(2) by (simp add: tx_safe_def)
  let ?c = "RPMSG_TICK_COUNT div RPMSG_TICKS_PER_INTERVAL"
  from tx_wait_cases[OF sl t, of ?c] show ?thesis
  proof (elim disjE exE conjE)
    fix u assume "tx_wait sleep ?c t = Some (None, u)" "tx_sound u"
    then show ?thesis using False
      by (simp add: rpmsg_virtio_send_offchannel_raw_def rpmsg_virtio_get_tx_payload_buffer_def tx_safe_def)
  next
    fix u n m and g :: "nat channel" and e es
    assume w: "\<forall>c'. tx_wait sleep ?c t = tx_wait sleep c' u" and u: "tx_sound u"
      and q: "vq_inv n (rv_io u) g m (rv_svq u) (rv_sring u)" "ch_avail g = e # es"
        "\<forall>x \<in> set (ch_avail g). buffer_ok (rv_io u) (e_buf x) (e_len x)"
    have ok: "rv_status u AND VIRTIO_CONFIG_STATUS_DRIVER_OK \<noteq> 0" "region_ok (rv_io u)" "buffer_ok (rv_io u) (e_buf e) (e_len e)"
      using u q by (auto simp: tx_sound_def)
    have same: "rpmsg_virtio_send_offchannel_raw sleep src dst data (int (length data)) True t =
        rpmsg_virtio_send_offchannel_raw sleep src dst data (int (length data)) True u"
      using False ok(1) w[rule_format, of ?c] by (simp add: rpmsg_virtio_send_offchannel_raw_def rpmsg_virtio_get_tx_payload_buffer_def)
    obtain k q' r b where S: "rpmsg_virtio_send_offchannel_raw sleep src dst data (int (length data)) True u =
        Some (k, u\<lparr>rv_svq := q', rv_sring := r, rv_shm := b\<rparr>)"
      and I: "vq_inv n (rv_io u) (g\<lparr>ch_avail := es, ch_used := ch_used g @ [(e, e_len e)]\<rparr>) m q' r"
      using raw_send_spec[OF q(1,2) ok(2,3,1) refl, of sleep src dst data True] by blast
    have "tx_sound (u\<lparr>rv_svq := q', rv_sring := r, rv_shm := b\<rparr>)"
      using ok q(2,3) I unfolding tx_sound_def
      by (intro conjI exI[of _ n] exI[of _ "g\<lparr>ch_avail := es, ch_used := ch_used g @ [(e, e_len e)]\<rparr>"] exI[of _ m]) simp_all
    then show ?thesis using S same by (simp add: tx_safe_def)
  qed
qed

lemma destroy_head:
  assumes inv: "dev_inv d" and e: "endpoints d = e # es" and sl: "\<forall>k t. tx_sound t \<longrightarrow> tx_sound (sleep k t)" and t: "tx_safe (transport d)"
  shows "\<exists>d'. rpmsg_destroy_ept (rpmsg_virtio_ops sleep) (Some e) d = Some d' \<and> dev_inv d' \<and> endpoints d' = es \<and> tx_safe (transport d')"
proof -
  let ?ops = "rpmsg_virtio_ops sleep"
  have a: "attached (Some e) d" using inv e by (simp add: attached_def dev_inv_def)
  let ?X = "if ept_name (epts d e) \<noteq> [] \<and> support_ns d \<and> ept_addr (epts d e) \<ge> RPMSG_RESERVED_ADDRESSES
    then rpmsg_send_ns_message ?ops e RPMSG_NS_DESTROY d else Some (RPMSG_SUCCESS, d)"
  let ?b = "ns_msg_bytes (name_field (ept_name (epts d e))) (ept_addr (epts d e)) RPMSG_NS_DESTROY"
  have "\<exists>r d1. rpmsg_send_offchannel_raw ?ops (Some e) (ept_addr (epts d e)) RPMSG_NS_EPT_ADDR (Some ?b) (int (length ?b)) True d = Some (r, d1) \<and>
      endpoints d1 = endpoints d \<and> tx_safe (transport d1)"
    using raw_send_returns[OF sl t, of "ept_addr (epts d e)" RPMSG_NS_EPT_ADDR ?b] t
    by (auto simp: rpmsg_send_offchannel_raw_def on_transport_def rpmsg_virtio_ops_def)
  then obtain r1 d1 where "rpmsg_send_offchannel_raw ?ops (Some e) (ept_addr (epts d e)) RPMSG_NS_EPT_ADDR (Some ?b) (int (length ?b)) True d = Some (r1, d1)"
    "endpoints d1 = endpoints d" "tx_safe (transport d1)" by blast
  then have "\<exists>r d1. rpmsg_send_ns_message ?ops e RPMSG_NS_DESTROY d = Some (r, d1) \<and> endpoints d1 = endpoints d \<and> tx_safe (transport d1)"
    by (simp add: rpmsg_send_ns_message_def Let_def)
  then obtain r d1 where X: "?X = Some (r, d1)" "endpoints d1 = endpoints d" "tx_safe (transport d1)"
    using t that by (cases "ept_name (epts d e) \<noteq> [] \<and> support_ns d \<and> ept_addr (epts d e) \<ge> RPMSG_RESERVED_ADDRESSES") auto
  moreover have D: "rpmsg_destroy_ept ?ops (Some e) d = Some (rpmsg_unregister_endpoint e d1)"
    unfolding rpmsg_destroy_ept_def Let_def option.sel X using a by simp
  moreover have "dev_inv (rpmsg_unregister_endpoint e d1)" by (rule destroy_inv[OF inv D])
  ultimately show ?thesis using e by (auto simp: rpmsg_unregister_endpoint_def Let_def)
qed

lemma deinit_loop_ends:
  assumes "dev_inv d" "tx_safe (transport d)" and sl: "\<forall>k t. tx_sound t \<longrightarrow> tx_sound (sleep k t)"
  shows "\<exists>d'. deinit_loop (rpmsg_virtio_ops sleep) d = Some d' \<and> dev_inv d' \<and> endpoints d' = []"
  using assms(1,2)
proof (induction "endpoints d" arbitrary: d)
  case Nil
  then show ?case by (subst deinit_loop.simps) simp
next
  case (Cons e es)
  obtain d1 where "rpmsg_destroy_ept (rpmsg_virtio_ops sleep) (Some e) d = Some d1" "dev_inv d1" "endpoints d1 = es" "tx_safe (transport d1)"
    using destroy_head[OF Cons.prems(1) Cons.hyps(2)[symmetric] sl Cons.prems(2)] by blast
  then show ?case using Cons.hyps(1)[of d1] Cons.hyps(2)[symmetric] by (subst deinit_loop.simps) simp
qed

section \<open>Lemmas on the log\<close>

lemma log_all_append: "log_all (cs @ cs') b = (case log_all cs b of None \<Rightarrow> None | Some b \<Rightarrow> log_all cs' b)"
  by (induction cs arbitrary: b) (simp_all split: option.split)

definition log_offset :: "nat \<Rightarrow> nat" where
  "log_offset n = (if n = 0 then 0 else (n - 1) mod 2047 + 1)"

lemma log_offset_Suc: "log_offset (Suc n) = (if log_offset n + 1 \<ge> 2048 then 0 else log_offset n) + 1"
  by (cases n) (auto simp: log_offset_def mod_Suc)

lemma log_offset_le: "log_offset n \<le> n" "log_offset n < 2048"
  using mod_less_eq_dividend[of "n - 1" 2047] by (auto simp: log_offset_def Suc_le_eq intro: le_less_trans)

section \<open>Properties\<close>

text \<open>
  C15: the channel comes up. On a board whose inter-processor unit is initialised, with memory for the device and its
  queues, \<^verbatim>\<open>MX_OPENAMP_Init\<close> returns 0 after the master has set its driver bit (here at read \<open>k\<close> of the status byte, and still at the
  next). Then the mailbox is operational; the endpoint table is consistent and holds the name service exactly if the
  master granted it; the shared memory is the region of the linker script; and both queues are in the state the master expects: whatever
  it has already put into either ring is what the firmware will find there. The notifications of the send queue are off.
\<close>

theorem openamp_init_ready:
  assumes "MX_IPCC_Init s00 = Some s0" and "msg_received_ch1 s00 = MBOX_NO_MSG" and "msg_received_ch2 s00 = MBOX_NO_MSG"
    and "om_rsc s0 = rsc_granted gf a0 a1" and "good_alloc (allocator env)" and "\<forall>e. e \<noteq> NS_EPT \<longrightarrow> \<not> ept_rdev (epts rvdev e)"
    and "\<forall>j < k. status_at env j AND VIRTIO_CONFIG_STATUS_DRIVER_OK = 0" and "status_at env k AND VIRTIO_CONFIG_STATUS_DRIVER_OK \<noteq> 0"
    and "status_at env (Suc k) AND VIRTIO_CONFIG_STATUS_DRIVER_OK \<noteq> 0"
    and "status_at env (Suc k) AND VIRTIO_CONFIG_STATUS_NEEDS_RESET = 0"
    and "vq_inv 16 io g0 m0 (zero_vq\<lparr>vq_nentries := 16\<rparr>) (om_rings s0 0)" and "vq_inv 16 io g1 m1 (zero_vq\<lparr>vq_nentries := 16\<rparr>) (om_rings s0 1)"
  shows "\<exists>s d. MX_OPENAMP_Init env VIRTIO_DEV_SLAVE bind rvdev s0 = Some (0, s) \<and> om_dev s = Some d \<and> mbox_ready s \<and>
    dev_inv d \<and> endpoints d = (if odd gf then [NS_EPT] else []) \<and> support_ns d = odd gf \<and>
    rv_io (transport d) = \<lparr>io_virt = shm_start env, io_physmap = shm_start env, io_size = shm_size env\<rparr> \<and>
    rv_status (transport d) AND VIRTIO_CONFIG_STATUS_DRIVER_OK \<noteq> 0 \<and>
    vq_inv 16 io g0 m0 (rv_svq (transport d)) (rv_sring (transport d)) \<and> vq_inv 16 io g1 m1 (rv_rvq (transport d)) (rv_rring (transport d)) \<and>
    used_flags (rv_sring (transport d)) AND VRING_USED_F_NO_NOTIFY \<noteq> 0"
proof -
  obtain mr rx s1 where m: "MAILBOX_Init s0 = Some (0, s1)" "mbox_ready s1" "s1 = s0\<lparr>ip_MR := mr, callbackRequest := 3, ChannelCallbackRx := rx\<rparr>"
    using mailbox_init_ready[OF assms(1-3)] by blast
  have s1: "om_rsc s1 = rsc_granted gf a0 a1" "om_rings s1 = om_rings s0" using m(3) assms(4) by simp_all
  have w: "status_wait (status_at env) 0 = Some (Suc k)" using status_wait_first[of "status_at env" 0 k] assms(7,8) by simp
  have w2: "rpmsg_virtio_wait_remote_ready (status_at env) (Suc k) = Some (Suc (Suc k))"
    using assms(9,10) by (subst rpmsg_virtio_wait_remote_ready.simps) simp
  note R = init_result[OF m(1,2) s1(1) assms(5) w w2, of bind rvdev]
  have odd: "odd (1 AND gf) = odd gf" by (simp add: one_and_eq odd_iff_mod_2_eq_one)
  have q: "vq_inv 16 io g0 m0 (slave_vq f i 16) ((om_rings s0 0)\<lparr>v_num := 16\<rparr>)" "vq_inv 16 io g1 m1 (slave_vq f i 16) ((om_rings s0 1)\<lparr>v_num := 16\<rparr>)"
    for f i using slave_ring_inv[OF assms(11), of f i] slave_ring_inv[OF assms(12), of f i] by simp_all
  have "\<not> vq_event_idx (slave_vq (1 AND gf) 0 16)" "vq_role (slave_vq (1 AND gf) 0 16) = VIRTIO_DEV_SLAVE"
    by (simp_all add: slave_vq_def VIRTIO_RING_F_EVENT_IDX_def one_and_eq mod_2_eq_odd)
  moreover have "(w OR 1) AND 1 \<noteq> 0" for w :: u16 by (simp add: and_one_eq mod_2_eq_odd even_or_iff)
  ultimately have "used_flags (virtqueue_disable_cb (slave_vq (1 AND gf) 0 16) r) AND VRING_USED_F_NO_NOTIFY \<noteq> 0" for r
    by (simp add: virtqueue_disable_cb_def VRING_USED_F_NO_NOTIFY_def)
  then show ?thesis using R ready_device_inv[OF assms(6)] assms(9) q odd s1(2) by auto
qed

text \<open>
  Starting up waits for the master, and only for it. With the same preconditions, if the master never sets its driver bit,
  \<^verbatim>\<open>MX_OPENAMP_Init\<close> never returns; if it sets it, and asks for a reset before the second wait has seen the bit again, the firmware
  calls a function that the slave does not have.
\<close>

theorem openamp_init_waits:
  assumes "MX_IPCC_Init s00 = Some s0" and "msg_received_ch1 s00 = MBOX_NO_MSG" and "msg_received_ch2 s00 = MBOX_NO_MSG"
    and "om_rsc s0 = rsc_granted gf a0 a1" and "good_alloc (allocator env)"
  shows "((\<forall>j. status_at env j AND VIRTIO_CONFIG_STATUS_DRIVER_OK = 0) \<longrightarrow> MX_OPENAMP_Init env VIRTIO_DEV_SLAVE bind rvdev s0 = None) \<and>
    ((\<forall>j < k. status_at env j AND VIRTIO_CONFIG_STATUS_DRIVER_OK = 0) \<and> status_at env k AND VIRTIO_CONFIG_STATUS_DRIVER_OK \<noteq> 0 \<and>
      status_at env (Suc k) AND VIRTIO_CONFIG_STATUS_NEEDS_RESET \<noteq> 0 \<longrightarrow> MX_OPENAMP_Init env VIRTIO_DEV_SLAVE bind rvdev s0 = None)"
proof -
  obtain mr rx s1 where m: "MAILBOX_Init s0 = Some (0, s1)" "s1 = s0\<lparr>ip_MR := mr, callbackRequest := 3, ChannelCallbackRx := rx\<rparr>"
    using mailbox_init_ready[OF assms(1-3)] by blast
  then have "om_rsc s1 = rsc_granted gf a0 a1" using assms(4) by simp
  note I = init_until_wait[OF m(1) assms(5) this, of bind rvdev]
  have "rpmsg_init_vdev (status_at env) (Suc k) bind rvdev (started env s1) = None"
    if "status_at env (Suc k) AND VIRTIO_CONFIG_STATUS_NEEDS_RESET \<noteq> 0"
    using that by (simp add: rpmsg_init_vdev_def Let_def started_def rpmsg_virtio_wait_remote_ready.simps)
  then show ?thesis
    using I status_wait_never[of "status_at env" 0] status_wait_first[of "status_at env" 0 k] by auto
qed

text \<open>
  A failed allocation corrupts the heap. If the memory for one of the two queues is refused,
  \<^verbatim>\<open>rproc_virtio_create_vdev\<close> reports the failure and frees what it had allocated; but of the table of rings only the first entry was cleared, and it also
  frees whatever the second entry happened to contain.
\<close>

theorem failed_vdev_frees_garbage:
  assumes "alloc 0 \<noteq> 0" and "alloc 1 \<noteq> 0" and "alloc 2 = 0 \<or> alloc 3 = 0" and "num_of_vrings (rsc_vdev (om_rsc s)) = 2"
  shows "\<exists>freed s'. rproc_virtio_create_vdev alloc junk q i s = (None, freed, s') \<and>
    set freed = {alloc 0, alloc 1, alloc 2, vi_vq (junk 1)} - {0}"
  using assms
  by (auto simp: rproc_virtio_create_vdev_def create_vdev_loop.simps Let_def upt_rec numeral_2_eq_2 numeral_3_eq_3 zero_vring_info_def)

lemma mx_ipcc_frame:
  assumes "MX_IPCC_Init s = Some s'"
  shows "om_rsc s' = om_rsc s" "om_rings s' = om_rings s"
  using assms by (auto simp: MX_IPCC_Init_def HAL_IPCC_Init_def Let_def IPCC_SetDefaultCallbacks_def IPCC_CHANNEL_NUMBER_def
      IPCC_Reset_Register_def write_SCR_def HAL_IPCC_MspInit_def HAL_NVIC_SetPriority_def HAL_NVIC_EnableIRQ_def upt_rec)

text \<open>A board after reset, with the table as the master fills it in, and an environment in which the master is ready at the fourth read.\<close>

definition demo_om :: "(nat \<Rightarrow> vring) \<Rightarrow> unit openamp" where
  "demo_om rings = mbox.extend blank_mbox (openamp.fields \<lparr>bus_list = [], generic_device_list = []\<rparr> demo_io (rsc_granted 1 0x10040000 0x10041000)
     (\<lambda>_. zero_vq) rings \<lparr>vd_notifyid = 0, vd_role = VIRTIO_DEV_SLAVE, vd_features = 0, vrings_info = []\<rparr> 0 0 None [])"

lemma demo_om_simps [simp]:
  "om_rsc (demo_om rings) = rsc_granted 1 0x10040000 0x10041000" "om_rings (demo_om rings) = rings" "om_dev (demo_om rings) = None"
  "om_calls (demo_om rings) = []" "msg_received_ch1 (demo_om rings) = MBOX_NO_MSG" "msg_received_ch2 (demo_om rings) = MBOX_NO_MSG"
  by (simp_all add: demo_om_def openamp.defs mbox.defs blank_mbox_def ipcc_board.defs board.defs MBOX_NO_MSG_def)

definition demo_env :: openamp_env where
  "demo_env = \<lparr>shm_start = 0x10040000, shm_size = 0x8000, allocator = \<lambda>k. 0x100 * Suc k, old_memory = \<lambda>_. zero_vring_info,
     status_at = \<lambda>k. if k < 3 then 0 else 7\<rparr>"

lemma demo_env_alloc: "good_alloc (allocator demo_env)"
  by (simp add: good_alloc_def demo_env_def)

definition demo_rvdev :: "unit rdev" where
  "demo_rvdev = \<lparr>endpoints = [], epts = \<lambda>_. zero_ept, addr_bitmap = [0, 0, 0, 0], support_ns = False, ns_bind_cb = None,
     transport = demo_transport zero_vq demo_vring\<rparr>"

lemma demo_ipcc: obtains s0 where "MX_IPCC_Init (demo_om rings) = Some s0"
  using that by (simp add: MX_IPCC_Init_def HAL_IPCC_Init_def Let_def)

lemma demo_ring:
  obtains m r where "vq_inv 16 io (ch_empty 16 :: nat channel) m (zero_vq\<lparr>vq_nentries := 16\<rparr>) r"
proof -
  let ?s = "zero_vq\<lparr>vq_role := VIRTIO_DEV_SLAVE\<rparr>"
  have c: "vq_cleared (demo_vq VIRTIO_DEV_MASTER) ?s demo_vring"
    by (simp add: vq_cleared_def demo_vq_def demo_vring_def zero_vq_def)
  obtain m s r where k: "vq_create_both 0 16 (demo_vq VIRTIO_DEV_MASTER) ?s demo_vring = (m, s, r)"
    by (cases "vq_create_both 0 16 (demo_vq VIRTIO_DEV_MASTER) ?s demo_vring")
  have z: "ring_size 16 16" by (auto simp: ring_size_def intro: exI[of _ 4])
  have "vq_nentries s = 16" "vq_available_idx s = 0"
    using k by (auto simp: vq_create_both_def virtqueue_create_def Let_def zero_vq_def)
  then show thesis
    using create_inv[OF c z k, of io] vq_inv_slave[of "zero_vq\<lparr>vq_nentries := 16\<rparr>" s 16 io "ch_empty 16" m r] that
    by (simp add: zero_vq_def)
qed

theorem failed_vdev_frees_garbage_witness:
  "\<exists>freed s'. rproc_virtio_create_vdev (\<lambda>k. if k = 3 then 0 else 0x100 * Suc k) (\<lambda>_. zero_vring_info\<lparr>vi_vq := 0xDEAD\<rparr>)
    VIRTIO_DEV_SLAVE VDEV_ID (demo_om (\<lambda>_. demo_vring)) = (None, freed, s') \<and> 0xDEAD \<in> set freed"
proof -
  have "num_of_vrings (rsc_vdev (om_rsc (demo_om (\<lambda>_. demo_vring)))) = 2"
    by (simp add: rsc_granted_def resource_table_def VRING_COUNT_def)
  from failed_vdev_frees_garbage[of "\<lambda>k. if k = 3 then 0 else 0x100 * Suc k", OF _ _ _ this, of "\<lambda>_. zero_vring_info\<lparr>vi_vq := 0xDEAD\<rparr>"]
  show ?thesis by fastforce
qed

theorem openamp_init_ready_witness:
  "\<exists>rings s0 s d. MX_IPCC_Init (demo_om rings) = Some s0 \<and> MX_OPENAMP_Init demo_env VIRTIO_DEV_SLAVE None demo_rvdev s0 = Some (0, s) \<and>
    om_dev s = Some d \<and> endpoints d = [NS_EPT] \<and> mbox_ready s"
proof -
  obtain m and r where r: "vq_inv 16 demo_io (ch_empty 16 :: nat channel) m (zero_vq\<lparr>vq_nentries := 16\<rparr>) r" by (rule demo_ring)
  obtain s0 where s0: "MX_IPCC_Init (demo_om (\<lambda>_. r)) = Some s0" by (rule demo_ipcc)
  have rsc: "om_rsc s0 = rsc_granted 1 0x10040000 0x10041000" "om_rings s0 = (\<lambda>_. r)" using mx_ipcc_frame[OF s0] by simp_all
  from openamp_init_ready[OF s0 _ _ rsc(1) demo_env_alloc, of demo_rvdev 3 demo_io "ch_empty 16" m "ch_empty 16" m None]
  show ?thesis using s0 r rsc(2)
    by (auto simp: demo_env_def demo_rvdev_def zero_ept_def VIRTIO_CONFIG_STATUS_DRIVER_OK_def VIRTIO_CONFIG_STATUS_NEEDS_RESET_def)
qed

theorem openamp_init_waits_witness:
  "\<exists>s0. MX_IPCC_Init (demo_om (\<lambda>_. demo_vring)) = Some s0 \<and>
    MX_OPENAMP_Init (demo_env\<lparr>status_at := \<lambda>_. 0\<rparr>) VIRTIO_DEV_SLAVE None demo_rvdev s0 = None \<and>
    MX_OPENAMP_Init (demo_env\<lparr>status_at := \<lambda>k. if k = 0 then 4 else 0x40\<rparr>) VIRTIO_DEV_SLAVE None demo_rvdev s0 = None"
proof -
  obtain s0 where s0: "MX_IPCC_Init (demo_om (\<lambda>_. demo_vring)) = Some s0" by (rule demo_ipcc)
  have rsc: "om_rsc s0 = rsc_granted 1 0x10040000 0x10041000" using mx_ipcc_frame[OF s0] by simp
  have "good_alloc (allocator (demo_env\<lparr>status_at := st\<rparr>))" for st using demo_env_alloc by simp
  note W = openamp_init_waits[OF s0 _ _ rsc this, of _ None demo_rvdev]
  show ?thesis using s0 W[of "\<lambda>_. 0"] W[of "\<lambda>k. if k = 0 then 4 else 0x40" 0]
    by (simp add: VIRTIO_CONFIG_STATUS_DRIVER_OK_def VIRTIO_CONFIG_STATUS_NEEDS_RESET_def)
qed

lemma notified_rings:
  assumes "vd_notifyid (om_vdev s) = VDEV_ID" "map vi_notifyid (vrings_info (om_vdev s)) = [VRING0_ID, VRING1_ID]"
  shows "snd (rproc_virtio_notified app VRING0_ID s) = s" "snd (rproc_virtio_notified app VRING1_ID s) = virtqueue_notification app 1 s"
proof -
  obtain I0 I1 where "vrings_info (om_vdev s) = [I0, I1]" "vi_notifyid I0 = VRING0_ID" "vi_notifyid I1 = VRING1_ID"
    using assms(2) by auto
  then show "snd (rproc_virtio_notified app VRING0_ID s) = s" "snd (rproc_virtio_notified app VRING1_ID s) = virtqueue_notification app 1 s"
    using assms(1) by (simp_all add: rproc_virtio_notified_def VRING0_ID_def VRING1_ID_def VDEV_ID_def RSC_NOTIFY_ID_ANY_def
        virtqueue_notification_def)
qed

text \<open>
  C16: a poll delivers what has arrived. Once the receive interrupt has noted a message, \<^verbatim>\<open>OPENAMP_check_for_message\<close> hands every
  message of the receive queue to the endpoint it is addressed to, in the order of the master, returns all
  buffers, and takes the note away; with no note it does nothing.
\<close>

theorem poll_delivers:
  assumes "om_dev s = Some d" and "om_rvq s \<noteq> 0" and "vd_notifyid (om_vdev s) = VDEV_ID"
    and "map vi_notifyid (vrings_info (om_vdev s)) = [VRING0_ID, VRING1_ID]"
    and "rx_client R app" and "rx_ready R d" and "no_any d"
    and "vq_inv n (rv_io (transport d)) g m (rv_rvq (transport d)) (rv_rring (transport d))"
    and "\<forall>x \<in> set (ch_avail g). e_buf x \<in> R \<and> e_buf x \<noteq> 0"
  shows "(msg_received_ch2 s = MBOX_NEW_MSG \<longrightarrow> (\<exists>d'. om_dev (OPENAMP_check_for_message app s) = Some d' \<and>
      om_calls (OPENAMP_check_for_message app s) = om_calls s @ concat (map (\<lambda>x. deliveries d (e_buf x)) (ch_avail g)) \<and>
      msg_received_ch2 (OPENAMP_check_for_message app s) = MBOX_NO_MSG \<and>
      vq_inv n (rv_io (transport d')) (g\<lparr>ch_avail := [], ch_used := ch_used g @ map (\<lambda>x. (x, e_len x)) (ch_avail g)\<rparr>) m
        (rv_rvq (transport d')) (rv_rring (transport d')))) \<and>
    (msg_received_ch1 s \<noteq> MBOX_BUF_FREE \<and> msg_received_ch2 s \<noteq> MBOX_NEW_MSG \<longrightarrow> OPENAMP_check_for_message app s = s)"
proof -
  obtain d' where r: "rpmsg_virtio_rx_callback app d = Some (concat (map (\<lambda>x. deliveries d (e_buf x)) (ch_avail g)), d')"
    and v: "vq_inv n (rv_io (transport d')) (g\<lparr>ch_avail := [], ch_used := ch_used g @ map (\<lambda>x. (x, e_len x)) (ch_avail g)\<rparr>) m
        (rv_rvq (transport d')) (rv_rring (transport d'))"
    using rx_client.rx_callback_delivers[OF assms(5,6,7,9,8)] by blast
  let ?t = "\<lambda>c. s\<lparr>msg_received_ch1 := c\<rparr>"
  have n: "snd (rproc_virtio_notified app VRING0_ID s) = s"
    "snd (rproc_virtio_notified app VRING1_ID (?t c)) = virtqueue_notification app 1 (?t c)"
    "snd (rproc_virtio_notified app VRING1_ID s) = virtqueue_notification app 1 s" for c
    using notified_rings(1)[OF assms(3,4), of app] notified_rings(2)[of "?t c" app] notified_rings(2)[OF assms(3,4), of app] assms(3,4)
    by simp_all
  show ?thesis using r v assms(1,2)
    by (auto simp: OPENAMP_check_for_message_def MAILBOX_Poll_def n virtqueue_notification_def Let_def)
qed

text \<open>
  C25: a new endpoint is announced. If the master supports the name service and a buffer of at least 56 bytes is available, creating a named
  endpoint without a fixed remote address gives it the lowest free address and puts one message into the send queue: from that
  address to the name service, 40 bytes long, from which the decoding of \<^verbatim>\<open>rpmsg_virtio_ns_callback\<close> reads back the name
  (cut at 32 characters), the address and the request to create.
\<close>

theorem endpoint_announced:
  assumes "dev_inv d" and "e \<notin> set (endpoints d)" and "support_ns d" and "name_field name \<noteq> []"
    and "i < 128" and "\<not> taken (addr_bitmap d) i" and "\<forall>j < i. taken (addr_bitmap d) j"
    and "t = transport d" and "vq_inv n (rv_io t) g m (rv_svq t) (rv_sring t)" and "ch_avail g = x # xs"
    and "region_ok (rv_io t)" and "buffer_ok (rv_io t) (e_buf x) (e_len x)" and "56 \<le> unat (e_len x)"
    and "rv_status t AND VIRTIO_CONFIG_STATUS_DRIVER_OK \<noteq> 0"
  shows "\<exists>d' b. OPENAMP_create_endpoint (rpmsg_virtio_ops sleep) (Some e) (Some name) RPMSG_ADDR_ANY cb unbind d = Some (0, d') \<and>
    endpoints d' = endpoints d @ [e] \<and> ept_addr (epts d' e) = dyn i \<and> dev_inv d' \<and>
    vq_inv n (rv_io t) (g\<lparr>ch_avail := xs, ch_used := ch_used g @ [(x, e_len x)]\<rparr>) m (rv_svq (transport d')) (rv_sring (transport d')) \<and>
    b = rv_shm (transport d') (e_buf x) \<and> h_src b = dyn i \<and> h_dst b = RPMSG_NS_EPT_ADDR \<and> h_len b = sizeof_ns_msg \<and>
    name_field (map (\<lambda>b. char_of (unat b)) (take 32 (h_data b))) = name_field name \<and>
    of_le32 (drop 32 (h_data b)) = dyn i \<and> of_le32 (drop 36 (h_data b)) = RPMSG_NS_CREATE"
proof -
  have len: "length (addr_bitmap d) = 4" using assms(1) by (simp add: dev_inv_def)
  have ch: "choose_address RPMSG_ADDR_ANY (addr_bitmap d) = Inr (dyn i, metal_bitmap_set_bit i (addr_bitmap d))"
    by (rule choose_any(2)[OF len assms(5,6,7)])
  let ?d = "rpmsg_register_endpoint e (rpmsg_initialize_ept e (Some name) (dyn i) RPMSG_ADDR_ANY cb unbind
      (d\<lparr>addr_bitmap := metal_bitmap_set_bit i (addr_bitmap d)\<rparr>))"
  have D: "ept_name (epts ?d e) = name_field name" "support_ns ?d" "ept_dest (epts ?d e) = RPMSG_ADDR_ANY" "ept_addr (epts ?d e) = dyn i"
    "transport ?d = t" "ept_rdev (epts ?d e)" "endpoints ?d = endpoints d @ [e]"
    using assms(3,8) by (simp_all add: rpmsg_register_endpoint_def rpmsg_initialize_ept_def)
  let ?b = "ns_msg_bytes (name_field name) (dyn i) RPMSG_NS_CREATE"
  note N = ns_msg_decode[of name "dyn i" RPMSG_NS_CREATE]
  have k: "length ?b = min (length ?b) (unat (e_len x) - 16)" using N(1) assms(13) by simp
  obtain q r where S: "rpmsg_virtio_send_offchannel_raw sleep (dyn i) RPMSG_NS_EPT_ADDR ?b (int (length ?b)) True t =
      Some (int (length ?b), t\<lparr>rv_svq := q, rv_sring := r, rv_shm := (rv_shm t)(e_buf x :=
        \<lparr>h_src = dyn i, h_dst = RPMSG_NS_EPT_ADDR, h_reserved = 0, h_len = of_nat (length ?b), h_flags = 0,
         h_data = take (length ?b) ?b @ drop (length ?b) (h_data (rv_shm t (e_buf x)))\<rparr>)\<rparr>)"
    and V: "vq_inv n (rv_io t) (g\<lparr>ch_avail := xs, ch_used := ch_used g @ [(x, e_len x)]\<rparr>) m q r"
    using raw_send_spec[OF assms(9-12,14) k, of sleep "dyn i" RPMSG_NS_EPT_ADDR True] by blast
  define t' where "t' = t\<lparr>rv_svq := q, rv_sring := r, rv_shm := (rv_shm t)(e_buf x :=
        \<lparr>h_src = dyn i, h_dst = RPMSG_NS_EPT_ADDR, h_reserved = 0, h_len = of_nat (length ?b), h_flags = 0,
         h_data = ?b @ drop (length ?b) (h_data (rv_shm t (e_buf x)))\<rparr>)\<rparr>"
  have any: "RPMSG_NS_EPT_ADDR \<noteq> RPMSG_ADDR_ANY" "dyn i \<noteq> RPMSG_ADDR_ANY"
    using assms(5) by (simp_all add: RPMSG_NS_EPT_ADDR_def RPMSG_ADDR_ANY_def dyn_not_any[unfolded RPMSG_ADDR_ANY_def])
  have "rpmsg_send_ns_message (rpmsg_virtio_ops sleep) e RPMSG_NS_CREATE ?d = Some (RPMSG_SUCCESS, ?d\<lparr>transport := t'\<rparr>)"
    using S any unfolding rpmsg_send_ns_message_def Let_def D name_field_idem(1)
    by (simp add: rpmsg_send_offchannel_raw_def attached_def D rpmsg_virtio_ops_def on_transport_def t'_def)
  then have run: "rpmsg_create_ept (rpmsg_virtio_ops sleep) (Some e) (Some name) RPMSG_ADDR_ANY RPMSG_ADDR_ANY cb unbind d = Some (0, ?d\<lparr>transport := t'\<rparr>)"
    unfolding rpmsg_create_ept_def option.case ch sum.case prod.case Let_def using D assms(4) by (simp add: RPMSG_SUCCESS_def)
  show ?thesis
    unfolding OPENAMP_create_endpoint_def
    by (rule exI[of _ "?d\<lparr>transport := t'\<rparr>"], rule exI[of _ "rv_shm t' (e_buf x)"])
      (use run ept_create_inv[OF assms(1,2) run] D V N in \<open>simp add: t'_def sizeof_ns_msg_def\<close>)
qed

text \<open>
  C35: \<^verbatim>\<open>OPENAMP_DeInit\<close> ends. If the send queue is in good order and the master keeps it so, or is not there at all, the loop that
  destroys the first endpoint of the list until the list is empty ends, whether or not the announcements find a buffer; afterwards
  no endpoint is registered, every address is free again, and the queues are detached.
\<close>

theorem deinit_releases_all:
  assumes "dev_inv d" and "tx_safe (transport d)" and "\<forall>k t. tx_sound t \<longrightarrow> tx_sound (sleep k t)"
  shows "\<exists>s' d'. OPENAMP_DeInit (rpmsg_virtio_ops sleep) d s = Some s' \<and> om_dev s' = Some d' \<and> endpoints d' = [] \<and>
    (\<forall>e. \<not> ept_rdev (epts d' e)) \<and> (\<forall>i < 128. \<not> taken (addr_bitmap d') i) \<and> om_rvq s' = 0 \<and> om_svq s' = 0"
  using deinit_loop_ends[OF assms] by (auto simp: OPENAMP_DeInit_def rpmsg_deinit_vdev_def dev_inv_def)

text \<open>
  The log stays inside its buffer and ends with a zero. Whatever is written, no write leaves the 2048 bytes;
  the text in front of the terminating zero is the most recent part of what was written, and restarts at the
  beginning of the buffer after 2047 characters.
\<close>

theorem log_buffer_contents:
  assumes "length b = SYSTEM_TRACE_BUF_SZ" and "b ! 0 = CHR 0x00" and "k = log_offset (length cs)"
  shows "\<exists>buf. log_all cs (b, 0) = Some (buf, k) \<and> length buf = SYSTEM_TRACE_BUF_SZ \<and> k < SYSTEM_TRACE_BUF_SZ \<and>
    buf ! k = CHR 0x00 \<and> take k buf = drop (length cs - k) cs"
  using assms(3)
proof (induction cs arbitrary: k rule: rev_induct)
  case Nil
  then show ?case using assms by (simp add: log_offset_def SYSTEM_TRACE_BUF_SZ_def)
next
  case (snoc c cs)
  let ?k = "log_offset (length cs)" and ?o = "if log_offset (length cs) + 1 \<ge> 2048 then 0 else log_offset (length cs)"
  obtain buf where B: "log_all cs (b, 0) = Some (buf, ?k)" "length buf = 2048" "take ?k buf = drop (length cs - ?k) cs"
    using snoc.IH[OF refl] by (auto simp: SYSTEM_TRACE_BUF_SZ_def)
  have k: "k = ?o + 1" using snoc.prems by (simp add: log_offset_Suc)
  have o: "?o + 1 < 2048" by simp
  have run: "log_all (cs @ [c]) (b, 0) = Some (buf[?o := c, ?o + 1 := CHR 0x00], ?o + 1)"
    using B(1,2) o by (simp add: log_all_append log_buff_def Let_def SYSTEM_TRACE_BUF_SZ_def)
  have t: "take ?o buf = drop (length cs - ?o) cs" using B(3) by simp
  have "take (?o + 1) (buf[?o := c, ?o + 1 := CHR 0x00]) = take ?o buf @ [c]"
    using B(2) o by (simp add: take_Suc_conv_app_nth)
  also have "\<dots> = drop (length (cs @ [c]) - (?o + 1)) (cs @ [c])" using t log_offset_le(1)[of "length cs"] by simp
  finally show ?case using run B(2) o unfolding k by (simp add: SYSTEM_TRACE_BUF_SZ_def)
qed

section \<open>Witnesses\<close>

lemma demo_tx_sound:
  assumes "vq_inv 2 demo_io demo_channel m s r"
  shows "tx_sound (demo_transport s r)"
proof -
  have "vq_inv 2 (rv_io (demo_transport s r)) demo_channel m (rv_svq (demo_transport s r)) (rv_sring (demo_transport s r))"
    using assms by (simp add: demo_transport_def)
  moreover have "\<forall>x \<in> set (ch_avail demo_channel). buffer_ok (rv_io (demo_transport s r)) (e_buf x) (e_len x)"
    using demo_buffer_ok by (simp add: demo_channel_def demo_entry_def demo_transport_def)
  ultimately show ?thesis
    unfolding tx_sound_def using demo_region_ok by (auto simp: demo_transport_def VIRTIO_CONFIG_STATUS_DRIVER_OK_def)
qed

definition demo_polled :: "unit virtqueue \<Rightarrow> vring \<Rightarrow> unit openamp" where
  "demo_polled q r = (demo_om (\<lambda>_. r))\<lparr>om_dev := Some (demo_device q r), om_rvq := 1, msg_received_ch2 := MBOX_NEW_MSG,
     om_vdev := \<lparr>vd_notifyid = VDEV_ID, vd_role = VIRTIO_DEV_SLAVE, vd_features = 1,
       vrings_info = [zero_vring_info, zero_vring_info\<lparr>vi_notifyid := VRING1_ID\<rparr>]\<rparr>\<rparr>"

theorem poll_delivers_witness:
  "\<exists>q r. om_calls (OPENAMP_check_for_message quiet_app (demo_polled q r)) = [(0, 5, 2, [0xAA, 0xBB])] \<and>
    msg_received_ch2 (OPENAMP_check_for_message quiet_app (demo_polled q r)) = MBOX_NO_MSG"
proof -
  obtain m and q :: "unit virtqueue" and r where i: "vq_inv 2 demo_io demo_channel m q r" using demo_put by blast
  let ?d = "demo_device q r" and ?s = "demo_polled q r"
  have c: "rx_client {0x10040100} (quiet_app :: unit rpmsg_app)" by unfold_locales
  have "rpmsg_get_ept_from_addr ?d 1024 = Some 0"
    by (subst get_ept_from_addr) (simp_all add: RPMSG_ADDR_ANY_def demo_device_def)
  then have "deliveries ?d 0x10040100 = [(0, 5, 2, [0xAA, 0xBB])]"
    by (simp add: deliveries_def) (simp add: demo_device_def demo_transport_def demo_msg_def)
  moreover have "om_dev ?s = Some ?d" "om_rvq ?s \<noteq> 0" "vd_notifyid (om_vdev ?s) = VDEV_ID" "om_calls ?s = []"
    "map vi_notifyid (vrings_info (om_vdev ?s)) = [VRING0_ID, VRING1_ID]" "msg_received_ch2 ?s = MBOX_NEW_MSG"
    by (simp_all add: demo_polled_def zero_vring_info_def VRING0_ID_def)
  moreover have "rx_ready {0x10040100} ?d" "no_any ?d" "vq_inv 2 (rv_io (transport ?d)) demo_channel m (rv_rvq (transport ?d)) (rv_rring (transport ?d))"
    "\<forall>x \<in> set (ch_avail demo_channel). e_buf x \<in> {0x10040100} \<and> e_buf x \<noteq> 0"
    using i by (simp_all add: demo_device_def demo_transport_def demo_channel_def demo_entry_def rx_ready_def region_ok_def
        demo_io_def demo_msg_def no_any_def RPMSG_ADDR_ANY_def)
  ultimately have "om_calls (OPENAMP_check_for_message quiet_app ?s) = [(0, 5, 2, [0xAA, 0xBB])] \<and>
    msg_received_ch2 (OPENAMP_check_for_message quiet_app ?s) = MBOX_NO_MSG"
    using poll_delivers[of ?s ?d "{0x10040100}" quiet_app 2 demo_channel m, OF _ _ _ _ c] by (auto simp: demo_channel_def demo_entry_def)
  then show ?thesis by blast
qed

definition demo_ready :: "unit virtqueue \<Rightarrow> vring \<Rightarrow> unit rdev" where
  "demo_ready q r = ready_device 1 None (demo_transport q r) demo_rvdev"

lemma demo_ready_inv: "dev_inv (demo_ready q r)"
  unfolding demo_ready_def by (rule ready_device_inv) (simp add: demo_rvdev_def zero_ept_def)

theorem endpoint_announced_witness:
  "\<exists>q r d'. OPENAMP_create_endpoint (rpmsg_virtio_ops (\<lambda>_ t. t)) (Some 1) (Some ''ecu'') RPMSG_ADDR_ANY None None (demo_ready q r) = Some (0, d') \<and>
    ept_addr (epts d' 1) = 1024 \<and> endpoints d' = [NS_EPT, 1] \<and> h_dst (rv_shm (transport d') 0x10040100) = 0x35 \<and>
    of_le32 (drop 32 (h_data (rv_shm (transport d') 0x10040100))) = 1024"
proof -
  obtain m and q :: "unit virtqueue" and r where i: "vq_inv 2 demo_io demo_channel m q r" using demo_put by blast
  let ?d = "demo_ready q r"
  have E: "endpoints ?d = [NS_EPT]" "support_ns ?d" "addr_bitmap ?d = [0, 0, 0, 0]" "transport ?d = demo_transport q r"
    by (simp_all add: demo_ready_def)
  have n: "(1 :: nat) \<notin> set (endpoints ?d)" "name_field ''ecu'' \<noteq> []" by (simp_all add: E NS_EPT_def name_field_def RPMSG_NAME_SIZE_def)
  have "\<not> taken (addr_bitmap ?d) 0" by (simp add: E taken_iff)
  from endpoint_announced[OF demo_ready_inv n(1) E(2) n(2) _ this _ E(4)[symmetric], of 2 demo_channel m demo_entry "[]" "\<lambda>_ t. t" None None]
    i demo_region_ok demo_buffer_ok
  obtain d' where "OPENAMP_create_endpoint (rpmsg_virtio_ops (\<lambda>_ t. t)) (Some 1) (Some ''ecu'') RPMSG_ADDR_ANY None None ?d = Some (0, d')"
    "endpoints d' = endpoints ?d @ [1]" "ept_addr (epts d' 1) = dyn 0" "h_dst (rv_shm (transport d') (e_buf demo_entry)) = RPMSG_NS_EPT_ADDR"
    "of_le32 (drop 32 (h_data (rv_shm (transport d') (e_buf demo_entry)))) = dyn 0"
    by (auto simp: demo_transport_def demo_channel_def demo_entry_def VIRTIO_CONFIG_STATUS_DRIVER_OK_def)
  then show ?thesis
    by (intro exI[of _ q] exI[of _ r] exI[of _ d']) (simp add: E demo_entry_def dyn_def RPMSG_RESERVED_ADDRESSES_def RPMSG_NS_EPT_ADDR_def)
qed

theorem deinit_releases_all_witness:
  "\<exists>q r s' d'. OPENAMP_DeInit (rpmsg_virtio_ops (\<lambda>_ t. t)) (demo_ready q r) (demo_om (\<lambda>_. r)) = Some s' \<and> om_dev s' = Some d' \<and> endpoints d' = []"
proof -
  obtain m and q :: "unit virtqueue" and r where i: "vq_inv 2 demo_io demo_channel m q r" using demo_put by blast
  have "tx_safe (transport (demo_ready q r))" using demo_tx_sound[OF i] by (simp add: demo_ready_def tx_safe_def)
  from deinit_releases_all[OF demo_ready_inv this, of "\<lambda>_ t. t" "demo_om (\<lambda>_. r)"] show ?thesis by blast
qed

theorem log_buffer_contents_witness:
  "\<exists>buf. log_all ''boot'' (replicate SYSTEM_TRACE_BUF_SZ (CHR 0x00), 0) = Some (buf, 4) \<and> take 4 buf = ''boot'' \<and> buf ! 4 = CHR 0x00"
  using log_buffer_contents[of "replicate SYSTEM_TRACE_BUF_SZ (CHR 0x00)" 4 "''boot''"]
  by (auto simp: log_offset_def SYSTEM_TRACE_BUF_SZ_def)

end
