(* ===== verification/Core_Init.thy ===== *)
theory Core_Init
  imports Openamp I2c_Bus "HOL-Library.Monad_Syntax"
begin

text \<open>
  The start of the firmware: \<^verbatim>\<open>main\<close> and the \<^verbatim>\<open>MX_*_Init\<close> functions of \<^verbatim>\<open>CM4/Core/Src/main.c\<close>, the board hooks
  \<^verbatim>\<open>HAL_*_MspInit\<close> and \<^verbatim>\<open>HAL_*_MspDeInit\<close> of \<^verbatim>\<open>CM4/Core/Src/stm32mp1xx_hal_msp.c\<close>, the time base of
  \<^verbatim>\<open>stm32mp1xx_hal_timebase_tim.c\<close>, and the initialisation functions of the CRC, RNG, I2C and SPI drivers of the HAL.

  The state \<open>firmware\<close> extends the state of the communication layer by the clock gates, the registers of these
  peripherals and the states of the handles. What the HAL functions that are not modelled (\<^verbatim>\<open>HAL_UART_Init\<close>, \<^verbatim>\<open>HAL_FDCAN_Init\<close>,
  \<^verbatim>\<open>HAL_DMA_Init\<close>, \<^verbatim>\<open>HAL_TIM_Base_Init\<close> and the clock tree) return is a field of \<open>core_env\<close>, as is the application
  (\<^verbatim>\<open>system_run\<close>), which is not part of the repository. A driver that fails ends in \<^verbatim>\<open>Error_Handler\<close>, which is a
  result of its own (\<open>Stopped\<close>), apart from the wait for the master, which may have no end.
\<close>

section \<open>State\<close>

datatype periph_inst = CRC2 | FDCAN1 | I2C1 | RNG2 | SPI4 | SPI5 | UART4

datatype periph_clock = CRC2_CLK | FDCAN_CLK | I2C1_CLK | RNG2_CLK | SPI4_CLK | SPI5_CLK | UART4_CLK
  | DMA2_CLK | DMAMUX_CLK | HSEM_CLK | TIM1_CLK

datatype handle_state = STATE_RESET | STATE_BUSY | STATE_READY

record spi_regs =
  SPI_CR1 :: u32
  SPI_CFG1 :: u32
  SPI_CFG2 :: u32
  SPI_I2SCFGR :: u32

record i2c_regs =
  I2C_CR1 :: u32
  I2C_CR2 :: u32
  I2C_OAR1 :: u32
  I2C_OAR2 :: u32
  I2C_TIMINGR :: u32

record crc_regs =
  CRC_POL :: u32
  CRC_CR :: u32
  CRC_INIT :: u32

datatype rtos_object = Mutex string | Timer string | Thread string

record 'a firmware = "'a openamp" +
  fw_clk :: "periph_clock \<Rightarrow> bool"
  shp :: "int \<Rightarrow> nat \<times> nat"
  fw_state :: "periph_inst \<Rightarrow> handle_state"
  spi :: "periph_inst \<Rightarrow> spi_regs"
  i2c1 :: i2c_regs
  crc2 :: crc_regs
  rng2_CR :: u32
  hdmatx :: "nat option"
  hdmarx :: "nat option"
  htim1 :: "(u32 \<times> u32) option"
  rtos_objects :: "rtos_object list"
  prigroup :: u32
  SystemCoreClock :: u32
  irq_off :: bool

record SPI_InitTypeDef =
  sp_Mode :: u32
  sp_Direction :: u32
  sp_DataSize :: u32
  sp_CLKPolarity :: u32
  sp_CLKPhase :: u32
  sp_NSS :: u32
  sp_BaudRatePrescaler :: u32
  sp_FirstBit :: u32
  sp_TIMode :: u32
  sp_NSSPMode :: u32
  sp_NSSPolarity :: u32
  sp_FifoThreshold :: u32
  sp_MasterSSIdleness :: u32
  sp_MasterInterDataIdleness :: u32
  sp_MasterReceiverAutoSusp :: u32
  sp_MasterKeepIOState :: u32
  sp_IOSwap :: u32

record UART_InitTypeDef =
  ua_BaudRate :: nat
  ua_WordLength :: u32
  ua_StopBits :: u32
  ua_Parity :: u32
  ua_Mode :: u32
  ua_HwFlowCtl :: u32
  ua_OverSampling :: u32
  ua_OneBitSampling :: u32
  ua_ClockPrescaler :: u32
  ua_AdvFeatureInit :: u32

record DMA_InitTypeDef =
  dm_Stream :: nat
  dm_Request :: nat
  dm_Direction :: u32
  dm_PeriphInc :: u32
  dm_MemInc :: u32
  dm_PeriphDataAlignment :: u32
  dm_MemDataAlignment :: u32
  dm_Mode :: u32
  dm_Priority :: u32
  dm_FIFOMode :: u32

record FDCAN_InitTypeDef =
  fd_FrameFormat :: u32
  fd_Mode :: u32
  fd_AutoRetransmission :: bool
  fd_TransmitPause :: bool
  fd_ProtocolException :: bool
  fd_Nominal :: "nat \<times> nat \<times> nat \<times> nat"
  fd_Data :: "nat \<times> nat \<times> nat \<times> nat"
  fd_MessageRAMOffset :: nat
  fd_StdFiltersNbr :: nat
  fd_ExtFiltersNbr :: nat
  fd_RxFifo0 :: "nat \<times> u32"
  fd_RxFifo1 :: "nat \<times> u32"
  fd_RxBuffers :: "nat \<times> u32"
  fd_TxEventsNbr :: nat
  fd_TxBuffersNbr :: nat
  fd_TxFifoQueueElmtsNbr :: nat
  fd_TxFifoQueueMode :: u32
  fd_TxElmtSize :: u32

datatype oscillator = CSI | HSI | LSI | HSE | LSE

record PLL_cfg =
  pll_source :: oscillator
  pll_M :: nat
  pll_N :: nat
  pll_P :: nat
  pll_Q :: nat
  pll_R :: nat
  pll_FRACV :: nat
  pll_fractional :: bool

record RCC_OscInitTypeDef =
  osc_types :: "oscillator list"
  osc_PLL2 :: PLL_cfg
  osc_PLL3 :: PLL_cfg
  osc_PLL4 :: PLL_cfg

record RCC_ClkInitTypeDef =
  AXI_source :: nat
  MCU_source :: nat
  AXI_Div :: nat
  MCU_Div :: nat
  APB1_Div :: nat
  APB2_Div :: nat
  APB3_Div :: nat
  APB4_Div :: nat
  APB5_Div :: nat

text \<open>The peripheral clock selections that the board hooks ask for.\<close>

datatype periph_clk_sel = CKPER_from_HSE | FDCAN_from_PLL3 | I2C12_from_HSI | RNG2_from_CSI | SPI45_from_PCLK2 | UART24_from_HSI

record 'a core_env =
  engineering :: bool
  pclk2_freq :: u32
  core_clock_freq :: u32
  HAL_TIM_Base_Init :: "u32 \<Rightarrow> u32 \<Rightarrow> HAL_StatusTypeDef"
  HAL_TIM_Base_Start_IT :: HAL_StatusTypeDef
  HAL_RCC_OscConfig :: "RCC_OscInitTypeDef \<Rightarrow> HAL_StatusTypeDef"
  HAL_RCC_ClockConfig :: "RCC_ClkInitTypeDef \<Rightarrow> HAL_StatusTypeDef"
  HAL_RCCEx_PeriphCLKConfig :: "periph_clk_sel \<Rightarrow> HAL_StatusTypeDef"
  HAL_DMA_Init :: "DMA_InitTypeDef \<Rightarrow> HAL_StatusTypeDef"
  UART_setup :: "UART_InitTypeDef \<Rightarrow> HAL_StatusTypeDef"
  HAL_UARTEx_SetTxFifoThreshold :: "u32 \<Rightarrow> HAL_StatusTypeDef"
  HAL_UARTEx_SetRxFifoThreshold :: "u32 \<Rightarrow> HAL_StatusTypeDef"
  HAL_UARTEx_DisableFifoMode :: HAL_StatusTypeDef
  FDCAN_setup :: "FDCAN_InitTypeDef \<Rightarrow> HAL_StatusTypeDef"
  system_run :: "'a firmware \<Rightarrow> 'a firmware option"

text \<open>
  How a step of the start ends: it goes on with a value, or the processor is in \<^verbatim>\<open>Error_Handler\<close>, which disables the interrupts and
  then loops for ever; the state is the one it loops in.
\<close>

datatype ('v, 'a) start = Goes_On 'v | Stopped "'a firmware"

fun and_then :: "('v, 'a) start \<Rightarrow> ('v \<Rightarrow> ('w, 'a) start) \<Rightarrow> ('w, 'a) start" where
  "and_then (Goes_On v) f = f v"
| "and_then (Stopped s) f = Stopped s"

text \<open>\<open>guard_ok r s\<close>: go on if the driver returned \<^verbatim>\<open>HAL_OK\<close>, otherwise \<^verbatim>\<open>Error_Handler\<close>.\<close>

definition Error_Handler :: "'a firmware \<Rightarrow> ('v, 'a) start" where
  "Error_Handler s = Stopped (s\<lparr>irq_off := True\<rparr>)"

definition guard_ok :: "HAL_StatusTypeDef \<Rightarrow> 'a firmware \<Rightarrow> ('a firmware, 'a) start" where
  "guard_ok r s = (if r \<noteq> HAL_OK then Error_Handler s else Goes_On s)"

definition gpio_init :: "gpio_port \<Rightarrow> GPIO_InitTypeDef \<Rightarrow> 'a firmware \<Rightarrow> 'a firmware" where
  "gpio_init port cfg s = s\<lparr>b_sys := HAL_GPIO_Init port cfg (b_sys s)\<rparr>"

definition gpio_deinit :: "gpio_port \<Rightarrow> u32 \<Rightarrow> 'a firmware \<Rightarrow> 'a firmware" where
  "gpio_deinit port pins s = s\<lparr>b_sys := HAL_GPIO_DeInit port pins (b_sys s)\<rparr>"

definition gpio_clk :: "gpio_port \<Rightarrow> 'a firmware \<Rightarrow> 'a firmware" where
  "gpio_clk port s = s\<lparr>b_clk := (b_clk s)(port := True)\<rparr>"

definition clk_enable :: "periph_clock \<Rightarrow> 'a firmware \<Rightarrow> 'a firmware" where
  "clk_enable c s = s\<lparr>fw_clk := (fw_clk s)(c := True)\<rparr>"

definition clk_disable :: "periph_clock \<Rightarrow> 'a firmware \<Rightarrow> 'a firmware" where
  "clk_disable c s = s\<lparr>fw_clk := (fw_clk s)(c := False)\<rparr>"

definition set_irq :: "nat \<Rightarrow> nat \<Rightarrow> 'a firmware \<Rightarrow> 'a firmware" where
  "set_irq irq prio s = HAL_NVIC_EnableIRQ irq (HAL_NVIC_SetPriority irq prio 0 s)"

definition set_shp :: "int \<Rightarrow> nat \<Rightarrow> 'a firmware \<Rightarrow> 'a firmware" where
  "set_shp irq prio s = s\<lparr>shp := (shp s)(irq := (prio, 0))\<rparr>"

definition set_state :: "periph_inst \<Rightarrow> handle_state \<Rightarrow> 'a firmware \<Rightarrow> 'a firmware" where
  "set_state p v s = s\<lparr>fw_state := (fw_state s)(p := v)\<rparr>"

definition TIM1_UP_IRQn :: nat where "TIM1_UP_IRQn = 25"
definition DMA2_Stream0_IRQn :: nat where "DMA2_Stream0_IRQn = 56"
definition DMA2_Stream1_IRQn :: nat where "DMA2_Stream1_IRQn = 57"
definition SPI5_IRQn :: nat where "SPI5_IRQn = 85"
definition RCC_WAKEUP_IRQn :: nat where "RCC_WAKEUP_IRQn = 145"

lemmas irq_numbers = TIM1_UP_IRQn_def DMA2_Stream0_IRQn_def DMA2_Stream1_IRQn_def SPI5_IRQn_def RCC_WAKEUP_IRQn_def
  IPCC_RX1_IRQn_def IPCC_TX1_IRQn_def

section \<open>Board hooks\<close>

text \<open>The global hook: priorities of the system exceptions, the semaphore clock and the wake-up interrupt.\<close>

definition HAL_MspInit :: "'a firmware \<Rightarrow> 'a firmware" where
  "HAL_MspInit s =
     (let s = clk_enable HSEM_CLK s;
          s = set_shp (- 12) 1 s; s = set_shp (- 11) 1 s; s = set_shp (- 10) 1 s;
          s = set_shp (- 5) 1 s; s = set_shp (- 4) 1 s; s = set_shp (- 2) 15 s
      in set_irq RCC_WAKEUP_IRQn 0 s)"

definition select_clock :: "'a core_env \<Rightarrow> periph_clk_sel \<Rightarrow> 'a firmware \<Rightarrow> ('a firmware, 'a) start" where
  "select_clock env sel s = (if engineering env then guard_ok (HAL_RCCEx_PeriphCLKConfig env sel) s else Goes_On s)"

definition HAL_CRC_MspInit :: "periph_inst \<Rightarrow> 'a firmware \<Rightarrow> 'a firmware" where
  "HAL_CRC_MspInit inst s = (if inst = CRC2 then clk_enable CRC2_CLK s else s)"

definition HAL_CRC_MspDeInit :: "periph_inst \<Rightarrow> 'a firmware \<Rightarrow> 'a firmware" where
  "HAL_CRC_MspDeInit inst s = (if inst = CRC2 then clk_disable CRC2_CLK s else s)"

definition HAL_FDCAN_MspInit :: "'a core_env \<Rightarrow> periph_inst \<Rightarrow> 'a firmware \<Rightarrow> ('a firmware, 'a) start" where
  "HAL_FDCAN_MspInit env inst s =
     (if inst = FDCAN1 then (
        and_then (select_clock env FDCAN_from_PLL3 s) (\<lambda>s.
        let s = clk_enable FDCAN_CLK s in
        let s = gpio_clk GPIOA s in
        let s = gpio_init GPIOA \<lparr>Pin = 0x800, Mode = GPIO_MODE_AF_PP, Pull = GPIO_NOPULL, Speed = 0, Alternate = 9\<rparr> s in
        Goes_On (gpio_init GPIOA \<lparr>Pin = 0x1000, Mode = GPIO_MODE_AF_PP, Pull = GPIO_NOPULL, Speed = GPIO_SPEED_FREQ_LOW, Alternate = 9\<rparr> s)))
      else Goes_On s)"

definition HAL_FDCAN_MspDeInit :: "periph_inst \<Rightarrow> 'a firmware \<Rightarrow> 'a firmware" where
  "HAL_FDCAN_MspDeInit inst s = (if inst = FDCAN1 then gpio_deinit GPIOA (0x800 OR 0x1000) (clk_disable FDCAN_CLK s) else s)"

definition HAL_I2C_MspInit :: "'a core_env \<Rightarrow> periph_inst \<Rightarrow> 'a firmware \<Rightarrow> ('a firmware, 'a) start" where
  "HAL_I2C_MspInit env inst s =
     (if inst = I2C1 then (
        and_then (select_clock env I2C12_from_HSI s) (\<lambda>s.
        let s = gpio_clk GPIOD (gpio_clk GPIOF s) in
        let s = gpio_init GPIOF \<lparr>Pin = 0x8000, Mode = GPIO_MODE_AF_OD, Pull = GPIO_NOPULL, Speed = GPIO_SPEED_FREQ_LOW, Alternate = 5\<rparr> s in
        let s = gpio_init GPIOD \<lparr>Pin = 0x1000, Mode = GPIO_MODE_AF_OD, Pull = GPIO_NOPULL, Speed = GPIO_SPEED_FREQ_LOW, Alternate = 5\<rparr> s in
        Goes_On (clk_enable I2C1_CLK s)))
      else Goes_On s)"

definition HAL_I2C_MspDeInit :: "periph_inst \<Rightarrow> 'a firmware \<Rightarrow> 'a firmware" where
  "HAL_I2C_MspDeInit inst s =
     (if inst = I2C1 then gpio_deinit GPIOD 0x1000 (gpio_deinit GPIOF 0x8000 (clk_disable I2C1_CLK s)) else s)"

definition HAL_RNG_MspInit :: "'a core_env \<Rightarrow> periph_inst \<Rightarrow> 'a firmware \<Rightarrow> ('a firmware, 'a) start" where
  "HAL_RNG_MspInit env inst s =
     (if inst = RNG2 then and_then (select_clock env RNG2_from_CSI s) (\<lambda>s. Goes_On (clk_enable RNG2_CLK s))
      else Goes_On s)"

definition HAL_RNG_MspDeInit :: "periph_inst \<Rightarrow> 'a firmware \<Rightarrow> 'a firmware" where
  "HAL_RNG_MspDeInit inst s = (if inst = RNG2 then clk_disable RNG2_CLK s else s)"

definition hdma_spi5_tx :: DMA_InitTypeDef where
  "hdma_spi5_tx = \<lparr>dm_Stream = 1, dm_Request = 86, dm_Direction = 0x40, dm_PeriphInc = 0, dm_MemInc = 0x400,
     dm_PeriphDataAlignment = 0, dm_MemDataAlignment = 0, dm_Mode = 0, dm_Priority = 0, dm_FIFOMode = 0\<rparr>"

definition hdma_spi5_rx :: DMA_InitTypeDef where
  "hdma_spi5_rx = \<lparr>dm_Stream = 0, dm_Request = 85, dm_Direction = 0, dm_PeriphInc = 0, dm_MemInc = 0x400,
     dm_PeriphDataAlignment = 0, dm_MemDataAlignment = 0, dm_Mode = 0, dm_Priority = 0, dm_FIFOMode = 0\<rparr>"

definition GPIO_SPEED_FREQ_MEDIUM :: u32 where "GPIO_SPEED_FREQ_MEDIUM = 1"

definition HAL_SPI_MspInit :: "'a core_env \<Rightarrow> periph_inst \<Rightarrow> 'a firmware \<Rightarrow> ('a firmware, 'a) start" where
  "HAL_SPI_MspInit env inst s =
     (if inst = SPI4 then (
        and_then (select_clock env SPI45_from_PCLK2 s) (\<lambda>s.
        let s = gpio_clk GPIOE (clk_enable SPI4_CLK s) in
        Goes_On (gpio_init GPIOE \<lparr>Pin = 0x2000 OR 0x800 OR 0x1000 OR 0x4000, Mode = GPIO_MODE_AF_PP, Pull = GPIO_NOPULL,
                Speed = GPIO_SPEED_FREQ_MEDIUM, Alternate = 5\<rparr> s)))
      else if inst = SPI5 then (
        and_then (select_clock env SPI45_from_PCLK2 s) (\<lambda>s.
        let s = gpio_clk GPIOF (clk_enable SPI5_CLK s) in
        let s = gpio_init GPIOF \<lparr>Pin = 0x40 OR 0x200 OR 0x80 OR 0x100, Mode = GPIO_MODE_AF_PP, Pull = GPIO_NOPULL,
                  Speed = GPIO_SPEED_FREQ_MEDIUM, Alternate = 5\<rparr> s in
        and_then (guard_ok (HAL_DMA_Init env hdma_spi5_tx) s) (\<lambda>s.
        let s = s\<lparr>hdmatx := Some (dm_Stream hdma_spi5_tx)\<rparr> in
        and_then (guard_ok (HAL_DMA_Init env hdma_spi5_rx) s) (\<lambda>s.
        let s = s\<lparr>hdmarx := Some (dm_Stream hdma_spi5_rx)\<rparr> in
        Goes_On (set_irq SPI5_IRQn 5 s)))))
      else Goes_On s)"

text \<open>Releasing the two DMA streams (\<^verbatim>\<open>HAL_DMA_DeInit\<close>) leaves the links of the handle as they are.\<close>

definition HAL_SPI_MspDeInit :: "periph_inst \<Rightarrow> 'a firmware \<Rightarrow> 'a firmware" where
  "HAL_SPI_MspDeInit inst s =
     (if inst = SPI4 then gpio_deinit GPIOE (0x2000 OR 0x800 OR 0x1000 OR 0x4000) (clk_disable SPI4_CLK s)
      else if inst = SPI5
      then HAL_NVIC_DisableIRQ SPI5_IRQn (gpio_deinit GPIOF (0x40 OR 0x200 OR 0x80 OR 0x100) (clk_disable SPI5_CLK s))
      else s)"

definition HAL_UART_MspInit :: "'a core_env \<Rightarrow> periph_inst \<Rightarrow> 'a firmware \<Rightarrow> ('a firmware, 'a) start" where
  "HAL_UART_MspInit env inst s =
     (if inst = UART4 then (
        and_then (select_clock env UART24_from_HSI s) (\<lambda>s.
        let s = gpio_clk GPIOB (gpio_clk GPIOG (clk_enable UART4_CLK s)) in
        let s = gpio_init GPIOG \<lparr>Pin = 0x800, Mode = GPIO_MODE_AF_PP, Pull = GPIO_NOPULL, Speed = GPIO_SPEED_FREQ_LOW, Alternate = 6\<rparr> s in
        Goes_On (gpio_init GPIOB \<lparr>Pin = 0x4, Mode = GPIO_MODE_AF_PP, Pull = GPIO_NOPULL, Speed = GPIO_SPEED_FREQ_LOW, Alternate = 8\<rparr> s)))
      else Goes_On s)"

definition HAL_UART_MspDeInit :: "periph_inst \<Rightarrow> 'a firmware \<Rightarrow> 'a firmware" where
  "HAL_UART_MspDeInit inst s =
     (if inst = UART4 then gpio_deinit GPIOB 0x4 (gpio_deinit GPIOG 0x800 (clk_disable UART4_CLK s)) else s)"

section \<open>Drivers\<close>

definition MODIFY_REG :: "u32 \<Rightarrow> u32 \<Rightarrow> u32 \<Rightarrow> u32" where
  "MODIFY_REG reg clearmask setmask = (reg AND NOT clearmask) OR setmask"

definition upd_spi :: "periph_inst \<Rightarrow> (spi_regs \<Rightarrow> spi_regs) \<Rightarrow> 'a firmware \<Rightarrow> 'a firmware" where
  "upd_spi inst f s = s\<lparr>spi := (spi s)(inst := f (spi s inst))\<rparr>"

text \<open>The default polynomial and start value are selected; other settings are not used by the firmware.\<close>

definition HAL_CRC_Init :: "u32 \<Rightarrow> u32 \<Rightarrow> 'a firmware \<Rightarrow> HAL_StatusTypeDef \<times> 'a firmware" where
  "HAL_CRC_Init InputDataInversionMode OutputDataInversionMode s =
     (let s = (if fw_state s CRC2 = STATE_RESET then HAL_CRC_MspInit CRC2 s else s);
          s = set_state CRC2 STATE_BUSY s;
          r = crc2 s;
          r = r\<lparr>CRC_POL := 0x04C11DB7\<rparr>;
          r = r\<lparr>CRC_CR := MODIFY_REG (CRC_CR r) 0x18 0\<rparr>;
          r = r\<lparr>CRC_INIT := 0xFFFFFFFF\<rparr>;
          r = r\<lparr>CRC_CR := MODIFY_REG (CRC_CR r) 0x60 InputDataInversionMode\<rparr>;
          r = r\<lparr>CRC_CR := MODIFY_REG (CRC_CR r) 0x80 OutputDataInversionMode\<rparr>;
          s = s\<lparr>crc2 := r\<rparr>
      in (HAL_OK, set_state CRC2 STATE_READY s))"

definition HAL_RNG_Init :: "'a core_env \<Rightarrow> u32 \<Rightarrow> 'a firmware \<Rightarrow> (HAL_StatusTypeDef \<times> 'a firmware, 'a) start" where
  "HAL_RNG_Init env ClockErrorDetection s = (
     and_then (if fw_state s RNG2 = STATE_RESET then HAL_RNG_MspInit env RNG2 s else Goes_On s) (\<lambda>s.
     let s = set_state RNG2 STATE_BUSY s in
     let s = s\<lparr>rng2_CR := MODIFY_REG (rng2_CR s) 0x20 ClockErrorDetection\<rparr> in
     let s = s\<lparr>rng2_CR := rng2_CR s OR 0x4\<rparr> in
     Goes_On (HAL_OK, set_state RNG2 STATE_READY s)))"

definition HAL_I2C1_Init :: "'a core_env \<Rightarrow> i2c_init \<Rightarrow> 'a firmware \<Rightarrow> (HAL_StatusTypeDef \<times> 'a firmware, 'a) start" where
  "HAL_I2C1_Init env cfg s = (
     and_then (if fw_state s I2C1 = STATE_RESET then HAL_I2C_MspInit env I2C1 s else Goes_On s) (\<lambda>s.
     let s = set_state I2C1 STATE_BUSY s in
     let r = i2c1 s in
     let r = r\<lparr>I2C_CR1 := I2C_CR1 r AND NOT 1\<rparr> in
     let r = r\<lparr>I2C_TIMINGR := Timing cfg AND 0xF0FFFFFF\<rparr> in
     let r = r\<lparr>I2C_OAR1 := I2C_OAR1 r AND NOT 0x8000\<rparr> in
     let r = (if AddressingMode cfg = 1 then r\<lparr>I2C_OAR1 := 0x8000 OR OwnAddress1 cfg\<rparr>
              else r\<lparr>I2C_OAR1 := 0x8000 OR 0x400 OR OwnAddress1 cfg\<rparr>) in
     let r = (if AddressingMode cfg = 2 then r\<lparr>I2C_CR2 := 0x800\<rparr> else r) in
     let r = r\<lparr>I2C_CR2 := I2C_CR2 r OR (0x2000000 OR 0x8000)\<rparr> in
     let r = r\<lparr>I2C_OAR2 := I2C_OAR2 r AND NOT 0x8000\<rparr> in
     let r = r\<lparr>I2C_OAR2 := DualAddressMode cfg OR OwnAddress2 cfg OR push_bit 8 (OwnAddress2Masks cfg)\<rparr> in
     let r = r\<lparr>I2C_CR1 := GeneralCallMode cfg OR NoStretchMode cfg\<rparr> in
     let r = r\<lparr>I2C_CR1 := I2C_CR1 r OR 1\<rparr> in
     let s = s\<lparr>i2c1 := r\<rparr> in
     Goes_On (HAL_OK, set_state I2C1 STATE_READY s)))"

definition HAL_I2CEx_ConfigAnalogFilter :: "u32 \<Rightarrow> 'a firmware \<Rightarrow> HAL_StatusTypeDef \<times> 'a firmware" where
  "HAL_I2CEx_ConfigAnalogFilter AnalogFilter s =
     (if fw_state s I2C1 = STATE_READY then
        let r = i2c1 s;
            r = r\<lparr>I2C_CR1 := I2C_CR1 r AND NOT 1\<rparr>;
            r = r\<lparr>I2C_CR1 := I2C_CR1 r AND NOT 0x1000\<rparr>;
            r = r\<lparr>I2C_CR1 := I2C_CR1 r OR AnalogFilter\<rparr>;
            r = r\<lparr>I2C_CR1 := I2C_CR1 r OR 1\<rparr>
        in (HAL_OK, s\<lparr>i2c1 := r\<rparr>)
      else (HAL_BUSY, s))"

definition HAL_I2CEx_ConfigDigitalFilter :: "u32 \<Rightarrow> 'a firmware \<Rightarrow> HAL_StatusTypeDef \<times> 'a firmware" where
  "HAL_I2CEx_ConfigDigitalFilter DigitalFilter s =
     (if fw_state s I2C1 = STATE_READY then
        let r = i2c1 s;
            r = r\<lparr>I2C_CR1 := I2C_CR1 r AND NOT 1\<rparr>;
            tmpreg = I2C_CR1 r;
            tmpreg = tmpreg AND NOT 0xF00;
            tmpreg = tmpreg OR push_bit 8 DigitalFilter;
            r = r\<lparr>I2C_CR1 := tmpreg\<rparr>;
            r = r\<lparr>I2C_CR1 := I2C_CR1 r OR 1\<rparr>
        in (HAL_OK, s\<lparr>i2c1 := r\<rparr>)
      else (HAL_BUSY, s))"

definition SPI_MODE_MASTER :: u32 where "SPI_MODE_MASTER = 0x400000"
definition SPI_MODE_SLAVE :: u32 where "SPI_MODE_SLAVE = 0"
definition SPI_DATASIZE_4BIT :: u32 where "SPI_DATASIZE_4BIT = 3"
definition SPI_DATASIZE_8BIT :: u32 where "SPI_DATASIZE_8BIT = 7"
definition SPI_DATASIZE_16BIT :: u32 where "SPI_DATASIZE_16BIT = 0xF"
definition SPI_PHASE_1EDGE :: u32 where "SPI_PHASE_1EDGE = 0"
definition SPI_PHASE_2EDGE :: u32 where "SPI_PHASE_2EDGE = 0x1000000"
definition SPI_NSS_SOFT :: u32 where "SPI_NSS_SOFT = 0x4000000"
definition SPI_NSS_HARD_OUTPUT :: u32 where "SPI_NSS_HARD_OUTPUT = 0x20000000"
definition SPI_BAUDRATEPRESCALER_4 :: u32 where "SPI_BAUDRATEPRESCALER_4 = 0x10000000"
definition SPI_BAUDRATEPRESCALER_64 :: u32 where "SPI_BAUDRATEPRESCALER_64 = 0x50000000"
definition SPI_NSS_PULSE_ENABLE :: u32 where "SPI_NSS_PULSE_ENABLE = 0x40000000"
definition SPI_NSS_POLARITY_LOW :: u32 where "SPI_NSS_POLARITY_LOW = 0"
definition SPI_NSS_POLARITY_HIGH :: u32 where "SPI_NSS_POLARITY_HIGH = 0x10000000"

lemmas spi_consts = SPI_MODE_MASTER_def SPI_MODE_SLAVE_def SPI_DATASIZE_4BIT_def SPI_DATASIZE_8BIT_def SPI_DATASIZE_16BIT_def
  SPI_PHASE_1EDGE_def SPI_PHASE_2EDGE_def SPI_NSS_SOFT_def SPI_NSS_HARD_OUTPUT_def SPI_BAUDRATEPRESCALER_4_def
  SPI_BAUDRATEPRESCALER_64_def SPI_NSS_PULSE_ENABLE_def SPI_NSS_POLARITY_LOW_def SPI_NSS_POLARITY_HIGH_def

definition SPI_GetPacketSize :: "SPI_InitTypeDef \<Rightarrow> u32" where
  "SPI_GetPacketSize cfg =
     (let fifo_threashold = drop_bit 5 (sp_FifoThreshold cfg) + 1;
          data_size = sp_DataSize cfg + 1;
          data_size = (data_size + 7) div 8
      in data_size * fifo_threashold)"

text \<open>The high-end instances are SPI1 to SPI3, so neither of the two in use is one. The checksum unit is compiled out.\<close>

definition spi_configure :: "SPI_InitTypeDef \<Rightarrow> spi_regs \<Rightarrow> spi_regs" where
  "spi_configure cfg r =
     (let r = r\<lparr>SPI_CR1 := SPI_CR1 r AND NOT 1\<rparr>;
          crc_length = SPI_CFG1 r AND 0x1F0000;
          r = (if sp_NSS cfg = SPI_NSS_SOFT \<and>
                  (sp_Mode cfg = SPI_MODE_MASTER \<and> sp_NSSPolarity cfg = SPI_NSS_POLARITY_LOW \<or>
                   sp_Mode cfg = SPI_MODE_SLAVE \<and> sp_NSSPolarity cfg = SPI_NSS_POLARITY_HIGH)
               then r\<lparr>SPI_CR1 := SPI_CR1 r OR 0x1000\<rparr> else r);
          r = (if sp_Mode cfg AND SPI_MODE_MASTER = SPI_MODE_MASTER \<and> sp_DataSize cfg \<ge> SPI_DATASIZE_8BIT
               then r\<lparr>SPI_CR1 := MODIFY_REG (SPI_CR1 r) 0x100 (sp_MasterReceiverAutoSusp cfg)\<rparr>
               else r\<lparr>SPI_CR1 := SPI_CR1 r AND NOT 0x100\<rparr>);
          r = r\<lparr>SPI_CFG1 := sp_BaudRatePrescaler cfg OR 0 OR crc_length OR sp_FifoThreshold cfg OR sp_DataSize cfg\<rparr>;
          r = r\<lparr>SPI_CFG2 := sp_NSSPMode cfg OR sp_TIMode cfg OR sp_NSSPolarity cfg OR sp_NSS cfg OR sp_CLKPolarity cfg OR
                  sp_CLKPhase cfg OR sp_FirstBit cfg OR sp_Mode cfg OR sp_MasterInterDataIdleness cfg OR sp_Direction cfg OR
                  sp_MasterSSIdleness cfg OR sp_IOSwap cfg\<rparr>;
          r = (if sp_Mode cfg = SPI_MODE_SLAVE
               then let r = r\<lparr>SPI_CFG1 := MODIFY_REG (SPI_CFG1 r) 0x1800 0x800\<rparr>
                    in r\<lparr>SPI_CFG1 := MODIFY_REG (SPI_CFG1 r) 0x600 0x400\<rparr>
               else r);
          r = r\<lparr>SPI_I2SCFGR := SPI_I2SCFGR r AND NOT 1\<rparr>
      in if sp_Mode cfg AND SPI_MODE_MASTER = SPI_MODE_MASTER
         then r\<lparr>SPI_CFG2 := MODIFY_REG (SPI_CFG2 r) 0x80000000 (sp_MasterKeepIOState cfg)\<rparr> else r)"

definition HAL_SPI_Init :: "'a core_env \<Rightarrow> periph_inst \<Rightarrow> SPI_InitTypeDef \<Rightarrow> 'a firmware \<Rightarrow> (HAL_StatusTypeDef \<times> 'a firmware, 'a) start" where
  "HAL_SPI_Init env inst cfg s =
     (if sp_DataSize cfg > SPI_DATASIZE_16BIT then Goes_On (HAL_ERROR, s)
      else if SPI_GetPacketSize cfg > 8 then Goes_On (HAL_ERROR, s)
      else (
        and_then (if fw_state s inst = STATE_RESET then HAL_SPI_MspInit env inst s else Goes_On s) (\<lambda>s.
        let s = set_state inst STATE_BUSY s in
        let s = upd_spi inst (spi_configure cfg) s in
        Goes_On (HAL_OK, set_state inst STATE_READY s))))"

text \<open>The registers of the UART and of the CAN controller are not modelled; the hooks and the states of the handles are.\<close>

definition HAL_UART_Init :: "'a core_env \<Rightarrow> UART_InitTypeDef \<Rightarrow> 'a firmware \<Rightarrow> (HAL_StatusTypeDef \<times> 'a firmware, 'a) start" where
  "HAL_UART_Init env cfg s = (
     and_then (if fw_state s UART4 = STATE_RESET then HAL_UART_MspInit env UART4 s else Goes_On s) (\<lambda>s.
     let s = set_state UART4 STATE_BUSY s in
     let r = UART_setup env cfg in
     Goes_On (r, if r = HAL_OK then set_state UART4 STATE_READY s else s)))"

definition HAL_FDCAN_Init :: "'a core_env \<Rightarrow> FDCAN_InitTypeDef \<Rightarrow> 'a firmware \<Rightarrow> (HAL_StatusTypeDef \<times> 'a firmware, 'a) start" where
  "HAL_FDCAN_Init env cfg s = (
     and_then (if fw_state s FDCAN1 = STATE_RESET then HAL_FDCAN_MspInit env FDCAN1 s else Goes_On s) (\<lambda>s.
     let r = FDCAN_setup env cfg in
     Goes_On (r, if r = HAL_OK then set_state FDCAN1 STATE_READY s else s)))"

section \<open>Initialisation functions of main.c\<close>

text \<open>\<open>or_stop\<close>: the pattern \<^verbatim>\<open>if (f(...) != HAL_OK) Error_Handler();\<close>\<close>

definition or_stop :: "(HAL_StatusTypeDef \<times> 'a firmware, 'a) start \<Rightarrow> ('a firmware, 'a) start" where
  "or_stop x = and_then x (\<lambda>(r, s). guard_ok r s)"

definition MX_CRC2_Init :: "'a firmware \<Rightarrow> ('a firmware, 'a) start" where
  "MX_CRC2_Init s = or_stop (Goes_On (HAL_CRC_Init 0 0 s))"

definition fdcan1_init :: FDCAN_InitTypeDef where
  "fdcan1_init = \<lparr>fd_FrameFormat = 0, fd_Mode = 0, fd_AutoRetransmission = False, fd_TransmitPause = False,
     fd_ProtocolException = False, fd_Nominal = (16, 1, 2, 2), fd_Data = (1, 1, 1, 1), fd_MessageRAMOffset = 0,
     fd_StdFiltersNbr = 0, fd_ExtFiltersNbr = 0, fd_RxFifo0 = (0, 4), fd_RxFifo1 = (0, 4), fd_RxBuffers = (0, 4),
     fd_TxEventsNbr = 0, fd_TxBuffersNbr = 0, fd_TxFifoQueueElmtsNbr = 0, fd_TxFifoQueueMode = 0, fd_TxElmtSize = 4\<rparr>"

definition MX_FDCAN1_Init :: "'a core_env \<Rightarrow> 'a firmware \<Rightarrow> ('a firmware, 'a) start" where
  "MX_FDCAN1_Init env s = or_stop (HAL_FDCAN_Init env fdcan1_init s)"

definition i2c1_init :: i2c_init where
  "i2c1_init = \<lparr>Timing = 0x10707DBC, OwnAddress1 = 0, AddressingMode = 1, DualAddressMode = 0, OwnAddress2 = 0,
     OwnAddress2Masks = 0, GeneralCallMode = 0, NoStretchMode = 0\<rparr>"

definition MX_I2C1_Init :: "'a core_env \<Rightarrow> 'a firmware \<Rightarrow> ('a firmware, 'a) start" where
  "MX_I2C1_Init env s = (
     and_then (or_stop (HAL_I2C1_Init env i2c1_init s)) (\<lambda>s.
     and_then (or_stop (Goes_On (HAL_I2CEx_ConfigAnalogFilter 0 s))) (\<lambda>s.
     or_stop (Goes_On (HAL_I2CEx_ConfigDigitalFilter 0 s)))))"

definition MX_RNG2_Init :: "'a core_env \<Rightarrow> 'a firmware \<Rightarrow> ('a firmware, 'a) start" where
  "MX_RNG2_Init env s = or_stop (HAL_RNG_Init env 0 s)"

definition spi4_init :: SPI_InitTypeDef where
  "spi4_init = \<lparr>sp_Mode = SPI_MODE_MASTER, sp_Direction = 0, sp_DataSize = SPI_DATASIZE_4BIT, sp_CLKPolarity = 0,
     sp_CLKPhase = SPI_PHASE_1EDGE, sp_NSS = SPI_NSS_HARD_OUTPUT, sp_BaudRatePrescaler = SPI_BAUDRATEPRESCALER_4, sp_FirstBit = 0,
     sp_TIMode = 0, sp_NSSPMode = SPI_NSS_PULSE_ENABLE, sp_NSSPolarity = SPI_NSS_POLARITY_LOW, sp_FifoThreshold = 0,
     sp_MasterSSIdleness = 0, sp_MasterInterDataIdleness = 0, sp_MasterReceiverAutoSusp = 0, sp_MasterKeepIOState = 0, sp_IOSwap = 0\<rparr>"

definition MX_SPI4_Init :: "'a core_env \<Rightarrow> 'a firmware \<Rightarrow> ('a firmware, 'a) start" where
  "MX_SPI4_Init env s = or_stop (HAL_SPI_Init env SPI4 spi4_init s)"

definition spi5_init :: SPI_InitTypeDef where
  "spi5_init = \<lparr>sp_Mode = SPI_MODE_MASTER, sp_Direction = 0, sp_DataSize = SPI_DATASIZE_8BIT, sp_CLKPolarity = 0,
     sp_CLKPhase = SPI_PHASE_2EDGE, sp_NSS = SPI_NSS_HARD_OUTPUT, sp_BaudRatePrescaler = SPI_BAUDRATEPRESCALER_64, sp_FirstBit = 0,
     sp_TIMode = 0, sp_NSSPMode = SPI_NSS_PULSE_ENABLE, sp_NSSPolarity = SPI_NSS_POLARITY_LOW, sp_FifoThreshold = 0,
     sp_MasterSSIdleness = 0, sp_MasterInterDataIdleness = 0, sp_MasterReceiverAutoSusp = 0, sp_MasterKeepIOState = 0, sp_IOSwap = 0\<rparr>"

definition MX_SPI5_Init :: "'a core_env \<Rightarrow> 'a firmware \<Rightarrow> ('a firmware, 'a) start" where
  "MX_SPI5_Init env s = or_stop (HAL_SPI_Init env SPI5 spi5_init s)"

definition uart4_init :: UART_InitTypeDef where
  "uart4_init = \<lparr>ua_BaudRate = 115200, ua_WordLength = 0, ua_StopBits = 0, ua_Parity = 0, ua_Mode = 0xC, ua_HwFlowCtl = 0,
     ua_OverSampling = 0, ua_OneBitSampling = 0, ua_ClockPrescaler = 0, ua_AdvFeatureInit = 0\<rparr>"

definition MX_UART4_Init :: "'a core_env \<Rightarrow> 'a firmware \<Rightarrow> ('a firmware, 'a) start" where
  "MX_UART4_Init env s = (
     and_then (or_stop (HAL_UART_Init env uart4_init s)) (\<lambda>s.
     and_then (guard_ok (HAL_UARTEx_SetTxFifoThreshold env 0) s) (\<lambda>s.
     and_then (guard_ok (HAL_UARTEx_SetRxFifoThreshold env 0) s) (\<lambda>s.
     guard_ok (HAL_UARTEx_DisableFifoMode env) s))))"

definition MX_DMA_Init :: "'a firmware \<Rightarrow> 'a firmware" where
  "MX_DMA_Init s =
     (let s = clk_enable DMA2_CLK (clk_enable DMAMUX_CLK s);
          s = set_irq DMA2_Stream0_IRQn 5 s
      in set_irq DMA2_Stream1_IRQn 5 s)"

definition MX_GPIO_Init :: "'a firmware \<Rightarrow> 'a firmware" where
  "MX_GPIO_Init s =
     (let s = fold gpio_clk [GPIOE, GPIOC, GPIOH, GPIOF, GPIOG, GPIOB, GPIOD, GPIOA] s
      in gpio_init GPIOB \<lparr>Pin = 0x1000, Mode = GPIO_MODE_AF_PP, Pull = GPIO_NOPULL, Speed = 0, Alternate = 9\<rparr> s)"

section \<open>Clocks and time base\<close>

definition osc_init :: RCC_OscInitTypeDef where
  "osc_init = \<lparr>osc_types = [CSI, HSI, LSI, HSE, LSE],
     osc_PLL2 = \<lparr>pll_source = HSE, pll_M = 3, pll_N = 66, pll_P = 2, pll_Q = 1, pll_R = 1, pll_FRACV = 5120, pll_fractional = True\<rparr>,
     osc_PLL3 = \<lparr>pll_source = HSI, pll_M = 4, pll_N = 25, pll_P = 2, pll_Q = 50, pll_R = 37, pll_FRACV = 0, pll_fractional = False\<rparr>,
     osc_PLL4 = \<lparr>pll_source = HSE, pll_M = 2, pll_N = 62, pll_P = 6, pll_Q = 9, pll_R = 8, pll_FRACV = 4096, pll_fractional = True\<rparr>\<rparr>"

definition clk_init :: RCC_ClkInitTypeDef where
  "clk_init = \<lparr>AXI_source = 2, MCU_source = 3, AXI_Div = 1, MCU_Div = 1, APB1_Div = 2, APB2_Div = 2, APB3_Div = 2,
     APB4_Div = 2, APB5_Div = 4\<rparr>"

text \<open>
  Only used in engineering mode. The access to the backup domain and the drive setting of the slow oscillator before it, and the new
  initialisation of the tick that the clock driver makes, are not part of the state.
\<close>

definition SystemClock_Config :: "'a core_env \<Rightarrow> 'a firmware \<Rightarrow> ('a firmware, 'a) start" where
  "SystemClock_Config env s = (
     and_then (guard_ok (HAL_RCC_OscConfig env osc_init) s) (\<lambda>s.
     guard_ok (HAL_RCC_ClockConfig env clk_init) s))"

definition PeriphCommonClock_Config :: "'a core_env \<Rightarrow> 'a firmware \<Rightarrow> ('a firmware, 'a) start" where
  "PeriphCommonClock_Config env s = guard_ok (HAL_RCCEx_PeriphCLKConfig env CKPER_from_HSE) s"

definition tick_prescaler :: "u32 \<Rightarrow> u32" where "tick_prescaler uwTimclock = uwTimclock div 1000000 - 1"
definition tick_period :: u32 where "tick_period = 1000000 div 1000 - 1"

definition HAL_InitTick :: "'a core_env \<Rightarrow> nat \<Rightarrow> 'a firmware \<Rightarrow> HAL_StatusTypeDef \<times> 'a firmware" where
  "HAL_InitTick env TickPriority s =
     (let s = set_irq TIM1_UP_IRQn TickPriority s;
          s = clk_enable TIM1_CLK s;
          psc = tick_prescaler (pclk2_freq env);
          s = s\<lparr>htim1 := Some (psc, tick_period)\<rparr>
      in if HAL_TIM_Base_Init env psc tick_period = HAL_OK then (HAL_TIM_Base_Start_IT env, s) else (HAL_ERROR, s))"

definition TICK_INT_PRIORITY :: nat where "TICK_INT_PRIORITY = 15"

definition NVIC_PRIORITYGROUP_4 :: u32 where "NVIC_PRIORITYGROUP_4 = 3"

text \<open>The field \<open>prigroup\<close> is the field \<^verbatim>\<open>PRIGROUP\<close> of the interrupt controller, whose registers the theory \<open>Nvic\<close> models.\<close>

definition HAL_Init :: "'a core_env \<Rightarrow> 'a firmware \<Rightarrow> HAL_StatusTypeDef \<times> 'a firmware" where
  "HAL_Init env s =
     (let s = s\<lparr>prigroup := NVIC_PRIORITYGROUP_4\<rparr>;
          s = s\<lparr>SystemCoreClock := core_clock_freq env\<rparr>
      in case HAL_InitTick env TICK_INT_PRIORITY s of
        (r, s) \<Rightarrow> if r \<noteq> HAL_OK then (HAL_ERROR, s) else (HAL_OK, HAL_MspInit s))"

section \<open>The entry point\<close>

definition create :: "rtos_object \<Rightarrow> 'a firmware \<Rightarrow> 'a firmware" where
  "create x s = s\<lparr>rtos_objects := rtos_objects s @ [x]\<rparr>"

text \<open>
  Neither the result of \<^verbatim>\<open>HAL_Init\<close> nor that of \<^verbatim>\<open>MX_OPENAMP_Init\<close> is looked at. \<open>None\<close> is a start of the communication that does not
  come back: it waits for the master without end, or jumps to a function that the slave does not have.
\<close>

definition start_communication :: "openamp_env \<Rightarrow> 'a rdev \<Rightarrow> 'a firmware \<Rightarrow> 'a firmware option" where
  "start_communication oenv rvdev s = do {
     s \<leftarrow> MX_IPCC_Init s;
     (_, s) \<leftarrow> MX_OPENAMP_Init oenv VIRTIO_DEV_SLAVE None rvdev s;
     Some s }"

definition init_peripherals :: "'a core_env \<Rightarrow> 'a firmware \<Rightarrow> ('a firmware, 'a) start" where
  "init_peripherals env s = (
     let s = MX_DMA_Init (MX_GPIO_Init s) in
     and_then (MX_SPI5_Init env s) (\<lambda>s.
     and_then (MX_RNG2_Init env s) (\<lambda>s.
     and_then (MX_I2C1_Init env s) (\<lambda>s.
     and_then (MX_UART4_Init env s) (\<lambda>s.
     and_then (MX_CRC2_Init s) (\<lambda>s.
     and_then (MX_FDCAN1_Init env s) (\<lambda>s.
     MX_SPI4_Init env s)))))))"

text \<open>
  How \<^verbatim>\<open>main\<close> ends: in the application, whose behaviour is a parameter; in \<^verbatim>\<open>Error_Handler\<close>; or not at all, because the start of
  the communication does not come back.
\<close>

datatype 'a outcome = Application "'a firmware option" | In_Error_Handler "'a firmware" | No_Return

definition run_firmware :: "'a core_env \<Rightarrow> ('a firmware, 'a) start \<Rightarrow> 'a outcome" where
  "run_firmware env x =
     (case and_then x (init_peripherals env) of
        Stopped s \<Rightarrow> In_Error_Handler s
      | Goes_On s \<Rightarrow>
          let s = create (Mutex ''esp32DataMutex'') s;
              s = create (Timer ''esp_in_update_tmr'') s;
              s = create (Timer ''esp_out_update_tmr'') s;
              s = create (Thread ''ledAlive'') s;
              s = create (Thread ''linuxComms'') s
          in Application (system_run env s))"

definition main :: "'a core_env \<Rightarrow> openamp_env \<Rightarrow> 'a rdev \<Rightarrow> 'a firmware \<Rightarrow> 'a outcome" where
  "main env oenv rvdev s =
     (let s = snd (HAL_Init env s)
      in if engineering env then run_firmware env (and_then (SystemClock_Config env s) (PeriphCommonClock_Config env))
         else case start_communication oenv rvdev s of
                None \<Rightarrow> No_Return
              | Some s \<Rightarrow> run_firmware env (Goes_On s))"

end
