(* ===== verification/Core_Start.thy ===== *)
theory Core_Start
  imports Core_Init Mcp2515
begin

text \<open>
  What the start of the firmware establishes. The functions of \<open>Core_Init\<close> are described by what they do to a view of the state (pins,
  interrupts, clocks, handles, serial buses, DMA links); the theory shows that the view commutes with every one of them, that
  starting the communication does not touch it except for its two interrupts, and from this the state in which the
  application is entered, the behaviour on failing drivers, the set-up of the serial buses and the rate of the time base.
\<close>

section \<open>The functions of main.c one by one\<close>

lemmas core_ops = gpio_init_def gpio_deinit_def gpio_clk_def clk_enable_def clk_disable_def set_irq_def set_shp_def set_state_def upd_spi_def create_def
  HAL_NVIC_SetPriority_def HAL_NVIC_EnableIRQ_def

lemma guard_ok_simps [simp]:
  "guard_ok HAL_OK s = Goes_On s" "r \<noteq> HAL_OK \<Longrightarrow> guard_ok r s = Stopped (s\<lparr>irq_off := True\<rparr>)"
  by (simp_all add: guard_ok_def Error_Handler_def)

lemma or_stop_simps [simp]: "or_stop (Stopped s) = Stopped s" "or_stop (Goes_On (r, s)) = guard_ok r s"
  by (simp_all add: or_stop_def)

definition drivers_ok :: "'a core_env \<Rightarrow> bool" where
  "drivers_ok env \<longleftrightarrow> HAL_DMA_Init env hdma_spi5_tx = HAL_OK \<and> HAL_DMA_Init env hdma_spi5_rx = HAL_OK \<and>
     UART_setup env uart4_init = HAL_OK \<and> HAL_UARTEx_SetTxFifoThreshold env 0 = HAL_OK \<and>
     HAL_UARTEx_SetRxFifoThreshold env 0 = HAL_OK \<and> HAL_UARTEx_DisableFifoMode env = HAL_OK \<and> FDCAN_setup env fdcan1_init = HAL_OK"

definition alternate :: "u32 \<Rightarrow> u32 \<Rightarrow> u32 \<Rightarrow> u32 \<Rightarrow> GPIO_InitTypeDef" where
  "alternate pins mode speed af = \<lparr>Pin = pins, Mode = mode, Pull = GPIO_NOPULL, Speed = speed, Alternate = af\<rparr>"

lemma spi5_ok:
  assumes "\<not> engineering env" "drivers_ok env" "fw_state s SPI5 = STATE_RESET"
  shows "MX_SPI5_Init env s = Goes_On (s\<lparr>b_sys := HAL_GPIO_Init GPIOF (alternate 0x3C0 GPIO_MODE_AF_PP 1 5) (b_sys s),
    b_clk := (b_clk s)(GPIOF := True), nvic_on := (nvic_on s)(85 := True), nvic_prio := (nvic_prio s)(85 := (5, 0)),
    fw_clk := (fw_clk s)(SPI5_CLK := True), fw_state := (fw_state s)(SPI5 := STATE_READY),
    spi := (spi s)(SPI5 := spi_configure spi5_init (spi s SPI5)), hdmatx := Some 1, hdmarx := Some 0\<rparr>)"
  using assms
  by (simp add: MX_SPI5_Init_def HAL_SPI_Init_def SPI_GetPacketSize_def spi_consts HAL_SPI_MspInit_def select_clock_def core_ops irq_numbers
    drivers_ok_def alternate_def GPIO_SPEED_FREQ_MEDIUM_def spi5_init_def hdma_spi5_tx_def hdma_spi5_rx_def)

lemma rng2_ok:
  assumes "\<not> engineering env" "fw_state s RNG2 = STATE_RESET"
  shows "MX_RNG2_Init env s = Goes_On (s\<lparr>fw_clk := (fw_clk s)(RNG2_CLK := True), fw_state := (fw_state s)(RNG2 := STATE_READY),
    rng2_CR := MODIFY_REG (rng2_CR s) 0x20 0 OR 4\<rparr>)"
  using assms by (simp add: MX_RNG2_Init_def HAL_RNG_Init_def HAL_RNG_MspInit_def select_clock_def core_ops)

lemma i2c1_ok:
  assumes "\<not> engineering env" "fw_state s I2C1 = STATE_RESET"
  shows "MX_I2C1_Init env s = Goes_On (s\<lparr>b_sys := HAL_GPIO_Init GPIOD (alternate 0x1000 GPIO_MODE_AF_OD 0 5)
      (HAL_GPIO_Init GPIOF (alternate 0x8000 GPIO_MODE_AF_OD 0 5) (b_sys s)),
    b_clk := (b_clk s)(GPIOF := True, GPIOD := True),
    fw_clk := (fw_clk s)(I2C1_CLK := True), fw_state := (fw_state s)(I2C1 := STATE_READY),
    i2c1 := \<lparr>I2C_CR1 = 1, I2C_CR2 = I2C_CR2 (i2c1 s) OR 0x2008000, I2C_OAR1 = 0x8000, I2C_OAR2 = 0, I2C_TIMINGR = 0x10707DBC\<rparr>\<rparr>)"
  using assms
  by (simp add: MX_I2C1_Init_def HAL_I2C1_Init_def HAL_I2C_MspInit_def select_clock_def core_ops i2c1_init_def alternate_def
      HAL_I2CEx_ConfigAnalogFilter_def HAL_I2CEx_ConfigDigitalFilter_def GPIO_SPEED_FREQ_LOW_def Let_def)

lemma uart4_ok:
  assumes "\<not> engineering env" "drivers_ok env" "fw_state s UART4 = STATE_RESET"
  shows "MX_UART4_Init env s = Goes_On (s\<lparr>b_sys := HAL_GPIO_Init GPIOB (alternate 4 GPIO_MODE_AF_PP 0 8)
      (HAL_GPIO_Init GPIOG (alternate 0x800 GPIO_MODE_AF_PP 0 6) (b_sys s)),
    b_clk := (b_clk s)(GPIOG := True, GPIOB := True),
    fw_clk := (fw_clk s)(UART4_CLK := True), fw_state := (fw_state s)(UART4 := STATE_READY)\<rparr>)"
  using assms by (simp add: MX_UART4_Init_def HAL_UART_Init_def HAL_UART_MspInit_def select_clock_def core_ops alternate_def
      GPIO_SPEED_FREQ_LOW_def drivers_ok_def)

lemma crc2_ok:
  assumes "fw_state s CRC2 = STATE_RESET"
  shows "MX_CRC2_Init s = Goes_On (s\<lparr>fw_clk := (fw_clk s)(CRC2_CLK := True), fw_state := (fw_state s)(CRC2 := STATE_READY),
    crc2 := \<lparr>CRC_POL = 0x04C11DB7, CRC_CR = CRC_CR (crc2 s) AND NOT 0xF8, CRC_INIT = 0xFFFFFFFF\<rparr>\<rparr>)"
proof -
  have "MODIFY_REG (MODIFY_REG (MODIFY_REG w 0x18 0) 0x60 0) 0x80 0 = w AND NOT 0xF8" for w
    by (simp add: MODIFY_REG_def and.assoc)
  then show ?thesis using assms by (simp add: MX_CRC2_Init_def HAL_CRC_Init_def HAL_CRC_MspInit_def core_ops Let_def)
qed

lemma fdcan1_ok:
  assumes "\<not> engineering env" "drivers_ok env" "fw_state s FDCAN1 = STATE_RESET"
  shows "MX_FDCAN1_Init env s = Goes_On (s\<lparr>b_sys := HAL_GPIO_Init GPIOA (alternate 0x1000 GPIO_MODE_AF_PP 0 9)
      (HAL_GPIO_Init GPIOA (alternate 0x800 GPIO_MODE_AF_PP 0 9) (b_sys s)),
    b_clk := (b_clk s)(GPIOA := True),
    fw_clk := (fw_clk s)(FDCAN_CLK := True), fw_state := (fw_state s)(FDCAN1 := STATE_READY)\<rparr>)"
  using assms by (simp add: MX_FDCAN1_Init_def HAL_FDCAN_Init_def HAL_FDCAN_MspInit_def select_clock_def core_ops alternate_def
      GPIO_SPEED_FREQ_LOW_def drivers_ok_def)

lemma spi4_ok:
  assumes "\<not> engineering env" "fw_state s SPI4 = STATE_RESET"
  shows "MX_SPI4_Init env s = Goes_On (s\<lparr>b_sys := HAL_GPIO_Init GPIOE (alternate 0x7800 GPIO_MODE_AF_PP 1 5) (b_sys s),
    b_clk := (b_clk s)(GPIOE := True),
    fw_clk := (fw_clk s)(SPI4_CLK := True), fw_state := (fw_state s)(SPI4 := STATE_READY),
    spi := (spi s)(SPI4 := spi_configure spi4_init (spi s SPI4))\<rparr>)"
  using assms
  by (simp add: MX_SPI4_Init_def HAL_SPI_Init_def SPI_GetPacketSize_def spi_consts HAL_SPI_MspInit_def select_clock_def core_ops
    alternate_def GPIO_SPEED_FREQ_MEDIUM_def spi4_init_def)

text \<open>What one of the functions does to the parts of the state that the result of all of them is stated in.\<close>

record core_view =
  cv_pins :: gpio_sys
  cv_on :: "nat \<Rightarrow> bool"
  cv_prio :: "nat \<Rightarrow> nat \<times> nat"
  cv_clk :: "periph_clock \<Rightarrow> bool"
  cv_state :: "periph_inst \<Rightarrow> handle_state"
  cv_spi :: "periph_inst \<Rightarrow> spi_regs"
  cv_dma :: "nat option \<times> nat option"

definition view :: "'a firmware \<Rightarrow> core_view" where
  "view s = \<lparr>cv_pins = b_sys s, cv_on = nvic_on s, cv_prio = nvic_prio s, cv_clk = fw_clk s, cv_state = fw_state s, cv_spi = spi s,
     cv_dma = (hdmatx s, hdmarx s)\<rparr>"

definition rest :: "'a firmware \<Rightarrow> 'a rdev option \<times> hsem \<times> (int \<Rightarrow> nat \<times> nat) \<times> (u32 \<times> u32) option \<times> rtos_object list" where
  "rest s = (om_dev s, b_hsem s, shp s, htim1 s, rtos_objects s)"

text \<open>The same functions on the view: pins, clock, state of the handle.\<close>

definition set_up :: "(gpio_port \<times> GPIO_InitTypeDef) list \<Rightarrow> periph_clock \<Rightarrow> periph_inst \<Rightarrow> core_view \<Rightarrow> core_view" where
  "set_up pins c p v = v\<lparr>cv_pins := fold (\<lambda>(P, cfg). HAL_GPIO_Init P cfg) pins (cv_pins v), cv_clk := (cv_clk v)(c := True),
     cv_state := (cv_state v)(p := STATE_READY)\<rparr>"

definition set_up_irq :: "nat \<Rightarrow> core_view \<Rightarrow> core_view" where
  "set_up_irq irq v = v\<lparr>cv_on := (cv_on v)(irq := True), cv_prio := (cv_prio v)(irq := (5, 0))\<rparr>"

definition set_up_spi :: "periph_inst \<Rightarrow> SPI_InitTypeDef \<Rightarrow> core_view \<Rightarrow> core_view" where
  "set_up_spi p cfg v = v\<lparr>cv_spi := (cv_spi v)(p := spi_configure cfg (cv_spi v p))\<rparr>"

definition fdcan2_pins :: "(gpio_port \<times> GPIO_InitTypeDef) list" where "fdcan2_pins = [(GPIOB, alternate 0x1000 GPIO_MODE_AF_PP 0 9)]"
definition spi5_pins :: "(gpio_port \<times> GPIO_InitTypeDef) list" where "spi5_pins = [(GPIOF, alternate 0x3C0 GPIO_MODE_AF_PP 1 5)]"
definition i2c1_pins :: "(gpio_port \<times> GPIO_InitTypeDef) list" where
  "i2c1_pins = [(GPIOF, alternate 0x8000 GPIO_MODE_AF_OD 0 5), (GPIOD, alternate 0x1000 GPIO_MODE_AF_OD 0 5)]"
definition uart4_pins :: "(gpio_port \<times> GPIO_InitTypeDef) list" where
  "uart4_pins = [(GPIOG, alternate 0x800 GPIO_MODE_AF_PP 0 6), (GPIOB, alternate 0x4 GPIO_MODE_AF_PP 0 8)]"
definition fdcan1_pins :: "(gpio_port \<times> GPIO_InitTypeDef) list" where
  "fdcan1_pins = [(GPIOA, alternate 0x800 GPIO_MODE_AF_PP 0 9), (GPIOA, alternate 0x1000 GPIO_MODE_AF_PP 0 9)]"
definition spi4_pins :: "(gpio_port \<times> GPIO_InitTypeDef) list" where "spi4_pins = [(GPIOE, alternate 0x7800 GPIO_MODE_AF_PP 1 5)]"

lemmas pin_lists = fdcan2_pins_def spi5_pins_def i2c1_pins_def uart4_pins_def fdcan1_pins_def spi4_pins_def

definition set_up_dma :: "core_view \<Rightarrow> core_view" where
  "set_up_dma v = set_up_irq 57 (set_up_irq 56 (v\<lparr>cv_pins := fold (\<lambda>(P, cfg). HAL_GPIO_Init P cfg) fdcan2_pins (cv_pins v),
     cv_clk := (cv_clk v)(DMAMUX_CLK := True, DMA2_CLK := True)\<rparr>))"

lemmas set_up_defs = set_up_def set_up_irq_def set_up_spi_def set_up_dma_def

lemma gpio_dma_step:
  "view (MX_DMA_Init (MX_GPIO_Init s)) = set_up_dma (view s)" "rest (MX_DMA_Init (MX_GPIO_Init s)) = rest s"
  by (simp_all add: MX_GPIO_Init_def MX_DMA_Init_def Let_def core_ops irq_numbers view_def rest_def alternate_def set_up_defs pin_lists)

lemma peripheral_steps:
  assumes "\<not> engineering env" "drivers_ok env"
  shows "cv_state (view s) SPI5 = STATE_RESET \<Longrightarrow> \<exists>s'. MX_SPI5_Init env s = Goes_On s' \<and> rest s' = rest s \<and>
      view s' = (set_up_spi SPI5 spi5_init (set_up_irq 85 (set_up spi5_pins SPI5_CLK SPI5 (view s))))\<lparr>cv_dma := (Some 1, Some 0)\<rparr>"
    and "cv_state (view s) RNG2 = STATE_RESET \<Longrightarrow> \<exists>s'. MX_RNG2_Init env s = Goes_On s' \<and> rest s' = rest s \<and> view s' = set_up [] RNG2_CLK RNG2 (view s)"
    and "cv_state (view s) I2C1 = STATE_RESET \<Longrightarrow> \<exists>s'. MX_I2C1_Init env s = Goes_On s' \<and> rest s' = rest s \<and> view s' = set_up i2c1_pins I2C1_CLK I2C1 (view s)"
    and "cv_state (view s) UART4 = STATE_RESET \<Longrightarrow> \<exists>s'. MX_UART4_Init env s = Goes_On s' \<and> rest s' = rest s \<and> view s' = set_up uart4_pins UART4_CLK UART4 (view s)"
    and "cv_state (view s) CRC2 = STATE_RESET \<Longrightarrow> \<exists>s'. MX_CRC2_Init s = Goes_On s' \<and> rest s' = rest s \<and> view s' = set_up [] CRC2_CLK CRC2 (view s)"
    and "cv_state (view s) FDCAN1 = STATE_RESET \<Longrightarrow> \<exists>s'. MX_FDCAN1_Init env s = Goes_On s' \<and> rest s' = rest s \<and> view s' = set_up fdcan1_pins FDCAN_CLK FDCAN1 (view s)"
    and "cv_state (view s) SPI4 = STATE_RESET \<Longrightarrow> \<exists>s'. MX_SPI4_Init env s = Goes_On s' \<and> rest s' = rest s \<and>
      view s' = set_up_spi SPI4 spi4_init (set_up spi4_pins SPI4_CLK SPI4 (view s))"
  using assms by (simp_all add: view_def rest_def spi5_ok rng2_ok i2c1_ok uart4_ok crc2_ok fdcan1_ok spi4_ok set_up_defs pin_lists)

lemma cv_state_simps [simp]:
  "cv_state (set_up ps c p v) = (cv_state v)(p := STATE_READY)" "cv_state (set_up_spi p cfg v) = cv_state v"
  "cv_state (set_up_irq irq v) = cv_state v" "cv_state (set_up_dma v) = cv_state v" "cv_state (view s) = fw_state s"
  by (simp_all add: set_up_defs view_def)

lemma init_peripherals_view:
  assumes "\<not> engineering env" "drivers_ok env" "fw_state s = (\<lambda>_. STATE_RESET)"
  shows "\<exists>s'. init_peripherals env s = Goes_On s' \<and> rest s' = rest s \<and>
    view s' = set_up_spi SPI4 spi4_init (set_up spi4_pins SPI4_CLK SPI4 (set_up fdcan1_pins FDCAN_CLK FDCAN1 (set_up [] CRC2_CLK CRC2
      (set_up uart4_pins UART4_CLK UART4 (set_up i2c1_pins I2C1_CLK I2C1 (set_up [] RNG2_CLK RNG2
      ((set_up_spi SPI5 spi5_init (set_up_irq 85 (set_up spi5_pins SPI5_CLK SPI5 (set_up_dma (view s)))))\<lparr>cv_dma := (Some 1, Some 0)\<rparr>)))))))"
proof -
  note step = peripheral_steps[OF assms(1,2)] and f = assms(3) gpio_dma_step
  have fw: "fw_state t = cv_state (view t)" for t :: "'a firmware" by (simp add: view_def)
  obtain s1 where 1: "MX_SPI5_Init env (MX_DMA_Init (MX_GPIO_Init s)) = Goes_On s1" "rest s1 = rest s"
      "view s1 = (set_up_spi SPI5 spi5_init (set_up_irq 85 (set_up spi5_pins SPI5_CLK SPI5 (set_up_dma (view s)))))\<lparr>cv_dma := (Some 1, Some 0)\<rparr>"
    using step(1)[of "MX_DMA_Init (MX_GPIO_Init s)"] f unfolding gpio_dma_step by auto
  obtain s2 where 2: "MX_RNG2_Init env s1 = Goes_On s2" "rest s2 = rest s1" "view s2 = set_up [] RNG2_CLK RNG2 (view s1)"
    using step(2)[of s1] 1(3) f by auto
  obtain s3 where 3: "MX_I2C1_Init env s2 = Goes_On s3" "rest s3 = rest s2" "view s3 = set_up i2c1_pins I2C1_CLK I2C1 (view s2)"
    using step(3)[of s2] 1(3) 2(3) f by auto
  obtain s4 where 4: "MX_UART4_Init env s3 = Goes_On s4" "rest s4 = rest s3" "view s4 = set_up uart4_pins UART4_CLK UART4 (view s3)"
    using step(4)[of s3] 1(3) 2(3) 3(3) f by auto
  obtain s5 where 5: "MX_CRC2_Init s4 = Goes_On s5" "rest s5 = rest s4" "view s5 = set_up [] CRC2_CLK CRC2 (view s4)"
    using step(5)[of s4] 1(3) 2(3) 3(3) 4(3) f by auto
  obtain s6 where 6: "MX_FDCAN1_Init env s5 = Goes_On s6" "rest s6 = rest s5" "view s6 = set_up fdcan1_pins FDCAN_CLK FDCAN1 (view s5)"
    using step(6)[of s5] 1(3) 2(3) 3(3) 4(3) 5(3) f by auto
  obtain s7 where 7: "MX_SPI4_Init env s6 = Goes_On s7" "rest s7 = rest s6" "view s7 = set_up_spi SPI4 spi4_init (set_up spi4_pins SPI4_CLK SPI4 (view s6))"
    using step(7)[of s6] 1(3) 2(3) 3(3) 4(3) 5(3) 6(3) f by auto
  show ?thesis using 1 2 3 4 5 6 7 by (simp add: init_peripherals_def Let_def)
qed

section \<open>What starting the communication leaves alone\<close>

definition outside :: "('a, 'z) openamp_scheme \<Rightarrow> gpio_sys \<times> (nat \<Rightarrow> bool) \<times> (nat \<Rightarrow> nat \<times> nat) \<times> hsem \<times> 'z" where
  "outside s = (b_sys s, nvic_on s, nvic_prio s, b_hsem s, openamp.more s)"

lemma outside_simps [simp]:
  "outside (s\<lparr>om_metal := v1\<rparr>) = outside s" "outside (s\<lparr>om_shm_io := v2\<rparr>) = outside s" "outside (s\<lparr>om_vqs := v3\<rparr>) = outside s"
  "outside (s\<lparr>om_rings := v4\<rparr>) = outside s" "outside (s\<lparr>om_vdev := v5\<rparr>) = outside s" "outside (s\<lparr>om_rvq := v6\<rparr>) = outside s"
  "outside (s\<lparr>om_svq := v7\<rparr>) = outside s" "outside (s\<lparr>om_dev := v8\<rparr>) = outside s" "outside (s\<lparr>ip_MR := v9\<rparr>) = outside s"
  "outside (s\<lparr>callbackRequest := v10\<rparr>) = outside s" "outside (s\<lparr>ChannelCallbackRx := v11\<rparr>) = outside s"
  by (simp_all add: outside_def)

lemma create_virtqueues_outside:
  fixes s :: "('a, 'z) openamp_scheme"
  shows "outside (snd (virtio_create_virtqueues n s)) = outside s"
proof -
  have one: "outside (create_virtqueue_at i t) = outside t" for i and t :: "('a, 'z) openamp_scheme"
    by (simp add: create_virtqueue_at_def Let_def split: prod.split)
  have "outside (fold create_virtqueue_at ks t) = outside t" for ks and t :: "('a, 'z) openamp_scheme"
    by (induction ks arbitrary: t) (simp_all add: one)
  then show ?thesis by (simp add: virtio_create_virtqueues_def)
qed

lemma init_vdev_outside: "rpmsg_init_vdev st k bnd d s = Some (r, s') \<Longrightarrow> outside s' = outside s"
  unfolding rpmsg_init_vdev_def Let_def
  by (auto split: option.splits prod.splits if_splits
      dest!: arg_cong[where f = "\<lambda>x. outside (snd x)"] simp: create_virtqueues_outside)

lemma shmem_init_outside: "OPENAMP_shmem_init a b s = (r, s') \<Longrightarrow> outside s' = outside s"
  unfolding OPENAMP_shmem_init_def Let_def by (auto split: option.splits prod.splits if_splits)

lemma create_vdev_outside: "rproc_virtio_create_vdev al j ro n s = (v, f, s') \<Longrightarrow> outside s' = outside s"
  unfolding rproc_virtio_create_vdev_def Let_def by (auto split: prod.splits bool.splits if_splits)

lemma mailbox_init_outside: "MAILBOX_Init s = Some (r, s') \<Longrightarrow> outside s' = outside (s :: ('a, 'z) openamp_scheme)"
proof -
  have a: "outside t' = outside t" if "HAL_IPCC_ActivateNotification h c IPCC_CHANNEL_DIR_RX cb t = Some (x, t')"
    for h c cb x and t t' :: "('a, 'z) openamp_scheme"
    using that by (auto simp: HAL_IPCC_ActivateNotification_def Let_def set_callback_def IPCC_UnmaskInterrupt_def split: if_splits option.splits)
  assume "MAILBOX_Init s = Some (r, s')"
  then show ?thesis by (auto simp: MAILBOX_Init_def a split: option.splits if_splits prod.splits dest!: a)
qed

lemma openamp_init_outside: "MX_OPENAMP_Init env role bnd rvdev s = Some (r, s') \<Longrightarrow> outside s' = outside s"
  unfolding MX_OPENAMP_Init_def Let_def
  by (auto split: option.splits prod.splits if_splits
      dest!: mailbox_init_outside init_vdev_outside shmem_init_outside create_vdev_outside)

lemma ipcc_init_outside:
  assumes "MX_IPCC_Init s = Some s'" "ip_State s = HAL_IPCC_STATE_RESET"
  shows "nvic_on s' = (nvic_on s)(103 := True, 104 := True)" "nvic_prio s' = (nvic_prio s)(103 := (5, 0), 104 := (5, 0))"
    "b_sys s' = b_sys s" "b_hsem s' = b_hsem s" "openamp.more s' = openamp.more (s :: ('a, 'z) openamp_scheme)"
  using assms by (auto simp: MX_IPCC_Init_def HAL_IPCC_Init_def Let_def IPCC_SetDefaultCallbacks_def IPCC_CHANNEL_NUMBER_def
      IPCC_Reset_Register_def write_SCR_def HAL_IPCC_MspInit_def HAL_NVIC_SetPriority_def HAL_NVIC_EnableIRQ_def upt_rec irq_numbers)

section \<open>Pins\<close>

definition af_pin :: "u32 \<Rightarrow> u32 \<Rightarrow> u32 \<Rightarrow> pin_cfg" where
  "af_pin otype speed af = \<lparr>p_mode = 2, p_otype = otype, p_speed = speed, p_pull = 0, p_alternate = af\<rparr>"

definition board_pins :: "((gpio_port \<times> nat) \<times> pin_cfg) list" where
  "board_pins =
     [((GPIOA, 11), af_pin 0 0 9), ((GPIOA, 12), af_pin 0 0 9), ((GPIOB, 2), af_pin 0 0 8), ((GPIOB, 12), af_pin 0 0 9),
      ((GPIOD, 12), af_pin 1 0 5), ((GPIOE, 11), af_pin 0 1 5), ((GPIOE, 12), af_pin 0 1 5), ((GPIOE, 13), af_pin 0 1 5),
      ((GPIOE, 14), af_pin 0 1 5), ((GPIOF, 6), af_pin 0 1 5), ((GPIOF, 7), af_pin 0 1 5), ((GPIOF, 8), af_pin 0 1 5),
      ((GPIOF, 9), af_pin 0 1 5), ((GPIOF, 15), af_pin 1 0 5), ((GPIOG, 11), af_pin 0 0 6)]"

lemma init_pin_view:
  assumes "init_in_range cfg" "q < 16"
  shows "pin_of (gpio (HAL_GPIO_Init P cfg g) port) q =
    (if port = P \<and> bit (Pin cfg) q then configure_pin cfg (pin_of (gpio g port) q) else pin_of (gpio g port) q)"
  using per_position_loop.loop_view[OF init_pins[OF assms(1)] assms(2)]
  by (cases "port = P") (simp_all add: HAL_GPIO_Init_def GPIO_NUMBER_def init_frame)

definition all_pins :: "(gpio_port \<times> GPIO_InitTypeDef) list" where
  "all_pins = fdcan2_pins @ spi5_pins @ i2c1_pins @ uart4_pins @ fdcan1_pins @ spi4_pins"

lemma alternate_pin:
  assumes "mode = GPIO_MODE_AF_PP \<or> mode = GPIO_MODE_AF_OD"
  shows "configure_pin (alternate pins mode speed af) x = af_pin (if mode = GPIO_MODE_AF_OD then 1 else 0) speed af"
  using assms by (auto simp: configure_pin_def alternate_def af_pin_def is_alternate_def is_driven_def gpio_const_defs)

lemma pin_bits:
  "bit (4 :: int) q \<longleftrightarrow> q = 2" "bit (0x800 :: int) q \<longleftrightarrow> q = 11" "bit (0x1000 :: int) q \<longleftrightarrow> q = 12" "bit (0x8000 :: int) q \<longleftrightarrow> q = 15"
  "bit (0x3C0 :: int) q \<longleftrightarrow> q = 6 \<or> q = 7 \<or> q = 8 \<or> q = 9" "bit (0x7800 :: int) q \<longleftrightarrow> q = 11 \<or> q = 12 \<or> q = 13 \<or> q = 14"
proof -
  show "bit (4 :: int) q \<longleftrightarrow> q = 2" "bit (0x800 :: int) q \<longleftrightarrow> q = 11" "bit (0x1000 :: int) q \<longleftrightarrow> q = 12" "bit (0x8000 :: int) q \<longleftrightarrow> q = 15"
    using bit_exp_iff[of 2 q, where 'a = int] bit_exp_iff[of 11 q, where 'a = int] bit_exp_iff[of 12 q, where 'a = int]
      bit_exp_iff[of 15 q, where 'a = int] by auto
  have "(0x3C0 :: int) = push_bit 6 (mask 4)" "(0x7800 :: int) = push_bit 11 (mask 4)" by (simp_all add: push_bit_eq_mult mask_eq_exp_minus_1)
  then show "bit (0x3C0 :: int) q \<longleftrightarrow> q = 6 \<or> q = 7 \<or> q = 8 \<or> q = 9" "bit (0x7800 :: int) q \<longleftrightarrow> q = 11 \<or> q = 12 \<or> q = 13 \<or> q = 14"
    by (auto simp only: bit_push_bit_iff_int bit_mask_iff possible_bit_int)
qed

lemma board_pins_view:
  assumes "q < 16"
  shows "pin_of (gpio (fold (\<lambda>(P, c). HAL_GPIO_Init P c) all_pins g) P) q =
    (case map_of board_pins (P, q) of Some c \<Rightarrow> c | None \<Rightarrow> pin_of (gpio g P) q)"
proof -
  have r: "init_in_range (alternate pins mode 0 5)" "init_in_range (alternate pins mode 0 6)" "init_in_range (alternate pins mode 0 8)"
    "init_in_range (alternate pins mode 0 9)" "init_in_range (alternate pins mode 1 5)" for pins mode
    by (simp_all add: init_in_range_def alternate_def GPIO_NOPULL_def)
  have p: "Pin (alternate pins mode sp af) = pins" for pins mode sp af by (simp add: alternate_def)
  have m: "GPIO_MODE_AF_PP \<noteq> GPIO_MODE_AF_OD" by (simp add: gpio_const_defs)
  show ?thesis
    by (cases P) (simp_all add: all_pins_def pin_lists init_pin_view[OF r(1) assms] init_pin_view[OF r(2) assms] init_pin_view[OF r(3) assms]
        init_pin_view[OF r(4) assms] init_pin_view[OF r(5) assms] p pin_bits less_trans[OF assms, of 32] alternate_pin m board_pins_def)
qed

section \<open>Starting\<close>

definition tick_ok :: "'a core_env \<Rightarrow> bool" where
  "tick_ok env \<longleftrightarrow> HAL_TIM_Base_Init env (tick_prescaler (pclk2_freq env)) tick_period = HAL_OK \<and> HAL_TIM_Base_Start_IT env = HAL_OK"

lemma hal_init_view:
  assumes "tick_ok env"
  shows "fst (HAL_Init env s) = HAL_OK"
    "view (snd (HAL_Init env s)) = (view s)\<lparr>cv_on := (nvic_on s)(25 := True, 145 := True),
       cv_prio := (nvic_prio s)(25 := (15, 0), 145 := (0, 0)), cv_clk := (fw_clk s)(TIM1_CLK := True, HSEM_CLK := True)\<rparr>"
    "rtos_objects (snd (HAL_Init env s)) = rtos_objects s" "b_hsem (snd (HAL_Init env s)) = b_hsem s"
    "ip_State (snd (HAL_Init env s)) = ip_State s" "fw_state (snd (HAL_Init env s)) = fw_state s"
  using assms by (simp_all add: HAL_Init_def HAL_InitTick_def HAL_MspInit_def tick_ok_def core_ops irq_numbers view_def Let_def TICK_INT_PRIORITY_def)

lemma outside_view:
  assumes "outside s' = outside (s :: 'a firmware)"
  shows "view s' = view s" "rtos_objects s' = rtos_objects s" "fw_state s' = fw_state s"
  using assms by (cases s; cases s'; simp add: outside_def view_def)+

lemma communication_view:
  assumes "start_communication oenv rvdev s = Some s1" "ip_State s = HAL_IPCC_STATE_RESET"
  shows "view s1 = (view s)\<lparr>cv_on := (nvic_on s)(103 := True, 104 := True), cv_prio := (nvic_prio s)(103 := (5, 0), 104 := (5, 0))\<rparr>"
    "rtos_objects s1 = rtos_objects s" "fw_state s1 = fw_state s"
proof -
  obtain s0 r where i: "MX_IPCC_Init s = Some s0" and o: "MX_OPENAMP_Init oenv VIRTIO_DEV_SLAVE None rvdev s0 = Some (r, s1)"
    using assms(1) by (auto simp: start_communication_def bind_eq_Some_conv)
  note f = ipcc_init_outside[OF i assms(2)] and v = outside_view[OF openamp_init_outside[OF o]]
  have m: "view s0 = (view s)\<lparr>cv_on := (nvic_on s)(103 := True, 104 := True), cv_prio := (nvic_prio s)(103 := (5, 0), 104 := (5, 0))\<rparr>"
    "rtos_objects s0 = rtos_objects s" "fw_state s0 = fw_state s"
    using f by (cases s; cases s0; simp add: view_def)+
  show "view s1 = (view s)\<lparr>cv_on := (nvic_on s)(103 := True, 104 := True), cv_prio := (nvic_prio s)(103 := (5, 0), 104 := (5, 0))\<rparr>"
    "rtos_objects s1 = rtos_objects s" "fw_state s1 = fw_state s"
    using m v by simp_all
qed

lemma view_create [simp]: "view (create x s) = view s" "om_dev (create x s) = om_dev s" "rtos_objects (create x s) = rtos_objects s @ [x]"
  by (simp_all add: view_def create_def)



text \<open>The mailbox always initialises, so a communication that does not start is one whose wait for the master does not end.\<close>

lemma communication_none:
  "start_communication oenv rvdev s = None \<longleftrightarrow>
     (\<exists>s0. MX_IPCC_Init s = Some s0 \<and> MX_OPENAMP_Init oenv VIRTIO_DEV_SLAVE None rvdev s0 = None)"
proof -
  obtain s0 where "MX_IPCC_Init s = Some s0" by (auto simp: MX_IPCC_Init_def HAL_IPCC_Init_def Let_def)
  then show ?thesis
    by (cases "MX_OPENAMP_Init oenv VIRTIO_DEV_SLAVE None rvdev s0") (auto simp: start_communication_def)
qed




text \<open>
  Until the application is entered nothing is created: a step of the start leaves the objects of the kernel as they are, and if it stops
  the processor, the interrupts are off.
\<close>

definition no_objects :: "rtos_object list \<Rightarrow> ('v \<Rightarrow> 'a firmware) \<Rightarrow> ('v, 'a) start \<Rightarrow> bool" where
  "no_objects os get x \<longleftrightarrow>
     (case x of Goes_On v \<Rightarrow> rtos_objects (get v) = os | Stopped s \<Rightarrow> irq_off s \<and> rtos_objects s = os)"

lemma no_objects_simps [simp]:
  "no_objects os get (Goes_On v) \<longleftrightarrow> rtos_objects (get v) = os"
  "no_objects os get (Stopped s) \<longleftrightarrow> irq_off s \<and> rtos_objects s = os"
  "no_objects os (\<lambda>s. s) (guard_ok r s) \<longleftrightarrow> rtos_objects s = os"
  by (simp_all add: no_objects_def guard_ok_def Error_Handler_def)








lemma main_result:
  assumes "\<not> engineering env" and "drivers_ok env" and "tick_ok env" and "fw_state s = (\<lambda>_. STATE_RESET)"
    and "ip_State s = HAL_IPCC_STATE_RESET" and "start_communication oenv rvdev (snd (HAL_Init env s)) = Some s1"
  shows "\<exists>s'. main env oenv rvdev s = Application (system_run env s') \<and> om_dev s' = om_dev s1 \<and>
    (\<forall>P q. q < 16 \<longrightarrow> pin_of (gpio (b_sys s') P) q =
       (case map_of board_pins (P, q) of Some c \<Rightarrow> c | None \<Rightarrow> pin_of (gpio (b_sys s) P) q)) \<and>
    (\<forall>c. fw_clk s' c) \<and> (\<forall>p. fw_state s' p = STATE_READY) \<and>
    (\<forall>i. nvic_on s' i \<longleftrightarrow> nvic_on s i \<or> i \<in> {TIM1_UP_IRQn, DMA2_Stream0_IRQn, DMA2_Stream1_IRQn, SPI5_IRQn, IPCC_RX1_IRQn, IPCC_TX1_IRQn, RCC_WAKEUP_IRQn}) \<and>
    nvic_prio s' = (nvic_prio s)(TIM1_UP_IRQn := (15, 0), RCC_WAKEUP_IRQn := (0, 0), IPCC_RX1_IRQn := (5, 0), IPCC_TX1_IRQn := (5, 0),
      DMA2_Stream0_IRQn := (5, 0), DMA2_Stream1_IRQn := (5, 0), SPI5_IRQn := (5, 0)) \<and>
    hdmatx s' = Some 1 \<and> hdmarx s' = Some 0 \<and>
    rtos_objects s' = rtos_objects s @ [Mutex ''esp32DataMutex'', Timer ''esp_in_update_tmr'', Timer ''esp_out_update_tmr'',
      Thread ''ledAlive'', Thread ''linuxComms'']"
proof -
  note h = hal_init_view[OF assms(3), of s] and c = communication_view[OF assms(6)]
  have st: "fw_state s1 = (\<lambda>_. STATE_RESET)" "ip_State (snd (HAL_Init env s)) = HAL_IPCC_STATE_RESET" using c h assms(4,5) by simp_all
  obtain s2 where 2: "init_peripherals env s1 = Goes_On s2" "rest s2 = rest s1"
    "view s2 = set_up_spi SPI4 spi4_init (set_up spi4_pins SPI4_CLK SPI4 (set_up fdcan1_pins FDCAN_CLK FDCAN1 (set_up [] CRC2_CLK CRC2
      (set_up uart4_pins UART4_CLK UART4 (set_up i2c1_pins I2C1_CLK I2C1 (set_up [] RNG2_CLK RNG2
      ((set_up_spi SPI5 spi5_init (set_up_irq 85 (set_up spi5_pins SPI5_CLK SPI5 (set_up_dma (view s1)))))\<lparr>cv_dma := (Some 1, Some 0)\<rparr>)))))))"
    using init_peripherals_view[OF assms(1,2) st(1)] by blast
  define s3 where "s3 = create (Thread ''linuxComms'') (create (Thread ''ledAlive'') (create (Timer ''esp_out_update_tmr'')
    (create (Timer ''esp_in_update_tmr'') (create (Mutex ''esp32DataMutex'') s2))))"
  have m: "main env oenv rvdev s = Application (system_run env s3)"
    using assms(1,6) 2(1) by (simp add: main_def run_firmware_def Let_def s3_def)
  have v: "view s3 = view s2" "om_dev s3 = om_dev s2" by (simp_all add: s3_def)
  have v1: "view s1 = (view s)\<lparr>cv_on := (nvic_on s)(25 := True, 145 := True, 103 := True, 104 := True),
      cv_prio := (nvic_prio s)(25 := (15, 0), 145 := (0, 0), 103 := (5, 0), 104 := (5, 0)),
      cv_clk := (fw_clk s)(TIM1_CLK := True, HSEM_CLK := True)\<rparr>"
  proof -
    have "nvic_on (snd (HAL_Init env s)) = cv_on (view (snd (HAL_Init env s)))" "nvic_prio (snd (HAL_Init env s)) = cv_prio (view (snd (HAL_Init env s)))"
      by (simp_all add: view_def)
    then show ?thesis using c(1)[OF st(2)] h(2) by simp
  qed
  have pins: "cv_pins (view s3) = fold (\<lambda>(P, c). HAL_GPIO_Init P c) all_pins (b_sys s)"
    unfolding v 2 v1 by (simp add: set_up_defs all_pins_def) (simp add: view_def)
  have "cv_clk (view s3) c" for c unfolding v 2 v1 by (cases c) (simp_all add: set_up_defs)
  moreover have "cv_state (view s3) p = STATE_READY" for p unfolding v 2 by (cases p) (simp_all del: cv_state_simps(5))
  moreover have "cv_on (view s3) = (nvic_on s)(25 := True, 145 := True, 103 := True, 104 := True, 56 := True, 57 := True, 85 := True)"
    "cv_prio (view s3) = (nvic_prio s)(25 := (15, 0), 145 := (0, 0), 103 := (5, 0), 104 := (5, 0), 56 := (5, 0), 57 := (5, 0), 85 := (5, 0))"
    "cv_dma (view s3) = (Some 1, Some 0)"
    unfolding v 2 v1 by (simp_all add: set_up_defs)
  moreover have "om_dev s3 = om_dev s1" "rtos_objects s3 = rtos_objects s @ [Mutex ''esp32DataMutex'', Timer ''esp_in_update_tmr'', Timer ''esp_out_update_tmr'',
      Thread ''ledAlive'', Thread ''linuxComms'']"
    using 2(2) c(2)[OF st(2)] h(3) by (simp_all add: rest_def s3_def)
  ultimately show ?thesis using m pins board_pins_view[where g = "b_sys s"]
    by (intro exI[of _ s3]) (auto simp: view_def irq_numbers)
qed

text \<open>
  C20: the firmware comes up. In production mode, with handles in their reset state, drivers that succeed and the communication
  started, \<^verbatim>\<open>main\<close> reaches the application with every peripheral ready and clocked; every pin of the board table has exactly its
  mode, output type, speed, pull and alternate function, and no other pin of any port has changed; exactly the seven interrupts of
  the firmware have been enabled, at their priorities; the two DMA streams are linked; and the mutex, the timers and the threads
  are created in the order of the source.
\<close>

theorem main_starts:
  assumes "\<not> engineering env" and "drivers_ok env" and "tick_ok env" and "fw_state s = (\<lambda>_. STATE_RESET)"
    and "ip_State s = HAL_IPCC_STATE_RESET" and "start_communication oenv rvdev (snd (HAL_Init env s)) = Some s1"
  shows "\<exists>s'. main env oenv rvdev s = Application (system_run env s') \<and> om_dev s' = om_dev s1 \<and>
    (\<forall>P q. q < 16 \<longrightarrow> pin_of (gpio (b_sys s') P) q =
       (case map_of board_pins (P, q) of Some c \<Rightarrow> c | None \<Rightarrow> pin_of (gpio (b_sys s) P) q)) \<and>
    (\<forall>c. fw_clk s' c) \<and> (\<forall>p. fw_state s' p = STATE_READY) \<and>
    (\<forall>i. nvic_on s' i \<longleftrightarrow> nvic_on s i \<or> i \<in> {TIM1_UP_IRQn, DMA2_Stream0_IRQn, DMA2_Stream1_IRQn, SPI5_IRQn, IPCC_RX1_IRQn, IPCC_TX1_IRQn, RCC_WAKEUP_IRQn}) \<and>
    nvic_prio s' = (nvic_prio s)(TIM1_UP_IRQn := (15, 0), RCC_WAKEUP_IRQn := (0, 0), IPCC_RX1_IRQn := (5, 0), IPCC_TX1_IRQn := (5, 0),
      DMA2_Stream0_IRQn := (5, 0), DMA2_Stream1_IRQn := (5, 0), SPI5_IRQn := (5, 0)) \<and>
    hdmatx s' = Some 1 \<and> hdmarx s' = Some 0 \<and>
    rtos_objects s' = rtos_objects s @ [Mutex ''esp32DataMutex'', Timer ''esp_in_update_tmr'', Timer ''esp_out_update_tmr'',
      Thread ''ledAlive'', Thread ''linuxComms'']"
  using main_result[OF assms] .


definition demo_core_env :: "unit core_env" where
  "demo_core_env = \<lparr>engineering = False, pclk2_freq = 104500000, core_clock_freq = 209000000, HAL_TIM_Base_Init = \<lambda>_ _. HAL_OK, HAL_TIM_Base_Start_IT = HAL_OK,
     HAL_RCC_OscConfig = \<lambda>_. HAL_OK, HAL_RCC_ClockConfig = \<lambda>_. HAL_OK, HAL_RCCEx_PeriphCLKConfig = \<lambda>_. HAL_OK, HAL_DMA_Init = \<lambda>_. HAL_OK,
     UART_setup = \<lambda>_. HAL_OK, HAL_UARTEx_SetTxFifoThreshold = \<lambda>_. HAL_OK, HAL_UARTEx_SetRxFifoThreshold = \<lambda>_. HAL_OK,
     HAL_UARTEx_DisableFifoMode = HAL_OK, FDCAN_setup = \<lambda>_. HAL_OK, system_run = Some\<rparr>"

definition demo_fw :: "unit firmware" where
  "demo_fw = openamp.extend (demo_om (\<lambda>_. demo_vring)) (firmware.fields (\<lambda>_. False) (\<lambda>_. (0, 0)) (\<lambda>_. STATE_RESET)
     (\<lambda>_. \<lparr>SPI_CR1 = 0, SPI_CFG1 = 0x70007, SPI_CFG2 = 0, SPI_I2SCFGR = 0\<rparr>) \<lparr>I2C_CR1 = 0, I2C_CR2 = 0, I2C_OAR1 = 0, I2C_OAR2 = 0, I2C_TIMINGR = 0\<rparr>
     \<lparr>CRC_POL = 0, CRC_CR = 0, CRC_INIT = 0\<rparr> 0 None None None [] 0 0 False)"

lemma demo_fw_simps [simp]:
  "om_rsc demo_fw = rsc_granted 1 0x10040000 0x10041000" "msg_received_ch1 demo_fw = MBOX_NO_MSG" "msg_received_ch2 demo_fw = MBOX_NO_MSG"
  "fw_state demo_fw = (\<lambda>_. STATE_RESET)" "ip_State demo_fw = HAL_IPCC_STATE_RESET" "nvic_on demo_fw = (\<lambda>_. False)" "rtos_objects demo_fw = []"
  by (simp_all add: demo_fw_def firmware.defs demo_om_def openamp.defs mbox.defs blank_mbox_def ipcc_board.defs board.defs blank_board_def MBOX_NO_MSG_def)

lemma demo_communication:
  assumes "om_rsc s = rsc_granted 1 0x10040000 0x10041000" "msg_received_ch1 s = MBOX_NO_MSG" "msg_received_ch2 s = MBOX_NO_MSG"
  shows "\<exists>s1. start_communication demo_env demo_rvdev s = Some s1"
proof -
  obtain s0 where i: "MX_IPCC_Init s = Some s0" by (auto simp: MX_IPCC_Init_def HAL_IPCC_Init_def Let_def)
  obtain mr rx s1 where m: "MAILBOX_Init s0 = Some (0, s1)" "mbox_ready s1" "s1 = s0\<lparr>ip_MR := mr, callbackRequest := 3, ChannelCallbackRx := rx\<rparr>"
    using mailbox_init_ready[OF i assms(2,3)] by blast
  have rsc: "om_rsc s1 = rsc_granted 1 0x10040000 0x10041000" using m(3) mx_ipcc_frame(1)[OF i] assms(1) by simp
  have w: "status_wait (status_at demo_env) 0 = Some (Suc 3)"
    using status_wait_first[of "status_at demo_env" 0 3] by (simp add: demo_env_def VIRTIO_CONFIG_STATUS_DRIVER_OK_def)
  have w2: "rpmsg_virtio_wait_remote_ready (status_at demo_env) (Suc 3) = Some (Suc (Suc 3))"
    by (subst rpmsg_virtio_wait_remote_ready.simps)
      (simp add: demo_env_def VIRTIO_CONFIG_STATUS_DRIVER_OK_def VIRTIO_CONFIG_STATUS_NEEDS_RESET_def)
  show ?thesis using init_result[OF m(1,2) rsc demo_env_alloc w w2, of None demo_rvdev] i
    by (auto simp: start_communication_def)
qed

lemma demo_ok: "\<not> engineering demo_core_env" "drivers_ok demo_core_env" "tick_ok demo_core_env"
  by (simp_all add: demo_core_env_def drivers_ok_def tick_ok_def)

lemma demo_starts: "\<exists>s1. start_communication demo_env demo_rvdev (snd (HAL_Init demo_core_env demo_fw)) = Some s1"
proof -
  have "om_rsc (snd (HAL_Init demo_core_env demo_fw)) = om_rsc demo_fw" "msg_received_ch1 (snd (HAL_Init demo_core_env demo_fw)) = msg_received_ch1 demo_fw"
    "msg_received_ch2 (snd (HAL_Init demo_core_env demo_fw)) = msg_received_ch2 demo_fw"
    by (simp_all add: HAL_Init_def HAL_InitTick_def HAL_MspInit_def core_ops Let_def)
  then show ?thesis using demo_communication[of "snd (HAL_Init demo_core_env demo_fw)"] by auto
qed

theorem main_starts_witness:
  "\<exists>s'. main demo_core_env demo_env demo_rvdev demo_fw = Application (Some s') \<and> fw_clk s' SPI4_CLK \<and> nvic_on s' IPCC_RX1_IRQn \<and> \<not> nvic_on s' 6 \<and>
     pin_of (gpio (b_sys s') GPIOF) 15 = \<lparr>p_mode = 2, p_otype = 1, p_speed = 0, p_pull = 0, p_alternate = 5\<rparr>"
proof -
  obtain s1 where "start_communication demo_env demo_rvdev (snd (HAL_Init demo_core_env demo_fw)) = Some s1" using demo_starts by blast
  from main_starts[OF demo_ok _ _ this]
  obtain s' where "main demo_core_env demo_env demo_rvdev demo_fw = Application (system_run demo_core_env s')" "\<forall>c. fw_clk s' c"
    "\<forall>P q. q < 16 \<longrightarrow> pin_of (gpio (b_sys s') P) q =
       (case map_of board_pins (P, q) of Some c \<Rightarrow> c | None \<Rightarrow> pin_of (gpio (b_sys demo_fw) P) q)"
    "\<forall>i. nvic_on s' i \<longleftrightarrow> nvic_on demo_fw i \<or> i \<in> {TIM1_UP_IRQn, DMA2_Stream0_IRQn, DMA2_Stream1_IRQn, SPI5_IRQn, IPCC_RX1_IRQn, IPCC_TX1_IRQn, RCC_WAKEUP_IRQn}"
    by auto
  moreover have "system_run demo_core_env = Some" by (simp add: demo_core_env_def)
  ultimately show ?thesis by (auto simp: board_pins_def af_pin_def irq_numbers)
qed


section \<open>The serial buses\<close>

text \<open>
  The peripheral shifts out \<open>DSIZE + 1\<close> bits of each datum, so a byte goes out whole only if this is at least 8.
\<close>

definition spi_frame :: "spi_regs \<Rightarrow> u8 \<Rightarrow> u8" where
  "spi_frame r b = take_bit (unat (take_bit 5 (SPI_CFG1 r)) + 1) b"

text \<open>
  C37: the two serial buses after their initialisation, from any earlier contents of the registers. Both are masters with the
  select line driven by the hardware and pulsed between data, and disabled until a transfer starts. SPI5 sends whole bytes. SPI4, the bus of the CAN
  controller, is set to data of four bits: of every byte only the lower half goes out, and the reset instruction of the
  MCP2515 driver becomes 0.
\<close>

theorem spi_frames:
  assumes "\<not> engineering env" and "drivers_ok env" and "fw_state s SPI4 = STATE_RESET" and "fw_state s SPI5 = STATE_RESET"
  shows "(\<exists>s'. MX_SPI4_Init env s = Goes_On s' \<and> spi_frame (spi s' SPI4) b = take_bit 4 b \<and> spi_frame (spi s' SPI4) MCP2515_RESET = 0 \<and>
      SPI_CFG2 (spi s' SPI4) = 0x60400000 \<and> \<not> bit (SPI_CR1 (spi s' SPI4)) 0) \<and>
    (\<exists>s'. MX_SPI5_Init env s = Goes_On s' \<and> spi_frame (spi s' SPI5) b = b \<and> SPI_CFG2 (spi s' SPI5) = 0x61400000 \<and> \<not> bit (SPI_CR1 (spi s' SPI5)) 0)"
proof -
  have d: "take_bit 5 (0x10000000 OR (w AND 0x1F0000) OR 3) = (3 :: u32)" "take_bit 5 (0x50000000 OR (w AND 0x1F0000) OR 7) = (7 :: u32)" for w
    by (simp_all add: take_bit_or take_bit_and)
  have e: "SPI_CFG1 (spi_configure spi4_init r) = 0x10000000 OR (SPI_CFG1 r AND 0x1F0000) OR 3"
    "SPI_CFG1 (spi_configure spi5_init r) = 0x50000000 OR (SPI_CFG1 r AND 0x1F0000) OR 7"
    "SPI_CFG2 (spi_configure spi4_init r) = 0x60400000" "SPI_CFG2 (spi_configure spi5_init r) = 0x61400000"
    "SPI_CR1 (spi_configure spi4_init r) = (SPI_CR1 r AND NOT 1) AND NOT 0x100" "SPI_CR1 (spi_configure spi5_init r) = (SPI_CR1 r AND NOT 1) AND NOT 0x100" for r
    by (simp_all add: spi_configure_def Let_def spi4_init_def spi5_init_def spi_consts MODIFY_REG_def)
  have z: "\<not> bit ((w AND NOT 1) AND NOT 0x100) 0" for w :: u32 by (simp only: bit_and_iff bit_not_iff bit_1_iff) simp
  have c: "\<not> bit (SPI_CR1 (spi_configure spi4_init r)) 0" "\<not> bit (SPI_CR1 (spi_configure spi5_init r)) 0" for r
    unfolding e(5,6) by (rule z)+
  have "spi_frame (spi_configure spi4_init r) b = take_bit 4 b" for r b by (simp add: spi_frame_def e(1) d(1))
  moreover have "spi_frame (spi_configure spi5_init r) b = b" for r b
    using take_bit_word_eq_self[of 8 b] by (simp add: spi_frame_def e(2) d(2))
  ultimately show ?thesis unfolding spi4_ok[OF assms(1,3)] spi5_ok[OF assms(1,2,4)]
    by (simp add: e(3,4) c MCP2515_RESET_def)
qed

theorem spi_frames_witness:
  "\<exists>s'. MX_SPI4_Init demo_core_env demo_fw = Goes_On s' \<and> spi_frame (spi s' SPI4) 0xA5 = 5"
  using spi_frames[OF demo_ok(1,2), of demo_fw "0xA5"] by auto

section \<open>The time base\<close>

text \<open>
  The tick divides the clock it reads to the nearest rate that is not below 1 kHz: with a clock of at least 1 MHz the two dividers multiply to the largest
  whole number of megahertz in it, and the rate is exact just if the clock is a whole number of megahertz. Below 1 MHz the prescaler wraps around.
\<close>

theorem tick_rate:
  "if 1000000 \<le> unat f
   then let d = (unat (tick_prescaler f) + 1) * (unat tick_period + 1)
        in d * 1000 \<le> unat f \<and> unat f < d * 1000 + 1000000 \<and> (d * 1000 = unat f \<longleftrightarrow> 1000000 dvd unat f)
   else tick_prescaler f = - 1"
proof (cases "1000000 \<le> unat f")
  case True
  have q: "unat (f div 1000000) = unat f div 1000000" by (simp add: unat_div)
  have "0 < unat f div 1000000" using True by (simp add: div_greater_zero_iff)
  then have "f div 1000000 \<noteq> 0" using q by (metis unat_0 less_irrefl)
  then have p: "unat (tick_prescaler f) + 1 = unat f div 1000000"
    using q \<open>0 < unat f div 1000000\<close> by (simp add: tick_prescaler_def unat_minus_one)
  have t: "unat tick_period + 1 = 1000" by (simp add: tick_period_def)
  have "unat f div 1000000 * 1000 * 1000 = unat f - unat f mod 1000000" by (simp add: minus_mod_eq_mult_div)
  moreover have "unat f mod 1000000 < 1000000" "unat f mod 1000000 \<le> unat f" by simp_all
  ultimately show ?thesis unfolding p t Let_def using True by (auto simp: dvd_eq_mod_eq_0)
next
  case False
  then have "unat (f div 1000000) = 0" by (simp add: unat_div)
  then show ?thesis using False by (simp add: tick_prescaler_def unat_eq_zero)
qed

end
