(* ===== verification/Nvic.thy ===== *)
theory Nvic
  imports Bsp_Disco
begin

unbundle bit_operations_syntax

text \<open>
  The interrupt controller: the functions of \<^verbatim>\<open>Drivers/CMSIS/Include/core_cm4.h\<close> and of \<^verbatim>\<open>stm32mp1xx_hal_cortex.c\<close> on its registers,
  and the part of the FreeRTOS port (\<^verbatim>\<open>portable/GCC/ARM_CM4F/port.c\<close>, \<^verbatim>\<open>portmacro.h\<close>) that masks interrupts in critical
  sections, starts the scheduler and checks the priorities of the callers.

  The other theories keep, for each interrupt, whether it is enabled and its two priorities (\<open>nvic_on\<close> and \<open>nvic_prio\<close> of
  \<open>board\<close>); the refinement below is between this view and the registers. Numbers of device interrupts are not negative, those of
  the exceptions of the processor are.
\<close>

section \<open>Registers\<close>

text \<open>
  Of each priority byte the hardware keeps the bits of \<open>prio_mask\<close>. \<open>BASEPRI\<close> and \<open>IPSR\<close> are special registers of the processor, \<open>SYST\<close>
  are the control, reload and current value registers of the system timer.
\<close>

record port =
  AIRCR :: u32
  ISER :: "nat \<Rightarrow> u32"
  ISPR :: "nat \<Rightarrow> u32"
  IABR :: "nat \<Rightarrow> u32"
  IP :: "nat \<Rightarrow> u8"
  SHP :: "nat \<Rightarrow> u8"
  prio_mask :: u8
  BASEPRI :: u8
  IPSR :: u32
  SYST_CTRL :: u32
  SYST_LOAD :: u32
  SYST_VAL :: u32
  uxCriticalNesting :: u32
  ucMaxSysCallPriority :: u8
  ulMaxPRIGROUPValue :: u32

definition NVIC_PRIO_BITS :: nat where "NVIC_PRIO_BITS = 4"
definition SCB_AIRCR_PRIGROUP_Pos :: nat where "SCB_AIRCR_PRIGROUP_Pos = 8"
definition SCB_AIRCR_PRIGROUP_Msk :: u32 where "SCB_AIRCR_PRIGROUP_Msk = push_bit SCB_AIRCR_PRIGROUP_Pos 7"
definition SCB_AIRCR_VECTKEY_Pos :: nat where "SCB_AIRCR_VECTKEY_Pos = 16"
definition SCB_AIRCR_VECTKEY_Msk :: u32 where "SCB_AIRCR_VECTKEY_Msk = push_bit SCB_AIRCR_VECTKEY_Pos 0xFFFF"

lemmas aircr_consts = SCB_AIRCR_PRIGROUP_Pos_def SCB_AIRCR_PRIGROUP_Msk_def SCB_AIRCR_VECTKEY_Pos_def SCB_AIRCR_VECTKEY_Msk_def

text \<open>
  What the hardware does on a write: \<^verbatim>\<open>AIRCR\<close> takes the priority group if the key is right; a one written to a set or clear register sets or
  clears that bit and zeros have no effect.
\<close>

definition write_AIRCR :: "u32 \<Rightarrow> port \<Rightarrow> port" where
  "write_AIRCR v r = (if drop_bit 16 v = 0x5FA then r\<lparr>AIRCR := (AIRCR r AND NOT SCB_AIRCR_PRIGROUP_Msk) OR (v AND SCB_AIRCR_PRIGROUP_Msk)\<rparr> else r)"

definition write_ISER :: "nat \<Rightarrow> u32 \<Rightarrow> port \<Rightarrow> port" where
  "write_ISER k v r = r\<lparr>ISER := (ISER r)(k := ISER r k OR v)\<rparr>"

definition write_ICER :: "nat \<Rightarrow> u32 \<Rightarrow> port \<Rightarrow> port" where
  "write_ICER k v r = r\<lparr>ISER := (ISER r)(k := ISER r k AND NOT v)\<rparr>"

definition write_ISPR :: "nat \<Rightarrow> u32 \<Rightarrow> port \<Rightarrow> port" where
  "write_ISPR k v r = r\<lparr>ISPR := (ISPR r)(k := ISPR r k OR v)\<rparr>"

definition write_ICPR :: "nat \<Rightarrow> u32 \<Rightarrow> port \<Rightarrow> port" where
  "write_ICPR k v r = r\<lparr>ISPR := (ISPR r)(k := ISPR r k AND NOT v)\<rparr>"

definition write_IP :: "nat \<Rightarrow> u8 \<Rightarrow> port \<Rightarrow> port" where
  "write_IP k v r = r\<lparr>IP := (IP r)(k := v AND prio_mask r)\<rparr>"

definition write_SHP :: "nat \<Rightarrow> u8 \<Rightarrow> port \<Rightarrow> port" where
  "write_SHP k v r = r\<lparr>SHP := (SHP r)(k := v AND prio_mask r)\<rparr>"

section \<open>Functions of core_cm4.h\<close>

definition NVIC_SetPriorityGrouping :: "u32 \<Rightarrow> port \<Rightarrow> port" where
  "NVIC_SetPriorityGrouping PriorityGroup r =
     (let PriorityGroupTmp = PriorityGroup AND 7;
          reg_value = AIRCR r;
          reg_value = reg_value AND NOT (SCB_AIRCR_VECTKEY_Msk OR SCB_AIRCR_PRIGROUP_Msk);
          reg_value = reg_value OR push_bit SCB_AIRCR_VECTKEY_Pos 0x5FA OR push_bit SCB_AIRCR_PRIGROUP_Pos PriorityGroupTmp
      in write_AIRCR reg_value r)"

definition NVIC_GetPriorityGrouping :: "port \<Rightarrow> u32" where
  "NVIC_GetPriorityGrouping r = drop_bit SCB_AIRCR_PRIGROUP_Pos (AIRCR r AND SCB_AIRCR_PRIGROUP_Msk)"

definition irq_word :: "int \<Rightarrow> nat" where "irq_word IRQn = unat (drop_bit 5 (word_of_int IRQn :: u32))"
definition irq_bit :: "int \<Rightarrow> u32" where "irq_bit IRQn = push_bit (unat ((word_of_int IRQn :: u32) AND 0x1F)) 1"

definition NVIC_EnableIRQ :: "int \<Rightarrow> port \<Rightarrow> port" where
  "NVIC_EnableIRQ IRQn r = (if IRQn \<ge> 0 then write_ISER (irq_word IRQn) (irq_bit IRQn) r else r)"

definition NVIC_GetEnableIRQ :: "int \<Rightarrow> port \<Rightarrow> u32" where
  "NVIC_GetEnableIRQ IRQn r = (if IRQn \<ge> 0 then (if ISER r (irq_word IRQn) AND irq_bit IRQn \<noteq> 0 then 1 else 0) else 0)"

definition NVIC_DisableIRQ :: "int \<Rightarrow> port \<Rightarrow> port" where
  "NVIC_DisableIRQ IRQn r = (if IRQn \<ge> 0 then write_ICER (irq_word IRQn) (irq_bit IRQn) r else r)"

definition NVIC_GetPendingIRQ :: "int \<Rightarrow> port \<Rightarrow> u32" where
  "NVIC_GetPendingIRQ IRQn r = (if IRQn \<ge> 0 then (if ISPR r (irq_word IRQn) AND irq_bit IRQn \<noteq> 0 then 1 else 0) else 0)"

definition NVIC_SetPendingIRQ :: "int \<Rightarrow> port \<Rightarrow> port" where
  "NVIC_SetPendingIRQ IRQn r = (if IRQn \<ge> 0 then write_ISPR (irq_word IRQn) (irq_bit IRQn) r else r)"

definition NVIC_ClearPendingIRQ :: "int \<Rightarrow> port \<Rightarrow> port" where
  "NVIC_ClearPendingIRQ IRQn r = (if IRQn \<ge> 0 then write_ICPR (irq_word IRQn) (irq_bit IRQn) r else r)"

definition NVIC_GetActive :: "int \<Rightarrow> port \<Rightarrow> u32" where
  "NVIC_GetActive IRQn r = (if IRQn \<ge> 0 then (if IABR r (irq_word IRQn) AND irq_bit IRQn \<noteq> 0 then 1 else 0) else 0)"

definition shp_index :: "int \<Rightarrow> nat" where "shp_index IRQn = unat (((word_of_int IRQn :: u32) AND 0xF) - 4)"

definition NVIC_SetPriority :: "int \<Rightarrow> u32 \<Rightarrow> port \<Rightarrow> port" where
  "NVIC_SetPriority IRQn priority r =
     (if IRQn \<ge> 0 then write_IP (nat IRQn) (ucast (push_bit (8 - NVIC_PRIO_BITS) priority AND 0xFF)) r
      else write_SHP (shp_index IRQn) (ucast (push_bit (8 - NVIC_PRIO_BITS) priority AND 0xFF)) r)"

definition NVIC_GetPriority :: "int \<Rightarrow> port \<Rightarrow> u32" where
  "NVIC_GetPriority IRQn r =
     (if IRQn \<ge> 0 then drop_bit (8 - NVIC_PRIO_BITS) (ucast (IP r (nat IRQn)))
      else drop_bit (8 - NVIC_PRIO_BITS) (ucast (SHP r (shp_index IRQn))))"

definition PreemptPriorityBits :: "u32 \<Rightarrow> u32" where
  "PreemptPriorityBits g = (if 7 - g > of_nat NVIC_PRIO_BITS then of_nat NVIC_PRIO_BITS else 7 - g)"

definition SubPriorityBits :: "u32 \<Rightarrow> u32" where
  "SubPriorityBits g = (if g + of_nat NVIC_PRIO_BITS < 7 then 0 else (g - 7) + of_nat NVIC_PRIO_BITS)"

definition NVIC_EncodePriority :: "u32 \<Rightarrow> u32 \<Rightarrow> u32 \<Rightarrow> u32" where
  "NVIC_EncodePriority PriorityGroup PreemptPriority SubPriority =
     (let g = PriorityGroup AND 7
      in push_bit (unat (SubPriorityBits g)) (PreemptPriority AND (push_bit (unat (PreemptPriorityBits g)) 1 - 1)) OR
         (SubPriority AND (push_bit (unat (SubPriorityBits g)) 1 - 1)))"

definition NVIC_DecodePriority :: "u32 \<Rightarrow> u32 \<Rightarrow> u32 \<times> u32" where
  "NVIC_DecodePriority Priority PriorityGroup =
     (let g = PriorityGroup AND 7
      in (drop_bit (unat (SubPriorityBits g)) Priority AND (push_bit (unat (PreemptPriorityBits g)) 1 - 1),
          Priority AND (push_bit (unat (SubPriorityBits g)) 1 - 1)))"

text \<open>The functions of \<^verbatim>\<open>stm32mp1xx_hal_cortex.c\<close> with work of their own; the others only call the function of the same name above.\<close>

definition NVIC_HAL_SetPriority :: "int \<Rightarrow> u32 \<Rightarrow> u32 \<Rightarrow> port \<Rightarrow> port" where
  "NVIC_HAL_SetPriority IRQn PreemptPriority SubPriority r =
     (let prioritygroup = NVIC_GetPriorityGrouping r
      in NVIC_SetPriority IRQn (NVIC_EncodePriority prioritygroup PreemptPriority SubPriority) r)"

definition NVIC_HAL_GetPriority :: "int \<Rightarrow> u32 \<Rightarrow> port \<Rightarrow> u32 \<times> u32" where
  "NVIC_HAL_GetPriority IRQn PriorityGroup r = NVIC_DecodePriority (NVIC_GetPriority IRQn r) PriorityGroup"

section \<open>The FreeRTOS port\<close>

definition configLIBRARY_LOWEST_INTERRUPT_PRIORITY :: u8 where "configLIBRARY_LOWEST_INTERRUPT_PRIORITY = 15"
definition configLIBRARY_MAX_SYSCALL_INTERRUPT_PRIORITY :: u8 where "configLIBRARY_MAX_SYSCALL_INTERRUPT_PRIORITY = 5"
definition configPRIO_BITS :: nat where "configPRIO_BITS = NVIC_PRIO_BITS"
definition configKERNEL_INTERRUPT_PRIORITY :: u8 where
  "configKERNEL_INTERRUPT_PRIORITY = push_bit (8 - configPRIO_BITS) configLIBRARY_LOWEST_INTERRUPT_PRIORITY"
definition configMAX_SYSCALL_INTERRUPT_PRIORITY :: u8 where
  "configMAX_SYSCALL_INTERRUPT_PRIORITY = push_bit (8 - configPRIO_BITS) configLIBRARY_MAX_SYSCALL_INTERRUPT_PRIORITY"
definition configTICK_RATE_HZ :: u32 where "configTICK_RATE_HZ = 1000"
definition portPRIORITY_GROUP_MASK :: u32 where "portPRIORITY_GROUP_MASK = push_bit 8 7"
definition portMAX_PRIGROUP_BITS :: u32 where "portMAX_PRIGROUP_BITS = 7"
definition portVECTACTIVE_MASK :: u32 where "portVECTACTIVE_MASK = 0xFF"

lemmas port_consts = configLIBRARY_LOWEST_INTERRUPT_PRIORITY_def configLIBRARY_MAX_SYSCALL_INTERRUPT_PRIORITY_def configPRIO_BITS_def
  configKERNEL_INTERRUPT_PRIORITY_def configMAX_SYSCALL_INTERRUPT_PRIORITY_def NVIC_PRIO_BITS_def portPRIORITY_GROUP_MASK_def
  portMAX_PRIGROUP_BITS_def portVECTACTIVE_MASK_def

text \<open>\<^verbatim>\<open>configASSERT\<close>: mask the interrupts and loop for ever.\<close>

definition configASSERT :: "bool \<Rightarrow> port \<Rightarrow> port option" where
  "configASSERT c r = (if c then Some r else None)"

definition vPortRaiseBASEPRI :: "port \<Rightarrow> port" where
  "vPortRaiseBASEPRI r = r\<lparr>BASEPRI := configMAX_SYSCALL_INTERRUPT_PRIORITY\<rparr>"

definition ulPortRaiseBASEPRI :: "port \<Rightarrow> u8 \<times> port" where
  "ulPortRaiseBASEPRI r = (BASEPRI r, r\<lparr>BASEPRI := configMAX_SYSCALL_INTERRUPT_PRIORITY\<rparr>)"

definition vPortSetBASEPRI :: "u8 \<Rightarrow> port \<Rightarrow> port" where
  "vPortSetBASEPRI v r = r\<lparr>BASEPRI := v\<rparr>"

definition vPortEnterCritical :: "port \<Rightarrow> port option" where
  "vPortEnterCritical r =
     (let r = vPortRaiseBASEPRI r;
          r = r\<lparr>uxCriticalNesting := uxCriticalNesting r + 1\<rparr>
      in if uxCriticalNesting r = 1 then configASSERT (IPSR r AND portVECTACTIVE_MASK = 0) r else Some r)"

definition vPortExitCritical :: "port \<Rightarrow> port option" where
  "vPortExitCritical r =
     (case configASSERT (uxCriticalNesting r \<noteq> 0) r of
        None \<Rightarrow> None
      | Some r \<Rightarrow>
          let r = r\<lparr>uxCriticalNesting := uxCriticalNesting r - 1\<rparr>
          in Some (if uxCriticalNesting r = 0 then vPortSetBASEPRI 0 r else r))"

definition vPortSetupTimerInterrupt :: "u32 \<Rightarrow> port \<Rightarrow> port" where
  "vPortSetupTimerInterrupt SystemCoreClock r =
     (let r = r\<lparr>SYST_CTRL := 0\<rparr>;
          r = r\<lparr>SYST_VAL := 0\<rparr>;
          r = r\<lparr>SYST_LOAD := (SystemCoreClock div configTICK_RATE_HZ - 1) AND 0xFFFFFF\<rparr>
      in r\<lparr>SYST_CTRL := push_bit 2 1 OR push_bit 1 1 OR push_bit 0 1\<rparr>)"

text \<open>The loop of \<^verbatim>\<open>xPortStartScheduler\<close> that counts the implemented priority bits.\<close>

lemma shift_loses_bit:
  assumes "bit v 7"
  shows "card {i. i < 8 \<and> bit (v * 2) i} < card {i. i < 8 \<and> bit (v :: u8) i}"
proof -
  have d: "v * 2 = push_bit 1 v" by simp
  have "{i. i < 8 \<and> bit (v * 2) i} \<subseteq> Suc ` {i. i < 7 \<and> bit v i}"
  proof
    fix i assume "i \<in> {i. i < 8 \<and> bit (v * 2) i}"
    then have "i < 8" "bit (push_bit 1 v) i" unfolding d by auto
    then show "i \<in> Suc ` {i. i < 7 \<and> bit v i}" by (cases i) (auto simp only: bit_push_bit_iff, auto)
  qed
  then have "card {i. i < 8 \<and> bit (v * 2) i} \<le> card (Suc ` {i. i < 7 \<and> bit v i})" by (intro card_mono) auto
  also have "\<dots> = card {i. i < 7 \<and> bit v i}" by (simp add: card_image)
  also have "\<dots> < card {i. i < 8 \<and> bit v i}"
  proof (rule psubset_card_mono)
    have "7 \<in> {i. i < 8 \<and> bit v i}" "7 \<notin> {i. i < 7 \<and> bit v i}" using assms by simp_all
    moreover have "{i. i < 7 \<and> bit v i} \<subseteq> {i. i < 8 \<and> bit v i}" by auto
    ultimately show "{i. i < 7 \<and> bit v i} \<subset> {i. i < 8 \<and> bit v i}" by blast
  qed simp
  finally show ?thesis .
qed

lemma top_bit_iff: "(v AND 0x80 = (0x80 :: u8)) \<longleftrightarrow> bit v 7"
proof -
  have d: "(0x80 :: u8) = push_bit 7 1" by simp
  have e: "bit (push_bit 7 1 :: u8) n \<longleftrightarrow> n = 7" for n by (auto simp only: bit_push_bit_iff bit_1_iff) auto
  have "(v AND push_bit 7 1 = push_bit 7 1) \<longleftrightarrow> (\<forall>n. bit v n \<and> n = 7 \<longleftrightarrow> n = 7)"
    unfolding e[symmetric] bit_and_iff[symmetric] by (metis bit_word_eqI)
  then show ?thesis unfolding d by blast
qed

function prigroup_loop :: "u8 \<Rightarrow> u32 \<Rightarrow> u32" where
  "prigroup_loop ucMaxPriorityValue n =
     (if ucMaxPriorityValue AND 0x80 = 0x80 then prigroup_loop (push_bit 1 ucMaxPriorityValue) (n - 1) else n)"
  by pat_completeness auto
termination by (relation "measure (\<lambda>(v, _). card {i. i < 8 \<and> bit v i})") (auto simp: top_bit_iff shift_loses_bit)

declare prigroup_loop.simps [simp del]

text \<open>\<^verbatim>\<open>xPortStartScheduler\<close> up to the start of the first task, whose supervisor call (\<^verbatim>\<open>vPortSVCHandler\<close>) clears the mask.\<close>

definition check_priority_bits :: "port \<Rightarrow> port option" where
  "check_priority_bits r =
     (let ulOriginalPriority = IP r 0;
          r = write_IP 0 0xFF r;
          ucMaxPriorityValue = IP r 0;
          r = r\<lparr>ucMaxSysCallPriority := configMAX_SYSCALL_INTERRUPT_PRIORITY AND ucMaxPriorityValue\<rparr>;
          r = r\<lparr>ulMaxPRIGROUPValue := prigroup_loop ucMaxPriorityValue portMAX_PRIGROUP_BITS\<rparr>
      in case configASSERT (portMAX_PRIGROUP_BITS - ulMaxPRIGROUPValue r = of_nat NVIC_PRIO_BITS) r of
           None \<Rightarrow> None
         | Some r \<Rightarrow>
             (case configASSERT (portMAX_PRIGROUP_BITS - ulMaxPRIGROUPValue r = of_nat configPRIO_BITS) r of
                None \<Rightarrow> None
              | Some r \<Rightarrow>
                  let r = r\<lparr>ulMaxPRIGROUPValue := push_bit 8 (ulMaxPRIGROUPValue r) AND portPRIORITY_GROUP_MASK\<rparr>
                  in Some (write_IP 0 ulOriginalPriority r)))"

definition xPortStartScheduler :: "u32 \<Rightarrow> u32 \<Rightarrow> port \<Rightarrow> port option" where
  "xPortStartScheduler portCPUID SystemCoreClock r =
     (case configASSERT (configMAX_SYSCALL_INTERRUPT_PRIORITY \<noteq> 0 \<and> portCPUID \<noteq> 0x410FC271 \<and> portCPUID \<noteq> 0x410FC270) r of
        None \<Rightarrow> None
      | Some r \<Rightarrow>
          (case check_priority_bits r of
             None \<Rightarrow> None
           | Some r \<Rightarrow>
               let r = write_SHP 10 (SHP r 10 OR configKERNEL_INTERRUPT_PRIORITY) r;
                   r = write_SHP 11 (SHP r 11 OR configKERNEL_INTERRUPT_PRIORITY) r;
                   r = vPortSetupTimerInterrupt SystemCoreClock r;
                   r = r\<lparr>uxCriticalNesting := 0\<rparr>
               in Some (vPortSetBASEPRI 0 r)))"

text \<open>The check at the start of every kernel function that may be called from an interrupt.\<close>

definition vPortValidateInterruptPriority :: "port \<Rightarrow> port option" where
  "vPortValidateInterruptPriority r =
     (case (if IPSR r \<ge> 16 then configASSERT (IP r (unat (IPSR r) - 16) \<ge> ucMaxSysCallPriority r) r else Some r) of
        None \<Rightarrow> None
      | Some r \<Rightarrow> configASSERT (AIRCR r AND portPRIORITY_GROUP_MASK \<le> ulMaxPRIGROUPValue r) r)"

text \<open>\<^verbatim>\<open>xPortSysTickHandler\<close>: \<open>switch\<close> is the result of \<^verbatim>\<open>xTaskIncrementTick\<close>, the first result whether a context switch is requested.\<close>

definition xPortSysTickHandler :: "bool \<Rightarrow> port \<Rightarrow> bool \<times> port" where
  "xPortSysTickHandler switch r =
     (let r = vPortRaiseBASEPRI r
      in (switch, vPortSetBASEPRI 0 r))"

text \<open>The processor takes an enabled device interrupt only if its priority value is below a mask that is not zero.\<close>

definition masked :: "port \<Rightarrow> nat \<Rightarrow> bool" where
  "masked r i \<longleftrightarrow> BASEPRI r \<noteq> 0 \<and> BASEPRI r \<le> IP r i"

section \<open>Single interrupts\<close>

definition irq_on :: "port \<Rightarrow> nat \<Rightarrow> bool" where "irq_on r i \<longleftrightarrow> bit (ISER r (i div 32)) (i mod 32)"

lemma irq_place:
  assumes "i < 240"
  shows "irq_word (int i) = i div 32" "irq_bit (int i) = 2 ^ (i mod 32)"
proof -
  have u: "unat (of_nat i :: u32) = i" using assms by (simp add: unat_of_nat take_bit_nat_eq_self)
  then show "irq_word (int i) = i div 32" by (simp add: irq_word_def drop_bit_eq_div unat_div)
  have "(0x1F :: u32) = mask 5" by (simp add: mask_eq_exp_minus_1)
  then have "unat ((of_nat i :: u32) AND 0x1F) = take_bit 5 (unat (of_nat i :: u32))"
    by (metis take_bit_eq_mask unsigned_take_bit_eq)
  then show "irq_bit (int i) = 2 ^ (i mod 32)" unfolding irq_bit_def of_int_of_nat_eq u by (simp add: push_bit_eq_mult take_bit_eq_mod)
qed

lemma bit_power_u32: "k < 32 \<Longrightarrow> bit (2 ^ k :: u32) n \<longleftrightarrow> n = k"
  by (auto simp only: bit_exp_iff possible_bit_word) auto

lemma word_and_bit: "k < 32 \<Longrightarrow> w AND 2 ^ k \<noteq> 0 \<longleftrightarrow> bit (w :: u32) k"
proof
  assume k: "k < 32" and "w AND 2 ^ k \<noteq> 0"
  then obtain n where "bit (w AND 2 ^ k) n" by (metis bit_0_eq bit_word_eqI bot_apply bot_bool_def)
  then show "bit w k" using k by (auto simp: bit_and_iff bit_power_u32)
next
  assume "k < 32" and "bit w k"
  then have "bit (w AND 2 ^ k) k" by (simp add: bit_and_iff bit_power_u32)
  then show "w AND 2 ^ k \<noteq> 0" by auto
qed

lemma get_enable: "i < 240 \<Longrightarrow> NVIC_GetEnableIRQ (int i) r = (if irq_on r i then 1 else 0)"
  using word_and_bit[of "i mod 32" "ISER r (i div 32)"] by (simp add: NVIC_GetEnableIRQ_def irq_place irq_on_def)

lemma same_place: "i div 32 = j div 32 \<Longrightarrow> i mod 32 = j mod 32 \<Longrightarrow> i = (j :: nat)"
  by (metis div_mult_mod_eq)

lemma enable_on: "i < 240 \<Longrightarrow> j < 240 \<Longrightarrow> irq_on (NVIC_EnableIRQ (int j) r) i \<longleftrightarrow> i = j \<or> irq_on r i"
  by (auto simp: NVIC_EnableIRQ_def irq_place irq_on_def write_ISER_def bit_or_iff bit_power_u32 dest: same_place)

lemma disable_on: "i < 240 \<Longrightarrow> j < 240 \<Longrightarrow> irq_on (NVIC_DisableIRQ (int j) r) i \<longleftrightarrow> i \<noteq> j \<and> irq_on r i"
  by (auto simp: NVIC_DisableIRQ_def irq_place irq_on_def write_ICER_def bit_and_iff bit_not_iff bit_power_u32 dest: same_place)

section \<open>Priorities\<close>

lemma group_cases: "(g :: u32) AND 7 \<in> {0, 1, 2, 3, 4, 5, 6, 7}"
proof -
  have "g AND 7 = take_bit 3 g" by (simp add: take_bit_eq_mask mask_eq_exp_minus_1)
  then have "unat (g AND 7) < 8" using take_bit_nat_less_exp[of 3 "unat g"] by (simp add: unsigned_take_bit_eq)
  then have "unat (g AND 7) \<in> {0, 1, 2, 3, 4, 5, 6, 7}" by auto
  then show ?thesis by (auto simp: word_unat_eq_iff)
qed

definition pre_bits :: "u32 \<Rightarrow> nat" where "pre_bits g = min 4 (7 - unat (g AND 7))"
definition sub_bits :: "u32 \<Rightarrow> nat" where "sub_bits g = unat (g AND 7) - 3"

lemma group_bits:
  "unat (PreemptPriorityBits (g AND 7)) = pre_bits g" "unat (SubPriorityBits (g AND 7)) = sub_bits g" "pre_bits g + sub_bits g = 4"
  using group_cases[of g]
  by (auto simp: PreemptPriorityBits_def SubPriorityBits_def pre_bits_def sub_bits_def NVIC_PRIO_BITS_def)

lemma low_bits: "w AND (push_bit n 1 - 1) = take_bit n (w :: u32)"
  by (simp add: take_bit_eq_mask mask_eq_exp_minus_1 push_bit_eq_mult)

lemma decode_encode:
  "NVIC_DecodePriority (take_bit 4 (NVIC_EncodePriority g p s)) g = (take_bit (pre_bits g) p, take_bit (sub_bits g) s)"
proof -
  have f: "bit (take_bit n (w :: u32)) k \<longleftrightarrow> k < n \<and> bit w k" for n w k by (simp add: bit_take_bit_iff)
  have e: "NVIC_EncodePriority g p s = push_bit (sub_bits g) (take_bit (pre_bits g) p) OR take_bit (sub_bits g) s"
    unfolding NVIC_EncodePriority_def Let_def group_bits low_bits ..
  have l: "sub_bits g \<le> 4" using group_bits(3)[of g] by simp
  show ?thesis unfolding NVIC_DecodePriority_def Let_def group_bits low_bits e using group_bits(3)[of g]
    by (auto intro!: bit_word_eqI simp: bit_simps)
qed
text \<open>The hardware keeps the upper four bits of a priority byte, as on all parts of this family.\<close>

lemma priority_byte: "(ucast (push_bit 4 e AND 0xFF :: u32) :: u8) AND 0xF0 = push_bit 4 (ucast (e :: u32))"
proof -
  have m: "(0xFF :: u32) = mask 8" "(0xF0 :: u8) = push_bit 4 (mask 4)" by (simp_all add: mask_eq_exp_minus_1)
  show ?thesis unfolding m by (rule bit_word_eqI) (auto simp: bit_simps)
qed

lemma priority_read: "drop_bit 4 (ucast (push_bit 4 (ucast (e :: u32)) :: u8)) = take_bit 4 (e :: u32)"
  by (rule bit_word_eqI) (auto simp: bit_simps)

lemma get_set_priority:
  assumes "prio_mask r = 0xF0"
  shows "NVIC_GetPriority j (NVIC_SetPriority j e r) = take_bit 4 e"
    "(0 \<le> i) = (0 \<le> j) \<Longrightarrow> nat i \<noteq> nat j \<Longrightarrow> NVIC_GetPriority i (NVIC_SetPriority j e r) = NVIC_GetPriority i r"
    "(0 \<le> i) \<noteq> (0 \<le> j) \<Longrightarrow> NVIC_GetPriority i (NVIC_SetPriority j e r) = NVIC_GetPriority i r"
  using assms by (auto simp: NVIC_GetPriority_def NVIC_SetPriority_def write_IP_def write_SHP_def NVIC_PRIO_BITS_def priority_byte priority_read)

lemma group_read:
  "NVIC_GetPriorityGrouping (NVIC_SetPriorityGrouping g r) = g AND 7"
proof -
  have m: "(7 :: u32) = mask 3" "(0xFFFF :: u32) = mask 16" by (simp_all add: mask_eq_exp_minus_1)
  have key: "drop_bit 16 ((a AND NOT (push_bit 16 (mask 16) OR push_bit 8 (mask 3))) OR push_bit 16 x OR push_bit 8 (g AND mask 3)) = take_bit 16 x"
    for a x :: u32 by (rule bit_word_eqI) (auto simp: bit_simps)
  have k: "drop_bit 16 ((AIRCR r AND NOT (push_bit 16 (mask 16) OR push_bit 8 (mask 3))) OR push_bit 16 0x5FA OR push_bit 8 (g AND mask 3)) = (0x5FA :: u32)"
    unfolding key by simp
  have group: "drop_bit 8 (((a AND NOT (push_bit 8 (mask 3))) OR (((a AND NOT (push_bit 16 (mask 16) OR push_bit 8 (mask 3))) OR push_bit 16 x OR
      push_bit 8 (g AND mask 3)) AND push_bit 8 (mask 3))) AND push_bit 8 (mask 3)) = g AND mask 3" for a x :: u32
    by (rule bit_word_eqI) (auto simp: bit_simps)
  have a: "AIRCR (r\<lparr>AIRCR := v\<rparr>) = v" for v by simp
  show ?thesis
    unfolding NVIC_SetPriorityGrouping_def Let_def aircr_consts m write_AIRCR_def NVIC_GetPriorityGrouping_def if_P[OF k] a group ..
qed

lemma grouping_frame [simp]:
  "prio_mask (NVIC_SetPriorityGrouping g r) = prio_mask r" "ISER (NVIC_SetPriorityGrouping g r) = ISER r"
  "IP (NVIC_SetPriorityGrouping g r) = IP r" "SHP (NVIC_SetPriorityGrouping g r) = SHP r"
  by (simp_all add: NVIC_SetPriorityGrouping_def write_AIRCR_def Let_def)

section \<open>The contract of the interrupt controller\<close>

text \<open>The calls that the drivers make, and what each does to the set of enabled interrupts and to the priorities.\<close>

datatype irq_call = Set_Priority nat nat nat | Enable_IRQ nat | Disable_IRQ nat

fun call_ok :: "irq_call \<Rightarrow> bool" where
  "call_ok (Set_Priority i p q) \<longleftrightarrow> i < 240 \<and> p < 16"
| "call_ok (Enable_IRQ i) \<longleftrightarrow> i < 240"
| "call_ok (Disable_IRQ i) \<longleftrightarrow> i < 240"

fun spec_on :: "irq_call \<Rightarrow> (nat \<Rightarrow> bool) \<Rightarrow> nat \<Rightarrow> bool" where
  "spec_on (Enable_IRQ i) f = f(i := True)"
| "spec_on (Disable_IRQ i) f = f(i := False)"
| "spec_on (Set_Priority i p q) f = f"

fun spec_prio :: "irq_call \<Rightarrow> (nat \<Rightarrow> nat) \<Rightarrow> nat \<Rightarrow> nat" where
  "spec_prio (Set_Priority i p q) f = f(i := p)"
| "spec_prio (Enable_IRQ i) f = f"
| "spec_prio (Disable_IRQ i) f = f"

locale irq_controller =
  fixes call :: "irq_call \<Rightarrow> 's \<Rightarrow> 's"
    and enabled :: "'s \<Rightarrow> nat \<Rightarrow> bool"
    and preempt :: "'s \<Rightarrow> nat \<Rightarrow> nat"
    and inv :: "'s \<Rightarrow> bool"
  assumes inv_call: "inv s \<Longrightarrow> call_ok c \<Longrightarrow> inv (call c s)"
    and enabled_call: "inv s \<Longrightarrow> call_ok c \<Longrightarrow> i < 240 \<Longrightarrow> enabled (call c s) i = spec_on c (enabled s) i"
    and preempt_call: "inv s \<Longrightarrow> call_ok c \<Longrightarrow> i < 240 \<Longrightarrow> preempt (call c s) i = spec_prio c (preempt s) i"
begin

lemma spec_local:
  "(\<forall>i < 240. f i = g i) \<Longrightarrow> i < 240 \<Longrightarrow> spec_on c f i = spec_on c g i"
  "(\<forall>i < 240. f' i = g' i) \<Longrightarrow> i < 240 \<Longrightarrow> spec_prio c f' i = spec_prio c g' i"
  by (cases c; simp)+

lemma calls:
  assumes "inv s" and "list_all call_ok cs" and "\<forall>i < 240. enabled s i = f i" and "\<forall>i < 240. preempt s i = g i"
  shows "inv (fold call cs s) \<and> (\<forall>i < 240. enabled (fold call cs s) i = fold spec_on cs f i \<and> preempt (fold call cs s) i = fold spec_prio cs g i)"
  using assms
proof (induction cs arbitrary: s f g)
  case (Cons c cs)
  have "\<forall>i < 240. enabled (call c s) i = spec_on c f i" "\<forall>i < 240. preempt (call c s) i = spec_prio c g i"
    using Cons.prems enabled_call preempt_call spec_local by (metis list.pred_inject(2))+
  then show ?case using Cons.IH[of "call c s" "spec_on c f" "spec_prio c g"] Cons.prems inv_call by simp
qed simp

end

text \<open>The view of the other theories meets the contract.\<close>

fun board_call :: "irq_call \<Rightarrow> 'z board_scheme \<Rightarrow> 'z board_scheme" where
  "board_call (Set_Priority i p q) = HAL_NVIC_SetPriority i p q"
| "board_call (Enable_IRQ i) = HAL_NVIC_EnableIRQ i"
| "board_call (Disable_IRQ i) = HAL_NVIC_DisableIRQ i"

interpretation bview: irq_controller board_call nvic_on "\<lambda>b i. fst (nvic_prio b i)" "\<lambda>_. True"
proof
  fix b :: "'z board_scheme" and c i
  show "nvic_on (board_call c b) i = spec_on c (nvic_on b) i" "fst (nvic_prio (board_call c b) i) = spec_prio c (\<lambda>i. fst (nvic_prio b i)) i"
    by (cases c; simp add: HAL_NVIC_SetPriority_def HAL_NVIC_EnableIRQ_def HAL_NVIC_DisableIRQ_def)+
qed simp

text \<open>So do the registers, once the priority group is the one of \<^verbatim>\<open>HAL_Init\<close>.\<close>

fun reg_call :: "irq_call \<Rightarrow> port \<Rightarrow> port" where
  "reg_call (Set_Priority i p q) = NVIC_HAL_SetPriority (int i) (of_nat p) (of_nat q)"
| "reg_call (Enable_IRQ i) = NVIC_EnableIRQ (int i)"
| "reg_call (Disable_IRQ i) = NVIC_DisableIRQ (int i)"

definition grouped :: "port \<Rightarrow> bool" where "grouped r \<longleftrightarrow> NVIC_GetPriorityGrouping r = 3 \<and> prio_mask r = 0xF0"

lemma encode_all_preempt: "take_bit 4 (NVIC_EncodePriority 3 p q) = take_bit 4 p"
proof -
  have "pre_bits 3 = 4" "sub_bits 3 = 0" by (simp_all add: pre_bits_def sub_bits_def)
  then show ?thesis unfolding NVIC_EncodePriority_def Let_def group_bits low_bits by simp
qed

lemma call_frame:
  "prio_mask (reg_call c r) = prio_mask r" "NVIC_GetPriorityGrouping (reg_call c r) = NVIC_GetPriorityGrouping r"
  by (cases c; simp add: NVIC_HAL_SetPriority_def NVIC_SetPriority_def NVIC_EnableIRQ_def NVIC_DisableIRQ_def write_IP_def write_SHP_def
      write_ISER_def write_ICER_def Let_def NVIC_GetPriorityGrouping_def)+

interpretation registers: irq_controller reg_call irq_on "\<lambda>r i. unat (NVIC_GetPriority (int i) r)" grouped
proof
  fix r c i assume g: "grouped r" and c: "call_ok c" and i: "i < (240 :: nat)"
  have frame: "irq_on (NVIC_HAL_SetPriority j p q r) = irq_on r" "NVIC_GetPriority j (NVIC_EnableIRQ k r) = NVIC_GetPriority j r"
    "NVIC_GetPriority j (NVIC_DisableIRQ k r) = NVIC_GetPriority j r" for j k p q
    by (auto simp: NVIC_HAL_SetPriority_def NVIC_SetPriority_def NVIC_EnableIRQ_def NVIC_DisableIRQ_def write_IP_def write_SHP_def
      write_ISER_def write_ICER_def Let_def NVIC_GetPriority_def irq_on_def fun_eq_iff)
  show "irq_on (reg_call c r) i = spec_on c (irq_on r) i"
    using c i by (cases c) (auto simp: frame enable_on disable_on)
  have "unat (take_bit 4 (of_nat p :: u32)) = p" if "p < 16" for p
    using that by (simp add: unsigned_take_bit_eq unat_of_nat take_bit_nat_eq_self)
  then show "unat (NVIC_GetPriority (int i) (reg_call c r)) = spec_prio c (\<lambda>i. unat (NVIC_GetPriority (int i) r)) i"
    using c i g get_set_priority[of r] by (cases c) (auto simp: frame NVIC_HAL_SetPriority_def Let_def grouped_def encode_all_preempt)
qed (simp add: grouped_def call_frame)

text \<open>
  C26: the interrupt controller refines the view the rest of the development takes of it. From the state after a reset, with the
  priority group that \<^verbatim>\<open>HAL_Init\<close> sets, any sequence of calls that set priorities (below 16) and enable or disable interrupts leaves
  exactly the interrupts enabled, and at exactly the preemption priorities, that the view has; the sub-priority of every
  interrupt reads as 0, whatever was asked for.
\<close>

theorem nvic_refines_board:
  assumes "ISER r = (\<lambda>_. 0)" and "IP r = (\<lambda>_. 0)" and "prio_mask r = 0xF0"
    and "\<forall>i < 240. \<not> nvic_on b i \<and> fst (nvic_prio b i) = 0" and "list_all call_ok cs" and "i < 240"
  shows "NVIC_GetEnableIRQ (int i) (fold reg_call cs (NVIC_SetPriorityGrouping 3 r)) = (if nvic_on (fold board_call cs b) i then 1 else 0) \<and>
    NVIC_HAL_GetPriority (int i) 3 (fold reg_call cs (NVIC_SetPriorityGrouping 3 r)) = (of_nat (fst (nvic_prio (fold board_call cs b) i)), 0)"
proof -
  let ?r = "NVIC_SetPriorityGrouping 3 r"
  have g: "grouped ?r" using assms(3) group_read[of 3 r] by (simp add: grouped_def)
  have z: "\<forall>i < 240. irq_on ?r i = False" "\<forall>i < 240. unat (NVIC_GetPriority (int i) ?r) = 0"
    using assms(1,2) by (simp_all add: irq_on_def NVIC_GetPriority_def)
  have b: "\<forall>i < 240. nvic_on b i = False" "\<forall>i < 240. fst (nvic_prio b i) = 0" using assms(4) by auto
  note 1 = registers.calls[OF g assms(5) z] and 2 = bview.calls[OF TrueI assms(5) b]
  have "of_nat (fst (nvic_prio (fold board_call cs b) i)) = NVIC_GetPriority (int i) (fold reg_call cs ?r)"
  proof -
    have "fst (nvic_prio (fold board_call cs b) i) = unat (NVIC_GetPriority (int i) (fold reg_call cs ?r))" using 1 2 assms(6) by simp
    then show ?thesis by simp
  qed
  moreover have "NVIC_DecodePriority (NVIC_GetPriority j x) 3 = (NVIC_GetPriority j x, 0)" for j x
  proof -
    have "pre_bits 3 = 4" "sub_bits 3 = 0" by (simp_all add: pre_bits_def sub_bits_def)
    moreover have "take_bit 4 (drop_bit 4 (ucast (y :: u8) :: u32)) = drop_bit 4 (ucast y)" for y
      by (rule bit_word_eqI) (auto simp: bit_simps dest: bit_imp_le_length)
    ultimately show ?thesis unfolding NVIC_DecodePriority_def Let_def group_bits low_bits by (simp add: NVIC_GetPriority_def NVIC_PRIO_BITS_def)
  qed
  ultimately show ?thesis using 1 2 assms(6) by (simp add: get_enable NVIC_HAL_GetPriority_def)
qed

definition reset_port :: port where
  "reset_port = \<lparr>AIRCR = 0xFA050000, ISER = \<lambda>_. 0, ISPR = \<lambda>_. 0, IABR = \<lambda>_. 0, IP = \<lambda>_. 0, SHP = \<lambda>_. 0, prio_mask = 0xF0, BASEPRI = 0, IPSR = 0,
     SYST_CTRL = 0, SYST_LOAD = 0, SYST_VAL = 0, uxCriticalNesting = 0xAAAAAAAA, ucMaxSysCallPriority = 0, ulMaxPRIGROUPValue = 0\<rparr>"

theorem nvic_refines_board_witness:
  "NVIC_HAL_GetPriority 95 3 (fold reg_call [Set_Priority 96 0 1, Enable_IRQ 96, Set_Priority 95 5 2, Enable_IRQ 95, Disable_IRQ 96]
     (NVIC_SetPriorityGrouping 3 reset_port)) = (5, 0)"
  using nvic_refines_board[of reset_port blank_board "[Set_Priority 96 0 1, Enable_IRQ 96, Set_Priority 95 5 2, Enable_IRQ 95, Disable_IRQ 96]" 95]
  by (simp add: reset_port_def blank_board_def HAL_NVIC_SetPriority_def HAL_NVIC_EnableIRQ_def HAL_NVIC_DisableIRQ_def)

section \<open>Critical sections\<close>

datatype crit = Enter | Leave

fun crit_call :: "crit \<Rightarrow> port \<Rightarrow> port option" where
  "crit_call Enter = vPortEnterCritical"
| "crit_call Leave = vPortExitCritical"

fun depth :: "crit list \<Rightarrow> nat \<Rightarrow> nat option" where
  "depth [] d = Some d"
| "depth (Enter # cs) d = depth cs (Suc d)"
| "depth (Leave # cs) 0 = None"
| "depth (Leave # cs) (Suc d) = depth cs d"

lemma max_syscall: "configMAX_SYSCALL_INTERRUPT_PRIORITY = 0x50" by (simp add: port_consts)

lemma enter_critical: "IPSR r = 0 \<Longrightarrow> vPortEnterCritical (r\<lparr>uxCriticalNesting := n, BASEPRI := p\<rparr>) = Some (r\<lparr>uxCriticalNesting := n + 1, BASEPRI := 0x50\<rparr>)"
  by (simp add: vPortEnterCritical_def vPortRaiseBASEPRI_def configASSERT_def max_syscall Let_def)

lemma exit_critical:
  "vPortExitCritical (r\<lparr>uxCriticalNesting := n + 1, BASEPRI := p\<rparr>) =
    (if n + 1 = 0 then None else Some (r\<lparr>uxCriticalNesting := n, BASEPRI := if n = 0 then 0 else p\<rparr>))"
  "vPortExitCritical (r\<lparr>uxCriticalNesting := 0, BASEPRI := p\<rparr>) = None"
  by (simp_all add: vPortExitCritical_def vPortSetBASEPRI_def configASSERT_def Let_def)

lemma nesting_small: "n < 2 ^ 32 \<Longrightarrow> (of_nat n = (0 :: u32)) \<longleftrightarrow> n = 0"
  by (simp add: word_unat_eq_iff unat_of_nat take_bit_nat_eq_self)

lemma crit_run:
  assumes "IPSR r = 0" and "length cs + d < 2 ^ 32"
  shows "steps (map crit_call cs) (r\<lparr>uxCriticalNesting := of_nat d, BASEPRI := if d = 0 then 0 else 0x50\<rparr>) =
    map_option (\<lambda>n. r\<lparr>uxCriticalNesting := of_nat n, BASEPRI := if n = 0 then 0 else 0x50\<rparr>) (depth cs d)"
  using assms(2)
proof (induction cs d rule: depth.induct)
  case (2 cs d)
  then show ?case by (auto simp: enter_critical[OF assms(1)] add.commute)
next
  case (4 cs d)
  have "(of_nat d + 1 = (0 :: u32)) = False" "(of_nat d = (0 :: u32)) = (d = 0)"
    using nesting_small[of "Suc d"] nesting_small[of d] 4(2) by (simp_all add: add.commute)
  then show ?case using 4 exit_critical(1)[of "0x50" "of_nat d" r] by (simp add: add.commute)
qed (simp_all add: exit_critical(2))

lemma nesting_early: "k < 0x55555556 \<Longrightarrow> (0xAAAAAAAA + of_nat k = (0 :: u32)) = False"
proof -
  assume k: "k < 0x55555556"
  then have "unat (of_nat k :: u32) = k" by (simp add: unat_of_nat take_bit_nat_eq_self)
  then have "unat (0xAAAAAAAA + of_nat k :: u32) = 0xAAAAAAAA + k" using k by (simp add: unat_word_ariths(1))
  then show ?thesis by (metis add_is_0 unat_0 zero_neq_numeral)
qed

lemma crit_run_early:
  assumes "IPSR r = 0" and "length cs + d < 0x55555556" and "depth cs d = Some n"
  shows "steps (map crit_call cs) (r\<lparr>uxCriticalNesting := 0xAAAAAAAA + of_nat d, BASEPRI := 0x50\<rparr>) =
    Some (r\<lparr>uxCriticalNesting := 0xAAAAAAAA + of_nat n, BASEPRI := 0x50\<rparr>)"
  using assms(2,3)
proof (induction cs d rule: depth.induct)
  case (2 cs d)
  then show ?case by (simp add: enter_critical[OF assms(1)] add.commute add.left_commute)
next
  case (4 cs d)
  then show ?case using exit_critical(1)[of "0x50" "0xAAAAAAAA + of_nat d" r] nesting_early[of d] nesting_early[of "Suc d"]
    by (simp add: add.commute add.left_commute)
qed simp_all

section \<open>Starting the scheduler\<close>

lemma prigroup_four: "prigroup_loop 0xF0 7 = 3"
  by (simp add: prigroup_loop.simps[of 240] prigroup_loop.simps[of 480] prigroup_loop.simps[of 960] prigroup_loop.simps[of 1920]
      prigroup_loop.simps[of 3840])

definition started :: "u32 \<Rightarrow> port \<Rightarrow> port" where
  "started clk r = r\<lparr>IP := (IP r)(0 := IP r 0 AND 0xF0), SHP := (SHP r)(10 := (SHP r 10 OR 0xF0) AND 0xF0, 11 := (SHP r 11 OR 0xF0) AND 0xF0),
     BASEPRI := 0, SYST_CTRL := 7, SYST_LOAD := (clk div 1000 - 1) AND 0xFFFFFF, SYST_VAL := 0, uxCriticalNesting := 0,
     ucMaxSysCallPriority := 0x50, ulMaxPRIGROUPValue := 0x300\<rparr>"

lemma start_scheduler:
  assumes "prio_mask r = 0xF0"
  shows "xPortStartScheduler cpuid clk r = (if cpuid = 0x410FC271 \<or> cpuid = 0x410FC270 then None else Some (started clk r))"
  using assms
  by (simp add: xPortStartScheduler_def check_priority_bits_def configASSERT_def port_consts write_IP_def write_SHP_def Let_def prigroup_four
      vPortSetupTimerInterrupt_def vPortSetBASEPRI_def configTICK_RATE_HZ_def started_def)

lemma byte_priority: "(0x50 \<le> (w :: u8)) \<longleftrightarrow> 5 \<le> unat (drop_bit 4 (ucast w :: u32))"
proof -
  have "unat (ucast w :: u32) = unat w" using unsigned_less[of w, where ?'a = nat] by (simp add: unsigned_ucast_eq take_bit_nat_eq_self)
  then have "unat (drop_bit 4 (ucast w :: u32)) = unat w div 16" by (simp add: drop_bit_eq_div unat_div)
  then show ?thesis by (simp add: word_le_nat_alt) linarith
qed

definition preempt_prio :: "port \<Rightarrow> nat \<Rightarrow> nat" where "preempt_prio r i = unat (NVIC_GetPriority (int i) r)"

lemma masked_iff: "BASEPRI r = 0x50 \<Longrightarrow> masked r i \<longleftrightarrow> 5 \<le> preempt_prio r i" "BASEPRI r = 0 \<Longrightarrow> \<not> masked r i"
  by (simp_all add: masked_def preempt_prio_def NVIC_GetPriority_def NVIC_PRIO_BITS_def byte_priority)

lemma preempt_frame [simp]: "preempt_prio (r\<lparr>uxCriticalNesting := n, BASEPRI := p\<rparr>) i = preempt_prio r i"
  by (simp add: preempt_prio_def NVIC_GetPriority_def)

text \<open>
  C29: critical sections protect the kernel. After the scheduler has started, in a task, every sequence of entries and exits that never leaves more
  often than it enters runs through; inside at least one section exactly the interrupts of priority 5 to 15 are masked, outside
  none is, and no priority changes. A sequence that leaves once too often stops at an assertion.
\<close>

theorem critical_sections_mask:
  assumes "prio_mask r0 = 0xF0" and "xPortStartScheduler cpuid clk r0 = Some r" and "IPSR r0 = 0" and "length cs < 2 ^ 32"
  shows "case depth cs 0 of
      None \<Rightarrow> steps (map crit_call cs) r = None
    | Some d \<Rightarrow> \<exists>r'. steps (map crit_call cs) r = Some r' \<and> unat (uxCriticalNesting r') = d \<and>
        (\<forall>i. (masked r' i \<longleftrightarrow> 0 < d \<and> 5 \<le> preempt_prio r i) \<and> preempt_prio r' i = preempt_prio r i)"
proof -
  have r: "r = started clk r0" using assms(1,2) by (simp add: start_scheduler split: if_splits)
  then have s: "r\<lparr>uxCriticalNesting := of_nat 0, BASEPRI := if 0 = (0 :: nat) then 0 else 0x50\<rparr> = r" "IPSR r = 0"
    using assms(3) by (simp_all add: started_def)
  have bound: "depth cs n = Some d \<Longrightarrow> d \<le> length cs + n" for n d by (induction cs n rule: depth.induct) auto
  have "unat (of_nat d :: u32) = d" if "depth cs 0 = Some d" for d
    using bound[OF that] assms(4) by (simp add: unat_of_nat take_bit_nat_eq_self)
  then show ?thesis using crit_run[OF s(2), of cs 0] assms(4) unfolding s(1)
    by (auto split: option.split simp: masked_iff)
qed

text \<open>
  C38: masked until the start. The count of nested sections starts at 0xAAAAAAAA, so a kernel function called before the
  scheduler runs leaves the interrupts of priority 5 to 15 masked when it returns, and the start of the scheduler opens them. The
  tick of the HAL and the mailbox interrupts are among these: between the creation of the first kernel object in \<^verbatim>\<open>main\<close> and
  \<^verbatim>\<open>osKernelStart\<close>, where \<^verbatim>\<open>system_run\<close> is called, neither is served.
\<close>

theorem masked_before_start:
  assumes "prio_mask r = 0xF0" and "uxCriticalNesting r = 0xAAAAAAAA" and "IPSR r = 0" and "cs \<noteq> []" and "depth cs 0 = Some d"
    and "length cs < 0x55555556" and "cpuid \<noteq> 0x410FC271" and "cpuid \<noteq> 0x410FC270"
  shows "\<exists>r' r''. steps (map crit_call cs) r = Some r' \<and> (\<forall>i. masked r' i \<longleftrightarrow> 5 \<le> preempt_prio r i) \<and>
    xPortStartScheduler cpuid clk r' = Some r'' \<and> (\<forall>i. \<not> masked r'' i) \<and> uxCriticalNesting r'' = 0"
proof -
  obtain cs' where cs: "cs = Enter # cs'" using assms(4,5) by (metis crit.exhaust depth.simps(3) list.exhaust option.distinct(1))
  have e: "r = r\<lparr>uxCriticalNesting := 0xAAAAAAAA, BASEPRI := BASEPRI r\<rparr>" using assms(2) by simp
  have "vPortEnterCritical r = Some (r\<lparr>uxCriticalNesting := 0xAAAAAAAA + of_nat 1, BASEPRI := 0x50\<rparr>)"
    using enter_critical[OF assms(3), of "BASEPRI r" "0xAAAAAAAA"] e by simp
  then have "steps (map crit_call cs) r = Some (r\<lparr>uxCriticalNesting := 0xAAAAAAAA + of_nat d, BASEPRI := 0x50\<rparr>)"
    using crit_run_early[OF assms(3), of cs' 1 d] assms(5,6) unfolding cs by simp
  then show ?thesis using assms(1,7,8) by (simp add: start_scheduler masked_iff started_def)
qed

text \<open>
  C39: the kernel's check of its callers is exact. After the start with the priority group of \<^verbatim>\<open>HAL_Init\<close>, a kernel function called from the
  handler of device interrupt \<open>i\<close> passes the check just if the priority of \<open>i\<close> is one that critical sections mask; from the
  exceptions of the processor and from tasks it always passes. The system timer has the largest whole number of cycles per tick that
  does not exceed a millisecond, for every core clock from 1 kHz up to 16.7 GHz.
\<close>

theorem kernel_checks_callers:
  assumes "prio_mask r0 = 0xF0" and "NVIC_GetPriorityGrouping r0 = 3" and "xPortStartScheduler cpuid clk r0 = Some r"
  shows "vPortValidateInterruptPriority (r\<lparr>IPSR := v\<rparr>) =
      (if 16 \<le> v \<and> preempt_prio r (unat v - 16) < 5 then None else Some (r\<lparr>IPSR := v\<rparr>)) \<and>
    (16 \<le> v \<longrightarrow> (vPortValidateInterruptPriority (r\<lparr>IPSR := v\<rparr>) \<noteq> None \<longleftrightarrow> masked (r\<lparr>BASEPRI := configMAX_SYSCALL_INTERRUPT_PRIORITY\<rparr>) (unat v - 16))) \<and>
    (1000 \<le> clk \<longrightarrow> unat clk div 1000 \<le> 2 ^ 24 \<longrightarrow> unat (SYST_LOAD r) + 1 = unat clk div 1000)"
proof -
  have r: "r = started clk r0" using assms(1,3) by (simp add: start_scheduler split: if_splits)
  have m: "(7 :: u32) = mask 3" by (simp add: mask_eq_exp_minus_1)
  have "drop_bit 8 (AIRCR r0 AND push_bit 8 7) = 3" using assms(2) by (simp add: NVIC_GetPriorityGrouping_def aircr_consts)
  then have "push_bit 8 (drop_bit 8 (AIRCR r0 AND push_bit 8 7)) = 0x300" by simp
  moreover have "push_bit 8 (drop_bit 8 (AIRCR r0 AND push_bit 8 7)) = AIRCR r0 AND push_bit 8 7"
    unfolding m by (rule bit_word_eqI) (auto simp: bit_simps)
  ultimately have g: "AIRCR r0 AND 0x700 = 0x300" by simp
  have f: "AIRCR r = AIRCR r0" "ucMaxSysCallPriority r = 0x50" "ulMaxPRIGROUPValue r = 0x300" by (simp_all add: r started_def)
  have p: "0x50 \<le> IP r i \<longleftrightarrow> \<not> preempt_prio r i < 5" for i
    by (simp add: preempt_prio_def NVIC_GetPriority_def NVIC_PRIO_BITS_def byte_priority not_less)
  have v: "vPortValidateInterruptPriority (r\<lparr>IPSR := v\<rparr>) = (if 16 \<le> v \<and> preempt_prio r (unat v - 16) < 5 then None else Some (r\<lparr>IPSR := v\<rparr>))"
    using g by (simp add: vPortValidateInterruptPriority_def configASSERT_def f p portPRIORITY_GROUP_MASK_def)
  moreover have "masked (r\<lparr>BASEPRI := configMAX_SYSCALL_INTERRUPT_PRIORITY\<rparr>) i \<longleftrightarrow> \<not> preempt_prio r i < 5" for i
    using p[of i] by (simp add: masked_def max_syscall)
  moreover have "unat (SYST_LOAD r) + 1 = unat clk div 1000" if c: "1000 \<le> clk" "unat clk div 1000 \<le> 2 ^ 24"
  proof -
    have q: "unat (clk div 1000) = unat clk div 1000" by (simp add: unat_div)
    have n: "0 < unat clk div 1000" using c(1) by (simp add: word_le_nat_alt div_greater_zero_iff)
    then have "clk div 1000 \<noteq> 0" using q by (metis unat_0 less_irrefl)
    then have u: "unat (clk div 1000 - 1) = unat clk div 1000 - 1" using q by (simp add: unat_minus_one)
    have "(0xFFFFFF :: u32) = mask 24" by (simp add: mask_eq_exp_minus_1)
    then have "SYST_LOAD r = take_bit 24 (clk div 1000 - 1)" by (simp only: take_bit_eq_mask) (simp add: r started_def)
    then have "unat (SYST_LOAD r) = take_bit 24 (unat (clk div 1000 - 1))" by (simp only: unsigned_take_bit_eq)
    then show ?thesis using u c(2) n by (simp add: take_bit_nat_eq_self)
  qed
  ultimately show ?thesis by auto
qed

definition demo_port :: port where "demo_port = (NVIC_SetPriorityGrouping 3 reset_port)\<lparr>IP := (\<lambda>_. 0)(25 := 0xF0, 103 := 0x50)\<rparr>"

lemma demo_port_simps:
  "prio_mask demo_port = 0xF0" "IPSR demo_port = 0" "uxCriticalNesting demo_port = 0xAAAAAAAA" "NVIC_GetPriorityGrouping demo_port = 3"
  "preempt_prio demo_port 25 = 15" "preempt_prio demo_port 103 = 5" "preempt_prio demo_port 145 = 0"
  by (simp_all add: demo_port_def reset_port_def NVIC_SetPriorityGrouping_def write_AIRCR_def aircr_consts NVIC_GetPriorityGrouping_def
      preempt_prio_def NVIC_GetPriority_def NVIC_PRIO_BITS_def)

lemma demo_start: "xPortStartScheduler 0x410FC241 209000000 demo_port = Some (started 209000000 demo_port)"
  by (simp add: start_scheduler demo_port_simps)

lemma demo_started_prio: "preempt_prio (started c demo_port) 103 = 5" "preempt_prio (started c demo_port) 145 = 0"
  using demo_port_simps(6,7) by (simp_all add: preempt_prio_def NVIC_GetPriority_def started_def)

theorem critical_sections_mask_witness:
  "\<exists>r'. steps (map crit_call [Enter, Enter, Leave]) (started 209000000 demo_port) = Some r' \<and> masked r' 103 \<and> \<not> masked r' 145"
  using critical_sections_mask[OF demo_port_simps(1) demo_start demo_port_simps(2), of "[Enter, Enter, Leave]"]
  by (auto simp: demo_started_prio)

theorem masked_before_start_witness:
  "\<exists>r' r''. steps (map crit_call [Enter, Leave]) demo_port = Some r' \<and> masked r' 25 \<and>
     xPortStartScheduler 0x410FC241 209000000 r' = Some r'' \<and> \<not> masked r'' 25"
proof -
  obtain r' r'' where "steps (map crit_call [Enter, Leave]) demo_port = Some r'" "\<forall>i. masked r' i \<longleftrightarrow> 5 \<le> preempt_prio demo_port i"
    "xPortStartScheduler 0x410FC241 209000000 r' = Some r''" "\<forall>i. \<not> masked r'' i"
    using masked_before_start[OF demo_port_simps(1,3,2), of "[Enter, Leave]" 0 "0x410FC241" 209000000] by auto
  then show ?thesis using demo_port_simps(5) by (intro exI[of _ r'] exI[of _ r'']) simp
qed

theorem kernel_checks_callers_witness:
  "vPortValidateInterruptPriority ((started 209000000 demo_port)\<lparr>IPSR := 161\<rparr>) = None \<and>
   vPortValidateInterruptPriority ((started 209000000 demo_port)\<lparr>IPSR := 119\<rparr>) \<noteq> None \<and> unat (SYST_LOAD (started 209000000 demo_port)) = 208999"
  using kernel_checks_callers[OF demo_port_simps(1,4) demo_start, of 161] kernel_checks_callers[OF demo_port_simps(1,4) demo_start, of 119]
  by (simp add: demo_started_prio)

end
