(* ===== verification/Core_Sys.thy ===== *)
theory Core_Sys
  imports Nvic "HOL-Library.Monad_Syntax"
begin

unbundle bit_operations_syntax

text \<open>
  Services of the firmware below the application: the HAL tick on TIM1 (\<^verbatim>\<open>HAL_TIM_IRQHandler\<close> of \<^verbatim>\<open>stm32mp1xx_hal_tim.c\<close>, the callback of
  \<^verbatim>\<open>main.c\<close>, \<^verbatim>\<open>HAL_IncTick\<close>, \<^verbatim>\<open>HAL_GetTick\<close> and \<^verbatim>\<open>HAL_Delay\<close> of \<^verbatim>\<open>stm32mp1xx_hal.c\<close>, suspending and resuming in
  \<^verbatim>\<open>stm32mp1xx_hal_timebase_tim.c\<close>), the heap end of the C library (\<^verbatim>\<open>_sbrk\<close> of \<^verbatim>\<open>sysmem.c\<close>), the character output and input of \<^verbatim>\<open>syscalls.c\<close>, and
  the thread that blinks the orange LED (\<^verbatim>\<open>ledAliveRunner\<close> of \<^verbatim>\<open>main.c\<close>).
\<close>

section \<open>Time base\<close>

record timebase =
  TIM_SR :: u32
  TIM_DIER :: u32
  TIM_CCMR1 :: u32
  TIM_CCMR2 :: u32
  htim1_Instance :: bool
  tim1_irq :: bool
  uwTick :: u32
  uwTickFreq :: u32
  callbacks :: "string list"

definition TIM_IT_UPDATE :: u32 where "TIM_IT_UPDATE = 0x1"
definition TIM_IT_CC1 :: u32 where "TIM_IT_CC1 = 0x2"
definition TIM_IT_CC2 :: u32 where "TIM_IT_CC2 = 0x4"
definition TIM_IT_CC3 :: u32 where "TIM_IT_CC3 = 0x8"
definition TIM_IT_CC4 :: u32 where "TIM_IT_CC4 = 0x10"
definition TIM_IT_COM :: u32 where "TIM_IT_COM = 0x20"
definition TIM_IT_TRIGGER :: u32 where "TIM_IT_TRIGGER = 0x40"
definition TIM_IT_BREAK :: u32 where "TIM_IT_BREAK = 0x80"
definition TIM_FLAG_BREAK2 :: u32 where "TIM_FLAG_BREAK2 = 0x100"

lemmas tim_bits = TIM_IT_UPDATE_def TIM_IT_CC1_def TIM_IT_CC2_def TIM_IT_CC3_def TIM_IT_CC4_def TIM_IT_COM_def TIM_IT_TRIGGER_def TIM_IT_BREAK_def
  TIM_FLAG_BREAK2_def

definition HAL_IncTick :: "timebase \<Rightarrow> timebase" where
  "HAL_IncTick t = t\<lparr>uwTick := uwTick t + uwTickFreq t\<rparr>"

definition HAL_GetTick :: "timebase \<Rightarrow> u32" where "HAL_GetTick t = uwTick t"

text \<open>The callback of \<^verbatim>\<open>main.c\<close>; its test that the timer is TIM1 holds for the only timer of the firmware.\<close>

definition HAL_TIM_PeriodElapsedCallback :: "timebase \<Rightarrow> timebase" where
  "HAL_TIM_PeriodElapsedCallback t = HAL_IncTick t"

definition HAL_SuspendTick :: "timebase \<Rightarrow> timebase" where
  "HAL_SuspendTick t = t\<lparr>TIM_DIER := TIM_DIER t AND NOT TIM_IT_UPDATE\<rparr>"

definition HAL_ResumeTick :: "timebase \<Rightarrow> timebase" where
  "HAL_ResumeTick t = t\<lparr>TIM_DIER := TIM_DIER t OR TIM_IT_UPDATE\<rparr>"

text \<open>A write of zeros to the status register clears the flags.\<close>

definition tim_event :: "u32 \<Rightarrow> u32 \<Rightarrow> (timebase \<Rightarrow> timebase) \<Rightarrow> timebase \<Rightarrow> timebase" where
  "tim_event flag it cb t =
     (if TIM_SR t AND flag = flag \<and> TIM_DIER t AND it = it then cb (t\<lparr>TIM_SR := TIM_SR t AND NOT flag\<rparr>) else t)"

text \<open>The weak callbacks are empty; the calls are recorded.\<close>

definition weak_callback :: "string \<Rightarrow> timebase \<Rightarrow> timebase" where
  "weak_callback n t = t\<lparr>callbacks := callbacks t @ [n]\<rparr>"

definition capture_compare :: "(timebase \<Rightarrow> u32) \<Rightarrow> u32 \<Rightarrow> timebase \<Rightarrow> timebase" where
  "capture_compare ccmr sel t =
     (if ccmr t AND sel \<noteq> 0 then weak_callback ''IC_Capture'' t
      else weak_callback ''PWM_PulseFinished'' (weak_callback ''OC_DelayElapsed'' t))"

definition HAL_TIM_IRQHandler :: "timebase \<Rightarrow> timebase" where
  "HAL_TIM_IRQHandler t =
     (let t = tim_event TIM_IT_CC1 TIM_IT_CC1 (capture_compare TIM_CCMR1 0x3) t;
          t = tim_event TIM_IT_CC2 TIM_IT_CC2 (capture_compare TIM_CCMR1 0x300) t;
          t = tim_event TIM_IT_CC3 TIM_IT_CC3 (capture_compare TIM_CCMR2 0x3) t;
          t = tim_event TIM_IT_CC4 TIM_IT_CC4 (capture_compare TIM_CCMR2 0x300) t;
          t = tim_event TIM_IT_UPDATE TIM_IT_UPDATE HAL_TIM_PeriodElapsedCallback t;
          t = tim_event TIM_IT_BREAK TIM_IT_BREAK (weak_callback ''Break'') t;
          t = tim_event TIM_FLAG_BREAK2 TIM_IT_BREAK (weak_callback ''Break2'') t;
          t = tim_event TIM_IT_TRIGGER TIM_IT_TRIGGER (weak_callback ''Trigger'') t
      in tim_event TIM_IT_COM TIM_IT_COM (weak_callback ''Commutation'') t)"

definition TIM1_UP_IRQHandler :: "timebase \<Rightarrow> timebase" where
  "TIM1_UP_IRQHandler t = (if htim1_Instance t then HAL_TIM_IRQHandler t else t\<lparr>tim1_irq := False\<rparr>)"

text \<open>The delay loop over the successive values that \<^verbatim>\<open>HAL_GetTick\<close> returns; the result is the number of the reading that ends it.\<close>

definition HAL_MAX_DELAY :: u32 where "HAL_MAX_DELAY = 0xFFFFFFFF"

partial_function (option) delay_loop :: "(nat \<Rightarrow> u32) \<Rightarrow> u32 \<Rightarrow> u32 \<Rightarrow> nat \<Rightarrow> nat option" where
  "delay_loop ticks tickstart wait k = (if ticks k - tickstart < wait then delay_loop ticks tickstart wait (Suc k) else Some k)"

definition HAL_Delay :: "u32 \<Rightarrow> (nat \<Rightarrow> u32) \<Rightarrow> u32 \<Rightarrow> nat option" where
  "HAL_Delay freq ticks Delay =
     (let tickstart = ticks 0;
          wait = (if Delay < HAL_MAX_DELAY then Delay + freq else Delay)
      in delay_loop ticks tickstart wait 1)"

section \<open>The heap of the C library\<close>

text \<open>The symbols of the linker script are parameters; the state is the end of the heap, null before the first call, and \<^verbatim>\<open>errno\<close>.\<close>

record link_symbols =
  sym_end :: u32
  sym_estack :: u32
  sym_Min_Stack_Size :: u32

record c_heap =
  sbrk_heap_end :: u32
  errno_nomem :: bool

definition max_heap :: "link_symbols \<Rightarrow> u32" where "max_heap l = sym_estack l - sym_Min_Stack_Size l"

definition sbrk :: "link_symbols \<Rightarrow> u32 \<Rightarrow> c_heap \<Rightarrow> u32 \<times> c_heap" where
  "sbrk l incr h =
     (let h = (if sbrk_heap_end h = 0 then h\<lparr>sbrk_heap_end := sym_end l\<rparr> else h)
      in if sbrk_heap_end h + incr > max_heap l then (- 1, h\<lparr>errno_nomem := True\<rparr>)
         else (sbrk_heap_end h, h\<lparr>sbrk_heap_end := sbrk_heap_end h + incr\<rparr>))"

section \<open>Characters\<close>

text \<open>\<^verbatim>\<open>_write\<close> sends to the trace port, \<^verbatim>\<open>_read\<close> asks \<^verbatim>\<open>__io_getchar\<close>; both ignore the file and report the whole length. A negative length does nothing.\<close>

fun write_chars_loop :: "u8 list \<Rightarrow> nat \<Rightarrow> u8 list \<Rightarrow> u8 list" where
  "write_chars_loop ptr 0 itm = itm"
| "write_chars_loop ptr (Suc n) itm = write_chars_loop (tl ptr) n (itm @ [hd ptr])"

definition write_chars :: "u8 list \<Rightarrow> int \<Rightarrow> u8 list \<Rightarrow> int \<times> u8 list" where
  "write_chars ptr len itm = (len, write_chars_loop ptr (nat len) itm)"

fun read_chars_loop :: "nat \<Rightarrow> u8 list \<Rightarrow> (nat \<Rightarrow> u8) \<Rightarrow> nat \<Rightarrow> u8 list" where
  "read_chars_loop 0 buf getchar k = buf"
| "read_chars_loop (Suc n) buf getchar k = read_chars_loop n (buf @ [getchar k]) getchar (Suc k)"

definition read_chars :: "int \<Rightarrow> (nat \<Rightarrow> u8) \<Rightarrow> nat \<Rightarrow> int \<times> u8 list" where
  "read_chars len getchar k = (len, read_chars_loop (nat len) [] getchar k)"

section \<open>The heartbeat thread\<close>

definition LED_ORANGE :: Led_TypeDef where "LED_ORANGE = LED7"

fun led_rounds :: "nat \<Rightarrow> 'z board_scheme \<Rightarrow> 'z board_scheme" where
  "led_rounds 0 b = b"
| "led_rounds (Suc k) b = led_rounds k (snd (BSP_LED_Toggle LED_ORANGE b))"

text \<open>The state of the board after \<open>k\<close> rounds of the endless loop; the delays between them do not touch it.\<close>

definition ledAliveRunner :: "(nat \<Rightarrow> lock_env) \<Rightarrow> nat \<Rightarrow> 'z board_scheme \<Rightarrow> 'z board_scheme option" where
  "ledAliveRunner le k b = do { (_, b) \<leftarrow> BSP_LED_Init le LED_ORANGE b; Some (led_rounds k b) }"

section \<open>Ticks\<close>

text \<open>What can happen to the time base, and the counter it implements: an overflow that is served while the interrupt is on counts once.\<close>

datatype tick_event = Overflow | Serve | Suspend | Resume

fun tb_step :: "tick_event \<Rightarrow> timebase \<Rightarrow> timebase" where
  "tb_step Overflow t = t\<lparr>TIM_SR := TIM_SR t OR TIM_IT_UPDATE\<rparr>"
| "tb_step Serve t = TIM1_UP_IRQHandler t"
| "tb_step Suspend t = HAL_SuspendTick t"
| "tb_step Resume t = HAL_ResumeTick t"

record counter =
  due :: bool
  running :: bool
  count :: nat

fun counter_step :: "tick_event \<Rightarrow> counter \<Rightarrow> counter" where
  "counter_step Overflow c = c\<lparr>due := True\<rparr>"
| "counter_step Serve c = (if due c \<and> running c then c\<lparr>due := False, count := Suc (count c)\<rparr> else c)"
| "counter_step Suspend c = c\<lparr>running := False\<rparr>"
| "counter_step Resume c = c\<lparr>running := True\<rparr>"

text \<open>The part of the time base that the tick depends on: no event but the update touches it.\<close>

definition tb_core :: "timebase \<Rightarrow> bool \<times> bool \<times> u32 \<times> u32 \<times> bool" where
  "tb_core t = (bit (TIM_SR t) 0, bit (TIM_DIER t) 0, uwTick t, uwTickFreq t, htim1_Instance t)"

lemma update_bit: "(w AND 1 = (1 :: u32)) \<longleftrightarrow> bit w 0" by (simp add: and_one_eq bit_0 odd_iff_mod_2_eq_one)

lemma tb_core_event:
  assumes "\<And>t. tb_core (cb t) = tb_core t" and "\<not> bit flag 0"
  shows "tb_core (tim_event flag it cb t) = tb_core t"
  using assms(2) by (simp add: tim_event_def assms(1)) (simp add: tb_core_def bit_and_iff bit_not_iff)

lemma other_bits:
  "\<not> bit TIM_IT_CC1 0" "\<not> bit TIM_IT_CC2 0" "\<not> bit TIM_IT_CC3 0" "\<not> bit TIM_IT_CC4 0" "\<not> bit TIM_IT_COM 0" "\<not> bit TIM_IT_TRIGGER 0"
  "\<not> bit TIM_IT_BREAK 0" "\<not> bit TIM_FLAG_BREAK2 0"
  by (simp_all add: tim_bits bit_0)

lemma tb_core_weak [simp]: "tb_core (weak_callback n t) = tb_core t" "tb_core (capture_compare c m t) = tb_core t"
  by (simp_all add: weak_callback_def capture_compare_def tb_core_def)

lemma handler_core:
  "tb_core (HAL_TIM_IRQHandler t) =
    (if bit (TIM_SR t) 0 \<and> bit (TIM_DIER t) 0 then (False, True, uwTick t + uwTickFreq t, uwTickFreq t, htim1_Instance t) else tb_core t)"
proof -
  have u: "tb_core (tim_event TIM_IT_UPDATE TIM_IT_UPDATE HAL_TIM_PeriodElapsedCallback x) =
    (case tb_core x of (p, e, n, f, h) \<Rightarrow> if p \<and> e then (False, True, n + f, f, h) else (p, e, n, f, h))" for x
    by (simp add: tim_event_def HAL_TIM_PeriodElapsedCallback_def HAL_IncTick_def tb_core_def TIM_IT_UPDATE_def update_bit bit_and_iff bit_not_iff)
  show ?thesis unfolding HAL_TIM_IRQHandler_def Let_def
    by (simp add: tb_core_event u other_bits) (simp add: tb_core_def)
qed

definition tb_rel :: "u32 \<Rightarrow> timebase \<Rightarrow> counter \<Rightarrow> bool" where
  "tb_rel t0 t c \<longleftrightarrow> bit (TIM_SR t) 0 = due c \<and> bit (TIM_DIER t) 0 = running c \<and> uwTick t = t0 + of_nat (count c) * uwTickFreq t \<and> htim1_Instance t"

lemma tb_rel_core: "tb_core t' = (due c, running c, t0 + of_nat (count c) * uwTickFreq t', uwTickFreq t', True) \<Longrightarrow> tb_rel t0 t' c"
  by (simp add: tb_core_def tb_rel_def)

lemma tb_step_rel:
  assumes "tb_rel t0 t c"
  shows "tb_rel t0 (tb_step e t) (counter_step e c) \<and> uwTickFreq (tb_step e t) = uwTickFreq t"
proof (cases e)
  case Serve
  note h = handler_core[of t]
  have f: "uwTickFreq (HAL_TIM_IRQHandler t) = uwTickFreq t" using h by (auto simp: tb_core_def split: if_splits)
  have "tb_rel t0 (HAL_TIM_IRQHandler t) (counter_step Serve c)"
    using h assms f by (auto simp: tb_core_def tb_rel_def algebra_simps split: if_splits)
  then show ?thesis using Serve assms f by (simp add: TIM1_UP_IRQHandler_def tb_rel_def)
qed (use assms in \<open>simp_all add: tb_rel_def HAL_SuspendTick_def HAL_ResumeTick_def TIM_IT_UPDATE_def bit_or_iff bit_and_iff bit_not_iff\<close>)

text \<open>
  The tick counts milliseconds as long as it is served. In every sequence of timer overflows, interrupts, suspensions and resumptions the tick
  advances by exactly one period for each interrupt that finds an overflow while the update interrupt is on, whatever other events the
  timer has pending; overflows between two interrupts count once.
\<close>

theorem tick_refines_counter:
  assumes "tb_rel (uwTick t) t c" and "count c = 0"
  shows "uwTick (fold tb_step es t) = uwTick t + of_nat (count (fold counter_step es c)) * uwTickFreq t"
proof -
  have "tb_rel t0 (fold tb_step es t) (fold counter_step es c) \<and> uwTickFreq (fold tb_step es t) = uwTickFreq t" if "tb_rel t0 t c" for t0
    using that
  proof (induction es arbitrary: t c)
    case (Cons e es)
    then show ?case using tb_step_rel[OF Cons.prems, of e] Cons.IH[of "tb_step e t" "counter_step e c"] by simp
  qed simp
  from this[OF assms(1)] show ?thesis by (simp add: tb_rel_def)
qed

definition demo_tb :: timebase where
  "demo_tb = \<lparr>TIM_SR = 0x2, TIM_DIER = 0x3, TIM_CCMR1 = 0, TIM_CCMR2 = 0, htim1_Instance = True, tim1_irq = True, uwTick = 0xFFFFFFFF, uwTickFreq = 1,
     callbacks = []\<rparr>"

theorem tick_refines_counter_witness:
  "uwTick (fold tb_step [Overflow, Serve, Overflow, Overflow, Serve, Suspend, Overflow, Serve] demo_tb) = 1"
  using tick_refines_counter[of demo_tb "\<lparr>due = False, running = True, count = 0\<rparr>" "[Overflow, Serve, Overflow, Overflow, Serve, Suspend, Overflow, Serve]"]
  by (simp add: demo_tb_def tb_rel_def bit_0)

section \<open>Delays\<close>

lemma delay_loop_first:
  assumes "k \<le> n" and "\<And>j. k \<le> j \<Longrightarrow> j < n \<Longrightarrow> ticks j - start < wait" and "\<not> ticks n - start < wait"
  shows "delay_loop ticks start wait k = Some n"
  using assms
proof (induction "n - k" arbitrary: k)
  case 0
  then show ?case by (simp add: delay_loop.simps[of _ _ _ k])
next
  case (Suc d)
  then have "ticks k - start < wait" "delay_loop ticks start wait (Suc k) = Some n" by simp_all
  then show ?case by (simp add: delay_loop.simps[of _ _ _ k])
qed

text \<open>
  \<^verbatim>\<open>HAL_Delay\<close> waits long enough and returns. Let the readings of the tick follow a time that grows by at most \<open>s\<close> from one reading to the next
  and grows for ever; then a delay of \<open>D\<close> milliseconds ends, after at least \<open>D + 1\<close> ticks and fewer than \<open>D + 1 + s\<close>, also when the tick
  wraps around in between, for every \<open>D\<close> with \<open>D + 1 + s \<le> 2 ^ 32\<close>.
\<close>

theorem delay_waits:
  assumes "\<And>k. ticks k = t0 + of_nat (time k)" and "time 0 = 0" and "\<And>k. time (Suc k) \<le> time k + s" and "\<And>b. \<exists>k. b \<le> time k"
    and "unat D + 1 + s \<le> 2 ^ 32" and "0 < s"
  shows "\<exists>n. HAL_Delay 1 ticks D = Some n \<and> unat D + 1 \<le> time n \<and> time n < unat D + 1 + s"
proof -
  have d: "D < HAL_MAX_DELAY" "unat (D + 1) = unat D + 1"
  proof -
    have "unat D < 0xFFFFFFFF" using assms(5,6) by simp
    then show "D < HAL_MAX_DELAY" "unat (D + 1) = unat D + 1" by (simp_all add: HAL_MAX_DELAY_def word_less_nat_alt unat_word_ariths(1))
  qed
  define n where "n = (LEAST n. unat D + 1 \<le> time n)"
  have n: "unat D + 1 \<le> time n" unfolding n_def by (rule LeastI_ex) (use assms(4) in blast)
  have less: "time j < unat D + 1" if "j < n" for j using not_less_Least[of j "\<lambda>n. unat D + 1 \<le> time n"] that unfolding n_def by simp
  obtain m where m: "n = Suc m" using n assms(2) by (cases n) auto
  have up: "time n < unat D + 1 + s" using less[of m] assms(3)[of m] m by simp
  have r: "ticks j - ticks 0 < D + 1 \<longleftrightarrow> time j < unat D + 1" if "time j < 2 ^ 32" for j
  proof -
    have "ticks j - ticks 0 = of_nat (time j)" using assms(1)[of j] assms(1)[of 0] assms(2) by simp
    then show ?thesis using that d(2) by (simp add: word_less_nat_alt unat_of_nat take_bit_nat_eq_self)
  qed
  have "delay_loop ticks (ticks 0) (D + 1) 1 = Some n"
  proof (rule delay_loop_first)
    show "1 \<le> n" using m by simp
    show "ticks j - ticks 0 < D + 1" if "j < n" for j using r[of j] less[OF that] assms(5) by simp
    show "\<not> ticks n - ticks 0 < D + 1" using r[of n] up n assms(5) by simp
  qed
  then show ?thesis using d(1) n up by (auto simp: HAL_Delay_def Let_def)
qed

theorem delay_waits_witness: "\<exists>n. HAL_Delay 1 (\<lambda>k. 0xFFFFFFF0 + of_nat (k div 3)) 100 = Some n \<and> n div 3 = 101"
proof -
  have "\<exists>n. HAL_Delay 1 (\<lambda>k. 0xFFFFFFF0 + of_nat (k div 3)) 100 = Some n \<and> unat (100 :: u32) + 1 \<le> n div 3 \<and> n div 3 < unat (100 :: u32) + 1 + 1"
    by (rule delay_waits[of _ _ "\<lambda>k. k div 3"]) (auto intro: exI[of _ "_ * 3"])
  then show ?thesis by auto
qed

section \<open>Regions of the C heap\<close>

definition symbols_ok :: "link_symbols \<Rightarrow> bool" where
  "symbols_ok l \<longleftrightarrow> 0 < sym_end l \<and> sym_end l \<le> max_heap l \<and> unat (max_heap l) < 2 ^ 31"

definition heap_top :: "link_symbols \<Rightarrow> c_heap \<Rightarrow> nat" where
  "heap_top l h = (if sbrk_heap_end h = 0 then unat (sym_end l) else unat (sbrk_heap_end h))"

definition c_heap_ok :: "link_symbols \<Rightarrow> c_heap \<Rightarrow> bool" where
  "c_heap_ok l h \<longleftrightarrow> unat (sym_end l) \<le> heap_top l h \<and> heap_top l h \<le> unat (max_heap l)"

lemma sbrk_exact:
  assumes "symbols_ok l" and "c_heap_ok l h" and "unat incr < 2 ^ 31" and "sbrk l incr h = (p, h')"
  shows "if heap_top l h + unat incr \<le> unat (max_heap l) then unat p = heap_top l h \<and> heap_top l h' = heap_top l h + unat incr
    else p = - 1 \<and> errno_nomem h' \<and> heap_top l h' = heap_top l h"
proof -
  define e where "e = (if sbrk_heap_end h = 0 then sym_end l else sbrk_heap_end h)"
  have e: "unat e = heap_top l h" by (simp add: e_def heap_top_def)
  have n: "0 < e" using assms(1) by (auto simp: e_def symbols_ok_def word_neq_0_conv)
  have u: "unat (e + incr) = unat e + unat incr"
    using assms(1-3) e by (simp add: unat_word_ariths(1) symbols_ok_def c_heap_ok_def)
  then have "e + incr \<noteq> 0" using n by (metis add_is_0 unat_0 unat_eq_zero word_gt_0)
  then show ?thesis using assms(4) u e n
    by (auto simp: sbrk_def Let_def e_def heap_top_def word_less_nat_alt split: if_splits)
qed

fun sbrks :: "link_symbols \<Rightarrow> u32 list \<Rightarrow> c_heap \<Rightarrow> (u32 \<times> u32) list \<times> c_heap" where
  "sbrks l [] h = ([], h)"
| "sbrks l (n # ns) h =
     (case sbrk l n h of (p, h) \<Rightarrow> case sbrks l ns h of (ps, h) \<Rightarrow> (if p = - 1 then ps else (p, n) # ps, h))"

text \<open>
  C40: the heap of the C library keeps its shape. Whatever sequence of non-negative increments the library asks for, the end of the heap stays between
  the end of the data and the limit below the reserved stack, and the regions handed out lie there one after the other, without overlap.
\<close>

theorem sbrk_regions:
  assumes "symbols_ok l" and "c_heap_ok l h" and "\<forall>n \<in> set ns. unat n < 2 ^ 31" and "sbrks l ns h = (ps, h')"
  shows "c_heap_ok l h' \<and> heap_top l h \<le> heap_top l h' \<and> sorted_wrt (\<lambda>(p, n) (q, m). unat p + unat n \<le> unat q) ps \<and>
    (\<forall>(p, n) \<in> set ps. heap_top l h \<le> unat p \<and> unat p + unat n \<le> heap_top l h')"
  using assms(2-4)
proof (induction ns arbitrary: h ps)
  case (Cons n ns)
  obtain p h1 qs where 1: "sbrk l n h = (p, h1)" "sbrks l ns h1 = (qs, h')" "ps = (if p = - 1 then qs else (p, n) # qs)"
    using Cons.prems(3) by (auto split: prod.splits)
  note x = sbrk_exact[OF assms(1) Cons.prems(1) _ 1(1)]
  have ok: "c_heap_ok l h1" "heap_top l h \<le> heap_top l h1" using x Cons.prems(1,2) by (auto simp: c_heap_ok_def split: if_splits)
  have p: "unat p = heap_top l h \<and> unat p + unat n = heap_top l h1" if "p \<noteq> - 1" using x Cons.prems(2) that by (auto split: if_splits)
  have ih: "c_heap_ok l h'" "heap_top l h1 \<le> heap_top l h'" "sorted_wrt (\<lambda>(p, n) (q, m). unat p + unat n \<le> unat q) qs"
    "\<And>q m. (q, m) \<in> set qs \<Longrightarrow> heap_top l h1 \<le> unat q \<and> unat q + unat m \<le> heap_top l h'"
    using Cons.IH[OF ok(1) _ 1(2)] Cons.prems(2) by auto
  show ?case using 1(3) p ih ok(2) by (fastforce split: if_splits)
qed simp

theorem sbrk_regions_witness:
  "fst (sbrks \<lparr>sym_end = 0x10030000, sym_estack = 0x10040000, sym_Min_Stack_Size = 0x400\<rparr> [0x100, 0x10000, 0x20] \<lparr>sbrk_heap_end = 0, errno_nomem = False\<rparr>) =
     [(0x10030000, 0x100), (0x10030100, 0x20)] \<and>
   c_heap_ok \<lparr>sym_end = 0x10030000, sym_estack = 0x10040000, sym_Min_Stack_Size = 0x400\<rparr> \<lparr>sbrk_heap_end = 0x10030120, errno_nomem = True\<rparr>"
  using sbrk_regions[of "\<lparr>sym_end = 0x10030000, sym_estack = 0x10040000, sym_Min_Stack_Size = 0x400\<rparr>" "\<lparr>sbrk_heap_end = 0, errno_nomem = False\<rparr>" "[0x100, 0x10000, 0x20]"
      "[(0x10030000, 0x100), (0x10030100, 0x20)]" "\<lparr>sbrk_heap_end = 0x10030120, errno_nomem = True\<rparr>"]
  by (simp add: symbols_ok_def max_heap_def c_heap_ok_def heap_top_def sbrk_def Let_def)

text \<open>There is no check against the start: a negative increment moves the end of the heap into the data of the program.\<close>

lemma sbrk_below_start:
  assumes "sbrk_heap_end h = sym_end l" and "0 < n" and "n < sym_end l" and "sym_end l \<le> max_heap l"
  shows "sbrk l (- n) h = (sym_end l, h\<lparr>sbrk_heap_end := sym_end l - n\<rparr>)"
proof -
  have "sym_end l \<noteq> 0" "sym_end l - n < sym_end l"
    using assms(2,3) by (auto simp: word_less_nat_alt unat_sub word_le_nat_alt)
  moreover from this(2) have "\<not> max_heap l < sym_end l - n" using assms(4) by simp
  ultimately show ?thesis using assms(1) by (simp add: sbrk_def Let_def)
qed

section \<open>Characters and the heartbeat\<close>

lemma write_chars_sends: "n \<le> length ptr \<Longrightarrow> write_chars_loop ptr n itm = itm @ take n ptr"
proof (induction ptr n itm rule: write_chars_loop.induct)
  case (2 ptr n itm)
  then show ?case by (cases ptr) simp_all
qed simp

lemma read_chars_fills: "read_chars_loop n buf getchar k = buf @ map getchar [k..<k + n]"
proof (induction n buf getchar k rule: read_chars_loop.induct)
  case (2 n buf getchar k)
  have "[k..<k + Suc n] = k # [Suc k..<Suc k + n]" using upt_conv_Cons[of k "k + Suc n"] by simp
  then show ?case using 2 by simp
qed simp

lemma led_rounds_lit: "lit l (led_rounds k b) \<longleftrightarrow> (if l = LED_ORANGE then lit l b \<noteq> odd k else lit l b)"
  by (induction k arbitrary: b) (auto simp: led_switching)

text \<open>
  The heartbeat. Once the LED is initialised the orange LED is dark after every even number of rounds and lit after every odd one, and
  no other LED changes: it blinks as long as the scheduler runs the thread.
\<close>

theorem heartbeat:
  assumes "BSP_LED_Init le LED_ORANGE b = Some (r, b0)"
  shows "\<exists>b'. ledAliveRunner le k b = Some b' \<and> (lit LED_ORANGE b' \<longleftrightarrow> odd k) \<and> (\<forall>l. l \<noteq> LED_ORANGE \<longrightarrow> lit l b' = lit l b0)"
  using led_init_result[OF assms] assms by (simp add: ledAliveRunner_def led_rounds_lit)

theorem heartbeat_witness: "\<exists>b'. ledAliveRunner quiet 3 blank_board = Some b' \<and> lit LED7 b'"
proof -
  obtain b0 where "BSP_LED_Init quiet LED_ORANGE blank_board = Some (0, b0)"
    using led_init_result_witness by (auto simp: LED_ORANGE_def)
  from heartbeat[OF this, of 3] show ?thesis by (auto simp: LED_ORANGE_def)
qed

text \<open>
  The variable \<^verbatim>\<open>uwTickPrio\<close> starts at 16 and the \<^verbatim>\<open>HAL_InitTick\<close> of this firmware does not set it, so the clock driver, which calls
  \<^verbatim>\<open>HAL_InitTick(uwTickPrio)\<close> after each change, gives the tick the highest priority instead of 15, outside the reach of critical sections.
\<close>

lemma invalid_tick_priority:
  assumes "grouped r"
  shows "preempt_prio (NVIC_HAL_SetPriority 25 16 0 r) 25 = 0"
  using assms get_set_priority(1)[of r 25] by (simp add: preempt_prio_def NVIC_HAL_SetPriority_def Let_def grouped_def encode_all_preempt)

end
