(* ===== verification/Spec2Isabelle.thy ===== *)
theory Spec2Isabelle
  imports Canspi Pmic Ecu_Driver Rtos_Heap Rtos_List Core_Start Core_Sys
begin

text \<open>
  Verification of the firmware and the device driver of an engine control unit on the STM32MP1 (all paths are below \<^verbatim>\<open>src/\<close>).

  \<^bold>\<open>The system.\<close> The chip has two processors. The Cortex-M4 runs the firmware of \<^verbatim>\<open>CM4/\<close> under FreeRTOS: it starts the board, drives a
  CAN controller (MCP2515) over SPI, a power management chip (STPMIC1) over I2C, LEDs and buttons over GPIO, and exchanges messages with the
  Cortex-A7. The A7 runs Linux with the character device driver \<^verbatim>\<open>CA7/CustomKernel/drivers/stm32ecu\<close>, through which user programs
  send requests to the firmware and read its responses. Both processors share memory (rings of message buffers), an
  inter-processor communication controller (IPCC) that signals new buffers, and hardware semaphores (HSEM) that guard shared peripherals.

  \<^bold>\<open>Theories and sources.\<close> Each theory opens with what it models; definitions carry the names of the C functions.

  \<^item> \<open>Prelude\<close>: machine integers, steps that may hang, bounded polling, facts on bits and lists.
  \<^item> \<open>Mcp2515\<close>, \<open>Canspi\<close>: \<^verbatim>\<open>CM4/Drivers/MCP2515/src/MCP2515.c\<close> and \<^verbatim>\<open>CANSPI.c\<close>. The state is the trace of SPI operations; the chip and the
    peripheral are the parameter \<open>spi_env\<close>. Shown: the initialisation writes bit timing, filters and interrupt set-up so that both receive
    buffers take every standard and extended frame (by the rules of the data sheet for masks and filters), and ends in loop back mode
    or reports failure; transmit uses the first free buffer and requests exactly it; successive receive calls hand over the frames
    that wait, first the one of buffer 0, and then report that there is none; packing of identifiers is inverted by unpacking; a
    frame sent and looped back is received unchanged.
  \<^item> \<open>Hal_Gpio\<close>: \<^verbatim>\<open>stm32mp1xx_hal_gpio.c\<close> on its registers, refining a table of pin and line configurations.
  \<^item> \<open>Hsem_Lock\<close>: \<^verbatim>\<open>stm32mp1xx_hal_hsem.c\<close> and \<^verbatim>\<open>CM4/Core/Src/lock_resource.c\<close>; two cores interleave in the step relation \<open>lock_step\<close>. Shown:
    mutual exclusion in every reachable state, and exactly when and after how long the lock is obtained.
  \<^item> \<open>Bsp_Disco\<close>, \<open>I2c_Bus\<close>, \<open>Pmic_Tables\<close>, \<open>Pmic\<close>: the board support package (\<^verbatim>\<open>stm32mp15xx_disco.c\<close>, \<^verbatim>\<open>_bus.c\<close>, \<^verbatim>\<open>_stpmic1.c\<close>). Shown: the
    regulators give the voltages that the initialisation lists, from any earlier contents of the chip (only three of them are the voltages
    of the Linux device tree, which the comment in the code claims to follow); of the events that happen before and while the
    interrupt handler runs, none is lost: the log of events kept by the model of the chip says which happened; the LEDs.
  \<^item> \<open>Kfifo\<close>, \<open>Ecu_Driver\<close>: the ring buffer \<^verbatim>\<open>linux-5.10.61/lib/kfifo.c\<close> and the device driver \<^verbatim>\<open>stm32ecu.c\<close>, all file operations, the channel
    callback, probe, remove, loading and unloading. \<open>traffic\<close> is the step relation of calls and arriving messages; the callback may run between
    the accesses of a request. Shown: the ring refines a bounded queue (locale \<open>bounded_fifo\<close>); responses reach the requests they answer
    in every run in which no request failed half-way and no answer was faulty or came before its request was registered, and what happens to
    an answer that comes too early; write and read round trips.
  \<^item> \<open>Hal_Ipcc\<close>, \<open>Mailbox\<close>: \<^verbatim>\<open>stm32mp1xx_hal_ipcc.c\<close> and \<^verbatim>\<open>CM4/OPENAMP/mbox_ipcc.c\<close>. \<open>mbox_step\<close> interleaves both processors. Shown: the
    firmware stays ready to receive in every reachable state, and a notification waits until the channel is free.
  \<^item> \<open>Virtqueue\<close>, \<open>Rpmsg\<close>, \<open>Rpmsg_Virtio\<close>, \<open>Openamp\<close>: OpenAMP (\<^verbatim>\<open>virtqueue.c\<close>, \<^verbatim>\<open>rpmsg.c\<close>, \<^verbatim>\<open>rpmsg_virtio.c\<close>, \<^verbatim>\<open>remoteproc_virtio.c\<close>, parts of libmetal) and
    \<^verbatim>\<open>CM4/OPENAMP/openamp.c\<close>. Shown: the two sides of a virtqueue refine a channel that neither loses, repeats nor reorders buffers; wake-ups are
    not lost; the parts of a ring lie where the memory is reserved, in 32-bit arithmetic; freeing a chain terminates; endpoint addresses are unique; a message sent arrives at the master as it was sent;
    arriving messages are delivered in order; set-up, polling, announcement of endpoints and tear-down of the channel.
  \<^item> \<open>Rtos_Heap\<close>: \<^verbatim>\<open>heap_4.c\<close> of FreeRTOS over a memory of block headers, refining a first-fit allocator on adjacent blocks (locale \<open>memory_allocator\<close>).
  \<^item> \<open>Rtos_List\<close>: \<^verbatim>\<open>list.c\<close> of FreeRTOS, circular linked lists over a store of nodes, refining sequences; round-robin walks and sorted insertion.
  \<^item> \<open>Nvic\<close>: the interrupt controller (\<^verbatim>\<open>core_cm4.h\<close>, \<^verbatim>\<open>stm32mp1xx_hal_cortex.c\<close>) and the masking of interrupts by the kernel
    (\<^verbatim>\<open>portable/GCC/ARM_CM4F/port.c\<close>). Shown: the registers refine the view of enabled interrupts and priorities that the other theories use
    (locale \<open>irq_controller\<close>, interpreted on both); critical sections; the state before the scheduler starts; the check of callers.
  \<^item> \<open>Core_Init\<close>, \<open>Core_Start\<close>: \<^verbatim>\<open>CM4/Core/Src/main.c\<close>, \<^verbatim>\<open>stm32mp1xx_hal_msp.c\<close>, the time base, and the initialisation of CRC, RNG, I2C and SPI.
    The state \<open>firmware\<close> extends that of the communication layer. A start-up function either goes on or has
    stopped in \<^verbatim>\<open>Error_Handler\<close> (type \<open>start\<close>), and \<open>main\<close> reaches the application, \<^verbatim>\<open>Error_Handler\<close>, or waits for ever (type \<open>outcome\<close>).
    Shown: the state in which the application is entered, and that a failing driver ends in \<^verbatim>\<open>Error_Handler\<close> before any kernel object exists.
  \<^item> \<open>Core_Sys\<close>: the tick and \<^verbatim>\<open>HAL_Delay\<close>, \<^verbatim>\<open>sysmem.c\<close>, \<^verbatim>\<open>syscalls.c\<close> (input and output), the heartbeat thread.

  \<^bold>\<open>Conventions.\<close> Machine integers keep their width. \<open>None\<close> is a call that never returns: an error handler that loops, a failed
  assertion, or a wait without end (in \<open>Core_Init\<close> and \<open>Core_Start\<close> the error handler is a value of its own); that a call returns is always
  stated as such. Loops without a bound of their own are partial functions
  in the option monad, and the theorems that say they return state what must happen in the surroundings; there is no fuel. Errors are values of the C functions.
  Interleavings with the other processor are step relations; within one processor a handler is one step, which for
  code shared between tasks and interrupts of the firmware rests on the masking shown in \<open>Nvic\<close>; the requests of the Linux driver, which
  takes no lock, are several steps. The write and the read-back of a semaphore register are one step, an element of a ring
  buffer is one entry of a list, and the creation of kernel objects does not fail.

  \<^bold>\<open>Parameters.\<close> Hardware (chips, the other processor, clocks) and code outside the repository are arguments: \<open>spi_env\<close>, \<open>lock_env\<close>,
  the I2C driver in \<open>Pmic\<close>, \<open>ecu_env\<close> and \<open>ecu_io\<close> (message layout, checksum and kernel services), \<open>openamp_env\<close>, the callbacks of
  the application, \<open>core_env\<close> and the linker symbols. What is assumed of them is a named hypothesis, and every theorem with a
  hypothesis has a witness on a concrete instance.

  \<^bold>\<open>Not modelled.\<close> The FreeRTOS scheduler proper, queues and timers and the CMSIS wrapper (third-party, only called to create objects); the HAL
  drivers for I2C and SPI transfers, UART, CAN, DMA, timers and the clock tree below the calls the start-up makes (their results
  are parameters); \<^verbatim>\<open>Common/System/system_stm32mp1xx.c\<close>, which computes in floating point; the stubs of \<^verbatim>\<open>syscalls.c\<close> that return a
  constant and the fault handlers; context switches in assembly; code that is not compiled in (the master side of OpenAMP, COM ports, tickless idle); the
  Linux kernel apart from the ring buffer; the application, the message definitions and the manager program, which are submodules without content.

  This theory holds the property that needs the start-up, the interrupt controller and the kernel together.
\<close>

unbundle bit_operations_syntax

section \<open>Interrupts of the running firmware\<close>

text \<open>The registers of the interrupt controller show a state of the board.\<close>

definition nvic_shows :: "port \<Rightarrow> 'z board_scheme \<Rightarrow> bool" where
  "nvic_shows r b \<longleftrightarrow> (\<forall>i < 240. irq_on r i = nvic_on b i \<and> preempt_prio r i = fst (nvic_prio b i))"

text \<open>
  Such registers exist: the calls of the start-up, carried out on the registers of a chip out of reset, show the state in which the
  example of \<open>Core_Start\<close> enters the application.
\<close>

definition firmware_calls :: "irq_call list" where
  "firmware_calls = [Set_Priority TIM1_UP_IRQn 15 0, Enable_IRQ TIM1_UP_IRQn, Set_Priority RCC_WAKEUP_IRQn 0 0, Enable_IRQ RCC_WAKEUP_IRQn,
     Set_Priority IPCC_RX1_IRQn 5 0, Enable_IRQ IPCC_RX1_IRQn, Set_Priority IPCC_TX1_IRQn 5 0, Enable_IRQ IPCC_TX1_IRQn,
     Set_Priority DMA2_Stream0_IRQn 5 0, Enable_IRQ DMA2_Stream0_IRQn, Set_Priority DMA2_Stream1_IRQn 5 0, Enable_IRQ DMA2_Stream1_IRQn,
     Set_Priority SPI5_IRQn 5 0, Enable_IRQ SPI5_IRQn]"

lemma firmware_registers:
  assumes "i < 240"
  shows "irq_on (fold reg_call firmware_calls (NVIC_SetPriorityGrouping 3 reset_port)) i \<longleftrightarrow>
      i \<in> {TIM1_UP_IRQn, DMA2_Stream0_IRQn, DMA2_Stream1_IRQn, SPI5_IRQn, IPCC_RX1_IRQn, IPCC_TX1_IRQn, RCC_WAKEUP_IRQn}"
    and "preempt_prio (fold reg_call firmware_calls (NVIC_SetPriorityGrouping 3 reset_port)) i = fst (((\<lambda>_. (0, 0 :: nat))(TIM1_UP_IRQn := (15, 0),
      RCC_WAKEUP_IRQn := (0, 0), IPCC_RX1_IRQn := (5, 0), IPCC_TX1_IRQn := (5, 0), DMA2_Stream0_IRQn := (5, 0), DMA2_Stream1_IRQn := (5, 0),
      SPI5_IRQn := (5, 0))) i)"
proof -
  let ?r = "NVIC_SetPriorityGrouping 3 reset_port"
  have "grouped ?r" using group_read[of 3 reset_port] by (simp add: grouped_def reset_port_def)
  moreover have "list_all call_ok firmware_calls" by (simp add: firmware_calls_def irq_numbers)
  moreover have "\<forall>i < 240. irq_on ?r i = False" "\<forall>i < 240. unat (NVIC_GetPriority (int i) ?r) = 0"
    by (simp_all add: irq_on_def NVIC_GetPriority_def reset_port_def)
  ultimately show "irq_on (fold reg_call firmware_calls ?r) i \<longleftrightarrow>
      i \<in> {TIM1_UP_IRQn, DMA2_Stream0_IRQn, DMA2_Stream1_IRQn, SPI5_IRQn, IPCC_RX1_IRQn, IPCC_TX1_IRQn, RCC_WAKEUP_IRQn}"
    and "preempt_prio (fold reg_call firmware_calls ?r) i = fst (((\<lambda>_. (0, 0 :: nat))(TIM1_UP_IRQn := (15, 0),
      RCC_WAKEUP_IRQn := (0, 0), IPCC_RX1_IRQn := (5, 0), IPCC_TX1_IRQn := (5, 0), DMA2_Stream0_IRQn := (5, 0), DMA2_Stream1_IRQn := (5, 0),
      SPI5_IRQn := (5, 0))) i)"
    using registers.calls[of ?r firmware_calls "\<lambda>_. False" "\<lambda>_. 0"] assms
    by (simp_all add: firmware_calls_def irq_numbers preempt_prio_def)
qed

lemma demo_registers:
  assumes "main demo_core_env demo_env demo_rvdev demo_fw = Application (system_run demo_core_env s')"
    and "start_communication demo_env demo_rvdev (snd (HAL_Init demo_core_env demo_fw)) = Some s1"
  shows "\<exists>r. nvic_shows r s' \<and> irq_on r RCC_WAKEUP_IRQn \<and> irq_on r IPCC_RX1_IRQn"
proof -
  let ?r = "fold reg_call firmware_calls (NVIC_SetPriorityGrouping 3 reset_port)"
  have "nvic_prio demo_fw = (\<lambda>_. (0, 0))" by (simp add: demo_fw_def firmware.defs demo_om_def openamp.defs mbox.defs blank_mbox_def ipcc_board.defs board.defs blank_board_def)
  then have "nvic_shows ?r s'"
    using main_result[OF demo_ok _ _ assms(2)] assms(1)
    by (auto simp: nvic_shows_def firmware_registers demo_core_env_def)
  moreover have "irq_on ?r RCC_WAKEUP_IRQn" "irq_on ?r IPCC_RX1_IRQn"
    using firmware_registers(1)[of RCC_WAKEUP_IRQn] firmware_registers(1)[of IPCC_RX1_IRQn] by (simp_all add: irq_numbers)
  ultimately show ?thesis by blast
qed

text \<open>
  C22: the interrupts of the firmware respect the kernel. When \<^verbatim>\<open>main\<close> hands over to the application in production mode, exactly one of the
  interrupts it enabled is not masked in the critical sections of the kernel: the wake-up interrupt, whose handler only calls
  the HAL. The mailbox, the bus and its streams, and the tick are all masked.
\<close>

theorem firmware_interrupts_masked:
  assumes "\<not> engineering env" and "drivers_ok env" and "tick_ok env" and "fw_state s = (\<lambda>_. STATE_RESET)"
    and "ip_State s = HAL_IPCC_STATE_RESET" and "start_communication oenv rvdev (snd (HAL_Init env s)) = Some s1"
    and "nvic_on s = (\<lambda>_. False)"
  shows "\<exists>s'. main env oenv rvdev s = Application (system_run env s') \<and>
    (\<forall>r i. nvic_shows r s' \<and> i < 240 \<longrightarrow>
      (irq_on r i \<and> \<not> masked (vPortRaiseBASEPRI r) i \<longleftrightarrow> i = RCC_WAKEUP_IRQn))"
proof -
  obtain s' where m: "main env oenv rvdev s = Application (system_run env s')"
    and on: "\<forall>i. nvic_on s' i \<longleftrightarrow> nvic_on s i \<or> i \<in> {TIM1_UP_IRQn, DMA2_Stream0_IRQn, DMA2_Stream1_IRQn, SPI5_IRQn, IPCC_RX1_IRQn, IPCC_TX1_IRQn, RCC_WAKEUP_IRQn}"
    and prio: "nvic_prio s' = (nvic_prio s)(TIM1_UP_IRQn := (15, 0), RCC_WAKEUP_IRQn := (0, 0), IPCC_RX1_IRQn := (5, 0), IPCC_TX1_IRQn := (5, 0),
      DMA2_Stream0_IRQn := (5, 0), DMA2_Stream1_IRQn := (5, 0), SPI5_IRQn := (5, 0))"
    using main_result[OF assms(1-6)] by auto
  have k: "masked (vPortRaiseBASEPRI r) i \<longleftrightarrow> 5 \<le> preempt_prio r i" for r i
    using masked_iff(1)[of "vPortRaiseBASEPRI r" i] by (simp add: vPortRaiseBASEPRI_def max_syscall preempt_prio_def NVIC_GetPriority_def)
  have "nvic_on s' i \<and> \<not> 5 \<le> fst (nvic_prio s' i) \<longleftrightarrow> i = RCC_WAKEUP_IRQn" for i
    unfolding prio using on assms(7) by (auto simp: irq_numbers)
  then show ?thesis using m k by (auto simp: nvic_shows_def)
qed

theorem firmware_interrupts_masked_witness:
  "\<exists>s'. main demo_core_env demo_env demo_rvdev demo_fw = Application (Some s') \<and>
     (\<exists>r. nvic_shows r s' \<and> irq_on r RCC_WAKEUP_IRQn \<and> \<not> masked (vPortRaiseBASEPRI r) RCC_WAKEUP_IRQn \<and>
       irq_on r IPCC_RX1_IRQn \<and> masked (vPortRaiseBASEPRI r) IPCC_RX1_IRQn)"
proof -
  obtain s1 where c: "start_communication demo_env demo_rvdev (snd (HAL_Init demo_core_env demo_fw)) = Some s1" using demo_starts by blast
  from firmware_interrupts_masked[OF demo_ok _ _ c] obtain s' where
    m: "main demo_core_env demo_env demo_rvdev demo_fw = Application (system_run demo_core_env s')"
    and only: "\<forall>r i. nvic_shows r s' \<and> i < 240 \<longrightarrow> (irq_on r i \<and> \<not> masked (vPortRaiseBASEPRI r) i \<longleftrightarrow> i = RCC_WAKEUP_IRQn)"
    by auto
  have "system_run demo_core_env = Some" by (simp add: demo_core_env_def)
  moreover obtain r where "nvic_shows r s'" "irq_on r RCC_WAKEUP_IRQn" "irq_on r IPCC_RX1_IRQn"
    using demo_registers[OF m c] by blast
  moreover have "RCC_WAKEUP_IRQn < 240" "IPCC_RX1_IRQn < 240" "IPCC_RX1_IRQn \<noteq> RCC_WAKEUP_IRQn" by (simp_all add: irq_numbers)
  ultimately show ?thesis using m only by metis
qed

end
